(* ===== verification/Prelude.thy ===== *)
theory Prelude
  imports Complex_Main "HOL-Library.Word" "HOL-Library.Monad_Syntax" "HOL-Library.Multiset"
begin

text \<open>
  Shared vocabulary of the development: machine types, errors and panics as values, the
  operations of the packages go.sia.tech/core and go.sia.tech/coreutils that indexd calls
  (they are not part of the repository, so they are a record of functions passed to every
  definition that uses them), Go's stable sort and generic lemmas.

  A Go function that returns an error is modelled by a result of type \<open>err + 'a\<close>; where
  it can also panic the result is \<open>(err + 'a) option\<close> and \<open>None\<close> is the panic. An error
  that wraps another one with the \<open>%w\<close> verb is modelled by the wrapped error, since that
  is what \<open>errors.Is\<close> looks at; message texts are not modelled.
\<close>

named_theorems core_simps
named_theorems store_simps

section \<open>Machine types\<close>

type_synonym u64 = "64 word"
type_synonym u32 = "32 word"
type_synonym u8 = "8 word"

text \<open>32-byte identifiers: hashes, public keys, contract and account identifiers.\<close>

type_synonym hash256 = "256 word"
type_synonym public_key = hash256
type_synonym contract_id = hash256
type_synonym account_key = hash256

text \<open>64-byte private keys and signatures.\<close>

type_synonym private_key = "512 word"
type_synonym signature = "512 word"

text \<open>
  \<open>time.Time\<close> is the number of nanoseconds since Go's zero time, so that
  \<open>IsZero t \<longleftrightarrow> t = 0\<close>; \<open>time.Duration\<close> is a number of nanoseconds.
\<close>

type_synonym gotime = int
type_synonym duration = int

abbreviation time_minute :: duration where "time_minute \<equiv> 60000000000"
abbreviation time_hour :: duration where "time_hour \<equiv> 3600000000000"

text \<open>Signed 64-bit wrap-around, for \<open>time.Duration\<close> products.\<close>

definition wrap64 :: "int \<Rightarrow> int" where
  "wrap64 i = (i + 2 ^ 63) mod 2 ^ 64 - 2 ^ 63"

section \<open>Errors\<close>

datatype err =
    ErrNotFound
  | ErrInvalidSortField
  | ErrContractInsufficientFunds
  | ErrContractNotRevisable
  | ErrContractRenewed
  | ErrContractMaxSize
  | ErrContractOutOfFunds
  | ErrContractOutOfCollateral
  | ErrInvalidSignature
  | ErrWalletNotEnoughFunds
  | ErrHostNotEnoughFunds
  | ErrBadHost
  | ErrPricesExpired
  | ErrCanceled
  | ErrSectorNotFound
  | ErrSectorCorrupt
  | ErrSlabNotFound
  | ErrSlabUploadTooOld
  | ErrSlabUploadInFuture
  | ErrUnsupportedSlabVersion
  | ErrInvalidPinParams
  | ErrObjectMinimumSlabs
  | ErrObjectMetadataLimitExceeded
  | ErrInvalidObjectSignature
  | ErrInsufficientServiceAccountBalance
  | ErrHostUnreachable
  | ErrNodeOffline
  | ErrNotEnoughShards
  | ErrInvalidAddress
  | ErrInvalidHostKey
  | ErrNoRows
  | ErrCheckViolation
  | ErrForeignKeyViolation
  | ErrUniqueViolation
  | ErrOutOfRange
  | ErrPg string
  | ErrAccountNotFound
  | ErrHostNotFound
  | ErrAccountExists
  | ErrKeyNotFound
  | ErrQuotaNotFound
  | ErrQuotaInUse
  | ErrNoQuota
  | ErrKeyAlreadyExists
  | ErrKeyExhausted
  | ErrKeyInUse
  | ErrPreAuthorizedKeyExpired
  | ErrPreAuthorizedKeyExhausted
  | ErrPreAuthorizedKeyAppMismatch
  | ErrInvalidPreAuthorizedKey
  | ErrAccountStorageLimitExceeded
  | ErrAppKeyStorageLimitExceeded
  | ErrMinShards
  | ErrBadHosts
  | ErrSlabInUse
  | ErrUnrecoverable
  | ErrObjectNotFound
  | ErrObjectBlocked
  | ErrObjectNotBlocked
  | ErrObjectUnpinnedSlab
  | ErrMsg string
  | ErrExternal nat

type_synonym 'a result = "err + 'a"
type_synonym 'a outcome = "(err + 'a) option"

definition is_ok :: "'a result \<Rightarrow> bool" where
  "is_ok r = (case r of Inl _ \<Rightarrow> False | Inr _ \<Rightarrow> True)"

lemma is_ok_simps [simp]: "\<not> is_ok (Inl e)" "is_ok (Inr x)"
  by (simp_all add: is_ok_def)

lemma is_ok_iff: "is_ok r \<longleftrightarrow> (\<exists>x. r = Inr x)"
  by (cases r) auto

text \<open>Sequencing of fallible calls: the early return of \<open>if err != nil\<close>.\<close>

definition rbind :: "'a result \<Rightarrow> ('a \<Rightarrow> 'b result) \<Rightarrow> 'b result" where
  "rbind r f = (case r of Inl e \<Rightarrow> Inl e | Inr x \<Rightarrow> f x)"

lemma rbind_simps [simp]: "rbind (Inl e) f = Inl e" "rbind (Inr x) f = f x"
  by (simp_all add: rbind_def)

lemma rbind_eq_Inr: "rbind r f = Inr y \<longleftrightarrow> (\<exists>x. r = Inr x \<and> f x = Inr y)"
  by (cases r) auto

section \<open>Values and operations of go.sia.tech/core\<close>

text \<open>An amount of hastings; \<open>types.Currency\<close> holds it in 128 bits.\<close>

type_synonym currency = nat

text \<open>A protocol version \<open>[3]uint8\<close>.\<close>

type_synonym version = "u8 \<times> u8 \<times> u8"

record host_prices =
  ContractPrice :: currency
  StoragePrice :: currency
  IngressPrice :: currency
  EgressPrice :: currency
  TipHeight :: u64
  ValidUntil :: gotime
  Collateral :: currency
  FreeSectorPrice :: currency
  PricesSignature :: signature

record host_settings =
  ProtocolVersion :: version
  WalletAddress :: hash256
  MaxCollateral :: currency
  RemainingStorage :: u64
  Prices :: host_prices
  Release :: string
  AcceptingContracts :: bool
  MaxContractDuration :: u64
  TotalStorage :: u64

record usage =
  UsageRPC :: currency
  UsageStorage :: currency
  UsageEgress :: currency
  UsageIngress :: currency
  UsageAccountFunding :: currency
  UsageRiskedCollateral :: currency

record v2_contract =
  RevisionNumber :: u64
  FileProofHeight :: u64
  FileExpirationHeight :: u64
  FileCapacity :: u64
  Filesize :: u64
  RenterOutputValue :: currency
  FileTotalCollateral :: currency
  HostPublicKey :: public_key

text \<open>\<open>rhp.ContractRevision\<close>: a contract identifier with its revision.\<close>

record contract_revision =
  RevID :: contract_id
  Revision :: v2_contract

text \<open>
  The functions and constants of the core packages. Where the function panics (overflow,
  underflow, division by zero) it returns \<open>None\<close>.
\<close>

record core_ops =
  cAdd :: "currency \<Rightarrow> currency \<Rightarrow> currency option"
  cSub :: "currency \<Rightarrow> currency \<Rightarrow> currency option"
  cSubWithUnderflow :: "currency \<Rightarrow> currency \<Rightarrow> currency \<times> bool"
  cMul64 :: "currency \<Rightarrow> u64 \<Rightarrow> currency option"
  cDiv :: "currency \<Rightarrow> currency \<Rightarrow> currency option"
  cDiv64 :: "currency \<Rightarrow> u64 \<Rightarrow> currency option"
  cCmp :: "currency \<Rightarrow> currency \<Rightarrow> int"
  Siacoins :: "u32 \<Rightarrow> currency"
  VersionCmp :: "version \<Rightarrow> version \<Rightarrow> int"
  ProtocolVersion500 :: version
  ProtocolVersion502 :: version
  ProtocolVersion510 :: version
  SectorSize :: u64
  LeafSize :: u64
  ProofWindow :: u64
  MaxAccountBatchSize :: nat
  MaxSectorBatchSize :: nat
  RPCAppendSectorsCost :: "host_prices \<Rightarrow> u64 \<Rightarrow> u64 \<Rightarrow> usage option"
  RPCWriteSectorCost :: "host_prices \<Rightarrow> u64 \<Rightarrow> usage option"
  RPCReadSectorCost :: "host_prices \<Rightarrow> u64 \<Rightarrow> usage option"
  RenterCost :: "usage \<Rightarrow> currency option"
  HostRiskedCollateral :: "usage \<Rightarrow> currency"
  MaxHostCollateral :: "host_prices \<Rightarrow> currency \<Rightarrow> currency option"
  RemainingAllowance :: "v2_contract \<Rightarrow> currency"
  RemainingCollateral :: "v2_contract \<Rightarrow> currency option"
  RiskedCollateral :: "v2_contract \<Rightarrow> currency option"
  V2RenewalID :: "contract_id \<Rightarrow> contract_id"

text \<open>
  The documented behaviour of \<open>types.Currency\<close>: 128-bit arithmetic that panics when the
  result does not fit, when a difference is negative and when a divisor is zero.
\<close>

definition currency_ok :: "core_ops \<Rightarrow> bool" where
  "currency_ok C \<longleftrightarrow>
     (\<forall>a b. cAdd C a b = (if a + b < 2 ^ 128 then Some (a + b) else None)) \<and>
     (\<forall>a b. cSub C a b = (if b \<le> a then Some (a - b) else None)) \<and>
     (\<forall>a b. b \<le> a \<longrightarrow> cSubWithUnderflow C a b = (a - b, False)) \<and>
     (\<forall>a b. a < b \<longrightarrow> snd (cSubWithUnderflow C a b)) \<and>
     (\<forall>a n. cMul64 C a n = (if a * unat n < 2 ^ 128 then Some (a * unat n) else None)) \<and>
     (\<forall>a b. cDiv C a b = (if b = 0 then None else Some (a div b))) \<and>
     (\<forall>a n. cDiv64 C a n = (if n = 0 then None else Some (a div unat n))) \<and>
     (\<forall>a b. cCmp C a b = (if a < b then - 1 else if a = b then 0 else 1))"

lemma currency_okD [core_simps]:
  assumes "currency_ok C"
  shows "cAdd C a b = (if a + b < 2 ^ 128 then Some (a + b) else None)"
    and "cSub C a b = (if b \<le> a then Some (a - b) else None)"
    and "b \<le> a \<Longrightarrow> cSubWithUnderflow C a b = (a - b, False)"
    and "a < b \<Longrightarrow> snd (cSubWithUnderflow C a b)"
    and "cMul64 C a n = (if a * unat n < 2 ^ 128 then Some (a * unat n) else None)"
    and "cDiv C a b = (if b = 0 then None else Some (a div b))"
    and "cDiv64 C a n = (if n = 0 then None else Some (a div unat n))"
    and "cCmp C a b < 0 \<longleftrightarrow> a < b"
    and "0 < cCmp C a b \<longleftrightarrow> b < a"
    and "cCmp C a b = 0 \<longleftrightarrow> a = b"
  using assms unfolding currency_ok_def by auto

section \<open>Go's stable sort\<close>

text \<open>
  \<open>sort.SliceStable\<close> with the comparison \<open>lt\<close>: every element is moved in front of the
  first later element that is not less than it.
\<close>

fun stable_insert :: "('a \<Rightarrow> 'a \<Rightarrow> bool) \<Rightarrow> 'a \<Rightarrow> 'a list \<Rightarrow> 'a list" where
  "stable_insert lt x [] = [x]"
| "stable_insert lt x (y # ys) =
     (if lt y x then y # stable_insert lt x ys else x # y # ys)"

fun stable_sort :: "('a \<Rightarrow> 'a \<Rightarrow> bool) \<Rightarrow> 'a list \<Rightarrow> 'a list" where
  "stable_sort lt [] = []"
| "stable_sort lt (x # xs) = stable_insert lt x (stable_sort lt xs)"

text \<open>The strict weak orders: the comparisons for which the result is a sorted list.\<close>

definition strict_weak :: "('a \<Rightarrow> 'a \<Rightarrow> bool) \<Rightarrow> bool" where
  "strict_weak lt \<longleftrightarrow>
     (\<forall>x y. lt x y \<longrightarrow> \<not> lt y x) \<and>
     (\<forall>x y z. \<not> lt y x \<longrightarrow> \<not> lt z y \<longrightarrow> \<not> lt z x)"

lemma mset_stable_insert [simp]: "mset (stable_insert lt x ys) = add_mset x (mset ys)"
  by (induction ys) auto

lemma mset_stable_sort [simp]: "mset (stable_sort lt xs) = mset xs"
  by (induction xs) auto

lemma set_stable_sort [simp]: "set (stable_sort lt xs) = set xs"
  by (metis mset_stable_sort set_mset_mset)

lemma length_stable_sort [simp]: "length (stable_sort lt xs) = length xs"
  by (metis mset_stable_sort size_mset)

lemma distinct_stable_sort [simp]: "distinct (stable_sort lt xs) = distinct xs"
  by (metis mset_stable_sort distinct_count_atmost_1 set_stable_sort)

lemma set_stable_insert [simp]: "set (stable_insert lt x ys) = insert x (set ys)"
  by (metis mset_stable_insert set_mset_mset set_mset_add_mset_insert)

lemma sorted_stable_insert:
  assumes "strict_weak lt" and "sorted_wrt (\<lambda>a b. \<not> lt b a) ys"
  shows "sorted_wrt (\<lambda>a b. \<not> lt b a) (stable_insert lt x ys)"
  using assms(2)
proof (induction ys)
  case Nil
  then show ?case by simp
next
  case (Cons y ys)
  show ?case
  proof (cases "lt y x")
    case True
    with assms(1) have "\<not> lt x y" unfolding strict_weak_def by blast
    with True Cons show ?thesis by auto
  next
    case False
    have "\<not> lt z x" if "z \<in> set ys" for z
    proof -
      from that Cons.prems have "\<not> lt z y" by simp
      with False assms(1) show ?thesis unfolding strict_weak_def by blast
    qed
    with False Cons.prems show ?thesis by simp
  qed
qed

lemma sorted_stable_sort:
  "strict_weak lt \<Longrightarrow> sorted_wrt (\<lambda>a b. \<not> lt b a) (stable_sort lt xs)"
  by (induction xs) (simp_all add: sorted_stable_insert)

section \<open>Generic lemmas\<close>

lemma unat_of_nat64: "k < 2 ^ 64 \<Longrightarrow> unat (of_nat k :: u64) = k"
  by (simp add: unat_of_nat)

text \<open>Slicing \<open>xs[lo:hi]\<close> of a Go slice, \<open>None\<close> where Go panics.\<close>

definition slice :: "'a list \<Rightarrow> nat \<Rightarrow> nat \<Rightarrow> 'a list option" where
  "slice xs lo hi = (if lo \<le> hi \<and> hi \<le> length xs then Some (take (hi - lo) (drop lo xs)) else None)"

lemma slice_length: "slice xs lo hi = Some ys \<Longrightarrow> length ys = hi - lo"
  by (auto simp: slice_def split: if_splits)

text \<open>
  Fetching all rows of a paginated query, as the loops
  \<open>for offset := 0; ; offset += batchSize\<close> do: \<open>page offset limit\<close> is the query and the
  loop stops at the first page shorter than the batch. \<open>fuel\<close> bounds the number of pages.
\<close>

fun fetch_all :: "nat \<Rightarrow> nat \<Rightarrow> nat \<Rightarrow> (nat \<Rightarrow> nat \<Rightarrow> 'a list result) \<Rightarrow> 'a list result option" where
  "fetch_all 0 batch offset page = None"
| "fetch_all (Suc fuel) batch offset page =
     (case page offset batch of
        Inl e \<Rightarrow> Some (Inl e)
      | Inr rows \<Rightarrow>
          if length rows < batch then Some (Inr rows)
          else (case fetch_all fuel batch (offset + batch) page of
                  None \<Rightarrow> None
                | Some (Inl e) \<Rightarrow> Some (Inl e)
                | Some (Inr rest) \<Rightarrow> Some (Inr (rows @ rest))))"

text \<open>A query over a fixed table, with \<open>LIMIT\<close> and \<open>OFFSET\<close>.\<close>

definition page_of :: "'a list \<Rightarrow> nat \<Rightarrow> nat \<Rightarrow> 'a list" where
  "page_of rows offset limit = take limit (drop offset rows)"

lemma fetch_all_page_of:
  assumes "0 < batch" and "(length rows - offset) div batch < fuel"
  shows "fetch_all fuel batch offset (\<lambda>off lim. Inr (page_of rows off lim))
           = Some (Inr (drop offset rows))"
  using assms(2)
proof (induction fuel arbitrary: offset)
  case 0
  then show ?case by simp
next
  case (Suc fuel)
  show ?case
  proof (cases "length rows - offset < batch")
    case True
    then show ?thesis by (simp add: page_of_def)
  next
    case False
    with assms(1) have "(length rows - offset) div batch = Suc ((length rows - (offset + batch)) div batch)"
      by (simp add: le_div_geq)
    with Suc.prems have "(length rows - (offset + batch)) div batch < fuel" by simp
    then have "fetch_all fuel batch (offset + batch) (\<lambda>off lim. Inr (page_of rows off lim))
                 = Some (Inr (drop (offset + batch) rows))"
      by (rule Suc.IH)
    moreover have "take batch (drop offset rows) @ drop (offset + batch) rows = drop offset rows"
      by (metis append_take_drop_id drop_drop add.commute)
    ultimately show ?thesis using False by (simp add: page_of_def)
  qed
qed

section \<open>Rows of a table\<close>

text \<open>
  Tables are lists of rows. \<open>cnt\<close> is \<open>SELECT COUNT(*)\<close>, \<open>update_rows\<close> is \<open>UPDATE\<close> with a
  condition.
\<close>

definition cnt :: "('a \<Rightarrow> bool) \<Rightarrow> 'a list \<Rightarrow> int" where
  "cnt P xs = int (length (filter P xs))"

definition update_rows :: "('a \<Rightarrow> bool) \<Rightarrow> ('a \<Rightarrow> 'a) \<Rightarrow> 'a list \<Rightarrow> 'a list" where
  "update_rows Q f xs = map (\<lambda>r. if Q r then f r else r) xs"

lemma cnt_simps [simp]:
  "cnt P [] = 0" "cnt P (x # xs) = (if P x then 1 else 0) + cnt P xs"
  "cnt P (xs @ ys) = cnt P xs + cnt P ys"
  by (simp_all add: cnt_def)

lemma update_rows_simps [simp]:
  "update_rows Q f [] = []"
  "update_rows Q f (x # xs) = (if Q x then f x else x) # update_rows Q f xs"
  by (simp_all add: update_rows_def)

lemma update_rows_id: "(\<And>x. Q x \<Longrightarrow> f x = x) \<Longrightarrow> update_rows Q f xs = xs"
  by (induction xs) auto

lemma length_update_rows [simp]: "length (update_rows Q f xs) = length xs"
  by (simp add: update_rows_def)

lemma cnt_nonneg [simp]: "0 \<le> cnt P xs"
  by (simp add: cnt_def)

lemma cnt_cong: "(\<And>x. x \<in> set xs \<Longrightarrow> P x = Q x) \<Longrightarrow> cnt P xs = cnt Q xs"
  by (simp add: cnt_def cong: filter_cong)

lemma cnt_zero_iff: "cnt P xs = 0 \<longleftrightarrow> (\<forall>x \<in> set xs. \<not> P x)"
  by (simp add: cnt_def filter_empty_conv)

lemma cnt_True [simp]: "cnt (\<lambda>x. True) xs = int (length xs)"
  by (simp add: cnt_def)

lemma cnt_False [simp]: "cnt (\<lambda>x. False) xs = 0"
  by (simp add: cnt_def)

lemma cnt_filter: "cnt P (filter Q xs) = cnt (\<lambda>x. P x \<and> Q x) xs"
  by (induction xs) auto

lemma cnt_split: "cnt P xs = cnt (\<lambda>x. P x \<and> Q x) xs + cnt (\<lambda>x. P x \<and> \<not> Q x) xs"
  by (induction xs) auto

lemma cnt_mono: "(\<And>x. x \<in> set xs \<Longrightarrow> P x \<Longrightarrow> Q x) \<Longrightarrow> cnt P xs \<le> cnt Q xs"
  by (induction xs) auto

lemma cnt_mset: "mset xs = mset ys \<Longrightarrow> cnt P xs = cnt P ys"
  by (metis cnt_def mset_filter size_mset)

lemma cnt_update_rows:
  "cnt P (update_rows Q f xs) = cnt P xs - cnt (\<lambda>x. P x \<and> Q x) xs + cnt (\<lambda>x. Q x \<and> P (f x)) xs"
  by (induction xs) auto

lemma map_update_rows:
  "(\<And>x. Q x \<Longrightarrow> g (f x) = g x) \<Longrightarrow> map g (update_rows Q f xs) = map g xs"
  by (induction xs) auto

lemma set_update_rows: "y \<in> set (update_rows Q f xs) \<longleftrightarrow> (\<exists>x \<in> set xs. y = (if Q x then f x else x))"
  by (auto simp: update_rows_def)

lemma ball_update_rows: "(\<forall>y \<in> set (update_rows Q f xs). P y) \<longleftrightarrow> (\<forall>x \<in> set xs. P (if Q x then f x else x))"
  by (auto simp: update_rows_def)

text \<open>
  Rows selected first and addressed by their primary key afterwards: the selection is the
  set of rows with a selected key, and counts over the selection are counts over the table.
\<close>

lemma key_selected_iff:
  assumes "distinct (map key xs)" and "set sel \<subseteq> set xs" and "x \<in> set xs"
  shows "key x \<in> key ` set sel \<longleftrightarrow> x \<in> set sel"
  using assms by (auto simp: distinct_map inj_on_def)

lemma cnt_selected:
  assumes "distinct (map key xs)" and "set sel \<subseteq> set xs" and "distinct sel"
  shows "cnt (\<lambda>x. P x \<and> key x \<in> key ` set sel) xs = cnt P sel"
proof -
  have "distinct xs" using assms(1) by (simp add: distinct_map)
  have "set (filter (\<lambda>x. P x \<and> key x \<in> key ` set sel) xs) = set (filter P sel)"
    using key_selected_iff[OF assms(1,2)] assms(2) by auto
  with \<open>distinct xs\<close> assms(3) show ?thesis
    by (metis cnt_def distinct_card distinct_filter)
qed

lemma distinct_take_scan:
  assumes "\<And>ys. mset (scan ys) = mset ys" and "distinct xs"
  shows "distinct (take n (scan (filter Q xs))) \<and> set (take n (scan (filter Q xs))) \<subseteq> {x \<in> set xs. Q x}"
proof -
  have "mset (scan (filter Q xs)) = mset (filter Q xs)" by (rule assms(1))
  then have "distinct (scan (filter Q xs))" "set (scan (filter Q xs)) = set (filter Q xs)"
    using assms(2) by (metis distinct_filter mset_eq_imp_distinct_iff, metis set_mset_mset)
  then show ?thesis by (auto simp: distinct_take dest: in_set_takeD)
qed

section \<open>A concrete instance of the core operations\<close>

text \<open>
  An instance that satisfies the documented behaviour, with 4 MiB sectors and simple
  prices; witnesses evaluate the model on it.
\<close>

definition plain_usage :: "currency \<Rightarrow> currency \<Rightarrow> usage" where
  "plain_usage cost risked = \<lparr>UsageRPC = 0, UsageStorage = cost, UsageEgress = 0, UsageIngress = 0,
     UsageAccountFunding = 0, UsageRiskedCollateral = risked\<rparr>"

definition sample_core :: core_ops where
  "sample_core = \<lparr>
     cAdd = (\<lambda>a b. if a + b < 2 ^ 128 then Some (a + b) else None),
     cSub = (\<lambda>a b. if b \<le> a then Some (a - b) else None),
     cSubWithUnderflow = (\<lambda>a b. (a - b, a < b)),
     cMul64 = (\<lambda>a n. if a * unat n < 2 ^ 128 then Some (a * unat n) else None),
     cDiv = (\<lambda>a b. if b = 0 then None else Some (a div b)),
     cDiv64 = (\<lambda>a n. if n = 0 then None else Some (a div unat n)),
     cCmp = (\<lambda>a b. if a < b then - 1 else if a = b then 0 else 1),
     Siacoins = (\<lambda>n. unat n * 10 ^ 24),
     VersionCmp = (\<lambda>(a, b, c) (x, y, z).
       if a < x \<or> a = x \<and> (b < y \<or> b = y \<and> c < z) then - 1
       else if a = x \<and> b = y \<and> c = z then 0 else 1),
     ProtocolVersion500 = (5, 0, 0), ProtocolVersion502 = (5, 0, 2), ProtocolVersion510 = (5, 1, 0),
     SectorSize = 4194304, LeafSize = 64, ProofWindow = 144,
     MaxAccountBatchSize = 1000, MaxSectorBatchSize = 1000,
     RPCAppendSectorsCost = (\<lambda>p n d. Some (plain_usage (StoragePrice p * unat n * unat d) (2 * StoragePrice p * unat n * unat d))),
     RPCWriteSectorCost = (\<lambda>p n. Some (plain_usage (IngressPrice p * unat n) 0)),
     RPCReadSectorCost = (\<lambda>p n. Some (plain_usage (EgressPrice p * unat n) 0)),
     RenterCost = (\<lambda>u. Some (UsageRPC u + UsageStorage u + UsageEgress u + UsageIngress u + UsageAccountFunding u)),
     HostRiskedCollateral = UsageRiskedCollateral,
     MaxHostCollateral = (\<lambda>p c. Some (2 * c)),
     RemainingAllowance = RenterOutputValue,
     RemainingCollateral = (\<lambda>fc. Some (FileTotalCollateral fc)),
     RiskedCollateral = (\<lambda>fc. Some 0),
     V2RenewalID = (\<lambda>i. i + 1)\<rparr>"

lemma sample_core_currency_ok: "currency_ok sample_core"
  by (simp add: currency_ok_def sample_core_def)

end
