(* ===== verification/Contract_Lock.thy ===== *)
theory Contract_Lock
  imports Prelude
begin

text \<open>
  The contract locker, contracts/locking.go. \<open>LockedContract\<close> values are shared through
  pointers, so they live in a heap (a list, a pointer is an index) and the map of the
  locker holds indices. Every critical section of \<open>cl.mu\<close> is one definition; the lock and
  unlock of \<open>lc.mu\<close> are definitions of their own because other goroutines run between
  them. A session is one call of \<open>LockContract\<close> or \<open>TryLockContract\<close> together with the
  unlock function it returned; the step relation interleaves any number of sessions.
\<close>

section \<open>Data\<close>

record locked_contract =
  lc_id :: contract_id
  lc_locked :: bool
  refcount :: int

record contract_locker =
  lc_heap :: "locked_contract list"
  lockedContracts :: "contract_id \<rightharpoonup> nat"

section \<open>Operations\<close>

definition NewContractLocker :: contract_locker where
  "NewContractLocker = \<lparr>lc_heap = [], lockedContracts = Map.empty\<rparr>"

text \<open>The first critical section of \<open>LockContract\<close>: find or create the entry, count the caller.\<close>

definition LockContract_enter :: "contract_id \<Rightarrow> contract_locker \<Rightarrow> nat \<times> contract_locker" where
  "LockContract_enter contractID cl =
     (let (r, cl') =
        (case lockedContracts cl contractID of
           Some r \<Rightarrow> (r, cl)
         | None \<Rightarrow> (length (lc_heap cl),
             cl\<lparr>lc_heap := lc_heap cl @ [\<lparr>lc_id = contractID, lc_locked = False, refcount = 0\<rparr>],
                lockedContracts := (lockedContracts cl)(contractID \<mapsto> length (lc_heap cl))\<rparr>))
      in (r, cl'\<lparr>lc_heap := (lc_heap cl')[r := (lc_heap cl' ! r)\<lparr>refcount := refcount (lc_heap cl' ! r) + 1\<rparr>]\<rparr>))"

text \<open>\<open>lc.mu.Lock()\<close>: \<open>None\<close> while the mutex is taken, the caller blocks.\<close>

definition lc_mu_Lock :: "nat \<Rightarrow> contract_locker \<Rightarrow> contract_locker option" where
  "lc_mu_Lock r cl =
     (if lc_locked (lc_heap cl ! r) then None
      else Some (cl\<lparr>lc_heap := (lc_heap cl)[r := (lc_heap cl ! r)\<lparr>lc_locked := True\<rparr>]\<rparr>))"

text \<open>\<open>lc.mu.Unlock()\<close>: \<open>None\<close> where Go aborts, on an unlocked mutex.\<close>

definition lc_mu_Unlock :: "nat \<Rightarrow> contract_locker \<Rightarrow> contract_locker option" where
  "lc_mu_Unlock r cl =
     (if lc_locked (lc_heap cl ! r)
      then Some (cl\<lparr>lc_heap := (lc_heap cl)[r := (lc_heap cl ! r)\<lparr>lc_locked := False\<rparr>]\<rparr>)
      else None)"

text \<open>The critical section of the unlock function: uncount the caller, drop an unused entry.\<close>

definition unlock_release :: "nat \<Rightarrow> contract_locker \<Rightarrow> contract_locker" where
  "unlock_release r cl =
     (let lc = (lc_heap cl ! r)\<lparr>refcount := refcount (lc_heap cl ! r) - 1\<rparr>;
          cl' = cl\<lparr>lc_heap := (lc_heap cl)[r := lc]\<rparr>
      in if refcount lc = 0
         then cl'\<lparr>lockedContracts := (lockedContracts cl')(lc_id lc := None)\<rparr>
         else cl')"

text \<open>\<open>TryLockContract\<close>: \<open>None\<close> is the nil result for a contract that has an entry.\<close>

definition TryLockContract :: "contract_id \<Rightarrow> contract_locker \<Rightarrow> nat option \<times> contract_locker" where
  "TryLockContract contractID cl =
     (case lockedContracts cl contractID of
        Some _ \<Rightarrow> (None, cl)
      | None \<Rightarrow> (Some (length (lc_heap cl)),
          cl\<lparr>lc_heap := lc_heap cl @ [\<lparr>lc_id = contractID, lc_locked = True, refcount = 1\<rparr>],
             lockedContracts := (lockedContracts cl)(contractID \<mapsto> length (lc_heap cl))\<rparr>))"

section \<open>Interleaved sessions\<close>

datatype session = Idle | Waiting nat | Holding nat | Releasing nat

record lock_system =
  locker :: contract_locker
  sessions :: "nat \<Rightarrow> session"

definition init_system :: lock_system where
  "init_system = \<lparr>locker = NewContractLocker, sessions = (\<lambda>_. Idle)\<rparr>"

inductive lock_step :: "lock_system \<Rightarrow> lock_system \<Rightarrow> bool" where
  enter: "sessions s t = Idle \<Longrightarrow> LockContract_enter contractID (locker s) = (r, cl) \<Longrightarrow>
     lock_step s (s\<lparr>locker := cl, sessions := (sessions s)(t := Waiting r)\<rparr>)"
| acquire: "sessions s t = Waiting r \<Longrightarrow> lc_mu_Lock r (locker s) = Some cl \<Longrightarrow>
     lock_step s (s\<lparr>locker := cl, sessions := (sessions s)(t := Holding r)\<rparr>)"
| unlock: "sessions s t = Holding r \<Longrightarrow> lc_mu_Unlock r (locker s) = Some cl \<Longrightarrow>
     lock_step s (s\<lparr>locker := cl, sessions := (sessions s)(t := Releasing r)\<rparr>)"
| release: "sessions s t = Releasing r \<Longrightarrow>
     lock_step s (s\<lparr>locker := unlock_release r (locker s), sessions := (sessions s)(t := Idle)\<rparr>)"
| try_lock: "sessions s t = Idle \<Longrightarrow> TryLockContract contractID (locker s) = (Some r, cl) \<Longrightarrow>
     lock_step s (s\<lparr>locker := cl, sessions := (sessions s)(t := Holding r)\<rparr>)"

inductive lock_reachable :: "lock_system \<Rightarrow> bool" where
  start: "lock_reachable init_system"
| step: "lock_reachable s \<Longrightarrow> lock_step s s' \<Longrightarrow> lock_reachable s'"

fun ref_of :: "session \<Rightarrow> nat option" where
  "ref_of Idle = None"
| "ref_of (Waiting r) = Some r"
| "ref_of (Holding r) = Some r"
| "ref_of (Releasing r) = Some r"

definition users :: "lock_system \<Rightarrow> nat \<Rightarrow> nat set" where
  "users s r = {t. ref_of (sessions s t) = Some r}"

text \<open>
  The invariant: counters count the sessions of an entry, the map holds exactly the
  entries in use, a mutex is taken exactly when one session holds it.
\<close>

definition lock_inv :: "lock_system \<Rightarrow> bool" where
  "lock_inv s \<longleftrightarrow>
     finite {t. sessions s t \<noteq> Idle} \<and>
     (\<forall>t r. ref_of (sessions s t) = Some r \<longrightarrow> r < length (lc_heap (locker s))) \<and>
     (\<forall>r < length (lc_heap (locker s)). refcount (lc_heap (locker s) ! r) = int (card (users s r))) \<and>
     (\<forall>i r. lockedContracts (locker s) i = Some r \<longleftrightarrow>
        r < length (lc_heap (locker s)) \<and> lc_id (lc_heap (locker s) ! r) = i \<and> users s r \<noteq> {}) \<and>
     (\<forall>r < length (lc_heap (locker s)). lc_locked (lc_heap (locker s) ! r) \<longleftrightarrow> (\<exists>t. sessions s t = Holding r)) \<and>
     (\<forall>t u r. sessions s t = Holding r \<longrightarrow> sessions s u = Holding r \<longrightarrow> t = u)"

lemma ref_of_Some_iff:
  "ref_of x = Some r \<longleftrightarrow> x = Waiting r \<or> x = Holding r \<or> x = Releasing r"
  by (cases x) auto

lemma ref_of_None_iff: "ref_of x = None \<longleftrightarrow> x = Idle"
  by (cases x) auto

lemma users_update [simp]:
  "users (s\<lparr>locker := cl, sessions := (sessions s)(t := x)\<rparr>) r =
     (if ref_of x = Some r then insert t (users s r) else users s r - {t})"
  by (auto simp: users_def)

lemma users_locker [simp]: "users (s\<lparr>locker := cl\<rparr>) r = users s r"
  by (simp add: users_def)

lemma finite_users: "finite {t. sessions s t \<noteq> Idle} \<Longrightarrow> finite (users s r)"
  by (rule finite_subset[of _ "{t. sessions s t \<noteq> Idle}"]) (auto simp: users_def)

lemma finite_active_update:
  "finite {t. sessions s t \<noteq> Idle} \<Longrightarrow> finite {u. ((sessions s)(t := x)) u \<noteq> Idle}"
  by (rule finite_subset[of _ "insert t {t. sessions s t \<noteq> Idle}"]) auto

lemma idle_not_user: "sessions s t = Idle \<Longrightarrow> t \<notin> users s r"
  by (simp add: users_def)

lemma lock_inv_init: "lock_inv init_system"
  by (simp add: lock_inv_def init_system_def NewContractLocker_def users_def)

lemma lock_invD:
  assumes "lock_inv s"
  shows "finite {t. sessions s t \<noteq> Idle}"
    and "ref_of (sessions s t) = Some r \<Longrightarrow> r < length (lc_heap (locker s))"
    and "r < length (lc_heap (locker s)) \<Longrightarrow> refcount (lc_heap (locker s) ! r) = int (card (users s r))"
    and "lockedContracts (locker s) i = Some r \<longleftrightarrow>
           r < length (lc_heap (locker s)) \<and> lc_id (lc_heap (locker s) ! r) = i \<and> users s r \<noteq> {}"
    and "r < length (lc_heap (locker s)) \<Longrightarrow>
           lc_locked (lc_heap (locker s) ! r) \<longleftrightarrow> (\<exists>t. sessions s t = Holding r)"
    and "sessions s t = Holding r \<Longrightarrow> sessions s u = Holding r \<Longrightarrow> t = u"
  using assms unfolding lock_inv_def by blast+

lemma no_users_beyond: "lock_inv s \<Longrightarrow> length (lc_heap (locker s)) \<le> r \<Longrightarrow> users s r = {}"
  using lock_invD(2) by (fastforce simp: users_def)

section \<open>Preservation\<close>

text \<open>
  A session moves from \<open>old\<close> to \<open>new\<close> on entry \<open>r\<close> and only that entry of the heap
  changes. The lemma collects what has to be checked for the entry itself.
\<close>

lemma lock_inv_same_heap:
  assumes inv: "lock_inv s"
    and r: "r < length (lc_heap (locker s))"
    and heap: "lc_heap cl = (lc_heap (locker s))[r := lc]"
    and id: "lc_id lc = lc_id (lc_heap (locker s) ! r)"
    and fresh: "lockedContracts (locker s) (lc_id lc) \<in> {None, Some r}"
    and old: "sessions s t = Idle \<or> ref_of (sessions s t) = Some r"
    and new: "x = Idle \<or> ref_of x = Some r"
    and cnt: "refcount lc = int (card (users (s\<lparr>locker := cl, sessions := (sessions s)(t := x)\<rparr>) r))"
    and mp: "lockedContracts cl = (if users (s\<lparr>locker := cl, sessions := (sessions s)(t := x)\<rparr>) r = {}
              then (lockedContracts (locker s))(lc_id lc := None)
              else (lockedContracts (locker s))(lc_id lc \<mapsto> r))"
    and lck: "lc_locked lc \<longleftrightarrow> (\<exists>u. ((sessions s)(t := x)) u = Holding r)"
    and uniq: "x = Holding r \<Longrightarrow> \<not> lc_locked (lc_heap (locker s) ! r)"
  shows "lock_inv (s\<lparr>locker := cl, sessions := (sessions s)(t := x)\<rparr>)" (is "lock_inv ?s")
proof -
  note D = lock_invD[OF inv]
  have len: "length (lc_heap cl) = length (lc_heap (locker s))" using heap by simp
  have usr: "users ?s q = users s q" if "q \<noteq> r" for q
    using that old new by (auto simp: users_def)
  have hd: "(\<exists>u. ((sessions s)(t := x)) u = Holding q) \<longleftrightarrow> (\<exists>u. sessions s u = Holding q)" if "q \<noteq> r" for q
  proof -
    from that old new have "x \<noteq> Holding q" "sessions s t \<noteq> Holding q" by auto
    then show ?thesis by (metis fun_upd_apply)
  qed
  have c2: "ref_of (((sessions s)(t := x)) u) = Some q \<Longrightarrow> q < length (lc_heap cl)" for u q
    using D(2)[of u q] new r len by (cases "u = t") auto
  have c3: "q < length (lc_heap cl) \<Longrightarrow> refcount (lc_heap cl ! q) = int (card (users ?s q))" for q
    using D(3)[of q] usr[of q] cnt heap r by (cases "q = r") simp_all
  have c4: "lockedContracts cl i = Some q \<longleftrightarrow>
      q < length (lc_heap cl) \<and> lc_id (lc_heap cl ! q) = i \<and> users ?s q \<noteq> {}" for i q
  proof (cases "q = r")
    case True
    have "lockedContracts (locker s) i = Some r \<longrightarrow> i = lc_id lc" using D(4) id by simp
    then show ?thesis using True heap r mp by auto
  next
    case False
    with fresh have "lockedContracts (locker s) (lc_id lc) \<noteq> Some q" by auto
    then show ?thesis
      using False heap mp D(4)[of i q] usr[of q] len by (auto split: if_splits)
  qed
  have c5: "q < length (lc_heap cl) \<Longrightarrow>
      lc_locked (lc_heap cl ! q) \<longleftrightarrow> (\<exists>u. ((sessions s)(t := x)) u = Holding q)" for q
    using D(5)[of q] hd[of q] lck heap r by (cases "q = r") simp_all
  have c6: "((sessions s)(t := x)) u = Holding q \<Longrightarrow> ((sessions s)(t := x)) v = Holding q \<Longrightarrow> u = v" for u v q
  proof -
    assume uv: "((sessions s)(t := x)) u = Holding q" "((sessions s)(t := x)) v = Holding q"
    show "u = v"
    proof (cases "x = Holding q")
      case True
      with new have "q = r" by auto
      with uniq True D(5)[OF r] have "sessions s w \<noteq> Holding r" for w by blast
      with uv \<open>q = r\<close> show ?thesis by (auto split: if_splits)
    next
      case False
      with uv D(6) show ?thesis by (auto split: if_splits)
    qed
  qed
  show ?thesis
  proof (unfold lock_inv_def, intro conjI allI impI, goal_cases)
    case 1 show ?case using finite_active_update[OF D(1)] by simp
  next
    case 2 then show ?case using c2 by simp
  next
    case 3 then show ?case using c3 by simp
  next
    case (4 i q) show ?case using c4[of i q] by simp
  next
    case (5 q) then show ?case using c5[of q] by simp
  next
    case (6 u v q) then show ?case using c6[of u q v] by simp
  qed
qed

lemma lock_inv_alloc:
  assumes inv: "lock_inv s"
  shows "lock_inv (s\<lparr>locker := (locker s)\<lparr>lc_heap := lc_heap (locker s) @
           [\<lparr>lc_id = i, lc_locked = False, refcount = 0\<rparr>]\<rparr>\<rparr>)" (is "lock_inv ?s")
proof -
  note D = lock_invD[OF inv]
  have usr: "users ?s q = users s q" for q by (simp add: users_def)
  have none: "users s (length (lc_heap (locker s))) = {}" by (rule no_users_beyond[OF inv]) simp
  then have nh: "sessions s t \<noteq> Holding (length (lc_heap (locker s)))" for t
    using D(2)[of t "length (lc_heap (locker s))"] by auto
  show ?thesis
  proof (unfold lock_inv_def usr, intro conjI allI impI, goal_cases)
    case 1 show ?case using D(1) by simp
  next
    case (2 t r) then show ?case using D(2)[of t r] by simp
  next
    case (3 r) then show ?case using D(3)[of r] none by (auto simp: nth_append less_Suc_eq)
  next
    case (4 i r) show ?case using D(4)[of i r] none by (auto simp: nth_append less_Suc_eq)
  next
    case (5 r) then show ?case using D(5)[of r] nh by (auto simp: nth_append less_Suc_eq)
  next
    case (6 t u r) then show ?case using D(6)[of t r u] by simp
  qed
qed

lemma exists_holding_upd:
  "(\<exists>u. ((sessions s)(t := x)) u = Holding r) \<longleftrightarrow>
     x = Holding r \<or> (\<exists>u. u \<noteq> t \<and> sessions s u = Holding r)"
  by auto

lemma exists_holding_other:
  assumes "sessions s t \<noteq> Holding r"
  shows "(\<exists>u. ((sessions s)(t := x)) u = Holding r) \<longleftrightarrow> x = Holding r \<or> (\<exists>u. sessions s u = Holding r)"
  using assms by (metis fun_upd_apply)

lemma lock_inv_enter:
  assumes inv: "lock_inv s" and idle: "sessions s t = Idle"
    and enter: "LockContract_enter i (locker s) = (r, cl)"
  shows "lock_inv (s\<lparr>locker := cl, sessions := (sessions s)(t := Waiting r)\<rparr>)"
proof (cases "lockedContracts (locker s) i")
  case (Some r')
  with enter have r': "r' = r"
    and cl: "cl = (locker s)\<lparr>lc_heap := (lc_heap (locker s))[r := (lc_heap (locker s) ! r)\<lparr>refcount := refcount (lc_heap (locker s) ! r) + 1\<rparr>]\<rparr>"
    by (auto simp: LockContract_enter_def Let_def)
  note D = lock_invD[OF inv]
  from Some r' D(4) have r: "r < length (lc_heap (locker s))" and i: "lc_id (lc_heap (locker s) ! r) = i" by auto
  have fin: "finite (users s r)" by (rule finite_users[OF D(1)])
  show ?thesis
  proof (rule lock_inv_same_heap[OF inv r])
    show "lc_locked ((lc_heap (locker s) ! r)\<lparr>refcount := refcount (lc_heap (locker s) ! r) + 1\<rparr>) \<longleftrightarrow>
        (\<exists>u. ((sessions s)(t := Waiting r)) u = Holding r)"
      using D(5)[OF r] idle exists_holding_other[of s t r "Waiting r"] by simp
  qed (use Some r' cl i idle D(3)[OF r] fin idle_not_user[OF idle] in \<open>auto simp: fun_upd_idem\<close>)
next
  case None
  define s0 where "s0 = s\<lparr>locker := (locker s)\<lparr>lc_heap := lc_heap (locker s) @
           [\<lparr>lc_id = i, lc_locked = False, refcount = 0\<rparr>]\<rparr>\<rparr>"
  from None enter have r: "r = length (lc_heap (locker s))"
    and cl: "cl = (locker s)\<lparr>lc_heap := (lc_heap (locker s0))[r := \<lparr>lc_id = i, lc_locked = False, refcount = 1\<rparr>],
                lockedContracts := (lockedContracts (locker s))(i \<mapsto> r)\<rparr>"
    by (auto simp: LockContract_enter_def Let_def s0_def)
  have inv0: "lock_inv s0" unfolding s0_def by (rule lock_inv_alloc[OF inv])
  have r0: "r < length (lc_heap (locker s0))" by (simp add: s0_def r)
  have none: "users s0 r = {}" using no_users_beyond[OF inv, of r] by (simp add: s0_def users_def r)
  have "lock_inv (s0\<lparr>locker := cl, sessions := (sessions s0)(t := Waiting r)\<rparr>)"
  proof (rule lock_inv_same_heap[OF inv0 r0])
    show "lc_locked \<lparr>lc_id = i, lc_locked = False, refcount = 1\<rparr> \<longleftrightarrow>
        (\<exists>u. ((sessions s0)(t := Waiting r)) u = Holding r)"
      using lock_invD(5)[OF inv0 r0] by (auto simp: exists_holding_upd s0_def r)
  qed (use None cl idle none r in \<open>auto simp: s0_def\<close>)
  then show ?thesis by (simp add: s0_def)
qed

lemma lock_inv_try:
  assumes inv: "lock_inv s" and idle: "sessions s t = Idle"
    and tr: "TryLockContract i (locker s) = (Some r, cl)"
  shows "lock_inv (s\<lparr>locker := cl, sessions := (sessions s)(t := Holding r)\<rparr>)"
proof -
  define s0 where "s0 = s\<lparr>locker := (locker s)\<lparr>lc_heap := lc_heap (locker s) @
           [\<lparr>lc_id = i, lc_locked = False, refcount = 0\<rparr>]\<rparr>\<rparr>"
  from tr have None: "lockedContracts (locker s) i = None" and r: "r = length (lc_heap (locker s))"
    and cl: "cl = (locker s)\<lparr>lc_heap := (lc_heap (locker s0))[r := \<lparr>lc_id = i, lc_locked = True, refcount = 1\<rparr>],
                lockedContracts := (lockedContracts (locker s))(i \<mapsto> r)\<rparr>"
    by (auto simp: TryLockContract_def s0_def split: option.splits)
  have inv0: "lock_inv s0" unfolding s0_def by (rule lock_inv_alloc[OF inv])
  have r0: "r < length (lc_heap (locker s0))" by (simp add: s0_def r)
  have none: "users s0 r = {}" using no_users_beyond[OF inv, of r] by (simp add: s0_def users_def r)
  have "lock_inv (s0\<lparr>locker := cl, sessions := (sessions s0)(t := Holding r)\<rparr>)"
  proof (rule lock_inv_same_heap[OF inv0 r0])
    show "lc_locked \<lparr>lc_id = i, lc_locked = True, refcount = 1\<rparr> \<longleftrightarrow>
        (\<exists>u. ((sessions s0)(t := Holding r)) u = Holding r)"
      by (auto simp: exists_holding_upd)
  qed (use None cl idle none r in \<open>auto simp: s0_def\<close>)
  then show ?thesis by (simp add: s0_def)
qed

lemma lock_inv_acquire:
  assumes inv: "lock_inv s" and w: "sessions s t = Waiting r"
    and acq: "lc_mu_Lock r (locker s) = Some cl"
  shows "lock_inv (s\<lparr>locker := cl, sessions := (sessions s)(t := Holding r)\<rparr>)"
proof -
  note D = lock_invD[OF inv]
  from D(2)[of t r] w have r: "r < length (lc_heap (locker s))" by simp
  have t: "t \<in> users s r" using w by (simp add: users_def)
  then have mp: "lockedContracts (locker s) (lc_id (lc_heap (locker s) ! r)) = Some r" using D(4) r by auto
  from acq have free: "\<not> lc_locked (lc_heap (locker s) ! r)"
    and cl: "cl = (locker s)\<lparr>lc_heap := (lc_heap (locker s))[r := (lc_heap (locker s) ! r)\<lparr>lc_locked := True\<rparr>]\<rparr>"
    by (auto simp: lc_mu_Lock_def split: if_splits)
  show ?thesis
  proof (rule lock_inv_same_heap[OF inv r])
    show "lc_locked ((lc_heap (locker s) ! r)\<lparr>lc_locked := True\<rparr>) \<longleftrightarrow>
        (\<exists>u. ((sessions s)(t := Holding r)) u = Holding r)"
      by (auto simp: exists_holding_upd)
  qed (use free cl mp w t D(3)[OF r] in \<open>auto simp: fun_upd_idem insert_absorb\<close>)
qed

lemma lock_inv_unlock:
  assumes inv: "lock_inv s" and h: "sessions s t = Holding r"
    and rel: "lc_mu_Unlock r (locker s) = Some cl"
  shows "lock_inv (s\<lparr>locker := cl, sessions := (sessions s)(t := Releasing r)\<rparr>)"
proof -
  note D = lock_invD[OF inv]
  from D(2)[of t r] h have r: "r < length (lc_heap (locker s))" by simp
  have t: "t \<in> users s r" using h by (simp add: users_def)
  then have mp: "lockedContracts (locker s) (lc_id (lc_heap (locker s) ! r)) = Some r" using D(4) r by auto
  from rel have cl: "cl = (locker s)\<lparr>lc_heap := (lc_heap (locker s))[r := (lc_heap (locker s) ! r)\<lparr>lc_locked := False\<rparr>]\<rparr>"
    by (auto simp: lc_mu_Unlock_def split: if_splits)
  show ?thesis
  proof (rule lock_inv_same_heap[OF inv r])
    show "lc_locked ((lc_heap (locker s) ! r)\<lparr>lc_locked := False\<rparr>) \<longleftrightarrow>
        (\<exists>u. ((sessions s)(t := Releasing r)) u = Holding r)"
      using D(6)[OF h] by (auto simp: exists_holding_upd)
  qed (use cl mp h t D(3)[OF r] in \<open>auto simp: fun_upd_idem insert_absorb\<close>)
qed

lemma lock_inv_release:
  assumes inv: "lock_inv s" and h: "sessions s t = Releasing r"
  shows "lock_inv (s\<lparr>locker := unlock_release r (locker s), sessions := (sessions s)(t := Idle)\<rparr>)"
proof -
  note D = lock_invD[OF inv]
  let ?lc = "lc_heap (locker s) ! r"
  from D(2)[of t r] h have r: "r < length (lc_heap (locker s))" by simp
  have t: "t \<in> users s r" using h by (simp add: users_def)
  then have mp: "lockedContracts (locker s) (lc_id ?lc) = Some r" using D(4) r by auto
  have fin: "finite (users s r)" by (rule finite_users[OF D(1)])
  have cnt: "refcount ?lc - 1 = int (card (users s r - {t}))"
    using D(3)[OF r] card.remove[OF fin t] by simp
  then have "refcount ?lc = 1 \<longleftrightarrow> card (users s r - {t}) = 0" by linarith
  then have zero: "refcount ?lc = 1 \<longleftrightarrow> users s r - {t} = {}" using fin by simp
  show ?thesis
  proof (rule lock_inv_same_heap[OF inv r, where lc = "?lc\<lparr>refcount := refcount ?lc - 1\<rparr>"])
    show "lc_locked (?lc\<lparr>refcount := refcount ?lc - 1\<rparr>) \<longleftrightarrow>
        (\<exists>u. ((sessions s)(t := Idle)) u = Holding r)"
      using D(5)[OF r] h exists_holding_other[of s t r Idle] by simp
  qed (use mp h cnt zero in \<open>auto simp: unlock_release_def Let_def fun_upd_idem\<close>)
qed

lemma lock_step_inv: "lock_step s s' \<Longrightarrow> lock_inv s \<Longrightarrow> lock_inv s'"
  by (induction rule: lock_step.induct)
    (blast intro: lock_inv_enter lock_inv_acquire lock_inv_unlock lock_inv_release lock_inv_try)+

lemma lock_reachable_inv: "lock_reachable s \<Longrightarrow> lock_inv s"
  by (induction rule: lock_reachable.induct) (auto intro: lock_inv_init lock_step_inv)

section \<open>Properties\<close>

lemma user_has_entry:
  assumes "lock_inv s" and "ref_of (sessions s t) = Some r"
  shows "lockedContracts (locker s) (lc_id (lc_heap (locker s) ! r)) = Some r"
  using lock_invD(2)[OF assms] lock_invD(4)[OF assms(1)] assms(2) by (auto simp: users_def)

text \<open>
  Claim C8: mutual exclusion. In every state the sessions can reach, two sessions that hold a lock
  of the same contract are the same session, whatever the order in which
  \<open>LockContract\<close>, \<open>TryLockContract\<close> and the unlock functions of other sessions ran.
\<close>

theorem locker_mutual_exclusion:
  assumes "lock_reachable s"
    and "sessions s t = Holding r" and "sessions s u = Holding q"
    and "lc_id (lc_heap (locker s) ! r) = lc_id (lc_heap (locker s) ! q)"
  shows "t = u"
proof -
  have inv: "lock_inv s" by (rule lock_reachable_inv[OF assms(1)])
  have "lockedContracts (locker s) (lc_id (lc_heap (locker s) ! r)) = Some r"
    by (rule user_has_entry[OF inv, of t]) (simp add: assms(2))
  moreover have "lockedContracts (locker s) (lc_id (lc_heap (locker s) ! q)) = Some q"
    by (rule user_has_entry[OF inv, of u]) (simp add: assms(3))
  ultimately have "r = q" unfolding assms(4) by (metis option.inject)
  with assms(2,3) lock_invD(6)[OF inv] show ?thesis by blast
qed

text \<open>
  Claim C9: the map of the locker holds an entry for a contract exactly while some session waits
  for, holds or releases it. So no entry leaks, the counter of an entry is never wrong,
  and \<open>TryLockContract\<close> returns nil exactly for a contract some session is using.
\<close>

theorem locker_entries_exact:
  assumes "lock_reachable s"
  shows "(\<exists>t r. ref_of (sessions s t) = Some r \<and> lc_id (lc_heap (locker s) ! r) = i) \<longleftrightarrow>
         fst (TryLockContract i (locker s)) = None"
proof -
  have inv: "lock_inv s" by (rule lock_reachable_inv[OF assms])
  have "fst (TryLockContract i (locker s)) = None \<longleftrightarrow> lockedContracts (locker s) i \<noteq> None"
    by (simp add: TryLockContract_def split: option.splits)
  also have "\<dots> \<longleftrightarrow> (\<exists>r. lockedContracts (locker s) i = Some r)" by auto
  also have "\<dots> \<longleftrightarrow> (\<exists>t r. ref_of (sessions s t) = Some r \<and> lc_id (lc_heap (locker s) ! r) = i)"
    using lock_invD(2,4)[OF inv] by (fastforce simp: users_def)
  finally show ?thesis by (rule sym)
qed

text \<open>
  Claim C23: no deadlock inside the locker. Whenever some session is not idle, one of the sessions that are
  not idle can make a step; in particular the unlock of a held mutex never aborts.
\<close>

theorem locker_progress:
  assumes "lock_reachable s" and "sessions s t \<noteq> Idle"
  shows "\<exists>u s'. sessions s u \<noteq> Idle \<and> lock_step s s' \<and> sessions s' u \<noteq> sessions s u"
proof -
  have inv: "lock_inv s" by (rule lock_reachable_inv[OF assms(1)])
  from assms(2) obtain r where r: "ref_of (sessions s t) = Some r" using ref_of_None_iff by fastforce
  then have len: "r < length (lc_heap (locker s))" by (rule lock_invD(2)[OF inv])
  have unlock_ok: "\<exists>s'. lock_step s s' \<and> sessions s' u \<noteq> sessions s u" if h: "sessions s u = Holding r" for u
  proof -
    from lock_invD(5)[OF inv len] h have "lc_locked (lc_heap (locker s) ! r)" by blast
    then obtain cl where cl: "lc_mu_Unlock r (locker s) = Some cl" by (simp add: lc_mu_Unlock_def)
    from lock_step.unlock[OF h cl] h show ?thesis
      by (intro exI[of _ "s\<lparr>locker := cl, sessions := (sessions s)(u := Releasing r)\<rparr>"]) simp
  qed
  show ?thesis
  proof (cases "lc_locked (lc_heap (locker s) ! r)")
    case True
    then obtain u where "sessions s u = Holding r" using lock_invD(5)[OF inv len] by blast
    with unlock_ok show ?thesis by (metis session.distinct(3))
  next
    case False
    then have not_held: "sessions s t \<noteq> Holding r" using lock_invD(5)[OF inv len] by blast
    from False obtain cl where cl: "lc_mu_Lock r (locker s) = Some cl" by (simp add: lc_mu_Lock_def)
    from r not_held consider "sessions s t = Waiting r" | "sessions s t = Releasing r"
      by (auto simp: ref_of_Some_iff)
    then show ?thesis
    proof cases
      case 1
      with lock_step.acquire[OF 1 cl] show ?thesis
        by (intro exI[of _ t] exI[of _ "s\<lparr>locker := cl, sessions := (sessions s)(t := Holding r)\<rparr>"]) simp
    next
      case 2
      with lock_step.release[OF 2] show ?thesis
        by (intro exI[of _ t] exI[of _ "s\<lparr>locker := unlock_release r (locker s), sessions := (sessions s)(t := Idle)\<rparr>"]) simp
    qed
  qed
qed

section \<open>Witnesses\<close>

text \<open>A run in which session 0 holds the lock of contract 7 and session 1 waits for it.\<close>

definition run_locker :: contract_locker where
  "run_locker = snd (LockContract_enter 7 (snd (TryLockContract 7 NewContractLocker)))"

definition run_system :: lock_system where
  "run_system = \<lparr>locker = run_locker,
     sessions = (\<lambda>_. Idle)(0 := Holding 0, 1 := Waiting 0)\<rparr>"

lemma run_system_reachable: "lock_reachable run_system"
proof -
  let ?s1 = "init_system\<lparr>locker := snd (TryLockContract 7 NewContractLocker),
    sessions := (sessions init_system)(0 := Holding 0)\<rparr>"
  have "lock_step init_system ?s1"
    by (rule lock_step.try_lock[where contractID = 7])
      (simp_all add: init_system_def TryLockContract_def NewContractLocker_def)
  then have s1: "lock_reachable ?s1" by (rule lock_reachable.step[OF lock_reachable.start])
  have "lock_step ?s1 (?s1\<lparr>locker := run_locker, sessions := (sessions ?s1)(1 := Waiting 0)\<rparr>)"
    by (rule lock_step.enter[where contractID = 7])
      (simp_all add: init_system_def TryLockContract_def NewContractLocker_def run_locker_def
        LockContract_enter_def Let_def)
  then have "lock_step ?s1 run_system"
    by (simp add: run_system_def init_system_def fun_upd_def)
  with s1 show ?thesis by (rule lock_reachable.step)
qed

lemma locker_mutual_exclusion_witness:
  "lock_reachable run_system \<and> sessions run_system 0 = Holding 0 \<and> sessions run_system 1 \<noteq> Holding 0"
proof -
  have h: "sessions run_system 0 = Holding 0" by (simp add: run_system_def)
  have "sessions run_system 1 = Holding 0 \<Longrightarrow> (0::nat) = 1"
    by (rule locker_mutual_exclusion[OF run_system_reachable h]) simp_all
  with h run_system_reachable show ?thesis by auto
qed

lemma locker_entries_exact_witness:
  "lock_reachable run_system \<and> fst (TryLockContract 7 (locker run_system)) = None
     \<and> fst (TryLockContract 8 (locker run_system)) \<noteq> None"
proof -
  have *: "ref_of (sessions run_system t) = Some r \<Longrightarrow> lc_id (lc_heap (locker run_system) ! r) = 7" for t r
    by (auto simp: run_system_def run_locker_def LockContract_enter_def TryLockContract_def
        NewContractLocker_def split: if_splits)
  moreover have "ref_of (sessions run_system 0) = Some 0" by (simp add: run_system_def)
  moreover note locker_entries_exact[OF run_system_reachable, of 7]
    locker_entries_exact[OF run_system_reachable, of 8]
  ultimately show ?thesis using run_system_reachable by fastforce
qed

lemma locker_progress_witness:
  "lock_reachable run_system \<and> sessions run_system 1 \<noteq> Idle \<and>
   (\<exists>u s'. sessions run_system u \<noteq> Idle \<and> lock_step run_system s' \<and> sessions s' u \<noteq> sessions run_system u)"
proof -
  have w: "sessions run_system 1 \<noteq> Idle" by (simp add: run_system_def)
  show ?thesis using run_system_reachable w locker_progress[OF run_system_reachable w] by blast
qed

end
