(* ===== verification/Hosts.thy ===== *)
theory Hosts
  imports Prelude
begin

text \<open>
  The host model, hosts/host.go, and the spaced set of hosts, hosts/distance.go. The
  great-circle distance of geoip locations is a parameter of the spaced set: it is
  computed with floating-point trigonometry (geoip/geoip.go) and the set only compares it
  with the minimum distance. Distances are rationals.
\<close>

section \<open>Usability\<close>

record usability =
  UUptime :: bool
  UMaxContractDuration :: bool
  UMaxCollateral :: bool
  UProtocolVersion :: bool
  UPriceValidity :: bool
  UAcceptingContracts :: bool
  UQUIC :: bool
  USiamux :: bool
  UContractPrice :: bool
  UCollateral :: bool
  UStoragePrice :: bool
  UIngressPrice :: bool
  UEgressPrice :: bool
  UFreeSectorPrice :: bool

definition GoodUsability :: usability where
  "GoodUsability = \<lparr>UUptime = True, UMaxContractDuration = True, UMaxCollateral = True,
     UProtocolVersion = True, UPriceValidity = True, UAcceptingContracts = True,
     UQUIC = True, USiamux = True, UContractPrice = True, UCollateral = True,
     UStoragePrice = True, UIngressPrice = True, UEgressPrice = True, UFreeSectorPrice = True\<rparr>"

definition Usable :: "usability \<Rightarrow> bool" where
  "Usable u \<longleftrightarrow> u = GoodUsability"

definition FailedChecks :: "usability \<Rightarrow> string list" where
  "FailedChecks u =
     (if UUptime u then [] else [''Uptime'']) @
     (if UMaxContractDuration u then [] else [''MaxContractDuration'']) @
     (if UMaxCollateral u then [] else [''MaxCollateral'']) @
     (if UProtocolVersion u then [] else [''ProtocolVersion'']) @
     (if UPriceValidity u then [] else [''PriceValidity'']) @
     (if UAcceptingContracts u then [] else [''AcceptingContracts'']) @
     (if UQUIC u then [] else [''QUIC'']) @
     (if USiamux u then [] else [''Siamux'']) @
     (if UContractPrice u then [] else [''ContractPrice'']) @
     (if UCollateral u then [] else [''Collateral'']) @
     (if UStoragePrice u then [] else [''StoragePrice'']) @
     (if UIngressPrice u then [] else [''IngressPrice'']) @
     (if UEgressPrice u then [] else [''EgressPrice'']) @
     (if UFreeSectorPrice u then [] else [''FreeSectorPrice''])"

text \<open>\<open>UsabilitySettings\<close>: the limits a host is checked against.\<close>

record usability_settings =
  MaxEgressPrice :: currency
  MaxIngressPrice :: currency
  MaxStoragePrice :: currency
  MinCollateral :: currency
  MinProtocolVersion :: version

section \<open>Hosts\<close>

record location =
  CountryCode :: string
  Latitude :: rat
  Longitude :: rat

text \<open>\<open>chain.NetAddress\<close>: a protocol and an address.\<close>

record net_address =
  Protocol :: string
  Address :: string

record host =
  PublicKey :: public_key
  LastAnnouncement :: gotime
  LastFailedScan :: gotime
  LastSuccessfulScan :: gotime
  NextScan :: gotime
  ConsecutiveFailedScans :: int
  RecentUptime :: rat
  Addresses :: "net_address list"
  HostCountryCode :: string
  HostLatitude :: rat
  HostLongitude :: rat
  Settings :: host_settings
  Usability :: usability
  Blocked :: bool
  BlockedReasons :: "string list"
  LostSectors :: u64
  UnpinnedSectors :: u64
  AccountFunding :: currency
  TotalSpent :: currency
  StuckSince :: gotime

definition HasPoolSupport :: "core_ops \<Rightarrow> host \<Rightarrow> bool" where
  "HasPoolSupport C h \<longleftrightarrow> VersionCmp C (ProtocolVersion (Settings h)) (ProtocolVersion510 C) \<ge> 0"

definition IsGood :: "host \<Rightarrow> bool" where
  "IsGood h \<longleftrightarrow> Usable (Usability h) \<and> \<not> Blocked h"

definition GoodForUpload :: "host \<Rightarrow> bool" where
  "GoodForUpload h \<longleftrightarrow> IsGood h \<and> StuckSince h = 0 \<and> RemainingStorage (Settings h) > 0"

definition Location :: "host \<Rightarrow> location" where
  "Location h = \<lparr>CountryCode = HostCountryCode h, Latitude = HostLatitude h, Longitude = HostLongitude h\<rparr>"

section \<open>The spaced set\<close>

record spaced_set =
  minDistanceKm :: rat
  selected :: "(public_key \<times> location) list"

definition NewSpacedSet :: "rat \<Rightarrow> spaced_set" where
  "NewSpacedSet d = \<lparr>minDistanceKm = d, selected = []\<rparr>"

definition CanAddHost :: "(location \<Rightarrow> location \<Rightarrow> rat) \<Rightarrow> spaced_set \<Rightarrow> host \<Rightarrow> bool" where
  "CanAddHost distKm s h =
     (if PublicKey h \<in> fst ` set (selected s) then False
      else if minDistanceKm s > 0
      then (\<forall>other \<in> snd ` set (selected s). \<not> distKm (Location h) other < minDistanceKm s)
      else True)"

definition SpacedSet_Add :: "(location \<Rightarrow> location \<Rightarrow> rat) \<Rightarrow> spaced_set \<Rightarrow> host \<Rightarrow> spaced_set \<times> bool" where
  "SpacedSet_Add distKm s h =
     (if CanAddHost distKm s h
      then (s\<lparr>selected := selected s @ [(PublicKey h, Location h)]\<rparr>, True)
      else (s, False))"

text \<open>Adding hosts one after another, as the callers' loops do.\<close>

fun add_hosts :: "(location \<Rightarrow> location \<Rightarrow> rat) \<Rightarrow> spaced_set \<Rightarrow> host list \<Rightarrow> spaced_set" where
  "add_hosts distKm s [] = s"
| "add_hosts distKm s (h # hs) = add_hosts distKm (fst (SpacedSet_Add distKm s h)) hs"

section \<open>The invariant of the spaced set\<close>

text \<open>Keys are unique and, with a positive minimum distance, members are far apart.\<close>

definition spaced_ok :: "(location \<Rightarrow> location \<Rightarrow> rat) \<Rightarrow> spaced_set \<Rightarrow> bool" where
  "spaced_ok distKm s \<longleftrightarrow>
     distinct (map fst (selected s)) \<and>
     (minDistanceKm s > 0 \<longrightarrow>
        sorted_wrt (\<lambda>a b. minDistanceKm s \<le> distKm (snd b) (snd a)) (selected s))"

lemma FailedChecks_Nil_iff: "FailedChecks u = [] \<longleftrightarrow> Usable u"
  by (cases u) (simp add: FailedChecks_def Usable_def GoodUsability_def)

lemma NewSpacedSet_ok: "spaced_ok distKm (NewSpacedSet d)"
  by (simp add: spaced_ok_def NewSpacedSet_def)

lemma SpacedSet_Add_minDistance [simp]:
  "minDistanceKm (fst (SpacedSet_Add distKm s h)) = minDistanceKm s"
  by (simp add: SpacedSet_Add_def)

lemma SpacedSet_Add_ok:
  "spaced_ok distKm s \<Longrightarrow> spaced_ok distKm (fst (SpacedSet_Add distKm s h))"
  by (force simp: spaced_ok_def SpacedSet_Add_def CanAddHost_def sorted_wrt_append split: if_splits)

lemma add_hosts_ok: "spaced_ok distKm s \<Longrightarrow> spaced_ok distKm (add_hosts distKm s hs)"
  by (induction hs arbitrary: s) (auto intro: SpacedSet_Add_ok)

lemma add_hosts_minDistance [simp]: "minDistanceKm (add_hosts distKm s hs) = minDistanceKm s"
  by (induction hs arbitrary: s) auto

text \<open>
  Claim C24: whatever hosts are offered and in whatever order, the set that results from adding
  them never holds a host twice, and with a positive minimum distance every host in it is
  at least that far away from each host that was added before it.
\<close>

theorem spaced_set_spaced:
  "distinct (map fst (selected (add_hosts distKm (NewSpacedSet d) hs))) \<and>
   (d > 0 \<longrightarrow> (\<forall>i j. i < j \<longrightarrow> j < length (selected (add_hosts distKm (NewSpacedSet d) hs)) \<longrightarrow>
      d \<le> distKm (snd (selected (add_hosts distKm (NewSpacedSet d) hs) ! j))
               (snd (selected (add_hosts distKm (NewSpacedSet d) hs) ! i))))"
proof -
  have "spaced_ok distKm (add_hosts distKm (NewSpacedSet d) hs)"
    by (intro add_hosts_ok NewSpacedSet_ok)
  moreover have "minDistanceKm (NewSpacedSet d) = d" by (simp add: NewSpacedSet_def)
  ultimately show ?thesis unfolding spaced_ok_def by (auto simp: sorted_wrt_iff_nth_less)
qed

text \<open>
  A host is blocked with an empty list of reasons exactly when it is usable: the reasons
  returned by \<open>FailedChecks\<close> name the failed checks, in order and without repetition.
\<close>

lemma FailedChecks_spec:
  "FailedChecks u = map fst (filter (\<lambda>(_, ok). \<not> ok)
     [(''Uptime'', UUptime u), (''MaxContractDuration'', UMaxContractDuration u),
      (''MaxCollateral'', UMaxCollateral u), (''ProtocolVersion'', UProtocolVersion u),
      (''PriceValidity'', UPriceValidity u), (''AcceptingContracts'', UAcceptingContracts u),
      (''QUIC'', UQUIC u), (''Siamux'', USiamux u), (''ContractPrice'', UContractPrice u),
      (''Collateral'', UCollateral u), (''StoragePrice'', UStoragePrice u),
      (''IngressPrice'', UIngressPrice u), (''EgressPrice'', UEgressPrice u),
      (''FreeSectorPrice'', UFreeSectorPrice u)]) \<and>
   distinct (FailedChecks u) \<and> (FailedChecks u = [] \<longleftrightarrow> Usable u)"
  unfolding FailedChecks_Nil_iff by (simp add: FailedChecks_def)

definition witness_host :: "public_key \<Rightarrow> rat \<Rightarrow> host" where
  "witness_host k lat = \<lparr>PublicKey = k, LastAnnouncement = 0, LastFailedScan = 0, LastSuccessfulScan = 0,
     NextScan = 0, ConsecutiveFailedScans = 0, RecentUptime = 1, Addresses = [], HostCountryCode = ''DE'',
     HostLatitude = lat, HostLongitude = 0,
     Settings = \<lparr>ProtocolVersion = (5, 1, 0), WalletAddress = 1, MaxCollateral = 0, RemainingStorage = 1,
       Prices = \<lparr>ContractPrice = 0, StoragePrice = 0, IngressPrice = 0, EgressPrice = 0, TipHeight = 0, ValidUntil = 0,
         Collateral = 0, FreeSectorPrice = 0, PricesSignature = 0\<rparr>,
       Release = [], AcceptingContracts = True, MaxContractDuration = 0, TotalStorage = 1\<rparr>,
     Usability = GoodUsability, Blocked = False, BlockedReasons = [], LostSectors = 0, UnpinnedSectors = 0,
     AccountFunding = 0, TotalSpent = 0, StuckSince = 0\<rparr>"

lemma spaced_set_spaced_witness:
  "selected (add_hosts (\<lambda>a b. \<bar>Latitude a - Latitude b\<bar>) (NewSpacedSet 10)
      [witness_host 1 0, witness_host 2 5, witness_host 3 20])
     = [(1, Location (witness_host 1 0)), (3, Location (witness_host 3 20))] \<and>
   (10::rat) \<le> \<bar>Latitude (Location (witness_host 3 20)) - Latitude (Location (witness_host 1 0))\<bar>"
proof -
  let ?S = "selected (add_hosts (\<lambda>a b. \<bar>Latitude a - Latitude b\<bar>) (NewSpacedSet 10)
      [witness_host 1 0, witness_host 2 5, witness_host 3 20])"
  have s: "?S = [(1, Location (witness_host 1 0)), (3, Location (witness_host 3 20))]"
    by (simp add: NewSpacedSet_def SpacedSet_Add_def CanAddHost_def witness_host_def Location_def)
  have "(10::rat) \<le> \<bar>Latitude (snd (?S ! 1)) - Latitude (snd (?S ! 0))\<bar>"
    by (rule spaced_set_spaced[THEN conjunct2, rule_format]) (simp_all only: s, simp_all)
  then show ?thesis unfolding s by simp
qed

end
