(* ===== verification/Contracts.thy ===== *)
theory Contracts
  imports Hosts
begin

text \<open>
  Contracts and what they are good for: contracts/contract.go, and the funding
  calculation and candidate selection of contracts/form.go. Heights, sizes and durations
  are \<open>uint64\<close> and wrap around; currency arithmetic may panic.
\<close>

section \<open>Contract states\<close>

datatype contract_state =
    ContractStatePending
  | ContractStateActive
  | ContractStateResolved
  | ContractStateExpired
  | ContractStateRejected
  | ContractStateOther u64

fun ContractState_String :: "contract_state \<Rightarrow> string" where
  "ContractState_String ContractStatePending = ''pending''"
| "ContractState_String ContractStateActive = ''active''"
| "ContractState_String ContractStateResolved = ''resolved''"
| "ContractState_String ContractStateExpired = ''expired''"
| "ContractState_String ContractStateRejected = ''rejected''"
| "ContractState_String (ContractStateOther _) = ''''"

definition ContractState_MarshalText :: "contract_state \<Rightarrow> string result" where
  "ContractState_MarshalText s =
     (let str = ContractState_String s in
      if str = '''' then Inl (ErrMsg ''unknown contract state'') else Inr str)"

definition ContractState_UnmarshalText :: "string \<Rightarrow> contract_state result" where
  "ContractState_UnmarshalText b =
     (if b = ''pending'' then Inr ContractStatePending
      else if b = ''active'' then Inr ContractStateActive
      else if b = ''resolved'' then Inr ContractStateResolved
      else if b = ''expired'' then Inr ContractStateExpired
      else if b = ''rejected'' then Inr ContractStateRejected
      else Inl (ErrMsg ''unknown contract state''))"

section \<open>Contracts\<close>

record contract_spending =
  SpendAppendSector :: currency
  SpendFreeSector :: currency
  SpendFundAccount :: currency
  SpendSectorRoots :: currency

record contract =
  ID :: contract_id
  HostKey :: public_key
  Formation :: gotime
  RenewedFrom :: contract_id
  NextPrune :: gotime
  LastBroadcastAttempt :: gotime
  ContractRevisionNumber :: u64
  ProofHeight :: u64
  ExpirationHeight :: u64
  Capacity :: u64
  Size :: u64
  InitialAllowance :: currency
  ContractRemainingAllowance :: currency
  TotalCollateral :: currency
  RenewedTo :: contract_id
  UsedCollateral :: currency
  CContractPrice :: currency
  MinerFee :: currency
  Good :: bool
  State :: contract_state
  Spending :: contract_spending

record maintenance_settings =
  Enabled :: bool
  Period :: u64
  RenewWindow :: u64
  WantedContracts :: u64

definition minContractGrowthRate :: u64 where
  "minContractGrowthRate = 34359738368" \<comment> \<open>32 << 30\<close>

definition maxContractGrowthRate :: u64 where
  "maxContractGrowthRate = 274877906944" \<comment> \<open>256 << 30\<close>

definition maxContractSize :: u64 where
  "maxContractSize = 10995116277760" \<comment> \<open>10 * 1 << 40\<close>

definition GoodForAccountFunding :: "core_ops \<Rightarrow> contract \<Rightarrow> currency \<Rightarrow> unit result" where
  "GoodForAccountFunding C c target =
     (if \<not> Good c then Inl (ErrMsg ''contract is not good'')
      else if cCmp C (ContractRemainingAllowance c) target < 0
      then Inl (ErrMsg ''not enough remaining allowance to fund accounts'')
      else Inr ())"

definition inRenewWindow :: "contract \<Rightarrow> u64 \<Rightarrow> u64 \<Rightarrow> bool" where
  "inRenewWindow c renewWindow height \<longleftrightarrow> ProofHeight c \<le> height + renewWindow"

definition maxRenewableContractSize :: "core_ops \<Rightarrow> host_settings \<Rightarrow> u64 \<Rightarrow> u64 option" where
  "maxRenewableContractSize C settings period = do {
     sectorUsage \<leftarrow> RPCAppendSectorsCost C (Prices settings) 1 (period + ProofWindow C);
     let sectorCollateral = (if HostRiskedCollateral C sectorUsage = 0 then 1 else HostRiskedCollateral C sectorUsage);
     maxSectors \<leftarrow> cDiv C (MaxCollateral settings) sectorCollateral;
     maxSectorsSize \<leftarrow> cMul64 C maxSectors (SectorSize C);
     let maxSize = (if maxSectorsSize < 2 ^ 64 then min maxContractSize (of_nat maxSectorsSize) else maxContractSize);
     let maxSize = maxSize * 8 div 10;
     Some ((maxSize div SectorSize C) * SectorSize C)
   }"

definition GoodForAppend :: "core_ops \<Rightarrow> contract \<Rightarrow> host_settings \<Rightarrow> u64 \<Rightarrow> u64 \<Rightarrow> u64 \<Rightarrow> unit outcome" where
  "GoodForAppend C c settings renewWindow height period = do {
     maxRenewableSize \<leftarrow> maxRenewableContractSize C settings period;
     if \<not> Good c then Some (Inl (ErrMsg ''contract is not good''))
     else if Size c \<ge> maxRenewableSize then Some (Inl (ErrMsg ''contract has reached maximum renewable size''))
     else if ProofHeight c \<le> height then Some (Inl (ErrMsg ''contract is not revisable''))
     else if inRenewWindow c renewWindow height then Some (Inl (ErrMsg ''contract is in renew window''))
     else if Size c < Capacity c then Some (Inr ())
     else do {
       appendUsage \<leftarrow> RPCAppendSectorsCost C (Prices settings) 1 (ExpirationHeight c - height);
       renterCost \<leftarrow> RenterCost C appendUsage;
       remainingCollateral \<leftarrow> cSub C (TotalCollateral c) (UsedCollateral c);
       if cCmp C (ContractRemainingAllowance c) renterCost < 0
       then Some (Inl (ErrMsg ''not enough remaining allowance to append a sector''))
       else if cCmp C remainingCollateral (HostRiskedCollateral C appendUsage) < 0
       then Some (Inl (ErrMsg ''not enough remaining collateral to append a sector''))
       else Some (Inr ())
     }
   }"

section \<open>Contract funding\<close>

text \<open>The number of sectors a contract is funded for (the first lines of \<open>contractFunding\<close>).\<close>

definition contractGrowth :: "core_ops \<Rightarrow> u64 \<Rightarrow> u64" where
  "contractGrowth C existingData =
     min (minContractGrowthRate * (1 + existingData div minContractGrowthRate)) maxContractGrowthRate
       div SectorSize C"

definition contractFunding :: "core_ops \<Rightarrow> host_settings \<Rightarrow> u64 \<Rightarrow> currency \<Rightarrow> u64 \<Rightarrow> (currency \<times> currency) option" where
  "contractFunding C settings existingData minAllowance dur = do {
     let growth = contractGrowth C existingData;
     writeUsage \<leftarrow> RPCWriteSectorCost C (Prices settings) (SectorSize C);
     writeCost \<leftarrow> RenterCost C writeUsage;
     uploadCost \<leftarrow> cMul64 C writeCost growth;
     readUsage \<leftarrow> RPCReadSectorCost C (Prices settings) (SectorSize C);
     readCost \<leftarrow> RenterCost C readUsage;
     downloadCost \<leftarrow> cMul64 C readCost growth;
     storeUsage \<leftarrow> RPCAppendSectorsCost C (Prices settings) growth dur;
     storeCost \<leftarrow> RenterCost C storeUsage;
     uploadStore \<leftarrow> cAdd C uploadCost storeCost;
     total \<leftarrow> cAdd C uploadStore downloadCost;
     let allowance = (if cCmp C total minAllowance < 0 then minAllowance else total);
     maxHost \<leftarrow> MaxHostCollateral C (Prices settings) storeCost;
     let collateral = (if cCmp C maxHost (MaxCollateral settings) > 0 then MaxCollateral settings else maxHost);
     let collateral = (if cCmp C collateral (Siacoins C 1) < 0 then Siacoins C 1 else collateral);
     Some (allowance, collateral)
   }"

definition GoodForRefresh :: "core_ops \<Rightarrow> contract \<Rightarrow> host_settings \<Rightarrow> currency \<Rightarrow> u64 \<Rightarrow> u64 \<Rightarrow> u64 \<Rightarrow> unit outcome" where
  "GoodForRefresh C c settings fundTarget renewWindow height period =
     (if inRenewWindow c renewWindow height then Some (Inl (ErrMsg ''contract is in renew window''))
      else do {
        (_, collateral) \<leftarrow> contractFunding C settings (Size c) fundTarget (ExpirationHeight c - height);
        totalCollateral \<leftarrow>
          (if VersionCmp C (ProtocolVersion settings) (ProtocolVersion502 C) \<ge> 0
           then cAdd C (UsedCollateral c) collateral
           else cAdd C (TotalCollateral c) collateral);
        maxRenewableSize \<leftarrow> maxRenewableContractSize C settings period;
        if \<not> Good c then Some (Inl (ErrMsg ''contract is not good''))
        else if Size c \<ge> maxRenewableSize then Some (Inl (ErrMsg ''contract has reached maximum renewable size''))
        else if ProofHeight c \<le> height then Some (Inl (ErrMsg ''contract is not revisable''))
        else if cCmp C totalCollateral (MaxCollateral settings) > 0
        then Some (Inl (ErrMsg ''max collateral is less than estimated collateral for refresh''))
        else Some (Inr ())
      })"

text \<open>Whether a price is above 80 per cent of its limit.\<close>

definition withinGougingLeeway :: "core_ops \<Rightarrow> currency \<Rightarrow> currency \<Rightarrow> bool option" where
  "withinGougingLeeway C cost limit = do {
     a \<leftarrow> cMul64 C cost 10;
     b \<leftarrow> cMul64 C limit 8;
     Some (cCmp C a b > 0)
   }"

section \<open>Candidate contracts\<close>

record candidate_contract =
  cand_host :: host
  cand_contract :: contract
  goodForRefresh :: "unit result"
  goodForFunding :: "unit result"
  goodForAppend :: "unit result"

definition shouldReplaceContract :: "candidate_contract \<Rightarrow> candidate_contract \<Rightarrow> bool" where
  "shouldReplaceContract current candidate =
     (if is_ok (goodForAppend current) \<and> is_ok (goodForFunding current) then False
      else if is_ok (goodForRefresh current) \<and> \<not> is_ok (goodForRefresh candidate) \<and>
              (\<not> is_ok (goodForAppend candidate) \<or> \<not> is_ok (goodForFunding candidate)) then False
      else if is_ok (goodForAppend current) \<and> \<not> is_ok (goodForAppend candidate) \<and>
              \<not> is_ok (goodForRefresh candidate) then False
      else if is_ok (goodForFunding current) \<and> \<not> is_ok (goodForFunding candidate) \<and>
              \<not> is_ok (goodForRefresh candidate) then False
      else True)"

text \<open>The map update of the candidate loop of \<open>performContractFormation\<close>.\<close>

definition consider_candidate ::
  "(public_key \<rightharpoonup> candidate_contract) \<Rightarrow> candidate_contract \<Rightarrow> (public_key \<rightharpoonup> candidate_contract)" where
  "consider_candidate m candidate =
     (case m (HostKey (cand_contract candidate)) of
        None \<Rightarrow> m(HostKey (cand_contract candidate) \<mapsto> candidate)
      | Some current \<Rightarrow>
          if shouldReplaceContract current candidate
          then m(HostKey (cand_contract candidate) \<mapsto> candidate) else m)"

text \<open>
  The order the selection aims at: contracts good for uploads and funding first, then
  those a refresh makes good, then those good for one of the two, then the others.
\<close>

definition candidate_rank :: "candidate_contract \<Rightarrow> nat" where
  "candidate_rank c =
     (if is_ok (goodForAppend c) \<and> is_ok (goodForFunding c) then 3
      else if is_ok (goodForRefresh c) then 2
      else if is_ok (goodForAppend c) \<or> is_ok (goodForFunding c) then 1 else 0)"

section \<open>Contract states as text\<close>

text \<open>
  The text form of a contract state round-trips in both directions: a state is written
  as a text exactly when that text is read back as the state, and a state without a name
  is refused by \<open>MarshalText\<close>.
\<close>

lemma contract_state_roundtrip:
  "(ContractState_MarshalText s = Inr b) = (ContractState_UnmarshalText b = Inr s)"
  by (cases s) (auto simp: ContractState_MarshalText_def ContractState_UnmarshalText_def split: if_splits)

section \<open>Candidate selection\<close>

lemma shouldReplaceContract_rank:
  "shouldReplaceContract cur cand \<Longrightarrow> candidate_rank cur \<le> candidate_rank cand"
  by (auto simp: shouldReplaceContract_def candidate_rank_def split: if_splits)

lemma not_shouldReplaceContract_rank:
  "\<not> shouldReplaceContract cur cand \<Longrightarrow> candidate_rank cand \<le> candidate_rank cur"
  by (auto simp: shouldReplaceContract_def candidate_rank_def split: if_splits)

text \<open>What the candidate map promises about the candidates seen so far, host by host.\<close>

definition best_for :: "candidate_contract list \<Rightarrow> public_key \<Rightarrow> candidate_contract option \<Rightarrow> bool" where
  "best_for cs hk entry \<longleftrightarrow>
     (case entry of
        None \<Rightarrow> (\<forall>c \<in> set cs. HostKey (cand_contract c) \<noteq> hk)
      | Some best \<Rightarrow> best \<in> set cs \<and> HostKey (cand_contract best) = hk \<and>
          (\<forall>c \<in> set cs. HostKey (cand_contract c) = hk \<longrightarrow> candidate_rank c \<le> candidate_rank best))"

definition best_candidates :: "candidate_contract list \<Rightarrow> (public_key \<rightharpoonup> candidate_contract) \<Rightarrow> bool" where
  "best_candidates cs m \<longleftrightarrow> (\<forall>hk. best_for cs hk (m hk))"

lemma consider_candidate_apply:
  "consider_candidate m c hk =
     (if hk = HostKey (cand_contract c)
      then Some (case m hk of None \<Rightarrow> c | Some cur \<Rightarrow> if shouldReplaceContract cur c then c else cur)
      else m hk)"
  by (auto simp: consider_candidate_def split: option.splits)

lemma best_candidates_step:
  assumes "best_candidates cs m"
  shows "best_candidates (cs @ [c]) (consider_candidate m c)"
proof -
  have "best_for (cs @ [c]) hk (consider_candidate m c hk)" for hk
  proof (cases "hk = HostKey (cand_contract c)")
    case False
    moreover from assms have "best_for cs hk (m hk)" by (simp add: best_candidates_def)
    ultimately show ?thesis
      by (auto simp: consider_candidate_apply best_for_def split: option.splits)
  next
    case hk: True
    from assms have b: "best_for cs hk (m hk)" by (simp add: best_candidates_def)
    show ?thesis
    proof (cases "m hk")
      case None
      with b hk show ?thesis by (simp add: consider_candidate_apply best_for_def)
    next
      case (Some cur)
      show ?thesis
        using b hk Some shouldReplaceContract_rank[of cur c] not_shouldReplaceContract_rank[of cur c]
        by (auto simp: consider_candidate_apply best_for_def intro: order_trans)
    qed
  qed
  then show ?thesis by (simp add: best_candidates_def)
qed

lemma best_candidates_foldl:
  "best_candidates ds m \<Longrightarrow> best_candidates (ds @ cs) (foldl consider_candidate m cs)"
proof (induction cs arbitrary: ds m)
  case (Cons c cs)
  from Cons.IH[OF best_candidates_step[OF Cons.prems]] show ?case by simp
qed simp

text \<open>
  Claim C25: the loop that picks one contract per host picks a best one: the map has an entry for
  a host exactly when some candidate is with that host, the entry is one of the host's
  candidates, and no other candidate of the host ranks higher (good for both uploads and
  funding, then refreshable, then good for one of the two).
\<close>

theorem candidate_selection_best:
  "best_candidates cs (foldl consider_candidate Map.empty cs)"
  using best_candidates_foldl[of "[]" Map.empty cs] by (simp add: best_candidates_def best_for_def)

section \<open>Funding bounds\<close>

text \<open>
  Claim C26: the allowance of a contract is what writing, reading and storing its growth costs, but at
  least the requested minimum. The collateral is what the host puts up for that storage, but at most the
  host's maximum collateral and at least one siacoin; so it exceeds the host's maximum only
  when that maximum is below one siacoin, and is one siacoin then.
\<close>

theorem contractFunding_bounds:
  assumes "currency_ok C" and "contractFunding C settings existingData minAllowance dur = Some (a, c)"
  shows "(\<exists>wu writeCost ru readCost su storeCost m.
      RPCWriteSectorCost C (Prices settings) (SectorSize C) = Some wu \<and> RenterCost C wu = Some writeCost \<and>
      RPCReadSectorCost C (Prices settings) (SectorSize C) = Some ru \<and> RenterCost C ru = Some readCost \<and>
      RPCAppendSectorsCost C (Prices settings) (contractGrowth C existingData) dur = Some su \<and> RenterCost C su = Some storeCost \<and>
      MaxHostCollateral C (Prices settings) storeCost = Some m \<and>
      a = max minAllowance ((writeCost + readCost) * unat (contractGrowth C existingData) + storeCost) \<and>
      c = max (Siacoins C 1) (min m (MaxCollateral settings))) \<and>
    (c \<le> MaxCollateral settings \<or> MaxCollateral settings < Siacoins C 1 \<and> c = Siacoins C 1)"
proof -
  note D = currency_okD[OF assms(1)]
  from assms(2) obtain wu w up ru r down su s us total m where
      u: "RPCWriteSectorCost C (Prices settings) (SectorSize C) = Some wu" "RenterCost C wu = Some w" "cMul64 C w (contractGrowth C existingData) = Some up"
      "RPCReadSectorCost C (Prices settings) (SectorSize C) = Some ru" "RenterCost C ru = Some r" "cMul64 C r (contractGrowth C existingData) = Some down"
      "RPCAppendSectorsCost C (Prices settings) (contractGrowth C existingData) dur = Some su" "RenterCost C su = Some s"
      "cAdd C up s = Some us" "cAdd C us down = Some total" "MaxHostCollateral C (Prices settings) s = Some m"
    and ac: "a = (if total < minAllowance then minAllowance else total)"
      "c = (let l = (if MaxCollateral settings < m then MaxCollateral settings else m) in if l < Siacoins C 1 then Siacoins C 1 else l)"
    unfolding contractFunding_def by (auto simp: bind_eq_Some_conv Let_def D(8,9))
  from u(3,6,9,10) have "total = w * unat (contractGrowth C existingData) + s + r * unat (contractGrowth C existingData)" by (simp add: D split: if_splits)
  then have "a = max minAllowance ((w + r) * unat (contractGrowth C existingData) + s)" using ac(1) by (simp add: max_def algebra_simps)
  moreover have "c = max (Siacoins C 1) (min m (MaxCollateral settings))" using ac(2) by (auto simp: Let_def max_def min_def)
  ultimately show ?thesis using u(1,2,4,5,7,8,11) by (auto simp: max_def min_def)
qed

lemma unat_growth_rates [simp]:
  "unat minContractGrowthRate = 2 ^ 35" "unat maxContractGrowthRate = 2 ^ 38" "unat maxContractSize = 10 * 2 ^ 40"
  by (simp_all add: minContractGrowthRate_def maxContractGrowthRate_def maxContractSize_def)

lemma unat_min: "unat (min a b) = min (unat a) (unat (b :: 'a::len word))"
  by (simp add: min_def word_le_nat_alt)

lemma unat_scaled_growth:
  "unat q < 2 ^ 29 - 1 \<Longrightarrow> unat (minContractGrowthRate * (1 + q)) = 2 ^ 35 * (1 + unat q)"
  by (simp add: unat_word_ariths minContractGrowthRate_def)

lemma unat_contractGrowth:
  assumes "unat existingData < 2 ^ 64 - 2 ^ 35"
  shows "unat (contractGrowth C existingData) =
    min (2 ^ 35 * (1 + unat existingData div 2 ^ 35)) (2 ^ 38) div unat (SectorSize C)"
proof -
  have q: "unat (existingData div minContractGrowthRate) = unat existingData div 2 ^ 35" by (simp add: unat_div)
  have "unat (existingData div minContractGrowthRate) < 2 ^ 29 - 1"
    unfolding q using assms by (simp add: less_mult_imp_div_less)
  from unat_scaled_growth[OF this] show ?thesis
    unfolding contractGrowth_def by (simp add: unat_div unat_min q)
qed

text \<open>
  With sectors of 4 MiB a contract is funded for between 32 GiB and 256 GiB of growth, and
  for at least as much as it already stores unless the 256 GiB cap is reached. (The bound
  on the existing data excludes a wrap-around of the multiplication.)
\<close>

theorem contractGrowth_bounds:
  assumes "SectorSize C = 2 ^ 22" and "unat existingData < 2 ^ 64 - 2 ^ 35"
  shows "2 ^ 35 \<le> unat (contractGrowth C existingData) * 2 ^ 22 \<and>
    unat (contractGrowth C existingData) * 2 ^ 22 \<le> 2 ^ 38 \<and>
    min (unat existingData) (2 ^ 38) \<le> unat (contractGrowth C existingData) * 2 ^ 22"
proof -
  have ss: "unat (SectorSize C) = 2 ^ 22" using assms(1) by simp
  define k where "k = min (1 + unat existingData div 2 ^ 35) 8"
  have g: "unat (contractGrowth C existingData) * 2 ^ 22 = 2 ^ 35 * k"
  proof -
    have "min (2 ^ 35 * (1 + unat existingData div 2 ^ 35)) (2 ^ 38) = 2 ^ 22 * (2 ^ 13 * k)"
      unfolding k_def by (simp add: min_def)
    then show ?thesis unfolding unat_contractGrowth[OF assms(2)] ss by simp
  qed
  have k: "1 \<le> k" "k \<le> 8" by (auto simp: k_def)
  have "unat existingData \<le> 2 ^ 35 * (1 + unat existingData div 2 ^ 35)"
    using mult_div_mod_eq[of "2 ^ 35" "unat existingData"] mod_less_divisor[of "2 ^ 35" "unat existingData"]
    by (simp add: algebra_simps)
  then have "min (unat existingData) (2 ^ 38) \<le> 2 ^ 35 * k" unfolding k_def by (simp add: min_def)
  then show ?thesis unfolding g using k by simp
qed

text \<open>The collateral a host risks for one sector over a full period, as \<open>maxRenewableContractSize\<close> counts it.\<close>

definition sector_collateral :: "core_ops \<Rightarrow> usage \<Rightarrow> currency" where
  "sector_collateral C u = (if HostRiskedCollateral C u = 0 then 1 else HostRiskedCollateral C u)"

lemma unat_eighty_percent: "m \<le> maxContractSize \<Longrightarrow> unat (m * 8 div 10) = unat m * 8 div 10"
proof -
  assume "m \<le> maxContractSize"
  then have "unat m \<le> 10 * 2 ^ 40" by (simp add: word_le_nat_alt)
  then have "unat (m * 8) = unat m * 8" by (simp add: unat_word_ariths)
  then show ?thesis by (simp add: unat_div)
qed

text \<open>
  Claim C27: a contract below the maximum renewable size can be renewed within the host's maximum
  collateral. The size is a whole number of sectors, at most 80 per cent of 10 TiB, and
  the collateral the host risks for that many sectors over the period and the proof
  window is covered by its maximum collateral.
\<close>

theorem maxRenewableContractSize_renewable:
  assumes C: "currency_ok C" and ss: "SectorSize C \<noteq> 0"
    and m: "maxRenewableContractSize C settings period = Some m"
    and u: "RPCAppendSectorsCost C (Prices settings) 1 (period + ProofWindow C) = Some u"
  shows "unat (SectorSize C) dvd unat m \<and> unat m \<le> 8 * 2 ^ 40 \<and>
    unat m div unat (SectorSize C) * sector_collateral C u \<le> MaxCollateral settings"
proof -
  let ?S = "unat (SectorSize C)" and ?sc = "sector_collateral C u"
  have S: "0 < ?S" using ss by (simp add: unat_gt_0)
  define n where "n = MaxCollateral settings div ?sc"
  define ms where "ms = (if n * ?S < 2 ^ 64 then min maxContractSize (of_nat (n * ?S)) else maxContractSize)"
  have mdef: "m = (ms * 8 div 10 div SectorSize C) * SectorSize C"
    using m u by (auto simp: maxRenewableContractSize_def bind_eq_Some_conv currency_okD[OF C] Let_def
        sector_collateral_def ms_def n_def split: if_splits)
  have le: "ms \<le> maxContractSize" by (simp add: ms_def)
  have ms: "unat ms \<le> n * ?S"
  proof (cases "n * ?S < 2 ^ 64")
    case True
    then have "unat (of_nat (n * ?S) :: u64) = n * ?S" by (rule unat_of_nat64)
    then show ?thesis using True by (simp add: ms_def unat_min del: of_nat_mult)
  next
    case False
    then show ?thesis by (simp add: ms_def)
  qed
  define q where "q = unat ms * 8 div 10 div ?S"
  have quo: "unat (ms * 8 div 10 div SectorSize C) = q" 
    unfolding q_def by (subst unat_div) (simp only: unat_eighty_percent[OF le])
  have qS: "q * ?S \<le> unat ms * 8 div 10" by (simp add: q_def)
  also have "\<dots> < 2 ^ 64" using le by (simp add: word_le_nat_alt)
  finally have "unat (ms * 8 div 10 div SectorSize C) * ?S < 2 ^ LENGTH(64)" unfolding quo by simp
  from iffD1[OF unat_mult_lem this] have um: "unat m = q * ?S" unfolding mdef quo .
  have "q \<le> n * ?S div ?S" unfolding q_def using ms by (intro div_le_mono) simp
  with S have "q \<le> n" by simp
  then have "q * ?sc \<le> n * ?sc" by simp
  also have "\<dots> \<le> MaxCollateral settings" by (simp add: n_def)
  finally have col: "q * ?sc \<le> MaxCollateral settings" .
  have "unat ms \<le> 10 * 2 ^ 40" using le by (simp add: word_le_nat_alt)
  with qS have "q * ?S \<le> 8 * 2 ^ 40" by linarith
  with S col show ?thesis unfolding um by simp
qed

section \<open>Witnesses\<close>

definition sample_settings :: host_settings where
  "sample_settings = \<lparr>ProtocolVersion = (5, 1, 0), WalletAddress = 1, MaxCollateral = 5000000000000000000000000000,
     RemainingStorage = 1000,
     Prices = \<lparr>ContractPrice = 1, StoragePrice = 1000000000000, IngressPrice = 10, EgressPrice = 10,
       TipHeight = 100, ValidUntil = 0, Collateral = 1, FreeSectorPrice = 1, PricesSignature = 0\<rparr>,
     Release = ''1.0'', AcceptingContracts = True, MaxContractDuration = 10000, TotalStorage = 2000\<rparr>"

lemma contractFunding_bounds_witness:
  "\<exists>a c. contractFunding sample_core sample_settings 0 10000000000000000000000000 4176 = Some (a, c)
     \<and> a = 10000000000000000000000000 \<and> (c \<le> MaxCollateral sample_settings \<or> c = Siacoins sample_core 1)"
proof -
  obtain a c where f: "contractFunding sample_core sample_settings 0 10000000000000000000000000 4176 = Some (a, c)"
    and a: "a = 10000000000000000000000000"
    by (simp add: contractFunding_def sample_core_def sample_settings_def plain_usage_def contractGrowth_def
        minContractGrowthRate_def maxContractGrowthRate_def)
  with contractFunding_bounds[OF sample_core_currency_ok f] show ?thesis by blast
qed

lemma contractGrowth_bounds_witness:
  "SectorSize sample_core = 2 ^ 22 \<and> 2 ^ 35 \<le> unat (contractGrowth sample_core 100000000000) * 2 ^ 22"
proof -
  have s: "SectorSize sample_core = 2 ^ 22" by (simp add: sample_core_def)
  have e: "unat (100000000000 :: u64) < 2 ^ 64 - 2 ^ 35" by simp
  show ?thesis using s contractGrowth_bounds[OF s e] by blast
qed

lemma maxRenewableContractSize_renewable_witness:
  "\<exists>m u. maxRenewableContractSize sample_core sample_settings 6048 = Some m \<and>
     RPCAppendSectorsCost sample_core (Prices sample_settings) 1 (6048 + ProofWindow sample_core) = Some u \<and>
     0 < unat m \<and> unat m div unat (SectorSize sample_core) * sector_collateral sample_core u \<le> MaxCollateral sample_settings"
proof -
  have s: "SectorSize sample_core \<noteq> 0" by (simp add: sample_core_def)
  obtain m where m: "maxRenewableContractSize sample_core sample_settings 6048 = Some m" and pos: "0 < unat m"
    by (simp add: maxRenewableContractSize_def sample_core_def sample_settings_def plain_usage_def maxContractSize_def)
  obtain u where u: "RPCAppendSectorsCost sample_core (Prices sample_settings) 1 (6048 + ProofWindow sample_core) = Some u"
    by (simp add: sample_core_def)
  show ?thesis
    using m u pos maxRenewableContractSize_renewable[OF sample_core_currency_ok s m u] by blast
qed

end
