(* ===== verification/Database.thy ===== *)
theory Database
  imports Contracts
begin

text \<open>
  The database behind persist/postgres: the tables of init.sql that the modelled queries
  use, as lists of rows, the statistics of persist/postgres/stats.go and the transaction
  wrapper of persist/postgres/store.go.

  A transaction body is a function of type \<open>'a tx\<close>: it reads and writes the tables and
  returns a value or an error. The row locks the queries take make the bodies run one after
  the other on the rows they touch, so a body is one step on the database; the wrapper
  \<open>transaction\<close> adds rollback and retries. Constraints of the schema that a statement can
  violate (\<open>CHECK\<close>, \<open>UNIQUE\<close>, foreign keys) are branches that return an error. Where a
  query has a \<open>LIMIT\<close> but no \<open>ORDER BY\<close>, the order in which the database scans the rows is
  a parameter. \<open>NOW()\<close> is a parameter. The width of integer columns is modelled only where
  a value comes from outside.
\<close>

section \<open>Rows\<close>

record host_row =
  h_id :: int
  h_public_key :: public_key
  h_consecutive_failed_scans :: int
  h_recent_uptime :: rat
  h_last_integrity_check :: gotime
  h_last_failed_scan :: "gotime option"
  h_last_successful_scan :: "gotime option"
  h_last_announcement :: gotime
  h_has_quic :: bool
  h_has_siamux :: bool
  h_next_scan :: gotime
  h_country_code :: string
  h_location :: "rat \<times> rat"
  h_lost_sectors :: int
  h_unpinned_sectors :: int
  h_stuck_since :: "gotime option"
  h_scans :: int
  h_scans_failed :: int
  h_usage_account_funding :: currency
  h_usage_total_spent :: currency
  h_settings :: host_settings
  h_settings_valid_until :: "gotime option"

record host_address_row =
  ha_host_id :: int
  ha_net_address :: string
  ha_protocol :: string

record blocklist_row =
  hb_public_key :: public_key
  hb_added :: gotime
  hb_reasons :: "string list"

record contract_row =
  ct_host_id :: int
  ct_contract_id :: contract_id
  ct_formation :: gotime
  ct_proof_height :: u64
  ct_expiration_height :: u64
  ct_renewed_from :: "contract_id option"
  ct_renewed_to :: "contract_id option"
  ct_revision_number :: u64
  ct_state :: contract_state
  ct_last_broadcast_attempt :: gotime
  ct_next_prune :: gotime
  ct_capacity :: u64
  ct_size :: u64
  ct_contract_price :: currency
  ct_initial_allowance :: currency
  ct_remaining_allowance :: currency
  ct_miner_fee :: currency
  ct_used_collateral :: currency
  ct_total_collateral :: currency
  ct_good :: bool
  ct_spending :: contract_spending
  ct_raw_revision :: v2_contract

record csm_row =
  csm_id :: int
  csm_contract_id :: contract_id

record contract_element_row =
  ce_contract_id :: contract_id
  ce_contract :: v2_contract
  ce_leaf_index :: u64
  ce_merkle_proof :: "hash256 list"

record sector_row =
  sec_id :: int
  sec_root :: hash256
  sec_host_id :: "int option"
  sec_csm :: "int option"
  sec_uploaded_at :: gotime
  sec_next_check :: gotime
  sec_failed_checks :: int
  sec_num_migrated :: int

record slab_row =
  sl_id :: int
  sl_pinned_at :: gotime
  sl_digest :: hash256
  sl_encryption_key :: hash256
  sl_min_shards :: nat
  sl_version :: u8
  sl_failed_repairs :: int
  sl_next_repair :: gotime

record slab_sector_row =
  ss_slab_id :: int
  ss_slab_index :: nat
  ss_sector_id :: int

record account_row =
  ac_id :: int
  ac_public_key :: account_key
  ac_connect_key_id :: int
  ac_pinned_data :: int
  ac_pinned_size :: int
  ac_max_pinned_data :: int
  ac_app_id :: hash256
  ac_name :: string
  ac_description :: string
  ac_logo_url :: string
  ac_service_url :: string
  ac_last_used :: gotime
  ac_deleted_at :: "gotime option"

record connect_key_row =
  ck_id :: int
  ck_user_secret :: hash256
  ck_app_key :: string
  ck_description :: string
  ck_created_at :: gotime
  ck_updated_at :: gotime
  ck_last_used :: "gotime option"
  ck_quota_name :: string
  ck_pinned_data :: int
  ck_pinned_size :: int

record quota_row =
  q_name :: string
  q_description :: string
  q_max_pinned_data :: int
  q_total_uses :: int
  q_fund_target_bytes :: int

record preauthorized_key_row =
  pk_public_key :: public_key
  pk_connect_key_id :: int
  pk_expires_at :: gotime
  pk_total_uses :: int
  pk_remaining_uses :: int
  pk_allowed_app_id :: "hash256 option"
  pk_created_at :: gotime
  pk_last_used :: "gotime option"

record account_host_row =
  ah_account_id :: int
  ah_host_id :: int
  ah_next_fund :: gotime
  ah_failed_funds :: int

record pool_row =
  po_id :: int
  po_connect_key_id :: int
  po_pool_key :: private_key

record pool_host_row =
  ph_pool_id :: int
  ph_host_id :: int
  ph_next_fund :: gotime
  ph_failed_funds :: int
  ph_sharing_attached :: bool

record pool_attachment_row =
  pa_pool_id :: int
  pa_host_id :: int
  pa_account_id :: int

record funding_event_row =
  fe_id :: int
  fe_account_key :: account_key
  fe_host_key :: public_key
  fe_contract_id :: contract_id
  fe_amount_sc :: currency
  fe_estimated_upload_bytes :: int
  fe_estimated_download_bytes :: int
  fe_fund_type :: string
  fe_pool_id :: "int option"
  fe_created_at :: gotime

record object_row =
  ob_id :: int
  ob_key :: hash256
  ob_account_id :: int
  ob_data_key :: "u8 list"
  ob_meta_key :: "u8 list option"
  ob_metadata :: "u8 list option"
  ob_data_signature :: "u8 list"
  ob_meta_signature :: "u8 list"
  ob_created_at :: gotime
  ob_updated_at :: gotime

record object_slab_row =
  os_object_id :: int
  os_slab_digest :: hash256
  os_slab_index :: nat
  os_offset :: u32
  os_length :: u32

record object_event_row =
  oe_key :: hash256
  oe_account_id :: int
  oe_deleted :: bool
  oe_updated_at :: gotime

record blocked_row =
  bo_key :: hash256
  bo_reason :: string
  bo_created_at :: gotime

record global_settings =
  scanned_height :: u64
  scanned_block_id :: hash256
  maintenance :: maintenance_settings
  usability_limits :: usability_settings

datatype stat_name =
    statSlabs | statMigratedSectors | statPinnedSectors | statUnpinnableSectors
  | statUnpinnedSectors | statSectorsChecked | statSectorsLost | statSectorsCheckFailed
  | statAccountsRegistered | statScans | statScansFailed

record db =
  tHosts :: "host_row list"
  tContracts :: "contract_row list"
  tCSM :: "csm_row list"
  tElements :: "contract_element_row list"
  tSectors :: "sector_row list"
  tSlabs :: "slab_row list"
  tSlabSectors :: "slab_sector_row list"
  tAccounts :: "account_row list"
  tConnectKeys :: "connect_key_row list"
  tQuotas :: "quota_row list"
  tAccountSlabs :: "(int \<times> int) list"
  tObjects :: "object_row list"
  tObjectSlabs :: "object_slab_row list"
  tObjectEvents :: "object_event_row list"
  tBlocked :: "blocked_row list"
  tDeletionQueue :: "(int \<times> int) list"
  tHostAddresses :: "host_address_row list"
  tHostBlocklist :: "blocklist_row list"
  tPreauthorizedKeys :: "preauthorized_key_row list"
  tAccountHosts :: "account_host_row list"
  tPools :: "pool_row list"
  tPoolHosts :: "pool_host_row list"
  tPoolAttachments :: "pool_attachment_row list"
  tFundingEvents :: "funding_event_row list"
  tStats :: "stat_name \<Rightarrow> int"
  tStatsDeltas :: "(int \<times> stat_name \<times> int) list"
  tGlobals :: global_settings
  seqSectors :: int
  seqSlabs :: int
  seqCSM :: int
  seqAccounts :: int
  seqObjects :: int
  seqQueue :: int
  seqDeltas :: int
  seqHosts :: int
  seqConnectKeys :: int
  seqPools :: int
  seqFundingEvents :: int

type_synonym 'a tx = "db \<Rightarrow> ('a \<times> db) result"

section \<open>Transactions\<close>

definition maxRetryAttempts :: nat where
  "maxRetryAttempts = 30"

text \<open>The error codes for serialization failures, deadlocks and unavailable locks.\<close>

definition retryable :: "err \<Rightarrow> bool" where
  "retryable e = (e = ErrPg ''40001'' \<or> e = ErrPg ''40P01'' \<or> e = ErrPg ''55P03'')"

text \<open>
  What happens outside of the body: whether beginning or committing an attempt fails, and
  what other transactions commit between this attempt and the next one.
\<close>

record attempt =
  begin_error :: "err option"
  commit_error :: "err option"
  others :: "db \<Rightarrow> db"

definition doTransaction :: "attempt \<Rightarrow> 'a tx \<Rightarrow> db \<Rightarrow> 'a result \<times> db" where
  "doTransaction att fn d =
     (case begin_error att of
        Some e \<Rightarrow> (Inl e, d)
      | None \<Rightarrow>
          (case fn d of
             Inl e \<Rightarrow> (Inl e, d)
           | Inr (x, d') \<Rightarrow>
               (case commit_error att of
                  Some e \<Rightarrow> (Inl e, d)
                | None \<Rightarrow> (Inr x, d'))))"

text \<open>\<open>retry_loop n k\<close>: attempt number \<open>k\<close> with \<open>n\<close> attempts left after it.\<close>

fun retry_loop :: "nat \<Rightarrow> nat \<Rightarrow> (nat \<Rightarrow> attempt) \<Rightarrow> 'a tx \<Rightarrow> db \<Rightarrow> 'a result \<times> db" where
  "retry_loop n k env fn d =
     (case doTransaction (env k) fn d of
        (Inr x, d') \<Rightarrow> (Inr x, d')
      | (Inl e, d') \<Rightarrow>
          if retryable e then
            (case n of 0 \<Rightarrow> (Inl e, d') | Suc n' \<Rightarrow> retry_loop n' (k + 1) env fn (others (env k) d'))
          else (Inl e, d'))"

declare retry_loop.simps [simp del]

definition transaction :: "(nat \<Rightarrow> attempt) \<Rightarrow> 'a tx \<Rightarrow> db \<Rightarrow> 'a result \<times> db" where
  "transaction env fn d = retry_loop (maxRetryAttempts - 1) 1 env fn d"

text \<open>The database as the other transactions leave it before attempt \<open>k\<close>.\<close>

fun before_attempt :: "(nat \<Rightarrow> attempt) \<Rightarrow> nat \<Rightarrow> db \<Rightarrow> db" where
  "before_attempt env 0 d = d"
| "before_attempt env (Suc k) d = others (env (Suc k)) (before_attempt env k d)"

lemma doTransaction_Inl: "doTransaction att fn d = (Inl e, d') \<Longrightarrow> d' = d"
  by (auto simp: doTransaction_def split: option.splits sum.splits)

lemma doTransaction_Inr: "doTransaction att fn d = (Inr x, d') \<Longrightarrow> fn d = Inr (x, d')"
  by (auto simp: doTransaction_def split: option.splits sum.splits)

lemma retry_loop_atomic:
  assumes "retry_loop n (Suc k) env fn (before_attempt env k d) = (r, d')"
  shows "\<exists>j \<ge> k. j \<le> k + n \<and>
           (case r of Inr x \<Rightarrow> fn (before_attempt env j d) = Inr (x, d')
            | Inl e \<Rightarrow> d' = before_attempt env j d \<and> (retryable e \<longrightarrow> j = k + n))"
  using assms
proof (induction n arbitrary: k)
  case 0
  show ?case
  proof (cases "doTransaction (env (Suc k)) fn (before_attempt env k d)")
    case (Pair r0 d0)
    with 0 show ?thesis
      by (intro exI[of _ k], cases r0; auto simp: retry_loop.simps[of 0] dest: doTransaction_Inl doTransaction_Inr split: if_splits)
  qed
next
  case (Suc n)
  show ?case
  proof (cases "doTransaction (env (Suc k)) fn (before_attempt env k d)")
    case (Pair r0 d0)
    show ?thesis
    proof (cases "\<exists>e. r0 = Inl e \<and> retryable e")
      case True
      with Pair Suc.prems have "retry_loop n (Suc (Suc k)) env fn (before_attempt env (Suc k) d) = (r, d')"
        using doTransaction_Inl by (fastforce simp: retry_loop.simps[of "Suc n"])
      from Suc.IH[OF this] obtain j where "j \<ge> Suc k" "j \<le> Suc k + n"
        "case r of Inr x \<Rightarrow> fn (before_attempt env j d) = Inr (x, d')
         | Inl e \<Rightarrow> d' = before_attempt env j d \<and> (retryable e \<longrightarrow> j = Suc k + n)" by blast
      then show ?thesis by (intro exI[of _ j]) (auto split: sum.splits)
    next
      case False
      with Pair Suc.prems have "r0 = r" "d0 = d'"
        by (cases r0; auto simp: retry_loop.simps[of "Suc n"])+
      with False Pair show ?thesis
        by (intro exI[of _ k]) (auto dest: doTransaction_Inl doTransaction_Inr split: sum.splits)
    qed
  qed
qed

text \<open>
  Claim C22: a transaction is atomic and its retries are bounded. Whatever fails while it begins,
  runs or commits and whatever other transactions commit in between, there is an attempt
  \<open>j\<close> among the first 30 such that either the result and the database are those of one run
  of the body on the database of that attempt, or an error is returned and the database is
  exactly what the other transactions left; an error that calls for a retry is returned
  only after the last attempt.
\<close>

theorem transaction_atomic:
  assumes "transaction env fn d = (r, d')"
  shows "\<exists>j < maxRetryAttempts.
           (case r of Inr x \<Rightarrow> fn (before_attempt env j d) = Inr (x, d')
            | Inl e \<Rightarrow> d' = before_attempt env j d \<and> (retryable e \<longrightarrow> j = maxRetryAttempts - 1))"
proof -
  from assms have "retry_loop 29 (Suc 0) env fn (before_attempt env 0 d) = (r, d')"
    by (simp add: transaction_def maxRetryAttempts_def)
  from retry_loop_atomic[OF this] obtain j where "j \<le> 29"
    "case r of Inr x \<Rightarrow> fn (before_attempt env j d) = Inr (x, d')
     | Inl e \<Rightarrow> d' = before_attempt env j d \<and> (retryable e \<longrightarrow> j = 29)" unfolding add_0 by blast
  then show ?thesis unfolding maxRetryAttempts_def by (intro exI[of _ j]) (auto split: sum.splits)
qed

text \<open>Three attempts: a deadlock, a failed commit, then success on the database as it is then.\<close>

definition flaky :: "nat \<Rightarrow> attempt" where
  "flaky k = \<lparr>begin_error = (if k = 1 then Some (ErrPg ''40P01'') else None),
     commit_error = (if k = 2 then Some (ErrPg ''40001'') else None),
     others = (\<lambda>d. d\<lparr>seqQueue := seqQueue d + 1\<rparr>)\<rparr>"

lemma flaky_transaction:
  "transaction flaky (\<lambda>d. Inr (seqQueue d, d\<lparr>seqSlabs := 7\<rparr>)) d
     = (Inr (seqQueue d + 2), d\<lparr>seqQueue := seqQueue d + 2, seqSlabs := 7\<rparr>)"
  by (simp add: transaction_def maxRetryAttempts_def retry_loop.simps doTransaction_def flaky_def retryable_def)

section \<open>Statistics\<close>

text \<open>The value of a statistic that queries see (\<open>sqlStatSelect\<close>): the checkpoint and the pending deltas.\<close>

definition delta_sum :: "stat_name \<Rightarrow> (int \<times> stat_name \<times> int) list \<Rightarrow> int" where
  "delta_sum n ds = sum_list (map (\<lambda>(_, _, v). v) (filter (\<lambda>(_, m, _). m = n) ds))"

definition sqlStatSelect :: "db \<Rightarrow> stat_name \<Rightarrow> int" where
  "sqlStatSelect d n = tStats d n + delta_sum n (tStatsDeltas d)"

definition incrementStat :: "stat_name \<Rightarrow> int \<Rightarrow> db \<Rightarrow> db" where
  "incrementStat n delta d =
     (if delta = 0 then d
      else d\<lparr>tStatsDeltas := tStatsDeltas d @ [(seqDeltas d, n, delta)], seqDeltas := seqDeltas d + 1\<rparr>)"

definition incrementHostUnpinnedSectors :: "int \<Rightarrow> int \<Rightarrow> db \<Rightarrow> db result" where
  "incrementHostUnpinnedSectors hostID delta d =
     (let rows = update_rows (\<lambda>h. h_id h = hostID) (\<lambda>h. h\<lparr>h_unpinned_sectors := h_unpinned_sectors h + delta\<rparr>) (tHosts d)
      in if \<exists>h \<in> set rows. h_unpinned_sectors h < 0 then Inl ErrCheckViolation
         else Inr (d\<lparr>tHosts := rows\<rparr>))"

fun increment_hosts_loop :: "(int \<times> int) list \<Rightarrow> db \<Rightarrow> db result" where
  "increment_hosts_loop [] d = Inr d"
| "increment_hosts_loop ((hostID, delta) # ds) d =
     rbind (incrementHostUnpinnedSectors hostID delta d) (increment_hosts_loop ds)"

definition incrementHostsUnpinnedSectors :: "(int \<times> int) list \<Rightarrow> db \<Rightarrow> db result" where
  "incrementHostsUnpinnedSectors deltas d =
     (if deltas = [] then Inr d
      else increment_hosts_loop (stable_sort (\<lambda>a b. fst a < fst b) deltas) d)"

text \<open>
  \<open>FlushStatsDelta\<close>: the first \<open>limit\<close> deltas by id are deleted and their sums added to the
  checkpoints; a checkpoint that would become negative fails the whole statement.
\<close>

definition delta_before :: "int \<times> stat_name \<times> int \<Rightarrow> int \<times> stat_name \<times> int \<Rightarrow> bool" where
  "delta_before a b = (fst a < fst b)"

definition all_stats :: "stat_name list" where
  "all_stats = [statSlabs, statMigratedSectors, statPinnedSectors, statUnpinnableSectors,
     statUnpinnedSectors, statSectorsChecked, statSectorsLost, statSectorsCheckFailed,
     statAccountsRegistered, statScans, statScansFailed]"

definition FlushStatsDelta :: "nat \<Rightarrow> bool tx" where
  "FlushStatsDelta limit d =
     (let sorted = stable_sort delta_before (tStatsDeltas d);
          batch = take limit sorted;
          rest = drop limit sorted;
          stats' = (\<lambda>n. tStats d n + delta_sum n batch)
      in if \<exists>n \<in> set all_stats. stats' n < 0 then Inl ErrCheckViolation
         else Inr (rest \<noteq> [], d\<lparr>tStats := stats', tStatsDeltas := rest\<rparr>))"

lemma delta_sum_simps [simp]:
  "delta_sum n [] = 0" "delta_sum n (x # ds) = (case x of (_, m, v) \<Rightarrow> if m = n then v else 0) + delta_sum n ds"
  by (auto simp: delta_sum_def split: prod.splits)

lemma delta_sum_append [simp]: "delta_sum n (xs @ ys) = delta_sum n xs + delta_sum n ys"
  by (induction xs) (auto split: prod.splits)

lemma delta_sum_eq_sum_mset:
  "delta_sum n xs = sum_mset (image_mset (\<lambda>(_, m, v). if m = n then v else 0) (mset xs))"
  by (induction xs) (auto split: prod.splits)

lemma delta_sum_mset: "mset xs = mset ys \<Longrightarrow> delta_sum n xs = delta_sum n ys"
  by (simp add: delta_sum_eq_sum_mset)

lemma incrementStat_sel [store_simps]:
  "sqlStatSelect (incrementStat n v d) m = sqlStatSelect d m + (if m = n then v else 0)"
  by (simp add: sqlStatSelect_def incrementStat_def)

lemma incrementStat_frame [store_simps]:
  "tSectors (incrementStat n v d) = tSectors d" "tHosts (incrementStat n v d) = tHosts d"
  "tCSM (incrementStat n v d) = tCSM d" "tContracts (incrementStat n v d) = tContracts d"
  "tSlabs (incrementStat n v d) = tSlabs d" "tSlabSectors (incrementStat n v d) = tSlabSectors d"
  "tAccounts (incrementStat n v d) = tAccounts d" "tAccountSlabs (incrementStat n v d) = tAccountSlabs d"
  "tObjects (incrementStat n v d) = tObjects d" "tObjectSlabs (incrementStat n v d) = tObjectSlabs d"
  "tConnectKeys (incrementStat n v d) = tConnectKeys d" "tQuotas (incrementStat n v d) = tQuotas d"
  "tGlobals (incrementStat n v d) = tGlobals d" "tDeletionQueue (incrementStat n v d) = tDeletionQueue d"
  "seqSectors (incrementStat n v d) = seqSectors d" "seqSlabs (incrementStat n v d) = seqSlabs d"
  "seqCSM (incrementStat n v d) = seqCSM d" "seqAccounts (incrementStat n v d) = seqAccounts d"
  "seqObjects (incrementStat n v d) = seqObjects d" "tElements (incrementStat n v d) = tElements d"
  "tObjectEvents (incrementStat n v d) = tObjectEvents d" "tBlocked (incrementStat n v d) = tBlocked d"
  "seqQueue (incrementStat n v d) = seqQueue d" "tStats (incrementStat n v d) = tStats d"
  "tHostAddresses (incrementStat n v d) = tHostAddresses d" "tHostBlocklist (incrementStat n v d) = tHostBlocklist d"
  "tPreauthorizedKeys (incrementStat n v d) = tPreauthorizedKeys d" "tAccountHosts (incrementStat n v d) = tAccountHosts d"
  "tPools (incrementStat n v d) = tPools d" "tPoolHosts (incrementStat n v d) = tPoolHosts d"
  "tPoolAttachments (incrementStat n v d) = tPoolAttachments d" "seqHosts (incrementStat n v d) = seqHosts d"
  "seqConnectKeys (incrementStat n v d) = seqConnectKeys d" "seqPools (incrementStat n v d) = seqPools d"
  by (simp_all add: incrementStat_def)

lemma incrementHostUnpinnedSectors_eq:
  "incrementHostUnpinnedSectors hostID delta d = Inr d' \<longleftrightarrow>
     d' = d\<lparr>tHosts := update_rows (\<lambda>h. h_id h = hostID) (\<lambda>h. h\<lparr>h_unpinned_sectors := h_unpinned_sectors h + delta\<rparr>) (tHosts d)\<rparr> \<and>
     (\<forall>h \<in> set (tHosts d'). 0 \<le> h_unpinned_sectors h)"
  by (auto simp: incrementHostUnpinnedSectors_def Let_def) (force simp: not_less)+

lemma FlushStatsDelta_stats:
  assumes "FlushStatsDelta limit d = Inr (left, d')"
  shows "sqlStatSelect d' n = sqlStatSelect d n"
proof -
  let ?s = "stable_sort delta_before (tStatsDeltas d)"
  have "delta_sum n (take limit ?s) + delta_sum n (drop limit ?s) = delta_sum n (tStatsDeltas d)"
    by (metis delta_sum_append append_take_drop_id delta_sum_mset mset_stable_sort)
  with assms show ?thesis by (auto simp: FlushStatsDelta_def Let_def sqlStatSelect_def split: if_splits)
qed

text \<open>
  Claim C28: flushing pending deltas is invisible to readers: every statistic has the same value
  before and after, whatever the batch size; the result says whether deltas are left, and
  no more than \<open>limit\<close> deltas are removed.
\<close>

theorem FlushStatsDelta_invisible:
  assumes "FlushStatsDelta limit d = Inr (left, d')"
  shows "sqlStatSelect d' n = sqlStatSelect d n \<and> (left \<longleftrightarrow> tStatsDeltas d' \<noteq> []) \<and>
     length (tStatsDeltas d') = length (tStatsDeltas d) - limit \<and>
     tSectors d' = tSectors d \<and> tHosts d' = tHosts d"
  using FlushStatsDelta_stats[OF assms] assms by (auto simp: FlushStatsDelta_def Let_def split: if_splits)

end
