(* ===== verification/Sector_Store.thy ===== *)
theory Sector_Store
  imports Database
begin

text \<open>
  The sectors of the store, persist/postgres/sectors.go: pinning sectors to contracts,
  losing them, giving up on them, migrating and checking them, and the two operations of
  persist/postgres/contracts.go that unpin the sectors of a contract. Every operation also
  maintains counters: global statistics and the number of unpinned sectors per host. The
  invariant of the store says that the counters are the true numbers.
\<close>

section \<open>Lookups\<close>

definition host_id_of :: "db \<Rightarrow> public_key \<Rightarrow> int option" where
  "host_id_of d hk = map_option h_id (find (\<lambda>h. h_public_key h = hk) (tHosts d))"

definition contract_by_id :: "db \<Rightarrow> contract_id \<Rightarrow> contract_row option" where
  "contract_by_id d i = find (\<lambda>c. ct_contract_id c = i) (tContracts d)"

definition csm_by_contract :: "db \<Rightarrow> contract_id \<Rightarrow> csm_row option" where
  "csm_by_contract d i = find (\<lambda>m. csm_contract_id m = i) (tCSM d)"

text \<open>The contract a pinned sector is joined with through \<open>contract_sectors_map\<close>.\<close>

definition contract_of_csm :: "db \<Rightarrow> int \<Rightarrow> contract_row option" where
  "contract_of_csm d m =
     (case find (\<lambda>r. csm_id r = m) (tCSM d) of
        None \<Rightarrow> None
      | Some r \<Rightarrow> contract_by_id d (csm_contract_id r))"

section \<open>The three classes of sectors\<close>

definition is_pinned :: "sector_row \<Rightarrow> bool" where
  "is_pinned s \<longleftrightarrow> sec_csm s \<noteq> None"

definition is_unpinned :: "sector_row \<Rightarrow> bool" where
  "is_unpinned s \<longleftrightarrow> sec_csm s = None \<and> sec_host_id s \<noteq> None"

definition is_unpinnable :: "sector_row \<Rightarrow> bool" where
  "is_unpinnable s \<longleftrightarrow> sec_csm s = None \<and> sec_host_id s = None"

definition unpinned_on :: "int \<Rightarrow> sector_row \<Rightarrow> bool" where
  "unpinned_on h s \<longleftrightarrow> sec_csm s = None \<and> sec_host_id s = Some h"

section \<open>Losing sectors\<close>

text \<open>\<open>COALESCE(c.proof_height > g.scanned_height, TRUE)\<close> over the outer joins.\<close>

definition counts_as_lost :: "db \<Rightarrow> sector_row \<Rightarrow> bool" where
  "counts_as_lost d s =
     (case sec_csm s of
        None \<Rightarrow> True
      | Some m \<Rightarrow>
          (case contract_of_csm d m of
             None \<Rightarrow> True
           | Some c \<Rightarrow> ct_proof_height c > scanned_height (tGlobals d)))"

definition updateSectorStats :: "int \<Rightarrow> int \<Rightarrow> int \<Rightarrow> int \<Rightarrow> db \<Rightarrow> db" where
  "updateSectorStats pinnedDelta unpinnedDelta unpinnableDelta lostDelta d =
     incrementStat statSectorsLost lostDelta
       (incrementStat statUnpinnableSectors unpinnableDelta
         (incrementStat statUnpinnedSectors unpinnedDelta
           (incrementStat statPinnedSectors pinnedDelta d)))"

text \<open>\<open>scanLostSectorIDs\<close>: the ids, and how many are pinned, unpinned and lost.\<close>

definition scanLostSectorIDs :: "db \<Rightarrow> sector_row list \<Rightarrow> int list \<times> int \<times> int \<times> int" where
  "scanLostSectorIDs d rows =
     (map sec_id rows, cnt is_pinned rows, cnt (\<lambda>s. \<not> is_pinned s) rows, cnt (counts_as_lost d) rows)"

text \<open>The updates that follow the scan, the same in both callers.\<close>

definition detach_sectors :: "int \<Rightarrow> sector_row list \<Rightarrow> db \<Rightarrow> db result" where
  "detach_sectors hostID rows d =
     (let (sectorIDs, pinned, unpinned, lost) = scanLostSectorIDs d rows;
          detached = pinned + unpinned;
          d = d\<lparr>tSectors := update_rows (\<lambda>s. sec_id s \<in> set sectorIDs) (\<lambda>s. s\<lparr>sec_host_id := None, sec_csm := None\<rparr>) (tSectors d)\<rparr>;
          d = d\<lparr>tHosts := update_rows (\<lambda>h. h_id h = hostID) (\<lambda>h. h\<lparr>h_lost_sectors := h_lost_sectors h + lost\<rparr>) (tHosts d)\<rparr>;
          d = updateSectorStats (- pinned) (- unpinned) detached lost d
      in incrementHostUnpinnedSectors hostID (- unpinned) d)"

definition MarkSectorsLost :: "public_key \<Rightarrow> hash256 list \<Rightarrow> unit tx" where
  "MarkSectorsLost hostKey roots d =
     (if roots = [] then Inr ((), d)
      else case host_id_of d hostKey of
        None \<Rightarrow> Inl ErrNoRows
      | Some hostID \<Rightarrow>
          let rows = filter (\<lambda>s. sec_host_id s = Some hostID \<and> sec_root s \<in> set roots) (tSectors d)
          in if rows = [] then Inr ((), d)
             else rbind (detach_sectors hostID rows d) (\<lambda>d. Inr ((), d)))"

definition markFailingSectorsLostBatch ::
  "(sector_row list \<Rightarrow> sector_row list) \<Rightarrow> public_key \<Rightarrow> nat \<Rightarrow> nat \<Rightarrow> int tx" where
  "markFailingSectorsLostBatch scan hostKey maxChecks batchSize d =
     (case host_id_of d hostKey of
        None \<Rightarrow> Inl ErrNoRows
      | Some hostID \<Rightarrow>
          let rows = take batchSize (scan (filter (\<lambda>s. sec_host_id s = Some hostID \<and> sec_failed_checks s \<ge> int maxChecks) (tSectors d)))
          in if rows = [] then Inr (0, d)
             else rbind (detach_sectors hostID rows d) (\<lambda>d. Inr (int (length rows), d)))"

text \<open>
  The loop over batches; every batch is a transaction of its own, so an error leaves the
  work of the batches before it. \<open>None\<close>: the fuel did not suffice.
\<close>

fun MarkFailingSectorsLost ::
  "nat \<Rightarrow> (sector_row list \<Rightarrow> sector_row list) \<Rightarrow> public_key \<Rightarrow> nat \<Rightarrow> db \<Rightarrow> (unit result \<times> db) option" where
  "MarkFailingSectorsLost 0 scan hostKey maxChecks d = None"
| "MarkFailingSectorsLost (Suc fuel) scan hostKey maxChecks d =
     (case markFailingSectorsLostBatch scan hostKey maxChecks 1000 d of
        Inl e \<Rightarrow> Some (Inl e, d)
      | Inr (updated, d') \<Rightarrow>
          if updated < 1000 then Some (Inr (), d')
          else MarkFailingSectorsLost fuel scan hostKey maxChecks d')"

section \<open>Integrity checks\<close>

definition integrityCheckChunkSize :: nat where
  "integrityCheckChunkSize = 100"

definition recordIntegrityCheck :: "bool \<Rightarrow> gotime \<Rightarrow> public_key \<Rightarrow> hash256 list \<Rightarrow> unit tx" where
  "recordIntegrityCheck success nextCheck hostKey roots d =
     (let here = (\<lambda>s. sec_host_id s \<noteq> None \<and> sec_host_id s = host_id_of d hostKey \<and> sec_root s \<in> set roots);
          d = (if success
               then d\<lparr>tSectors := update_rows here (\<lambda>s. s\<lparr>sec_next_check := nextCheck, sec_failed_checks := 0\<rparr>) (tSectors d)\<rparr>
               else d\<lparr>tSectors := update_rows here (\<lambda>s. s\<lparr>sec_next_check := nextCheck, sec_failed_checks := sec_failed_checks s + 1\<rparr>) (tSectors d)\<rparr>);
          d = incrementStat statSectorsChecked (int (length roots)) d;
          d = (if success then d else incrementStat statSectorsCheckFailed (int (length roots)) d)
      in Inr ((), d))"

text \<open>The chunks \<open>roots[start:end]\<close>, each recorded in a transaction of its own.\<close>

function RecordIntegrityCheck :: "bool \<Rightarrow> gotime \<Rightarrow> public_key \<Rightarrow> hash256 list \<Rightarrow> db \<Rightarrow> unit result \<times> db" where
  "RecordIntegrityCheck success nextCheck hostKey roots d =
     (if roots = [] then (Inr (), d)
      else case recordIntegrityCheck success nextCheck hostKey (take integrityCheckChunkSize roots) d of
        Inl e \<Rightarrow> (Inl e, d)
      | Inr (_, d') \<Rightarrow> RecordIntegrityCheck success nextCheck hostKey (drop integrityCheckChunkSize roots) d')"
  by pat_completeness auto
termination
  by (relation "measure (\<lambda>(_, _, _, roots, _). length roots)") (auto simp: integrityCheckChunkSize_def)

declare RecordIntegrityCheck.simps [simp del]

text \<open>
  \<open>SectorsForIntegrityCheck\<close> leases the sectors it returns. \<open>locked\<close> are the sectors that
  concurrent transactions hold a lock on, which the query skips.
\<close>

definition integrityCheckClaimInterval :: duration where
  "integrityCheckClaimInterval = 30 * time_minute"

definition SectorsForIntegrityCheck ::
  "gotime \<Rightarrow> (int \<Rightarrow> bool) \<Rightarrow> (sector_row list \<Rightarrow> sector_row list) \<Rightarrow> public_key \<Rightarrow> nat \<Rightarrow> hash256 list tx" where
  "SectorsForIntegrityCheck now locked scan hostKey limit d =
     (let due = (\<lambda>s. sec_host_id s \<noteq> None \<and> sec_host_id s = host_id_of d hostKey \<and>
                     sec_next_check s \<le> now \<and> \<not> locked (sec_id s));
          ids = map sec_id (take limit (stable_sort (\<lambda>a b. sec_next_check a < sec_next_check b) (scan (filter due (tSectors d)))))
      in Inr (map sec_root (filter (\<lambda>s. sec_id s \<in> set ids) (tSectors d)),
              d\<lparr>tSectors := update_rows (\<lambda>s. sec_id s \<in> set ids) (\<lambda>s. s\<lparr>sec_next_check := now + integrityCheckClaimInterval\<rparr>) (tSectors d)\<rparr>))"

section \<open>Pinning sectors\<close>

text \<open>\<open>scanSectorIDs\<close>: the ids, and how many are pinned, unpinned and unpinnable.\<close>

definition scanSectorIDs :: "sector_row list \<Rightarrow> int list \<times> int \<times> int \<times> int" where
  "scanSectorIDs rows =
     (map sec_id rows, cnt is_pinned rows, cnt is_unpinned rows, cnt is_unpinnable rows)"

text \<open>The counter updates at the end of \<open>PinSectors\<close>.\<close>

definition record_pinned :: "int \<Rightarrow> int \<Rightarrow> int \<Rightarrow> db \<Rightarrow> db result" where
  "record_pinned hostID unpinned unpinnable d =
     (let newlyPinned = unpinned + unpinnable;
          d = (if newlyPinned > 0 then incrementStat statPinnedSectors newlyPinned d else d)
      in rbind (if unpinned > 0
                then incrementHostUnpinnedSectors hostID (- unpinned) (incrementStat statUnpinnedSectors (- unpinned) d)
                else Inr d)
           (\<lambda>d. Inr (if unpinnable > 0 then incrementStat statUnpinnableSectors (- unpinnable) d else d)))"

definition PinSectors :: "contract_id \<Rightarrow> hash256 list \<Rightarrow> unit tx" where
  "PinSectors contractID roots d =
     (if roots = [] then Inr ((), d)
      else case csm_by_contract d contractID of
        None \<Rightarrow> Inl ErrNotFound
      | Some m \<Rightarrow>
          (case contract_by_id d contractID of
             None \<Rightarrow> Inl ErrNotFound
           | Some c \<Rightarrow>
               let hostID = ct_host_id c; contractMapID = csm_id m;
                   rows = filter (\<lambda>s. sec_root s \<in> set roots \<and>
                                     (sec_host_id s = None \<or> sec_host_id s = Some hostID) \<and>
                                     (sec_csm s = None \<or> sec_csm s \<noteq> Some contractMapID)) (tSectors d);
                   (sectorIDs, _, unpinned, unpinnable) = scanSectorIDs rows
               in if sectorIDs = [] then Inr ((), d)
                  else
                    let d = d\<lparr>tSectors := update_rows (\<lambda>s. sec_id s \<in> set sectorIDs)
                                (\<lambda>s. s\<lparr>sec_host_id := Some hostID, sec_csm := Some contractMapID\<rparr>) (tSectors d)\<rparr>
                    in rbind (record_pinned hostID unpinned unpinnable d) (\<lambda>d. Inr ((), d))))"

section \<open>Giving up on unpinned sectors\<close>

text \<open>\<open>SELECT host_id, COUNT( * ) ... GROUP BY host_id\<close>\<close>

definition count_by_host :: "sector_row list \<Rightarrow> (int \<times> int) list" where
  "count_by_host rows =
     map (\<lambda>h. (h, cnt (\<lambda>s. sec_host_id s = Some h) rows)) (remdups (List.map_filter sec_host_id rows))"

definition markSectorsUnpinnableBatch ::
  "(sector_row list \<Rightarrow> sector_row list) \<Rightarrow> gotime \<Rightarrow> nat \<Rightarrow> bool tx" where
  "markSectorsUnpinnableBatch scan threshold limit d =
     (let sel = take limit (scan (filter (\<lambda>s. sec_host_id s \<noteq> None \<and> sec_csm s = None \<and> sec_uploaded_at s \<le> threshold) (tSectors d)));
          d = d\<lparr>tSectors := update_rows (\<lambda>s. sec_id s \<in> sec_id ` set sel) (\<lambda>s. s\<lparr>sec_host_id := None, sec_failed_checks := 0\<rparr>) (tSectors d)\<rparr>;
          counts = count_by_host sel;
          unpinnedDeltas = map (\<lambda>(h, n). (h, - n)) counts;
          totalUnpinnable = sum_list (map snd counts)
      in if totalUnpinnable = 0 then Inr (True, d)
         else
           let d = incrementStat statUnpinnableSectors totalUnpinnable d;
               d = incrementStat statUnpinnedSectors (- totalUnpinnable) d
           in rbind (incrementHostsUnpinnedSectors unpinnedDeltas d) (\<lambda>d. Inr (False, d)))"

fun MarkSectorsUnpinnable ::
  "nat \<Rightarrow> (sector_row list \<Rightarrow> sector_row list) \<Rightarrow> gotime \<Rightarrow> db \<Rightarrow> (unit result \<times> db) option" where
  "MarkSectorsUnpinnable 0 scan threshold d = None"
| "MarkSectorsUnpinnable (Suc fuel) scan threshold d =
     (case markSectorsUnpinnableBatch scan threshold 1000 d of
        Inl e \<Rightarrow> Some (Inl e, d)
      | Inr (done, d') \<Rightarrow>
          if done then Some (Inr (), d') else MarkSectorsUnpinnable fuel scan threshold d')"

text \<open>\<open>UnpinnedSectors\<close>: the oldest uploads first, equal times in scan order.\<close>

definition UnpinnedSectors_query :: "(sector_row list \<Rightarrow> sector_row list) \<Rightarrow> public_key \<Rightarrow> nat \<Rightarrow> hash256 list tx" where
  "UnpinnedSectors_query scan hostKey limit d =
     Inr (map sec_root (take limit (stable_sort (\<lambda>a b. sec_uploaded_at a < sec_uploaded_at b)
            (scan (filter (\<lambda>s. sec_host_id s \<noteq> None \<and> sec_host_id s = host_id_of d hostKey \<and> sec_csm s = None) (tSectors d))))), d)"

section \<open>Migrating a sector\<close>

definition MigrateSector :: "gotime \<Rightarrow> hash256 \<Rightarrow> public_key \<Rightarrow> bool tx" where
  "MigrateSector now sectorRoot hostKey d =
     (case find (\<lambda>s. sec_root s = sectorRoot) (tSectors d) of
        None \<Rightarrow> Inr (False, d)
      | Some s \<Rightarrow>
          (case host_id_of d hostKey of
             None \<Rightarrow> Inr (False, d)
           | Some newHostID \<Rightarrow>
               let d = d\<lparr>tSectors := update_rows (\<lambda>s. sec_root s = sectorRoot)
                           (\<lambda>s. s\<lparr>sec_host_id := Some newHostID, sec_csm := None, sec_failed_checks := 0,
                                 sec_num_migrated := sec_num_migrated s + 1, sec_uploaded_at := now\<rparr>) (tSectors d)\<rparr>;
                   d = incrementStat statMigratedSectors 1 d
               in rbind
                    (if sec_csm s \<noteq> None
                     then incrementHostUnpinnedSectors newHostID 1 (incrementStat statUnpinnedSectors 1 (incrementStat statPinnedSectors (- 1) d))
                     else case sec_host_id s of
                       Some oldHostID \<Rightarrow>
                         rbind (incrementHostUnpinnedSectors oldHostID (- 1) d) (incrementHostUnpinnedSectors newHostID 1)
                     | None \<Rightarrow>
                         incrementHostUnpinnedSectors newHostID 1 (incrementStat statUnpinnedSectors 1 (incrementStat statUnpinnableSectors (- 1) d)))
                    (\<lambda>d. Inr (True, d))))"

section \<open>Unpinning the sectors of contracts\<close>

definition markContractBad :: "contract_id \<Rightarrow> unit tx" where
  "markContractBad contractID d =
     (let d' = d\<lparr>tContracts := update_rows (\<lambda>c. ct_contract_id c = contractID) (\<lambda>c. c\<lparr>ct_good := False\<rparr>) (tContracts d)\<rparr>
      in if cnt (\<lambda>c. ct_contract_id c = contractID) (tContracts d) \<noteq> 1 then Inl ErrNotFound else Inr ((), d'))"

text \<open>\<open>DELETE FROM contract_sectors_map\<close> fails while a sector still references the row.\<close>

definition delete_csm :: "int \<Rightarrow> db \<Rightarrow> db result" where
  "delete_csm m d =
     (if (\<exists>s \<in> set (tSectors d). sec_csm s = Some m) then Inl ErrForeignKeyViolation
      else Inr (d\<lparr>tCSM := filter (\<lambda>r. csm_id r \<noteq> m) (tCSM d)\<rparr>))"

definition DeleteContract :: "gotime \<Rightarrow> contract_id \<Rightarrow> unit tx" where
  "DeleteContract now contractID d =
     (case csm_by_contract d contractID of
        None \<Rightarrow> Inl ErrNotFound
      | Some m \<Rightarrow>
          let contractMapID = csm_id m;
              pinned = cnt (\<lambda>s. sec_csm s = Some contractMapID) (tSectors d);
              d = d\<lparr>tSectors := update_rows (\<lambda>s. sec_csm s = Some contractMapID) (\<lambda>s. s\<lparr>sec_csm := None, sec_uploaded_at := now\<rparr>) (tSectors d)\<rparr>
          in rbind (delete_csm contractMapID d) (\<lambda>d.
             rbind (if pinned > 0
                    then case contract_by_id d contractID of
                      None \<Rightarrow> Inl ErrNoRows
                    | Some c \<Rightarrow>
                        incrementHostUnpinnedSectors (ct_host_id c) pinned
                          (incrementStat statUnpinnedSectors pinned (incrementStat statPinnedSectors (- pinned) d))
                    else Inr d)
               (markContractBad contractID)))"

text \<open>The two batches of \<open>PruneContractSectorsMap\<close>: unpin the sectors, then delete the rows.\<close>

definition unpin_expired :: "int list \<Rightarrow> sector_row list \<Rightarrow> sector_row list" where
  "unpin_expired toPrune xs =
     fold (\<lambda>m. update_rows (\<lambda>s. sec_csm s = Some m) (\<lambda>s. s\<lparr>sec_csm := None, sec_host_id := None, sec_failed_checks := 0\<rparr>)) toPrune xs"

fun count_unpin_expired :: "int list \<Rightarrow> sector_row list \<Rightarrow> int" where
  "count_unpin_expired [] xs = 0"
| "count_unpin_expired (m # ms) xs =
     cnt (\<lambda>s. sec_csm s = Some m) xs + count_unpin_expired ms (unpin_expired [m] xs)"

fun delete_csms :: "int list \<Rightarrow> db \<Rightarrow> db result" where
  "delete_csms [] d = Inr d"
| "delete_csms (m # ms) d = rbind (delete_csm m d) (delete_csms ms)"

definition PruneContractSectorsMap :: "u64 \<Rightarrow> unit tx" where
  "PruneContractSectorsMap maxBlocksSinceExpiry d =
     (let toPrune = map csm_id (filter (\<lambda>m. case contract_by_id d (csm_contract_id m) of
                        None \<Rightarrow> False
                      | Some c \<Rightarrow> unat (scanned_height (tGlobals d)) \<ge> unat (ct_expiration_height c) + unat maxBlocksSinceExpiry) (tCSM d))
      in if toPrune = [] then Inr ((), d)
         else
           let totalUnpinnable = count_unpin_expired toPrune (tSectors d);
               d = d\<lparr>tSectors := unpin_expired toPrune (tSectors d)\<rparr>;
               d = incrementStat statPinnedSectors (- totalUnpinnable) d;
               d = incrementStat statUnpinnableSectors totalUnpinnable d
           in rbind (delete_csms toPrune d) (\<lambda>d. Inr ((), d)))"

section \<open>The invariant of the store\<close>

text \<open>What the schema guarantees: keys are unique and references point to rows.\<close>

definition sectors_wf :: "db \<Rightarrow> bool" where
  "sectors_wf d \<longleftrightarrow>
     distinct (map sec_id (tSectors d)) \<and> distinct (map sec_root (tSectors d)) \<and>
     (\<forall>s \<in> set (tSectors d). sec_id s < seqSectors d) \<and>
     (\<forall>s \<in> set (tSectors d). sec_host_id s = None \<longrightarrow> sec_csm s = None)"

definition keys_wf :: "db \<Rightarrow> bool" where
  "keys_wf d \<longleftrightarrow>
     distinct (map h_id (tHosts d)) \<and> distinct (map h_public_key (tHosts d)) \<and>
     distinct (map ct_contract_id (tContracts d)) \<and>
     distinct (map csm_id (tCSM d)) \<and> distinct (map csm_contract_id (tCSM d)) \<and>
     (\<forall>m \<in> set (tCSM d). csm_id m < seqCSM d) \<and>
     (\<forall>m \<in> set (tCSM d). csm_contract_id m \<in> ct_contract_id ` set (tContracts d)) \<and>
     (\<forall>c \<in> set (tContracts d). ct_host_id c \<in> h_id ` set (tHosts d))"

text \<open>A pinned sector is on the host of the contract it is pinned to.\<close>

definition pinned_on_host :: "db \<Rightarrow> sector_row \<Rightarrow> bool" where
  "pinned_on_host d s \<longleftrightarrow>
     (\<forall>m. sec_csm s = Some m \<longrightarrow>
        (\<exists>c. contract_of_csm d m = Some c \<and> sec_host_id s = Some (ct_host_id c)))"

definition hosts_known :: "db \<Rightarrow> bool" where
  "hosts_known d \<longleftrightarrow> (\<forall>s \<in> set (tSectors d). \<forall>h. sec_host_id s = Some h \<longrightarrow> h \<in> h_id ` set (tHosts d))"

definition pins_wf :: "db \<Rightarrow> bool" where
  "pins_wf d \<longleftrightarrow> (\<forall>s \<in> set (tSectors d). pinned_on_host d s)"

text \<open>The counters are the true numbers.\<close>

definition counters_wf :: "db \<Rightarrow> bool" where
  "counters_wf d \<longleftrightarrow>
     sqlStatSelect d statPinnedSectors = cnt is_pinned (tSectors d) \<and>
     sqlStatSelect d statUnpinnedSectors = cnt is_unpinned (tSectors d) \<and>
     sqlStatSelect d statUnpinnableSectors = cnt is_unpinnable (tSectors d) \<and>
     (\<forall>h \<in> set (tHosts d). h_unpinned_sectors h = cnt (unpinned_on (h_id h)) (tSectors d))"

definition store_inv :: "db \<Rightarrow> bool" where
  "store_inv d \<longleftrightarrow> sectors_wf d \<and> keys_wf d \<and> hosts_known d \<and> pins_wf d \<and> counters_wf d"

lemmas class_defs = is_pinned_def is_unpinned_def is_unpinnable_def unpinned_on_def

lemmas inv_defs = sectors_wf_def keys_wf_def hosts_known_def pins_wf_def pinned_on_host_def

lemma cnt_classes: "int (length xs) = cnt is_pinned xs + cnt is_unpinned xs + cnt is_unpinnable xs"
  by (induction xs) (auto simp: class_defs)

section \<open>Preservation: the general step\<close>

text \<open>
  Every operation updates the rows with a property \<open>Q\<close> by a function \<open>f\<close> that keeps their
  keys. What is left to show for an operation is that its counter updates are the change of
  the numbers.
\<close>

lemma contract_of_csm_frame:
  "tCSM d' = tCSM d \<Longrightarrow> tContracts d' = tContracts d \<Longrightarrow> contract_of_csm d' m = contract_of_csm d m"
  by (simp add: contract_of_csm_def contract_by_id_def split: option.splits)

lemma pinned_on_host_frame:
  "tCSM d' = tCSM d \<Longrightarrow> tContracts d' = tContracts d \<Longrightarrow> pinned_on_host d' s = pinned_on_host d s"
  by (simp add: pinned_on_host_def contract_of_csm_frame[of d' d])

text \<open>The numbers change by the rows that enter and leave a class.\<close>

definition counter_step :: "db \<Rightarrow> db \<Rightarrow> (sector_row \<Rightarrow> bool) \<Rightarrow> (sector_row \<Rightarrow> sector_row) \<Rightarrow> bool" where
  "counter_step d d' Q f \<longleftrightarrow>
     sqlStatSelect d' statPinnedSectors = sqlStatSelect d statPinnedSectors
       - cnt (\<lambda>s. is_pinned s \<and> Q s) (tSectors d) + cnt (\<lambda>s. Q s \<and> is_pinned (f s)) (tSectors d) \<and>
     sqlStatSelect d' statUnpinnedSectors = sqlStatSelect d statUnpinnedSectors
       - cnt (\<lambda>s. is_unpinned s \<and> Q s) (tSectors d) + cnt (\<lambda>s. Q s \<and> is_unpinned (f s)) (tSectors d) \<and>
     sqlStatSelect d' statUnpinnableSectors = sqlStatSelect d statUnpinnableSectors
       - cnt (\<lambda>s. is_unpinnable s \<and> Q s) (tSectors d) + cnt (\<lambda>s. Q s \<and> is_unpinnable (f s)) (tSectors d) \<and>
     (\<forall>h' \<in> set (tHosts d'). \<exists>h \<in> set (tHosts d). h_id h = h_id h' \<and>
        h_unpinned_sectors h' = h_unpinned_sectors h
        - cnt (\<lambda>s. unpinned_on (h_id h) s \<and> Q s) (tSectors d) + cnt (\<lambda>s. Q s \<and> unpinned_on (h_id h) (f s)) (tSectors d))"

lemma counters_wf_step:
  assumes "counters_wf d" and s': "tSectors d' = update_rows Q f (tSectors d)" and step: "counter_step d d' Q f"
  shows "counters_wf d'"
proof -
  have "h_unpinned_sectors h' = cnt (unpinned_on (h_id h')) (tSectors d')" if h': "h' \<in> set (tHosts d')" for h'
  proof -
    from step h' obtain h where h: "h \<in> set (tHosts d)" "h_id h = h_id h'"
      "h_unpinned_sectors h' = h_unpinned_sectors h
       - cnt (\<lambda>s. unpinned_on (h_id h) s \<and> Q s) (tSectors d) + cnt (\<lambda>s. Q s \<and> unpinned_on (h_id h) (f s)) (tSectors d)"
      unfolding counter_step_def by blast
    from assms(1) h(1) have "h_unpinned_sectors h = cnt (unpinned_on (h_id h)) (tSectors d)"
      by (simp add: counters_wf_def)
    with h show ?thesis by (simp add: s' cnt_update_rows)
  qed
  with assms show ?thesis
    by (simp add: counters_wf_def counter_step_def cnt_update_rows)
qed

text \<open>A step on sectors and hosts that leaves contracts and their sector maps alone.\<close>

definition row_step :: "db \<Rightarrow> db \<Rightarrow> (sector_row \<Rightarrow> bool) \<Rightarrow> (sector_row \<Rightarrow> sector_row) \<Rightarrow> bool" where
  "row_step d d' Q f \<longleftrightarrow>
     tSectors d' = update_rows Q f (tSectors d) \<and>
     (\<forall>s. sec_id (f s) = sec_id s \<and> sec_root (f s) = sec_root s) \<and>
     tCSM d' = tCSM d \<and> tContracts d' = tContracts d \<and> seqSectors d' = seqSectors d \<and> seqCSM d' = seqCSM d \<and>
     map h_id (tHosts d') = map h_id (tHosts d) \<and> map h_public_key (tHosts d') = map h_public_key (tHosts d)"

definition new_rows_ok :: "db \<Rightarrow> (sector_row \<Rightarrow> bool) \<Rightarrow> (sector_row \<Rightarrow> sector_row) \<Rightarrow> bool" where
  "new_rows_ok d Q f \<longleftrightarrow>
     (\<forall>s \<in> set (tSectors d). Q s \<longrightarrow> pinned_on_host d (f s) \<and>
       (sec_host_id (f s) = None \<longrightarrow> sec_csm (f s) = None) \<and>
       (\<forall>h. sec_host_id (f s) = Some h \<longrightarrow> h \<in> h_id ` set (tHosts d)))"

lemma store_inv_step:
  assumes inv: "store_inv d" and row: "row_step d d' Q f" and new: "new_rows_ok d Q f" and c: "counter_step d d' Q f"
  shows "store_inv d'"
proof -
  from row have s': "tSectors d' = update_rows Q f (tSectors d)" by (simp add: row_step_def)
  have ids: "h_id ` set (tHosts d') = h_id ` set (tHosts d)"
    using row unfolding row_step_def by (metis set_map)
  from inv row new have "sectors_wf d'"
    by (auto simp: store_inv_def sectors_wf_def row_step_def new_rows_ok_def map_update_rows ball_update_rows)
  moreover from inv row ids have "keys_wf d'"
    by (simp add: store_inv_def keys_wf_def row_step_def)
  moreover from inv new ids have "hosts_known d'"
    by (auto simp: store_inv_def hosts_known_def new_rows_ok_def s' ball_update_rows)
  moreover have "pins_wf d'"
  proof -
    have "pinned_on_host d' s = pinned_on_host d s" for s
      using row by (intro pinned_on_host_frame) (simp_all add: row_step_def)
    moreover from inv have "\<forall>s \<in> set (tSectors d). pinned_on_host d s"
      by (simp add: store_inv_def pins_wf_def)
    moreover from new have "\<forall>s \<in> set (tSectors d). Q s \<longrightarrow> pinned_on_host d (f s)"
      by (simp add: new_rows_ok_def)
    ultimately show ?thesis by (simp add: pins_wf_def s' ball_update_rows)
  qed
  moreover from inv have "counters_wf d'"
    by (intro counters_wf_step[OF _ s' c]) (simp add: store_inv_def)
  ultimately show ?thesis by (simp add: store_inv_def)
qed

section \<open>Preservation: the operations\<close>

lemma store_invD:
  assumes "store_inv d"
  shows "distinct (map sec_id (tSectors d))" "distinct (map sec_root (tSectors d))" "distinct (tSectors d)"
    "\<And>s. s \<in> set (tSectors d) \<Longrightarrow> sec_host_id s = None \<Longrightarrow> sec_csm s = None"
    "\<And>s h. s \<in> set (tSectors d) \<Longrightarrow> sec_host_id s = Some h \<Longrightarrow> h \<in> h_id ` set (tHosts d)"
    "\<And>s. s \<in> set (tSectors d) \<Longrightarrow> pinned_on_host d s"
    "distinct (map h_id (tHosts d))"
  using assms by (auto simp: store_inv_def sectors_wf_def keys_wf_def hosts_known_def pins_wf_def distinct_map)

lemma updateSectorStats_sel [store_simps]:
  "sqlStatSelect (updateSectorStats p u n l d) m =
     sqlStatSelect d m + (if m = statPinnedSectors then p else if m = statUnpinnedSectors then u
       else if m = statUnpinnableSectors then n else if m = statSectorsLost then l else 0)"
  by (simp add: updateSectorStats_def store_simps)

lemma updateSectorStats_frame [store_simps]:
  "tSectors (updateSectorStats p u n l d) = tSectors d" "tHosts (updateSectorStats p u n l d) = tHosts d"
  "tCSM (updateSectorStats p u n l d) = tCSM d" "tContracts (updateSectorStats p u n l d) = tContracts d"
  "seqSectors (updateSectorStats p u n l d) = seqSectors d" "seqCSM (updateSectorStats p u n l d) = seqCSM d"
  by (simp_all add: updateSectorStats_def store_simps)

lemma sqlStatSelect_update [store_simps]:
  "sqlStatSelect (d\<lparr>tSectors := ss\<rparr>) n = sqlStatSelect d n" "sqlStatSelect (d\<lparr>tHosts := hs\<rparr>) n = sqlStatSelect d n"
  "sqlStatSelect (d\<lparr>tContracts := cs\<rparr>) n = sqlStatSelect d n" "sqlStatSelect (d\<lparr>tCSM := ms\<rparr>) n = sqlStatSelect d n"
  by (simp_all add: sqlStatSelect_def)

text \<open>Detaching sectors of a host.\<close>

lemma detach_sectors_inv:
  assumes inv: "store_inv d" and sel: "set rows \<subseteq> {s \<in> set (tSectors d). sec_host_id s = Some hostID}"
    and dist: "distinct rows" and eq: "detach_sectors hostID rows d = Inr d'"
  shows "store_inv d'"
proof -
  let ?Q = "\<lambda>s. sec_id s \<in> sec_id ` set rows"
  let ?f = "\<lambda>s. s\<lparr>sec_host_id := None, sec_csm := None\<rparr>"
  note D = store_invD[OF inv]
  from sel have sub: "set rows \<subseteq> set (tSectors d)" by blast
  note cs = cnt_selected[OF D(1) sub dist]
  let ?u = "cnt (\<lambda>s. \<not> is_pinned s) rows"
  let ?lost = "cnt (counts_as_lost d) rows"
  from eq have hosts': "tHosts d' = update_rows (\<lambda>h. h_id h = hostID) (\<lambda>h. h\<lparr>h_unpinned_sectors := h_unpinned_sectors h + - ?u\<rparr>)
        (update_rows (\<lambda>h. h_id h = hostID) (\<lambda>h. h\<lparr>h_lost_sectors := h_lost_sectors h + ?lost\<rparr>) (tHosts d))"
    and stat': "\<And>n. sqlStatSelect d' n = sqlStatSelect d n + (if n = statPinnedSectors then - cnt is_pinned rows
        else if n = statUnpinnedSectors then - ?u else if n = statUnpinnableSectors then cnt is_pinned rows + ?u
        else if n = statSectorsLost then ?lost else 0)"
    and rest': "tSectors d' = update_rows ?Q ?f (tSectors d)" "tCSM d' = tCSM d" "tContracts d' = tContracts d"
        "seqSectors d' = seqSectors d" "seqCSM d' = seqCSM d"
    by (auto simp: detach_sectors_def scanLostSectorIDs_def Let_def incrementHostUnpinnedSectors_eq store_simps)
  have row: "row_step d d' ?Q ?f"
    by (simp add: row_step_def rest' hosts' map_update_rows)
  have new: "new_rows_ok d ?Q ?f"
    by (simp add: new_rows_ok_def pinned_on_host_def)
  have u: "cnt is_unpinned rows = ?u"
    using sel by (intro cnt_cong) (auto simp: class_defs)
  have n: "cnt is_unpinnable rows = 0"
    using sel by (auto simp: cnt_zero_iff class_defs)
  have len: "cnt (\<lambda>s. True) rows = cnt is_pinned rows + ?u"
    using cnt_split[of "\<lambda>_. True" rows is_pinned] by simp
  have h: "cnt (unpinned_on h) rows = (if h = hostID then ?u else 0)" for h
    using sel by (auto simp: cnt_zero_iff class_defs intro!: cnt_cong)
  have fs: "\<not> is_pinned (?f s)" "\<not> is_unpinned (?f s)" "is_unpinnable (?f s)" "\<not> unpinned_on h (?f s)" for s h
    by (simp_all add: class_defs)
  have "counter_step d d' ?Q ?f"
    unfolding counter_step_def cs stat' hosts' ball_update_rows
    using cs[of "\<lambda>_. True"] u n len h fs by auto
  with inv row new show ?thesis by (rule store_inv_step)
qed

lemma MarkSectorsLost_inv:
  assumes inv: "store_inv d" and eq: "MarkSectorsLost hostKey roots d = Inr (x, d')"
  shows "store_inv d'"
proof -
  have "store_inv d''" if "detach_sectors hostID (filter (\<lambda>s. sec_host_id s = Some hostID \<and> sec_root s \<in> set roots) (tSectors d)) d = Inr d''"
    for hostID d''
    using store_invD(3)[OF inv] by (intro detach_sectors_inv[OF inv _ _ that]) auto
  with inv eq show ?thesis
    by (auto simp: MarkSectorsLost_def Let_def rbind_eq_Inr split: if_splits option.splits)
qed

lemma markFailingSectorsLostBatch_inv:
  assumes scan: "\<And>ys. mset (scan ys) = mset ys" and inv: "store_inv d"
    and eq: "markFailingSectorsLostBatch scan hostKey maxChecks batchSize d = Inr (n, d')"
  shows "store_inv d'"
proof -
  have "store_inv d''" if "detach_sectors hostID (take batchSize (scan (filter (\<lambda>s. sec_host_id s = Some hostID \<and> int maxChecks \<le> sec_failed_checks s) (tSectors d)))) d = Inr d''"
    for hostID d''
    using distinct_take_scan[OF scan store_invD(3)[OF inv], of batchSize "\<lambda>s. sec_host_id s = Some hostID \<and> int maxChecks \<le> sec_failed_checks s"]
    by (intro detach_sectors_inv[OF inv _ _ that]) auto
  with inv eq show ?thesis
    by (auto simp: markFailingSectorsLostBatch_def Let_def rbind_eq_Inr split: if_splits option.splits)
qed

text \<open>Updates that keep host and contract of every sector.\<close>

lemma store_inv_same_place:
  assumes inv: "store_inv d" and row: "row_step d d' Q f" and hosts: "tHosts d' = tHosts d"
    and f: "\<And>s. sec_host_id (f s) = sec_host_id s \<and> sec_csm (f s) = sec_csm s"
    and stats: "\<And>n. n \<in> {statPinnedSectors, statUnpinnedSectors, statUnpinnableSectors} \<Longrightarrow> sqlStatSelect d' n = sqlStatSelect d n"
  shows "store_inv d'"
proof -
  have new: "new_rows_ok d Q f"
    using store_invD(4,5,6)[OF inv] by (auto simp: new_rows_ok_def f pinned_on_host_def)
  have comm: "cnt (\<lambda>s. P s \<and> Q s) xs = cnt (\<lambda>s. Q s \<and> P s) xs" for P :: "sector_row \<Rightarrow> bool" and xs
    by (rule cnt_cong) auto
  have fs: "is_pinned (f s) = is_pinned s" "is_unpinned (f s) = is_unpinned s" "is_unpinnable (f s) = is_unpinnable s"
    "unpinned_on h (f s) = unpinned_on h s" for s h by (simp_all add: class_defs f)
  have "counter_step d d' Q f"
    unfolding counter_step_def hosts fs comm by (auto simp: stats)
  with inv row new show ?thesis by (rule store_inv_step)
qed

lemma recordIntegrityCheck_inv:
  assumes "store_inv d" and "recordIntegrityCheck success nextCheck hostKey roots d = Inr (x, d')"
  shows "store_inv d'"
proof -
  let ?Q = "\<lambda>s. sec_host_id s \<noteq> None \<and> sec_host_id s = host_id_of d hostKey \<and> sec_root s \<in> set roots"
  let ?f = "\<lambda>s. s\<lparr>sec_next_check := nextCheck, sec_failed_checks := (if success then 0 else sec_failed_checks s + 1)\<rparr>"
  have "row_step d d' ?Q ?f \<and> tHosts d' = tHosts d \<and>
     (\<forall>n \<in> {statPinnedSectors, statUnpinnedSectors, statUnpinnableSectors}. sqlStatSelect d' n = sqlStatSelect d n)"
    using assms(2) by (cases success) (auto simp: recordIntegrityCheck_def Let_def row_step_def store_simps)
  then show ?thesis by (intro store_inv_same_place[OF assms(1), where Q = ?Q and f = ?f]) auto
qed

lemma SectorsForIntegrityCheck_inv:
  assumes "store_inv d" and "SectorsForIntegrityCheck now locked scan hostKey limit d = Inr (x, d')"
  shows "store_inv d'"
proof -
  let ?f = "\<lambda>s. s\<lparr>sec_next_check := now + integrityCheckClaimInterval\<rparr>"
  obtain Q where "tSectors d' = update_rows Q ?f (tSectors d)" "d' = d\<lparr>tSectors := update_rows Q ?f (tSectors d)\<rparr>"
    using assms(2) by (auto simp: SectorsForIntegrityCheck_def Let_def)
  then show ?thesis
    by (intro store_inv_same_place[OF assms(1), where Q = Q and f = ?f]) (auto simp: row_step_def store_simps)
qed

text \<open>Pinning sectors to a contract.\<close>

lemma find_key_Some:
  "distinct (map key xs) \<Longrightarrow> x \<in> set xs \<Longrightarrow> find (\<lambda>y. key y = key x) xs = Some x"
  by (induction xs) (auto simp: image_iff)

lemma find_SomeD: "find P xs = Some x \<Longrightarrow> x \<in> set xs \<and> P x"
  by (induction xs) (auto split: if_splits)

lemma contract_of_csm_by_contract:
  assumes "keys_wf d" and "csm_by_contract d i = Some m" and "contract_by_id d i = Some c"
  shows "contract_of_csm d (csm_id m) = Some c"
proof -
  from assms(2) have m: "m \<in> set (tCSM d)" "csm_contract_id m = i"
    by (auto simp: csm_by_contract_def dest: find_SomeD)
  with assms(1) have "find (\<lambda>r. csm_id r = csm_id m) (tCSM d) = Some m"
    by (intro find_key_Some) (simp_all add: keys_wf_def)
  with m assms(3) show ?thesis by (simp add: contract_of_csm_def)
qed

lemma record_pinned_effect:
  assumes eq: "record_pinned hostID u n d = Inr d'" and "0 \<le> u" "0 \<le> n"
  shows "tHosts d' = update_rows (\<lambda>h. h_id h = hostID) (\<lambda>h. h\<lparr>h_unpinned_sectors := h_unpinned_sectors h + - u\<rparr>) (tHosts d)"
    and "sqlStatSelect d' k = sqlStatSelect d k + (if k = statPinnedSectors then u + n
        else if k = statUnpinnedSectors then - u else if k = statUnpinnableSectors then - n else 0)"
    and "tSectors d' = tSectors d" "tCSM d' = tCSM d" "tContracts d' = tContracts d" "seqSectors d' = seqSectors d" "seqCSM d' = seqCSM d"
proof -
  let ?hs = "update_rows (\<lambda>h. h_id h = hostID) (\<lambda>h. h\<lparr>h_unpinned_sectors := h_unpinned_sectors h + - u\<rparr>) (tHosts d)"
  have d': "d' = incrementStat statUnpinnableSectors (- n) ((incrementStat statUnpinnedSectors (- u) (incrementStat statPinnedSectors (u + n) d))\<lparr>tHosts := ?hs\<rparr>)"
  proof (cases "u = 0")
    case True
    then have "?hs = tHosts d" by (intro update_rows_id) simp
    with True assms show ?thesis
      by (auto simp: record_pinned_def Let_def incrementStat_def split: if_splits)
  next
    case False
    with assms show ?thesis
      by (auto simp: record_pinned_def Let_def rbind_eq_Inr incrementHostUnpinnedSectors_eq store_simps incrementStat_def[of _ 0] split: if_splits)
  qed
  show "tHosts d' = ?hs" "sqlStatSelect d' k = sqlStatSelect d k + (if k = statPinnedSectors then u + n
        else if k = statUnpinnedSectors then - u else if k = statUnpinnableSectors then - n else 0)"
    "tSectors d' = tSectors d" "tCSM d' = tCSM d" "tContracts d' = tContracts d" "seqSectors d' = seqSectors d" "seqCSM d' = seqCSM d"
    unfolding d' by (simp_all add: store_simps)
qed

lemma PinSectors_inv:
  assumes inv: "store_inv d" and eq: "PinSectors contractID roots d = Inr (x, d')"
  shows "store_inv d'"
proof (cases "d' = d")
  case True
  with inv show ?thesis by simp
next
  case False
  with eq obtain m c where m: "csm_by_contract d contractID = Some m" and c: "contract_by_id d contractID = Some c"
    by (auto simp: PinSectors_def split: if_splits option.splits)
  let ?h = "ct_host_id c" and ?m = "csm_id m"
  let ?P = "\<lambda>s. sec_root s \<in> set roots \<and> (sec_host_id s = None \<or> sec_host_id s = Some ?h) \<and> (sec_csm s = None \<or> sec_csm s \<noteq> Some ?m)"
  define rows where "rows = filter ?P (tSectors d)"
  let ?Q = "\<lambda>s. sec_id s \<in> sec_id ` set rows"
  let ?f = "\<lambda>s. s\<lparr>sec_host_id := Some ?h, sec_csm := Some ?m\<rparr>"
  note D = store_invD[OF inv]
  have sub: "set rows \<subseteq> set (tSectors d)" and dist: "distinct rows" using D(3) by (auto simp: rows_def)
  note cs = cnt_selected[OF D(1) sub dist]
  let ?u = "cnt is_unpinned rows" and ?n = "cnt is_unpinnable rows"
  let ?d1 = "d\<lparr>tSectors := update_rows ?Q ?f (tSectors d)\<rparr>"
  from eq False m c have "record_pinned ?h ?u ?n ?d1 = Inr d'"
    by (simp add: PinSectors_def scanSectorIDs_def Let_def rbind_eq_Inr rows_def[symmetric] split: if_splits)
  note eff = record_pinned_effect[OF this cnt_nonneg cnt_nonneg]
  have hosts': "tHosts d' = update_rows (\<lambda>h. h_id h = ?h) (\<lambda>h. h\<lparr>h_unpinned_sectors := h_unpinned_sectors h + - ?u\<rparr>) (tHosts d)"
    and stat': "\<And>n. sqlStatSelect d' n = sqlStatSelect d n + (if n = statPinnedSectors then ?u + ?n
        else if n = statUnpinnedSectors then - ?u else if n = statUnpinnableSectors then - ?n else 0)"
    and rest': "tSectors d' = update_rows ?Q ?f (tSectors d)" "tCSM d' = tCSM d" "tContracts d' = tContracts d"
        "seqSectors d' = seqSectors d" "seqCSM d' = seqCSM d"
    by (simp_all add: eff store_simps)
  have row: "row_step d d' ?Q ?f"
    by (simp add: row_step_def rest' hosts' map_update_rows)
  have "contract_of_csm d ?m = Some c"
    using inv m c by (intro contract_of_csm_by_contract) (simp_all add: store_inv_def)
  moreover have "?h \<in> h_id ` set (tHosts d)"
    using inv c by (auto simp: store_inv_def keys_wf_def contract_by_id_def dest: find_SomeD)
  ultimately have new: "new_rows_ok d ?Q ?f"
    by (simp add: new_rows_ok_def pinned_on_host_def)
  have len: "cnt (\<lambda>s. True) rows = cnt is_pinned rows + ?u + ?n"
    using cnt_classes[of rows] by simp
  have h: "cnt (unpinned_on h) rows = (if h = ?h then ?u else 0)" for h
    by (auto simp: cnt_zero_iff class_defs rows_def intro!: cnt_cong)
  have fs: "is_pinned (?f s)" "\<not> is_unpinned (?f s)" "\<not> is_unpinnable (?f s)" "\<not> unpinned_on h (?f s)" for s h
    by (simp_all add: class_defs)
  have "counter_step d d' ?Q ?f"
    unfolding counter_step_def cs stat' hosts' ball_update_rows
    using cs[of "\<lambda>_. True"] len h fs by auto
  with inv row new show ?thesis by (rule store_inv_step)
qed

text \<open>Giving up on unpinned sectors: the deltas per host add up.\<close>

fun delta_of :: "int \<Rightarrow> (int \<times> int) list \<Rightarrow> int" where
  "delta_of h [] = 0"
| "delta_of h ((k, v) # ds) = (if k = h then v else 0) + delta_of h ds"

lemma delta_of_mset: "mset xs = mset ys \<Longrightarrow> delta_of h xs = delta_of h ys"
proof -
  have "delta_of h xs = sum_mset (image_mset (\<lambda>(k, v). if k = h then v else 0) (mset xs))" for xs
    by (induction xs) auto
  then show "mset xs = mset ys \<Longrightarrow> ?thesis" by simp
qed

lemma increment_hosts_loop_effect:
  "increment_hosts_loop ds d = Inr d' \<Longrightarrow>
   d' = d\<lparr>tHosts := map (\<lambda>h. h\<lparr>h_unpinned_sectors := h_unpinned_sectors h + delta_of (h_id h) ds\<rparr>) (tHosts d)\<rparr>"
proof (induction ds arbitrary: d)
  case (Cons x ds)
  obtain k v where x: "x = (k, v)" by (cases x)
  from Cons.prems x obtain d1 where "incrementHostUnpinnedSectors k v d = Inr d1" "increment_hosts_loop ds d1 = Inr d'"
    by (auto simp: rbind_eq_Inr)
  with Cons.IH[of d1] show ?case
    by (auto simp: x incrementHostUnpinnedSectors_eq update_rows_def)
qed simp

lemma incrementHostsUnpinnedSectors_effect:
  assumes "incrementHostsUnpinnedSectors ds d = Inr d'"
  shows "d' = d\<lparr>tHosts := map (\<lambda>h. h\<lparr>h_unpinned_sectors := h_unpinned_sectors h + delta_of (h_id h) ds\<rparr>) (tHosts d)\<rparr>"
proof (cases "ds = []")
  case True
  with assms show ?thesis by (simp add: incrementHostsUnpinnedSectors_def)
next
  case False
  with assms have "increment_hosts_loop (stable_sort (\<lambda>a b. fst a < fst b) ds) d = Inr d'"
    by (simp add: incrementHostsUnpinnedSectors_def)
  from increment_hosts_loop_effect[OF this] show ?thesis
    by (simp add: delta_of_mset[OF mset_stable_sort])
qed

lemma delta_of_map:
  "distinct hs \<Longrightarrow> delta_of h (map (\<lambda>k. (k, g k)) hs) = (if h \<in> set hs then g h else 0)"
  by (induction hs) auto

lemma count_by_host_delta:
  "delta_of h (map (\<lambda>(h, n). (h, - n)) (count_by_host rows)) = - cnt (\<lambda>s. sec_host_id s = Some h) rows"
proof -
  have "h \<notin> set (List.map_filter sec_host_id rows) \<Longrightarrow> cnt (\<lambda>s. sec_host_id s = Some h) rows = 0"
    by (force simp: cnt_zero_iff List.map_filter_def)
  then show ?thesis
    by (simp add: count_by_host_def comp_def delta_of_map[where g = "\<lambda>h. - cnt (\<lambda>s. sec_host_id s = Some h) rows"])
qed

lemma sum_cnt_by_host:
  "finite H \<Longrightarrow> \<forall>s \<in> set rows. \<exists>h \<in> H. sec_host_id s = Some h \<Longrightarrow>
     (\<Sum>h\<in>H. cnt (\<lambda>s. sec_host_id s = Some h) rows) = int (length rows)"
proof (induction rows)
  case (Cons r rows)
  from Cons.prems obtain k where "k \<in> H" "sec_host_id r = Some k" by auto
  with Cons show ?case by (simp add: sum.distrib)
qed simp

lemma count_by_host_total:
  "\<forall>s \<in> set rows. sec_host_id s \<noteq> None \<Longrightarrow> sum_list (map snd (count_by_host rows)) = int (length rows)"
proof -
  assume a: "\<forall>s \<in> set rows. sec_host_id s \<noteq> None"
  let ?hs = "remdups (List.map_filter sec_host_id rows)"
  have "sum_list (map snd (count_by_host rows)) = (\<Sum>h\<in>set ?hs. cnt (\<lambda>s. sec_host_id s = Some h) rows)"
    by (simp add: count_by_host_def comp_def sum_list_distinct_conv_sum_set)
  also have "\<dots> = int (length rows)"
    using a by (intro sum_cnt_by_host) (force simp: List.map_filter_def)+
  finally show ?thesis .
qed

lemma markSectorsUnpinnableBatch_effect:
  assumes scan: "\<And>ys. mset (scan ys) = mset ys" and inv: "store_inv d"
    and eq: "markSectorsUnpinnableBatch scan threshold limit d = Inr (fin, d')"
  defines "sel \<equiv> take limit (scan (filter (\<lambda>s. sec_host_id s \<noteq> None \<and> sec_csm s = None \<and> sec_uploaded_at s \<le> threshold) (tSectors d)))"
  shows "tSectors d' = update_rows (\<lambda>s. sec_id s \<in> sec_id ` set sel) (\<lambda>s. s\<lparr>sec_host_id := None, sec_failed_checks := 0\<rparr>) (tSectors d)"
    and "fin \<longleftrightarrow> sel = []" and "store_inv d'"
proof -
  let ?Q = "\<lambda>s. sec_id s \<in> sec_id ` set sel"
  let ?f = "\<lambda>s. s\<lparr>sec_host_id := None, sec_failed_checks := 0\<rparr>"
  note D = store_invD[OF inv]
  have sel: "set sel \<subseteq> {s \<in> set (tSectors d). sec_host_id s \<noteq> None \<and> sec_csm s = None}" and dist: "distinct sel"
    using distinct_take_scan[OF scan D(3), of limit "\<lambda>s. sec_host_id s \<noteq> None \<and> sec_csm s = None \<and> sec_uploaded_at s \<le> threshold"]
    unfolding sel_def by auto
  from sel have sub: "set sel \<subseteq> set (tSectors d)" by blast
  note cs = cnt_selected[OF D(1) sub dist]
  have total: "sum_list (map snd (count_by_host sel)) = int (length sel)"
    using sel by (intro count_by_host_total) auto
  let ?d1 = "d\<lparr>tSectors := update_rows ?Q ?f (tSectors d)\<rparr>"
  let ?n = "int (length sel)"
  have f: "fin \<longleftrightarrow> sel = []"
    using eq unfolding markSectorsUnpinnableBatch_def Let_def sel_def[symmetric] total
    by (auto simp: rbind_eq_Inr split: if_splits)
  have d': "d' = (incrementStat statUnpinnedSectors (- ?n) (incrementStat statUnpinnableSectors ?n ?d1))
      \<lparr>tHosts := map (\<lambda>h. h\<lparr>h_unpinned_sectors := h_unpinned_sectors h - cnt (\<lambda>s. sec_host_id s = Some (h_id h)) sel\<rparr>) (tHosts d)\<rparr>"
  proof (cases "sel = []")
    case True
    with eq show ?thesis
      unfolding markSectorsUnpinnableBatch_def Let_def sel_def[symmetric] total
      by (auto simp: incrementStat_def map_idI)
  next
    case False
    with eq have "incrementHostsUnpinnedSectors (map (\<lambda>(h, n). (h, - n)) (count_by_host sel))
        (incrementStat statUnpinnedSectors (- ?n) (incrementStat statUnpinnableSectors ?n ?d1)) = Inr d'"
      unfolding markSectorsUnpinnableBatch_def Let_def sel_def[symmetric] total
      by (simp add: rbind_eq_Inr)
    from incrementHostsUnpinnedSectors_effect[OF this] show ?thesis
      by (simp add: count_by_host_delta store_simps)
  qed
  then have s': "tSectors d' = update_rows ?Q ?f (tSectors d)" by (simp add: store_simps)
  have row: "row_step d d' ?Q ?f" by (simp add: row_step_def d' store_simps comp_def)
  have none: "sec_csm s = None" if "s \<in> set (tSectors d)" "?Q s" for s
    using key_selected_iff[OF D(1) sub that(1)] that(2) sel by auto
  then have new: "new_rows_ok d ?Q ?f" by (simp add: new_rows_ok_def pinned_on_host_def)
  have classes: "cnt is_pinned sel = 0" "cnt is_unpinned sel = ?n" "cnt is_unpinnable sel = 0"
    "\<And>h. cnt (unpinned_on h) sel = cnt (\<lambda>s. sec_host_id s = Some h) sel"
  proof -
    show "cnt is_pinned sel = 0" "cnt is_unpinnable sel = 0" using sel by (auto simp: cnt_zero_iff class_defs)
    then show "cnt is_unpinned sel = ?n" using cnt_classes[of sel] by simp
    show "cnt (unpinned_on h) sel = cnt (\<lambda>s. sec_host_id s = Some h) sel" for h
      using sel by (intro cnt_cong) (auto simp: class_defs)
  qed
  have fs: "cnt (\<lambda>s. ?Q s \<and> is_pinned (?f s)) (tSectors d) = 0" "cnt (\<lambda>s. ?Q s \<and> is_unpinned (?f s)) (tSectors d) = 0"
    "cnt (\<lambda>s. ?Q s \<and> unpinned_on h (?f s)) (tSectors d) = 0" for h
    using none by (auto simp: cnt_zero_iff class_defs)
  have fn: "cnt (\<lambda>s. ?Q s \<and> is_unpinnable (?f s)) (tSectors d) = ?n"
  proof -
    have "cnt (\<lambda>s. ?Q s \<and> is_unpinnable (?f s)) (tSectors d) = cnt ?Q (tSectors d)"
      by (intro cnt_cong) (use none in \<open>auto simp: class_defs\<close>)
    with cs[of "\<lambda>_. True"] show ?thesis by simp
  qed
  have "counter_step d d' ?Q ?f"
    unfolding counter_step_def cs classes fs fn by (auto simp: d' store_simps)
  with inv row new have "store_inv d'" by (rule store_inv_step)
  with s' f show "tSectors d' = update_rows ?Q ?f (tSectors d)" "fin \<longleftrightarrow> sel = []" "store_inv d'" by auto
qed

text \<open>Migrating a sector.\<close>

lemma cnt_unique_root:
  assumes "distinct (map sec_root xs)" and "s \<in> set xs"
  shows "cnt (\<lambda>x. P x \<and> sec_root x = sec_root s) xs = (if P s then 1 else 0)"
  using assms
proof (induction xs)
  case (Cons x xs)
  then show ?case
  proof (cases "x = s")
    case True
    with Cons.prems have "cnt (\<lambda>x. P x \<and> sec_root x = sec_root s) xs = 0"
      by (auto simp: cnt_zero_iff image_iff)
    with True show ?thesis by simp
  next
    case False
    with Cons show ?thesis by (auto simp: image_iff)
  qed
qed simp

lemma MigrateSector_effect:
  assumes inv: "store_inv d" and s: "find (\<lambda>s. sec_root s = r) (tSectors d) = Some s" and h: "host_id_of d hostKey = Some k"
    and eq: "MigrateSector now r hostKey d = Inr (x, d')"
  shows "tSectors d' = update_rows (\<lambda>s. sec_root s = r) (\<lambda>s. s\<lparr>sec_host_id := Some k, sec_csm := None, sec_failed_checks := 0,
                                 sec_num_migrated := sec_num_migrated s + 1, sec_uploaded_at := now\<rparr>) (tSectors d)"
    and "tHosts d' = map (\<lambda>h. h\<lparr>h_unpinned_sectors := h_unpinned_sectors h
           + (if h_id h = k then 1 else 0) - (if unpinned_on (h_id h) s then 1 else 0)\<rparr>) (tHosts d)"
    and "sqlStatSelect d' n = sqlStatSelect d n + (if n = statMigratedSectors then 1 else 0)
       - (if n = statPinnedSectors \<and> is_pinned s then 1 else 0)
       + (if n = statUnpinnedSectors \<and> \<not> is_unpinned s then 1 else 0)
       - (if n = statUnpinnableSectors \<and> is_unpinnable s then 1 else 0)"
    and "tCSM d' = tCSM d" "tContracts d' = tContracts d" "seqSectors d' = seqSectors d" "seqCSM d' = seqCSM d"
  using eq unfolding MigrateSector_def s h option.case Let_def rbind_eq_Inr
  by (auto simp: incrementHostUnpinnedSectors_eq rbind_eq_Inr store_simps class_defs update_rows_def split: if_splits option.splits)

lemma MigrateSector_inv:
  assumes inv: "store_inv d" and eq: "MigrateSector now r hostKey d = Inr (x, d')"
  shows "store_inv d'"
proof (cases "find (\<lambda>s. sec_root s = r) (tSectors d) = None \<or> host_id_of d hostKey = None")
  case True
  with inv eq show ?thesis by (auto simp: MigrateSector_def split: option.splits)
next
  case False
  then obtain s k where s: "find (\<lambda>s. sec_root s = r) (tSectors d) = Some s" and k: "host_id_of d hostKey = Some k" by auto
  note E = MigrateSector_effect[OF inv s k eq]
  note D = store_invD[OF inv]
  let ?Q = "\<lambda>s. sec_root s = r"
  let ?f = "\<lambda>s. s\<lparr>sec_host_id := Some k, sec_csm := None, sec_failed_checks := 0,
                  sec_num_migrated := sec_num_migrated s + 1, sec_uploaded_at := now\<rparr>"
  from s have s_in: "s \<in> set (tSectors d)" "sec_root s = r" by (auto dest: find_SomeD)
  have "k \<in> h_id ` set (tHosts d)" using k by (auto simp: host_id_of_def dest: find_SomeD)
  then have new: "new_rows_ok d ?Q ?f" by (simp add: new_rows_ok_def pinned_on_host_def)
  have row: "row_step d d' ?Q ?f" by (simp add: row_step_def E comp_def)
  have one: "cnt (\<lambda>x. P x \<and> ?Q x) (tSectors d) = (if P s then 1 else 0)" for P
    using cnt_unique_root[OF D(2) s_in(1)] s_in(2) by simp
  have fs: "\<not> is_pinned (?f x)" "is_unpinned (?f x)" "\<not> is_unpinnable (?f x)" "unpinned_on h (?f x) \<longleftrightarrow> h = k" for x h
    by (auto simp: class_defs)
  let ?g = "\<lambda>h. h\<lparr>h_unpinned_sectors := h_unpinned_sectors h + (if h_id h = k then 1 else 0) - (if unpinned_on (h_id h) s then 1 else 0)\<rparr>"
  have hosts: "\<exists>h \<in> set (tHosts d). h_id h = h_id h' \<and>
      h_unpinned_sectors h' = h_unpinned_sectors h - (if unpinned_on (h_id h) s then 1 else 0) + (if h_id h = k then 1 else 0)"
    if "h' \<in> set (tHosts d')" for h'
  proof -
    from that obtain h where "h \<in> set (tHosts d)" "h' = ?g h" unfolding E(2) set_map by blast
    then show ?thesis by (intro bexI[of _ h]) simp_all
  qed
  have new_host: "cnt (\<lambda>x. ?Q x \<and> unpinned_on h (?f x)) (tSectors d) = (if h = k then 1 else 0)" for h
    using one[of "\<lambda>_. True"] fs(4) by simp
  have "counter_step d d' ?Q ?f"
    unfolding counter_step_def one new_host using hosts one[of "\<lambda>_. True"] fs
    by (intro conjI) (simp_all add: E(3) class_defs)
  with inv row new show ?thesis by (rule store_inv_step)
qed

text \<open>Unpinning the sectors of contracts.\<close>

lemma contract_of_csm_delete:
  "m \<noteq> m' \<Longrightarrow> contract_of_csm (d\<lparr>tCSM := filter (\<lambda>r. csm_id r \<noteq> m') (tCSM d)\<rparr>) m = contract_of_csm d m"
proof -
  assume "m \<noteq> m'"
  then have "find (\<lambda>r. csm_id r = m) (filter (\<lambda>r. csm_id r \<noteq> m') xs) = find (\<lambda>r. csm_id r = m) xs" for xs :: "csm_row list"
    by (induction xs) auto
  then show ?thesis by (simp add: contract_of_csm_def contract_by_id_def split: option.splits)
qed

lemma delete_csm_inv:
  assumes inv: "store_inv d" and eq: "delete_csm m d = Inr d'"
  shows "store_inv d'"
proof -
  from eq have d': "d' = d\<lparr>tCSM := filter (\<lambda>r. csm_id r \<noteq> m) (tCSM d)\<rparr>" and free: "\<forall>s \<in> set (tSectors d). sec_csm s \<noteq> Some m"
    by (auto simp: delete_csm_def split: if_splits)
  have "sectors_wf d'" "hosts_known d'" "counters_wf d'"
    using inv by (simp_all add: store_inv_def sectors_wf_def hosts_known_def counters_wf_def d' store_simps)
  moreover have "keys_wf d'"
    using inv by (simp add: store_inv_def keys_wf_def d' distinct_map_filter)
  moreover have "pins_wf d'"
    unfolding pins_wf_def
  proof
    fix s assume s: "s \<in> set (tSectors d')"
    then have "pinned_on_host d s" "sec_csm s \<noteq> Some m" using inv free by (auto simp: store_inv_def pins_wf_def d')
    then show "pinned_on_host d' s" by (auto simp: pinned_on_host_def d' contract_of_csm_delete)
  qed
  ultimately show ?thesis by (simp add: store_inv_def)
qed

lemma delete_csms_inv: "store_inv d \<Longrightarrow> delete_csms ms d = Inr d' \<Longrightarrow> store_inv d'"
  by (induction ms arbitrary: d) (auto simp: rbind_eq_Inr intro: delete_csm_inv)

text \<open>Changing a contract row without its identifier and host.\<close>

lemma find_update_rows:
  assumes "\<And>x. Q x \<Longrightarrow> key (f x) = key x"
  shows "find (\<lambda>x. key x = k) (update_rows Q f xs) = map_option (\<lambda>x. if Q x then f x else x) (find (\<lambda>x. key x = k) xs)"
  using assms by (induction xs) auto

lemma store_inv_update_contracts:
  assumes inv: "store_inv d" and f: "\<And>c. ct_contract_id (f c) = ct_contract_id c \<and> ct_host_id (f c) = ct_host_id c"
  shows "store_inv (d\<lparr>tContracts := update_rows Q f (tContracts d)\<rparr>)" (is "store_inv ?d'")
proof -
  have "sectors_wf ?d'" "hosts_known ?d'" "counters_wf ?d'"
    using inv by (simp_all add: store_inv_def sectors_wf_def hosts_known_def counters_wf_def store_simps)
  moreover have ids: "map ct_contract_id (update_rows Q f (tContracts d)) = map ct_contract_id (tContracts d)"
    using f by (intro map_update_rows) simp
  have "ct_contract_id ` set (update_rows Q f (tContracts d)) = ct_contract_id ` set (tContracts d)"
    using arg_cong[OF ids, of set] by simp
  with inv f ids have "keys_wf ?d'"
    by (simp add: store_inv_def keys_wf_def ball_update_rows)
  moreover have "contract_of_csm ?d' m = map_option (\<lambda>c. if Q c then f c else c) (contract_of_csm d m)" for m
    using f by (auto simp: contract_of_csm_def contract_by_id_def find_update_rows split: option.splits)
  note lookup = this
  have "pinned_on_host ?d' s" if p: "pinned_on_host d s" for s
    unfolding pinned_on_host_def
  proof (intro allI impI)
    fix m assume "sec_csm s = Some m"
    with p obtain c where "contract_of_csm d m = Some c" "sec_host_id s = Some (ct_host_id c)"
      by (auto simp: pinned_on_host_def)
    with f show "\<exists>c. contract_of_csm ?d' m = Some c \<and> sec_host_id s = Some (ct_host_id c)"
      by (intro exI[of _ "if Q c then f c else c"]) (simp add: lookup)
  qed
  with inv have "pins_wf ?d'" by (simp add: store_inv_def pins_wf_def)
  ultimately show ?thesis by (simp add: store_inv_def)
qed

lemma markContractBad_inv: "store_inv d \<Longrightarrow> markContractBad i d = Inr (x, d') \<Longrightarrow> store_inv d'"
  by (auto simp: markContractBad_def Let_def split: if_splits intro: store_inv_update_contracts)

lemma DeleteContract_inv:
  assumes inv: "store_inv d" and eq: "DeleteContract now i d = Inr (x, d')"
  shows "store_inv d'"
proof -
  from eq obtain m where m: "csm_by_contract d i = Some m" by (auto simp: DeleteContract_def split: option.splits)
  let ?m = "csm_id m"
  let ?Q = "\<lambda>s. sec_csm s = Some ?m" and ?f = "\<lambda>s. s\<lparr>sec_csm := None, sec_uploaded_at := now\<rparr>"
  let ?p = "cnt ?Q (tSectors d)"
  define d1 where "d1 = d\<lparr>tSectors := update_rows ?Q ?f (tSectors d)\<rparr>"
  from eq m obtain d2 d3 where d2: "delete_csm ?m d1 = Inr d2" and
    d3: "(if ?p > 0 then case contract_by_id d2 i of None \<Rightarrow> Inl ErrNoRows
          | Some c \<Rightarrow> incrementHostUnpinnedSectors (ct_host_id c) ?p
               (incrementStat statUnpinnedSectors ?p (incrementStat statPinnedSectors (- ?p) d2))
          else Inr d2) = Inr d3" and bad: "markContractBad i d3 = Inr (x, d')"
    by (auto simp: DeleteContract_def Let_def rbind_eq_Inr d1_def)
  note D = store_invD[OF inv]
  from m inv obtain c where c: "contract_by_id d i = Some c"
  proof -
    from m have "m \<in> set (tCSM d)" "csm_contract_id m = i" by (auto simp: csm_by_contract_def dest: find_SomeD)
    with inv obtain c where "c \<in> set (tContracts d)" "ct_contract_id c = i" by (auto simp: store_inv_def keys_wf_def)
    with inv have "contract_by_id d i = Some c"
      unfolding contract_by_id_def using find_key_Some[of ct_contract_id "tContracts d" c] by (simp add: store_inv_def keys_wf_def)
    with that show thesis .
  qed
  have "contract_of_csm d ?m = Some c"
    using inv m c by (intro contract_of_csm_by_contract) (simp_all add: store_inv_def)
  then have on_host: "sec_host_id s = Some (ct_host_id c)" if "s \<in> set (tSectors d)" "?Q s" for s
    using D(6)[OF that(1)] that(2) by (simp add: pinned_on_host_def)
  let ?k = "ct_host_id c"
  let ?hs = "update_rows (\<lambda>h. h_id h = ?k) (\<lambda>h. h\<lparr>h_unpinned_sectors := h_unpinned_sectors h + ?p\<rparr>) (tHosts d)"
  define e where "e = (incrementStat statUnpinnedSectors ?p (incrementStat statPinnedSectors (- ?p) d1))\<lparr>tHosts := ?hs\<rparr>"
  have row: "row_step d e ?Q ?f" by (simp add: row_step_def e_def d1_def store_simps map_update_rows)
  have new: "new_rows_ok d ?Q ?f"
    using on_host D(5) by (auto simp: new_rows_ok_def pinned_on_host_def)
  have cn: "cnt (\<lambda>s. is_pinned s \<and> ?Q s) (tSectors d) = ?p" "cnt (\<lambda>s. is_unpinned s \<and> ?Q s) (tSectors d) = 0"
    "cnt (\<lambda>s. is_unpinnable s \<and> ?Q s) (tSectors d) = 0" "cnt (\<lambda>s. unpinned_on h s \<and> ?Q s) (tSectors d) = 0" for h
    by (auto simp: cnt_zero_iff class_defs intro!: cnt_cong)
  have cf: "cnt (\<lambda>s. ?Q s \<and> is_pinned (?f s)) (tSectors d) = 0" "cnt (\<lambda>s. ?Q s \<and> is_unpinned (?f s)) (tSectors d) = ?p"
    "cnt (\<lambda>s. ?Q s \<and> is_unpinnable (?f s)) (tSectors d) = 0" "cnt (\<lambda>s. ?Q s \<and> unpinned_on h (?f s)) (tSectors d) = (if h = ?k then ?p else 0)" for h
    using on_host by (auto simp: cnt_zero_iff class_defs intro!: cnt_cong)
  have "counter_step d e ?Q ?f"
    unfolding counter_step_def cn cf by (auto simp: e_def d1_def store_simps ball_update_rows)
  with inv row new have e: "store_inv e" by (rule store_inv_step)
  have "store_inv d3"
  proof -
    have "delete_csm ?m e = Inr (e\<lparr>tCSM := filter (\<lambda>r. csm_id r \<noteq> ?m) (tCSM d)\<rparr>)"
      using d2 by (auto simp: delete_csm_def e_def d1_def store_simps split: if_splits)
    moreover have "d3 = e\<lparr>tCSM := filter (\<lambda>r. csm_id r \<noteq> ?m) (tCSM d)\<rparr>"
    proof -
      have d2': "d2 = d1\<lparr>tCSM := filter (\<lambda>r. csm_id r \<noteq> ?m) (tCSM d)\<rparr>"
        using d2 by (auto simp: delete_csm_def d1_def split: if_splits)
      have cd: "contract_by_id d2 i = Some c" using c by (simp add: contract_by_id_def d2' d1_def)
      show ?thesis
      proof (cases "?p > 0")
        case True
        with d3 cd show ?thesis
          by (simp add: incrementHostUnpinnedSectors_eq e_def d2' d1_def store_simps incrementStat_def)
      next
        case False
        then have "?p = 0" using cnt_nonneg[of ?Q "tSectors d"] by linarith
        with d3 show ?thesis by (simp add: e_def d2' d1_def incrementStat_def update_rows_id)
      qed
    qed
    ultimately show ?thesis using delete_csm_inv[OF e] by simp
  qed
  then show ?thesis using bad by (rule markContractBad_inv)
qed

lemma unpin_expired_eq:
  "unpin_expired ms xs = update_rows (\<lambda>s. sec_csm s \<in> Some ` set ms) (\<lambda>s. s\<lparr>sec_csm := None, sec_host_id := None, sec_failed_checks := 0\<rparr>) xs"
proof (induction ms arbitrary: xs)
  case Nil
  show ?case by (simp add: unpin_expired_def update_rows_def)
next
  case (Cons m ms)
  have "unpin_expired (m # ms) xs = unpin_expired ms (unpin_expired [m] xs)" by (simp add: unpin_expired_def)
  also have "\<dots> = update_rows (\<lambda>s. sec_csm s \<in> Some ` set ms) (\<lambda>s. s\<lparr>sec_csm := None, sec_host_id := None, sec_failed_checks := 0\<rparr>) (unpin_expired [m] xs)"
    by (rule Cons.IH)
  also have "\<dots> = update_rows (\<lambda>s. sec_csm s \<in> Some ` set (m # ms)) (\<lambda>s. s\<lparr>sec_csm := None, sec_host_id := None, sec_failed_checks := 0\<rparr>) xs"
    by (auto simp: unpin_expired_def update_rows_def)
  finally show ?case .
qed

lemma count_unpin_expired_eq: "count_unpin_expired ms xs = cnt (\<lambda>s. sec_csm s \<in> Some ` set ms) xs"
proof (induction ms arbitrary: xs)
  case (Cons m ms)
  have "cnt (\<lambda>s. sec_csm s \<in> Some ` set ms) (unpin_expired [m] xs) = cnt (\<lambda>s. sec_csm s \<in> Some ` set ms \<and> sec_csm s \<noteq> Some m) xs"
    by (induction xs) (auto simp: unpin_expired_def)
  moreover have "cnt (\<lambda>s. sec_csm s \<in> Some ` set (m # ms)) xs
      = cnt (\<lambda>s. sec_csm s = Some m) xs + cnt (\<lambda>s. sec_csm s \<in> Some ` set ms \<and> sec_csm s \<noteq> Some m) xs"
    by (induction xs) auto
  ultimately show ?case by (simp only: count_unpin_expired.simps Cons.IH)
qed simp

lemma PruneContractSectorsMap_inv:
  assumes inv: "store_inv d" and eq: "PruneContractSectorsMap blocks d = Inr (x, d')"
  shows "store_inv d'"
proof (cases "d' = d")
  case True
  with inv show ?thesis by simp
next
  case False
  with eq obtain ms where ms: "rbind (delete_csms ms (incrementStat statUnpinnableSectors (count_unpin_expired ms (tSectors d))
      (incrementStat statPinnedSectors (- count_unpin_expired ms (tSectors d)) (d\<lparr>tSectors := unpin_expired ms (tSectors d)\<rparr>)))) (\<lambda>d. Inr ((), d)) = Inr (x, d')"
    by (auto simp: PruneContractSectorsMap_def Let_def split: if_splits)
  let ?Q = "\<lambda>s. sec_csm s \<in> Some ` set ms"
  let ?f = "\<lambda>s. s\<lparr>sec_csm := None, sec_host_id := None, sec_failed_checks := 0\<rparr>"
  let ?e = "incrementStat statUnpinnableSectors (cnt ?Q (tSectors d))
      (incrementStat statPinnedSectors (- cnt ?Q (tSectors d)) (d\<lparr>tSectors := update_rows ?Q ?f (tSectors d)\<rparr>))"
  have row: "row_step d ?e ?Q ?f" by (simp add: row_step_def store_simps)
  have new: "new_rows_ok d ?Q ?f" by (simp add: new_rows_ok_def pinned_on_host_def)
  have cn: "cnt (\<lambda>s. is_pinned s \<and> ?Q s) (tSectors d) = cnt ?Q (tSectors d)" "cnt (\<lambda>s. is_unpinned s \<and> ?Q s) (tSectors d) = 0"
    "cnt (\<lambda>s. is_unpinnable s \<and> ?Q s) (tSectors d) = 0" "cnt (\<lambda>s. unpinned_on h s \<and> ?Q s) (tSectors d) = 0" for h
    by (auto simp: cnt_zero_iff class_defs intro!: cnt_cong)
  have cf: "cnt (\<lambda>s. ?Q s \<and> is_pinned (?f s)) (tSectors d) = 0" "cnt (\<lambda>s. ?Q s \<and> is_unpinned (?f s)) (tSectors d) = 0"
    "cnt (\<lambda>s. ?Q s \<and> is_unpinnable (?f s)) (tSectors d) = cnt ?Q (tSectors d)" "cnt (\<lambda>s. ?Q s \<and> unpinned_on h (?f s)) (tSectors d) = 0" for h
    by (auto simp: class_defs)
  have "counter_step d ?e ?Q ?f"
    unfolding counter_step_def cn cf by (auto simp: store_simps)
  with inv row new have "store_inv ?e" by (rule store_inv_step)
  with ms show ?thesis
    by (auto simp: unpin_expired_eq count_unpin_expired_eq rbind_eq_Inr intro: delete_csms_inv)
qed

section \<open>The loops return\<close>

lemma counter_nonneg:
  assumes "store_inv d" and "h \<in> set (tHosts d)"
  shows "h_unpinned_sectors h = cnt (unpinned_on (h_id h)) (tSectors d)"
  using assms by (simp add: store_inv_def counters_wf_def)

lemma incrementHostUnpinnedSectors_returns:
  assumes "\<And>h. h \<in> set (tHosts d) \<Longrightarrow> 0 \<le> h_unpinned_sectors h \<and> (h_id h = k \<longrightarrow> 0 \<le> h_unpinned_sectors h + v)"
  shows "\<exists>d'. incrementHostUnpinnedSectors k v d = Inr d'"
proof -
  have "\<forall>h \<in> set (update_rows (\<lambda>h. h_id h = k) (\<lambda>h. h\<lparr>h_unpinned_sectors := h_unpinned_sectors h + v\<rparr>) (tHosts d)). \<not> h_unpinned_sectors h < 0"
    unfolding ball_update_rows using assms by (simp add: not_less)
  then show ?thesis by (auto simp: incrementHostUnpinnedSectors_def Let_def)
qed

lemma detach_sectors_returns:
  assumes inv: "store_inv d" and sel: "set rows \<subseteq> {s \<in> set (tSectors d). sec_host_id s = Some hostID}" and dist: "distinct rows"
  obtains d' where "detach_sectors hostID rows d = Inr d'"
    "tSectors d' = update_rows (\<lambda>s. sec_id s \<in> sec_id ` set rows) (\<lambda>s. s\<lparr>sec_host_id := None, sec_csm := None\<rparr>) (tSectors d)"
    "map (\<lambda>h. (h_id h, h_public_key h)) (tHosts d') = map (\<lambda>h. (h_id h, h_public_key h)) (tHosts d)"
proof -
  from sel have sub: "set rows \<subseteq> set (tSectors d)" by blast
  let ?u = "cnt (\<lambda>s. \<not> is_pinned s) rows"
  have "?u \<le> cnt (unpinned_on hostID) (tSectors d)"
  proof -
    have "?u = cnt (unpinned_on hostID) rows" using sel by (intro cnt_cong) (auto simp: class_defs)
    also have "\<dots> = cnt (\<lambda>s. unpinned_on hostID s \<and> sec_id s \<in> sec_id ` set rows) (tSectors d)"
      using cnt_selected[OF store_invD(1)[OF inv] sub dist] by simp
    also have "\<dots> \<le> cnt (unpinned_on hostID) (tSectors d)" by (rule cnt_mono) simp
    finally show ?thesis .
  qed
  with counter_nonneg[OF inv] have "\<forall>h \<in> set (tHosts d). 0 \<le> h_unpinned_sectors h \<and> (h_id h = hostID \<longrightarrow> ?u \<le> h_unpinned_sectors h)"
    by auto
  then have ok: "\<forall>h \<in> set (update_rows (\<lambda>h. h_id h = hostID) (\<lambda>h. h\<lparr>h_lost_sectors := h_lost_sectors h + cnt (counts_as_lost d) rows\<rparr>) (tHosts d)).
      0 \<le> h_unpinned_sectors h \<and> (h_id h = hostID \<longrightarrow> 0 \<le> h_unpinned_sectors h + - ?u)"
    unfolding ball_update_rows by simp
  have "\<exists>d'. detach_sectors hostID rows d = Inr d'"
    unfolding detach_sectors_def scanLostSectorIDs_def Let_def prod.case
    by (rule incrementHostUnpinnedSectors_returns) (use ok in \<open>simp add: store_simps\<close>)
  then obtain d' where d': "detach_sectors hostID rows d = Inr d'" ..
  show ?thesis
  proof (rule that[OF d'])
    show "tSectors d' = update_rows (\<lambda>s. sec_id s \<in> sec_id ` set rows) (\<lambda>s. s\<lparr>sec_host_id := None, sec_csm := None\<rparr>) (tSectors d)"
      "map (\<lambda>h. (h_id h, h_public_key h)) (tHosts d') = map (\<lambda>h. (h_id h, h_public_key h)) (tHosts d)"
      using d' unfolding detach_sectors_def scanLostSectorIDs_def Let_def prod.case incrementHostUnpinnedSectors_eq
      by (simp_all add: store_simps map_update_rows)
  qed
qed

lemma host_id_of_keys:
  "map (\<lambda>h. (h_id h, h_public_key h)) (tHosts d') = map (\<lambda>h. (h_id h, h_public_key h)) (tHosts d) \<Longrightarrow> host_id_of d' hk = host_id_of d hk"
proof -
  have "map_option h_id (find (\<lambda>h. h_public_key h = hk) xs)
      = map_option fst (find (\<lambda>(i, k). k = hk) (map (\<lambda>h. (h_id h, h_public_key h)) xs))" for xs :: "host_row list"
    by (induction xs) auto
  then show "map (\<lambda>h. (h_id h, h_public_key h)) (tHosts d') = map (\<lambda>h. (h_id h, h_public_key h)) (tHosts d) \<Longrightarrow> ?thesis"
    unfolding host_id_of_def by simp
qed

text \<open>A batch of selected rows: either everything that qualifies, or a full batch.\<close>

lemma update_rows_all_selected:
  assumes "distinct (map sec_id xs)" and "set sel = {s \<in> set xs. Q s}"
  shows "update_rows (\<lambda>s. sec_id s \<in> sec_id ` set sel) f xs = update_rows Q f xs"
proof -
  have "sec_id s \<in> sec_id ` set sel \<longleftrightarrow> Q s" if "s \<in> set xs" for s
    using key_selected_iff[OF assms(1) _ that, of sel] assms(2) that by auto
  then show ?thesis by (simp add: update_rows_def)
qed

lemma update_rows_batch_then_all:
  assumes "distinct (map sec_id xs)" and "set sel \<subseteq> {s \<in> set xs. Q s}" and "\<And>s. \<not> Q (f s)"
  shows "update_rows Q f (update_rows (\<lambda>s. sec_id s \<in> sec_id ` set sel) f xs) = update_rows Q f xs"
proof -
  have "Q s" if "s \<in> set xs" "sec_id s \<in> sec_id ` set sel" for s
    using key_selected_iff[OF assms(1) _ that(1), of sel] assms(2) that by auto
  with assms(3) show ?thesis by (auto simp: update_rows_def)
qed

lemma take_scan_all:
  assumes scan: "\<And>ys. mset (scan ys) = mset ys" and "length (take n (scan (filter Q xs))) < n"
  shows "set (take n (scan (filter Q xs))) = {x \<in> set xs. Q x}"
proof -
  from assms(2) have "take n (scan (filter Q xs)) = scan (filter Q xs)" by simp
  moreover have "set (scan (filter Q xs)) = set (filter Q xs)" using scan[of "filter Q xs"] by (metis set_mset_mset)
  ultimately show ?thesis by simp
qed

lemma MarkFailingSectorsLost_loop:
  assumes scan: "\<And>ys. mset (scan ys) = mset ys"
  shows "store_inv d \<Longrightarrow> host_id_of d hostKey = Some k \<Longrightarrow>
    cnt (\<lambda>s. sec_host_id s = Some k \<and> int maxChecks \<le> sec_failed_checks s) (tSectors d) < int fuel \<Longrightarrow>
    \<exists>d'. MarkFailingSectorsLost fuel scan hostKey maxChecks d = Some (Inr (), d') \<and> store_inv d' \<and>
      tSectors d' = update_rows (\<lambda>s. sec_host_id s = Some k \<and> int maxChecks \<le> sec_failed_checks s)
        (\<lambda>s. s\<lparr>sec_host_id := None, sec_csm := None\<rparr>) (tSectors d)"
proof (induction fuel arbitrary: d)
  case 0
  from 0(3) cnt_nonneg[of "\<lambda>s. sec_host_id s = Some k \<and> int maxChecks \<le> sec_failed_checks s" "tSectors d"] show ?case by linarith
next
  case (Suc fuel)
  let ?Q = "\<lambda>s. sec_host_id s = Some k \<and> int maxChecks \<le> sec_failed_checks s"
  let ?f = "\<lambda>s. s\<lparr>sec_host_id := None, sec_csm := None\<rparr>"
  define rows where "rows = take 1000 (scan (filter ?Q (tSectors d)))"
  note D = store_invD[OF Suc.prems(1)]
  have rows: "distinct rows" "set rows \<subseteq> {s \<in> set (tSectors d). ?Q s}"
    using distinct_take_scan[OF scan D(3), of 1000 ?Q] by (auto simp: rows_def)
  then have host_rows: "set rows \<subseteq> {s \<in> set (tSectors d). sec_host_id s = Some k}" by auto
  show ?case
  proof (cases "length rows < 1000")
    case True
    then have all: "set rows = {s \<in> set (tSectors d). ?Q s}"
      unfolding rows_def by (intro take_scan_all[OF scan]) simp
    show ?thesis
    proof (cases "rows = []")
      case True
      then have "update_rows ?Q ?f (tSectors d) = tSectors d" using all by (auto simp: update_rows_def intro!: map_idI)
      with True Suc.prems show ?thesis
        by (simp add: markFailingSectorsLostBatch_def Let_def rows_def[symmetric])
    next
      case False
      obtain d' where d': "detach_sectors k rows d = Inr d'"
        "tSectors d' = update_rows (\<lambda>s. sec_id s \<in> sec_id ` set rows) ?f (tSectors d)"
        using detach_sectors_returns[OF Suc.prems(1) host_rows rows(1)] by blast
      then have "tSectors d' = update_rows ?Q ?f (tSectors d)" by (simp only: update_rows_all_selected[OF D(1) all])
      moreover have "store_inv d'" using detach_sectors_inv[OF Suc.prems(1) host_rows rows(1) d'(1)] .
      ultimately show ?thesis using False True Suc.prems(2) d'(1)
        by (simp add: markFailingSectorsLostBatch_def Let_def rows_def[symmetric])
    qed
  next
    case full: False
    obtain d1 where d1: "detach_sectors k rows d = Inr d1"
        "tSectors d1 = update_rows (\<lambda>s. sec_id s \<in> sec_id ` set rows) ?f (tSectors d)"
        "map (\<lambda>h. (h_id h, h_public_key h)) (tHosts d1) = map (\<lambda>h. (h_id h, h_public_key h)) (tHosts d)"
      using detach_sectors_returns[OF Suc.prems(1) host_rows rows(1)] by blast
    have "store_inv d1" using detach_sectors_inv[OF Suc.prems(1) host_rows rows(1) d1(1)] .
    moreover have "host_id_of d1 hostKey = Some k" using host_id_of_keys[OF d1(3)] Suc.prems(2) by simp
    moreover have "cnt ?Q (tSectors d1) < int fuel"
    proof -
      have "set rows \<subseteq> set (tSectors d)" using rows(2) by auto
      from cnt_selected[OF D(1) this rows(1), of ?Q] have "cnt (\<lambda>s. ?Q s \<and> sec_id s \<in> sec_id ` set rows) (tSectors d) = cnt ?Q rows" .
      also have "\<dots> = int (length rows)"
      proof -
        from rows(2) have "cnt ?Q rows = cnt (\<lambda>_. True) rows" by (intro cnt_cong) auto
        then show ?thesis by simp
      qed
      finally show ?thesis using full Suc.prems(3) by (simp add: d1(2) cnt_update_rows)
    qed
    ultimately obtain d' where "MarkFailingSectorsLost fuel scan hostKey maxChecks d1 = Some (Inr (), d')" "store_inv d'"
        "tSectors d' = update_rows ?Q ?f (tSectors d1)" using Suc.IH by blast
    moreover have "update_rows ?Q ?f (tSectors d1) = update_rows ?Q ?f (tSectors d)"
      unfolding d1(2) by (rule update_rows_batch_then_all[OF D(1) rows(2)]) simp
    moreover have "rows \<noteq> []" using full by auto
    ultimately show ?thesis using full Suc.prems(2) d1(1)
      by (simp add: markFailingSectorsLostBatch_def Let_def rows_def[symmetric])
  qed
qed

lemma increment_hosts_loop_returns:
  "\<forall>(k, v) \<in> set ds. v \<le> 0 \<Longrightarrow> \<forall>h \<in> set (tHosts d). 0 \<le> h_unpinned_sectors h + delta_of (h_id h) ds \<Longrightarrow>
   \<exists>d'. increment_hosts_loop ds d = Inr d'"
proof (induction ds arbitrary: d)
  case (Cons x ds)
  obtain k v where x: "x = (k, v)" by (cases x)
  have nonpos: "delta_of h ds \<le> 0" for h
    using Cons.prems(1) by (induction ds) auto
  have "\<exists>d1. incrementHostUnpinnedSectors k v d = Inr d1"
  proof (rule incrementHostUnpinnedSectors_returns)
    fix h assume "h \<in> set (tHosts d)"
    with Cons.prems x nonpos[of "h_id h"] show "0 \<le> h_unpinned_sectors h \<and> (h_id h = k \<longrightarrow> 0 \<le> h_unpinned_sectors h + v)"
      by (force split: if_splits)
  qed
  then obtain d1 where d1: "incrementHostUnpinnedSectors k v d = Inr d1" ..
  have "\<exists>d'. increment_hosts_loop ds d1 = Inr d'"
  proof (rule Cons.IH)
    show "\<forall>(k, v) \<in> set ds. v \<le> 0" using Cons.prems(1) by simp
    from d1 have "tHosts d1 = update_rows (\<lambda>h. h_id h = k) (\<lambda>h. h\<lparr>h_unpinned_sectors := h_unpinned_sectors h + v\<rparr>) (tHosts d)"
      by (simp add: incrementHostUnpinnedSectors_eq)
    then show "\<forall>h \<in> set (tHosts d1). 0 \<le> h_unpinned_sectors h + delta_of (h_id h) ds"
      using Cons.prems(2) x by (auto simp: ball_update_rows algebra_simps split: if_splits)
  qed
  with d1 x show ?case by simp
qed simp

lemma incrementHostsUnpinnedSectors_returns:
  assumes "\<forall>(k, v) \<in> set ds. v \<le> 0" and "\<forall>h \<in> set (tHosts d). 0 \<le> h_unpinned_sectors h + delta_of (h_id h) ds"
  shows "\<exists>d'. incrementHostsUnpinnedSectors ds d = Inr d'"
  unfolding incrementHostsUnpinnedSectors_def
  using increment_hosts_loop_returns[of "stable_sort (\<lambda>a b. fst a < fst b) ds" d] assms
  by (auto simp: delta_of_mset[OF mset_stable_sort])

lemma markSectorsUnpinnableBatch_returns:
  assumes scan: "\<And>ys. mset (scan ys) = mset ys" and inv: "store_inv d"
  shows "\<exists>fin d'. markSectorsUnpinnableBatch scan threshold limit d = Inr (fin, d')"
proof -
  define sel where "sel = take limit (scan (filter (\<lambda>s. sec_host_id s \<noteq> None \<and> sec_csm s = None \<and> sec_uploaded_at s \<le> threshold) (tSectors d)))"
  note D = store_invD[OF inv]
  have sel: "set sel \<subseteq> {s \<in> set (tSectors d). sec_host_id s \<noteq> None \<and> sec_csm s = None}" and dist: "distinct sel"
    using distinct_take_scan[OF scan D(3), of limit "\<lambda>s. sec_host_id s \<noteq> None \<and> sec_csm s = None \<and> sec_uploaded_at s \<le> threshold"]
    unfolding sel_def by auto
  from sel have sub: "set sel \<subseteq> set (tSectors d)" by blast
  have le: "cnt (\<lambda>s. sec_host_id s = Some h) sel \<le> cnt (unpinned_on h) (tSectors d)" for h
  proof -
    have "cnt (\<lambda>s. sec_host_id s = Some h) sel = cnt (\<lambda>s. sec_host_id s = Some h \<and> sec_id s \<in> sec_id ` set sel) (tSectors d)"
      using cnt_selected[OF D(1) sub dist] by simp
    also have "\<dots> \<le> cnt (unpinned_on h) (tSectors d)"
      using key_selected_iff[OF D(1) sub] sel by (intro cnt_mono) (auto simp: class_defs)
    finally show ?thesis .
  qed
  have "\<exists>d'. incrementHostsUnpinnedSectors (map (\<lambda>(h, n). (h, - n)) (count_by_host sel)) e = Inr d'" if "tHosts e = tHosts d" for e
  proof (rule incrementHostsUnpinnedSectors_returns)
    show "\<forall>(k, v) \<in> set (map (\<lambda>(h, n). (h, - n)) (count_by_host sel)). v \<le> 0"
      by (auto simp: count_by_host_def)
    show "\<forall>h \<in> set (tHosts e). 0 \<le> h_unpinned_sectors h + delta_of (h_id h) (map (\<lambda>(h, n). (h, - n)) (count_by_host sel))"
      using that counter_nonneg[OF inv] le by (simp add: count_by_host_delta)
  qed
  note hosts_return = this
  let ?n = "sum_list (map snd (count_by_host sel))"
  let ?e = "incrementStat statUnpinnedSectors (- ?n) (incrementStat statUnpinnableSectors ?n
      (d\<lparr>tSectors := update_rows (\<lambda>s. sec_id s \<in> sec_id ` set sel) (\<lambda>s. s\<lparr>sec_host_id := None, sec_failed_checks := 0\<rparr>) (tSectors d)\<rparr>))"
  have "tHosts ?e = tHosts d" by (simp add: store_simps)
  from hosts_return[OF this] obtain d' where "incrementHostsUnpinnedSectors (map (\<lambda>(h, n). (h, - n)) (count_by_host sel)) ?e = Inr d'" ..
  then have "markSectorsUnpinnableBatch scan threshold limit d = Inr (if ?n = 0
      then (True, d\<lparr>tSectors := update_rows (\<lambda>s. sec_id s \<in> sec_id ` set sel) (\<lambda>s. s\<lparr>sec_host_id := None, sec_failed_checks := 0\<rparr>) (tSectors d)\<rparr>)
      else (False, d'))"
    unfolding markSectorsUnpinnableBatch_def Let_def sel_def[symmetric] by simp
  then show ?thesis by (metis surj_pair)
qed

lemma MarkSectorsUnpinnable_loop:
  assumes scan: "\<And>ys. mset (scan ys) = mset ys"
  shows "store_inv d \<Longrightarrow>
    cnt (\<lambda>s. sec_host_id s \<noteq> None \<and> sec_csm s = None \<and> sec_uploaded_at s \<le> threshold) (tSectors d) < int fuel \<Longrightarrow>
    \<exists>d'. MarkSectorsUnpinnable fuel scan threshold d = Some (Inr (), d') \<and> store_inv d' \<and>
      tSectors d' = update_rows (\<lambda>s. sec_host_id s \<noteq> None \<and> sec_csm s = None \<and> sec_uploaded_at s \<le> threshold)
        (\<lambda>s. s\<lparr>sec_host_id := None, sec_failed_checks := 0\<rparr>) (tSectors d)"
proof (induction fuel arbitrary: d)
  case 0
  from 0(2) cnt_nonneg[of "\<lambda>s. sec_host_id s \<noteq> None \<and> sec_csm s = None \<and> sec_uploaded_at s \<le> threshold" "tSectors d"]
  show ?case by linarith
next
  case (Suc fuel)
  let ?Q = "\<lambda>s. sec_host_id s \<noteq> None \<and> sec_csm s = None \<and> sec_uploaded_at s \<le> threshold"
  let ?f = "\<lambda>s. s\<lparr>sec_host_id := None, sec_failed_checks := 0\<rparr>"
  define sel where "sel = take 1000 (scan (filter ?Q (tSectors d)))"
  note D = store_invD[OF Suc.prems(1)]
  have sel: "distinct sel" "set sel \<subseteq> {s \<in> set (tSectors d). ?Q s}"
    using distinct_take_scan[OF scan D(3), of 1000 ?Q] by (auto simp: sel_def)
  obtain fin d1 where b: "markSectorsUnpinnableBatch scan threshold 1000 d = Inr (fin, d1)"
    using markSectorsUnpinnableBatch_returns[OF scan Suc.prems(1)] by blast
  note E = markSectorsUnpinnableBatch_effect[OF scan Suc.prems(1) b, folded sel_def]
  show ?case
  proof (cases "sel = []")
    case True
    have "length sel < 1000" using True by simp
    then have "set sel = {s \<in> set (tSectors d). ?Q s}"
      unfolding sel_def by (intro take_scan_all[OF scan]) simp
    with True have "update_rows ?Q ?f (tSectors d) = tSectors d" by (auto simp: update_rows_def intro!: map_idI)
    with True E b show ?thesis by (simp add: update_rows_def)
  next
    case False
    have "cnt ?Q (tSectors d1) < int fuel"
    proof -
      have "set sel \<subseteq> set (tSectors d)" using sel(2) by auto
      from cnt_selected[OF D(1) this sel(1), of ?Q] have "cnt (\<lambda>s. ?Q s \<and> sec_id s \<in> sec_id ` set sel) (tSectors d) = cnt ?Q sel" .
      also have "\<dots> = int (length sel)"
      proof -
        from sel(2) have "cnt ?Q sel = cnt (\<lambda>_. True) sel" by (intro cnt_cong) auto
        then show ?thesis by simp
      qed
      finally have "cnt ?Q (tSectors d1) = cnt ?Q (tSectors d) - int (length sel)"
        by (simp add: E(1) cnt_update_rows)
      moreover have "0 < int (length sel)" using False by simp
      ultimately show ?thesis using Suc.prems(2) by linarith
    qed
    with Suc.IH[OF E(3)] obtain d' where "MarkSectorsUnpinnable fuel scan threshold d1 = Some (Inr (), d')" "store_inv d'"
        "tSectors d' = update_rows ?Q ?f (tSectors d1)" by blast
    moreover have "update_rows ?Q ?f (tSectors d1) = update_rows ?Q ?f (tSectors d)"
      unfolding E(1) by (rule update_rows_batch_then_all[OF D(1) sel(2)]) simp
    ultimately show ?thesis using False b E(2) by simp
  qed
qed

section \<open>Properties\<close>

text \<open>
  Claim C20: \<open>MarkFailingSectorsLost\<close> returns without error for a known host, whatever order the
  database scans the sectors in, and then exactly the sectors of that host with at least
  \<open>maxChecks\<close> failed checks have lost their host and contract, all others are as before,
  and every counter is again the true number. One pass of the loop more than there are
  sectors is enough.
\<close>

theorem MarkFailingSectorsLost_total:
  assumes "\<forall>ys. mset (scan ys) = mset ys" and "store_inv d" and "host_id_of d hostKey = Some k"
    and "length (tSectors d) < fuel"
  shows "\<exists>d'. MarkFailingSectorsLost fuel scan hostKey maxChecks d = Some (Inr (), d') \<and> store_inv d' \<and>
      tSectors d' = map (\<lambda>s. if sec_host_id s = Some k \<and> int maxChecks \<le> sec_failed_checks s
        then s\<lparr>sec_host_id := None, sec_csm := None\<rparr> else s) (tSectors d)"
proof -
  have "cnt (\<lambda>s. sec_host_id s = Some k \<and> int maxChecks \<le> sec_failed_checks s) (tSectors d) \<le> cnt (\<lambda>_. True) (tSectors d)"
    by (rule cnt_mono) simp
  with assms have "cnt (\<lambda>s. sec_host_id s = Some k \<and> int maxChecks \<le> sec_failed_checks s) (tSectors d) < int fuel" by simp
  with assms show ?thesis unfolding update_rows_def[symmetric] by (intro MarkFailingSectorsLost_loop) auto
qed

text \<open>
  Claim C21: \<open>MarkSectorsUnpinnable\<close> returns without error and then exactly the unpinned sectors that
  were uploaded at or before the threshold have no host any more (with their failed checks
  forgotten), all others are as before and every counter is the true number. In particular
  no pinned sector is ever given up.
\<close>

theorem MarkSectorsUnpinnable_total:
  assumes "\<forall>ys. mset (scan ys) = mset ys" and "store_inv d" and "length (tSectors d) < fuel"
  shows "\<exists>d'. MarkSectorsUnpinnable fuel scan threshold d = Some (Inr (), d') \<and> store_inv d' \<and>
      tSectors d' = map (\<lambda>s. if sec_host_id s \<noteq> None \<and> sec_csm s = None \<and> sec_uploaded_at s \<le> threshold
        then s\<lparr>sec_host_id := None, sec_failed_checks := 0\<rparr> else s) (tSectors d)"
proof -
  have "cnt (\<lambda>s. sec_host_id s \<noteq> None \<and> sec_csm s = None \<and> sec_uploaded_at s \<le> threshold) (tSectors d) \<le> cnt (\<lambda>_. True) (tSectors d)"
    by (rule cnt_mono) simp
  with assms have "cnt (\<lambda>s. sec_host_id s \<noteq> None \<and> sec_csm s = None \<and> sec_uploaded_at s \<le> threshold) (tSectors d) < int fuel" by simp
  with assms show ?thesis unfolding update_rows_def[symmetric] by (intro MarkSectorsUnpinnable_loop) auto
qed

text \<open>A small database: two hosts, one contract and five sectors.\<close>

definition empty_db :: db where
  "empty_db = \<lparr>tHosts = [], tContracts = [], tCSM = [], tElements = [], tSectors = [], tSlabs = [], tSlabSectors = [],
     tAccounts = [], tConnectKeys = [], tQuotas = [], tAccountSlabs = [], tObjects = [], tObjectSlabs = [],
     tObjectEvents = [], tBlocked = [], tDeletionQueue = [], tHostAddresses = [], tHostBlocklist = [],
     tPreauthorizedKeys = [], tAccountHosts = [], tPools = [], tPoolHosts = [], tPoolAttachments = [], tFundingEvents = [], tStats = (\<lambda>_. 0), tStatsDeltas = [],
     tGlobals = \<lparr>scanned_height = 100, scanned_block_id = 0,
       maintenance = \<lparr>Enabled = True, Period = 6048, RenewWindow = 2016, WantedContracts = 50\<rparr>,
       usability_limits = \<lparr>MaxEgressPrice = 100, MaxIngressPrice = 100, MaxStoragePrice = 100, MinCollateral = 1, MinProtocolVersion = (5, 0, 0)\<rparr>\<rparr>,
     seqSectors = 1, seqSlabs = 1, seqCSM = 1, seqAccounts = 1, seqObjects = 1, seqQueue = 1, seqDeltas = 1,
     seqHosts = 1, seqConnectKeys = 1, seqPools = 1, seqFundingEvents = 1\<rparr>"

definition unknown_settings :: host_settings where
  "unknown_settings = \<lparr>ProtocolVersion = (0, 0, 0), WalletAddress = 0, MaxCollateral = 0, RemainingStorage = 0,
     Prices = \<lparr>ContractPrice = 0, StoragePrice = 0, IngressPrice = 0, EgressPrice = 0, TipHeight = 0, ValidUntil = 0,
       Collateral = 0, FreeSectorPrice = 0, PricesSignature = 0\<rparr>,
     Release = [], AcceptingContracts = False, MaxContractDuration = 0, TotalStorage = 0\<rparr>"

definition sample_host_row :: "int \<Rightarrow> public_key \<Rightarrow> int \<Rightarrow> host_row" where
  "sample_host_row i k u = \<lparr>h_id = i, h_public_key = k, h_consecutive_failed_scans = 0, h_recent_uptime = 9 / 10,
     h_last_integrity_check = 0, h_last_failed_scan = None, h_last_successful_scan = None, h_last_announcement = 0,
     h_has_quic = True, h_has_siamux = True, h_next_scan = 0, h_country_code = [], h_location = (0, 0),
     h_lost_sectors = 0, h_unpinned_sectors = u, h_stuck_since = None, h_scans = 0, h_scans_failed = 0,
     h_usage_account_funding = 0, h_usage_total_spent = 0, h_settings = unknown_settings, h_settings_valid_until = None\<rparr>"

definition sample_fc :: v2_contract where
  "sample_fc = \<lparr>RevisionNumber = 1, FileProofHeight = 200, FileExpirationHeight = 344, FileCapacity = 0,
     Filesize = 0, RenterOutputValue = 0, FileTotalCollateral = 0, HostPublicKey = 11\<rparr>"

definition sample_contract_row :: "int \<Rightarrow> contract_id \<Rightarrow> contract_row" where
  "sample_contract_row h i = \<lparr>ct_host_id = h, ct_contract_id = i, ct_formation = 0, ct_proof_height = 200,
     ct_expiration_height = 344, ct_renewed_from = None, ct_renewed_to = None, ct_revision_number = 1,
     ct_state = ContractStateActive, ct_last_broadcast_attempt = 0, ct_next_prune = 0, ct_capacity = 0, ct_size = 0,
     ct_contract_price = 0, ct_initial_allowance = 0, ct_remaining_allowance = 0, ct_miner_fee = 0,
     ct_used_collateral = 0, ct_total_collateral = 0, ct_good = True,
     ct_spending = \<lparr>SpendAppendSector = 0, SpendFreeSector = 0, SpendFundAccount = 0, SpendSectorRoots = 0\<rparr>,
     ct_raw_revision = sample_fc\<rparr>"

definition sample_sector_row :: "int \<Rightarrow> hash256 \<Rightarrow> int option \<Rightarrow> int option \<Rightarrow> gotime \<Rightarrow> int \<Rightarrow> sector_row" where
  "sample_sector_row i r h m up failed = \<lparr>sec_id = i, sec_root = r, sec_host_id = h, sec_csm = m,
     sec_uploaded_at = up, sec_next_check = 0, sec_failed_checks = failed, sec_num_migrated = 0\<rparr>"

definition sample_db :: db where
  "sample_db = empty_db\<lparr>tHosts := [sample_host_row 1 11 1, sample_host_row 2 12 1],
     tContracts := [sample_contract_row 1 21], tCSM := [\<lparr>csm_id = 1, csm_contract_id = 21\<rparr>],
     tSectors := [sample_sector_row 1 31 (Some 1) (Some 1) 5 3, sample_sector_row 2 32 (Some 1) (Some 1) 5 0,
       sample_sector_row 3 33 (Some 1) None 5 3, sample_sector_row 4 34 (Some 2) None 9 3,
       sample_sector_row 5 35 None None 5 3],
     tStats := (\<lambda>n. if n = statPinnedSectors \<or> n = statUnpinnedSectors then 2 else if n = statUnpinnableSectors then 1 else 0),
     seqSectors := 6, seqCSM := 2\<rparr>"

lemmas sample_defs = sample_db_def empty_db_def sample_host_row_def sample_contract_row_def sample_sector_row_def

lemma sample_db_inv: "store_inv sample_db"
  by (simp add: store_inv_def sectors_wf_def keys_wf_def hosts_known_def pins_wf_def pinned_on_host_def counters_wf_def
      contract_of_csm_def contract_by_id_def sqlStatSelect_def class_defs sample_defs)

lemma MarkFailingSectorsLost_total_witness:
  "\<exists>d'. MarkFailingSectorsLost 6 (\<lambda>ys. ys) 11 3 sample_db = Some (Inr (), d') \<and> store_inv d' \<and>
     tSectors d' = [sample_sector_row 1 31 None None 5 3, sample_sector_row 2 32 (Some 1) (Some 1) 5 0,
       sample_sector_row 3 33 None None 5 3, sample_sector_row 4 34 (Some 2) None 9 3, sample_sector_row 5 35 None None 5 3]"
  using MarkFailingSectorsLost_total[of "\<lambda>ys. ys" sample_db 11 1 6 3] sample_db_inv
  by (simp add: host_id_of_def sample_defs)

lemma MarkSectorsUnpinnable_total_witness:
  "\<exists>d'. MarkSectorsUnpinnable 6 (\<lambda>ys. ys) 7 sample_db = Some (Inr (), d') \<and> store_inv d' \<and>
     tSectors d' = [sample_sector_row 1 31 (Some 1) (Some 1) 5 3, sample_sector_row 2 32 (Some 1) (Some 1) 5 0,
       sample_sector_row 3 33 None None 5 0, sample_sector_row 4 34 (Some 2) None 9 3, sample_sector_row 5 35 None None 5 3]"
  using MarkSectorsUnpinnable_total[of "\<lambda>ys. ys" sample_db 6 7] sample_db_inv
  by (simp add: sample_defs)

lemma FlushStatsDelta_invisible_witness:
  "\<exists>d'. FlushStatsDelta 1 (empty_db\<lparr>tStatsDeltas := [(1, statSlabs, 5), (2, statSlabs, 3)]\<rparr>) = Inr (True, d') \<and> sqlStatSelect d' statSlabs = 8"
proof -
  let ?d = "empty_db\<lparr>tStatsDeltas := [(1, statSlabs, 5), (2, statSlabs, 3)]\<rparr>"
  obtain d' where d': "FlushStatsDelta 1 ?d = Inr (True, d')"
    by (simp add: FlushStatsDelta_def delta_before_def all_stats_def empty_db_def)
  have "sqlStatSelect ?d statSlabs = 8" by (simp add: sqlStatSelect_def empty_db_def)
  with d' FlushStatsDelta_invisible[OF d', of statSlabs] show ?thesis by auto
qed

lemma transaction_atomic_witness:
  "\<exists>j < maxRetryAttempts. Inr (seqQueue (before_attempt flaky j empty_db), before_attempt flaky j empty_db\<lparr>seqSlabs := 7\<rparr>)
     = (Inr (seqQueue empty_db + 2, empty_db\<lparr>seqQueue := seqQueue empty_db + 2, seqSlabs := 7\<rparr>) :: (int \<times> db) result)"
  using transaction_atomic[OF flaky_transaction, of empty_db] by simp

end
