(* ===== verification/Slabs.thy ===== *)
theory Slabs
  imports Prelude
begin

text \<open>
  Slabs and what may be pinned, slabs/slabs.go. A slab is an erasure-coded group of
  sectors; \<open>Digest\<close> is its identifier. Hashing belongs to go.sia.tech/core: the writes to
  the hasher and its sum are parameters. The probability computation of
  \<open>ValidateECParams\<close> is done in rationals instead of \<open>float64\<close>; rounding is not modelled.
\<close>

section \<open>Data\<close>

record pinned_sector =
  Root :: hash256
  SectorHostKey :: public_key
  UploadedAt :: "gotime option"

record slab_pin_params =
  Version :: u8
  EncryptionKey :: hash256
  MinShards :: u64
  Sectors :: "pinned_sector list"

text \<open>\<open>types.Hasher\<close>: the bytes written for each kind of value, and the sum.\<close>

record hasher =
  WriteUint8 :: "u8 \<Rightarrow> u8 list"
  WriteUint64 :: "u64 \<Rightarrow> u8 list"
  WriteHash :: "hash256 \<Rightarrow> u8 list"
  Sum :: "u8 list \<Rightarrow> hash256"

text \<open>Documented behaviour of the encoder: fixed widths, and different values give different bytes.\<close>

definition encoder_ok :: "hasher \<Rightarrow> bool" where
  "encoder_ok H \<longleftrightarrow> (\<forall>v. length (WriteUint8 H v) = 1) \<and> (\<forall>v. length (WriteUint64 H v) = 8) \<and>
     (\<forall>v. length (WriteHash H v) = 32) \<and> inj (WriteUint8 H) \<and> inj (WriteUint64 H) \<and> inj (WriteHash H)"

definition digest_preimage :: "hasher \<Rightarrow> u8 \<Rightarrow> u64 \<Rightarrow> hash256 \<Rightarrow> hash256 list \<Rightarrow> u8 list" where
  "digest_preimage H version minShards ec roots =
     (if version > 0 then WriteUint8 H version else []) @ WriteUint64 H minShards @ WriteHash H ec @
     concat (map (WriteHash H) roots)"

definition slabDigest :: "hasher \<Rightarrow> u8 \<Rightarrow> u64 \<Rightarrow> hash256 \<Rightarrow> pinned_sector list \<Rightarrow> hash256" where
  "slabDigest H version minShards ec sectors = Sum H (digest_preimage H version minShards ec (map Root sectors))"

definition Digest :: "hasher \<Rightarrow> slab_pin_params \<Rightarrow> hash256" where
  "Digest H s = slabDigest H (Version s) (MinShards s) (EncryptionKey s) (Sectors s)"

definition SlabSize :: "core_ops \<Rightarrow> slab_pin_params \<Rightarrow> u64" where
  "SlabSize C s = of_nat (length (Sectors s)) * SectorSize C"

definition SlabDataSize :: "core_ops \<Rightarrow> slab_pin_params \<Rightarrow> u64" where
  "SlabDataSize C s = MinShards s * SectorSize C"

section \<open>Erasure-coding parameters\<close>

definition maxTotalShards :: int where "maxTotalShards = 256"
definition maxSlabVersion :: u8 where "maxSlabVersion = 1"
definition minRecoveryProbability :: rat where "minRecoveryProbability = 9999 / 100"
definition recoveryProbability :: rat where "recoveryProbability = 3 / 4"

text \<open>One step of the loops: from the term for \<open>i\<close> to the term for \<open>i + 1\<close> available shards.\<close>

definition ec_step :: "nat \<Rightarrow> nat \<Rightarrow> rat \<Rightarrow> rat" where
  "ec_step totalShards i term =
     term * ((of_nat totalShards - of_nat i) / (of_nat i + 1) * (recoveryProbability / (1 - recoveryProbability)))"

definition ec_probability :: "nat \<Rightarrow> nat \<Rightarrow> rat" where
  "ec_probability dataShards totalShards =
     (let term = fold (ec_step totalShards) [0..<dataShards] ((1 - recoveryProbability) ^ totalShards);
          (_, total) = fold (\<lambda>i (term, total). let term' = ec_step totalShards i term in (term', total + term'))
                          [dataShards..<totalShards] (term, term)
      in total * 100)"

text \<open>
  \<open>dataShards\<close> and \<open>totalShards\<close> are \<open>int\<close> values; their difference wraps around.
\<close>

definition ValidateECParams :: "int \<Rightarrow> int \<Rightarrow> unit result" where
  "ValidateECParams dataShards totalShards =
     (if totalShards > maxTotalShards then Inl (ErrMsg ''total number of shards exceeds maximum'')
      else if dataShards = 0 then Inl (ErrMsg ''data shards cannot be zero'')
      else if totalShards = 0 then Inl (ErrMsg ''total shards cannot be zero'')
      else if dataShards > totalShards then Inl (ErrMsg ''data shards cannot be greater than total shards'')
      else if dataShards > 255 then Inl (ErrMsg ''data shards exceeds maximum of 255'')
      else if wrap64 (totalShards - dataShards) > 255 then Inl (ErrMsg ''parity shards exceeds maximum of 255'')
      else if (of_int totalShards / of_int dataShards :: rat) < 3 / 2 then Inl (ErrMsg ''redundancy is too low'')
      else if (of_int totalShards / of_int dataShards :: rat) > 4 then Inl (ErrMsg ''redundancy is too high'')
      else if ec_probability (nat dataShards) (nat totalShards) < minRecoveryProbability
      then Inl (ErrMsg ''not enough redundancy'')
      else Inr ())"

section \<open>Validation\<close>

text \<open>\<open>contracts.UnpinnableSectorThreshold\<close> less a day.\<close>

definition MaxSlabUploadAge :: duration where
  "MaxSlabUploadAge = 3 * 24 * time_hour - 24 * time_hour"

definition MaxSlabUploadSkew :: duration where
  "MaxSlabUploadSkew = 5 * time_minute"

fun validate_sectors :: "gotime \<Rightarrow> public_key list \<Rightarrow> pinned_sector list \<Rightarrow> unit result" where
  "validate_sectors now hks [] = Inr ()"
| "validate_sectors now hks (sector # rest) =
     (if Root sector = 0 then Inl (ErrMsg ''root is empty'')
      else if SectorHostKey sector = 0 then Inl (ErrMsg ''host key is empty'')
      else if SectorHostKey sector \<in> set hks then Inl (ErrMsg ''duplicate host key'')
      else case UploadedAt sector of
        None \<Rightarrow> validate_sectors now (SectorHostKey sector # hks) rest
      | Some t \<Rightarrow>
          if t < now - MaxSlabUploadAge then Inl ErrSlabUploadTooOld
          else if t > now + MaxSlabUploadSkew then Inl ErrSlabUploadInFuture
          else validate_sectors now (SectorHostKey sector # hks) rest)"

definition Validate :: "gotime \<Rightarrow> slab_pin_params \<Rightarrow> unit result" where
  "Validate now s =
     (if Version s > maxSlabVersion then Inl ErrUnsupportedSlabVersion
      else if EncryptionKey s = 0 then Inl (ErrMsg ''encryption key is empty'')
      else rbind (ValidateECParams (sint (MinShards s)) (int (length (Sectors s))))
             (\<lambda>_. validate_sectors now [] (Sectors s)))"

section \<open>The recovery probability\<close>

text \<open>The probability that exactly \<open>i\<close> of \<open>m\<close> shards are available.\<close>

definition shard_prob :: "nat \<Rightarrow> nat \<Rightarrow> rat" where
  "shard_prob m i = of_nat (m choose i) * recoveryProbability ^ i * (1 - recoveryProbability) ^ (m - i)"

lemma ec_step_shard_prob: "i < m \<Longrightarrow> ec_step m i (shard_prob m i) = shard_prob m (Suc i)"
proof -
  assume i: "i < m"
  have "Suc i * (m choose Suc i) = (m - i) * (m choose i)"
    using binomial_absorb_comp[of m i] binomial_absorption[of i m] by simp
  then have "(of_nat i + 1) * of_nat (m choose Suc i) = (of_nat m - of_nat i) * (of_nat (m choose i) :: rat)"
    using i by (metis of_nat_Suc of_nat_diff of_nat_mult less_imp_le add.commute)
  then have "of_nat (m choose i) * ((of_nat m - of_nat i) / (of_nat i + 1)) = (of_nat (m choose Suc i) :: rat)"
    by (simp add: field_simps)
  moreover have "(1 / 4 :: rat) ^ (m - i) = (1 / 4) * (1 / 4) ^ (m - Suc i)"
    using i by (metis Suc_diff_Suc power_Suc)
  moreover have "ec_step m i (shard_prob m i)
      = of_nat (m choose i) * ((of_nat m - of_nat i) / (of_nat i + 1)) * (3 / 4) ^ i * ((1 / 4) ^ (m - i) * 3)"
    by (simp add: ec_step_def shard_prob_def recoveryProbability_def)
  ultimately show ?thesis by (simp add: shard_prob_def recoveryProbability_def)
qed

lemma ec_loop_terms: "n \<le> m \<Longrightarrow> fold (ec_step m) [0..<n] ((1 - recoveryProbability) ^ m) = shard_prob m n"
proof (induction n)
  case 0
  show ?case by (simp add: shard_prob_def)
next
  case (Suc n)
  then show ?case by (simp add: ec_step_shard_prob)
qed

lemma ec_loop_sum:
  "n \<le> k \<Longrightarrow> k \<le> m \<Longrightarrow>
   fold (\<lambda>i (term, total). let term' = ec_step m i term in (term', total + term')) [n..<k] (shard_prob m n, shard_prob m n)
     = (shard_prob m k, \<Sum>i = n..k. shard_prob m i)"
proof (induction k)
  case 0
  then show ?case by simp
next
  case (Suc k)
  show ?case
  proof (cases "n = Suc k")
    case False
    with Suc have "n \<le> k" "k < m" by auto
    with Suc.IH show ?thesis by (simp add: ec_step_shard_prob Let_def)
  qed simp
qed

lemma ec_probability_binomial:
  "n \<le> m \<Longrightarrow> ec_probability n m = 100 * (\<Sum>i = n..m. shard_prob m i)"
  by (simp add: ec_probability_def ec_loop_terms ec_loop_sum)

lemma ValidateECParams_data_positive:
  assumes "ValidateECParams n m = Inr x" and "0 \<le> m"
  shows "0 < n \<and> n \<le> m \<and> m \<le> 256"
proof -
  from assms have "(3 / 2 :: rat) \<le> of_int m / of_int n" "n \<noteq> 0" "n \<le> m" "m \<le> 256"
    by (auto simp: ValidateECParams_def maxTotalShards_def split: if_splits)
  moreover have "0 < n"
  proof (rule ccontr)
    assume "\<not> 0 < n"
    with \<open>n \<noteq> 0\<close> have "n < 0" by simp
    with assms(2) have "(of_int m / of_int n :: rat) \<le> 0" by (simp add: divide_nonneg_neg)
    with calculation(1) show False by linarith
  qed
  ultimately show ?thesis by simp
qed

text \<open>
  Claim C29: erasure-coding parameters are accepted only when they are safe: at least one data
  shard, at most 256 shards, between 1.5 and 4 times redundancy, and the probability that
  enough of the shards are available, computed by the loops of the code term by term, is
  the binomial tail \<open>\<Sum>i = n..m. C(m, i) p^i (1 - p)^(m - i)\<close> for availability 3/4 and is
  at least 99.99 per cent.
\<close>

theorem ValidateECParams_sound:
  assumes "ValidateECParams n m = Inr x" and "0 \<le> m"
  shows "0 < n \<and> n \<le> m \<and> m \<le> 256 \<and> 3 * n \<le> 2 * m \<and> m \<le> 4 * n \<and>
     (\<Sum>i = nat n..nat m. of_nat (nat m choose i) * (3 / 4) ^ i * (1 / 4) ^ (nat m - i)) \<ge> (9999 / 10000 :: rat)"
proof -
  note pos = ValidateECParams_data_positive[OF assms]
  from assms(1) have r: "(3 / 2 :: rat) \<le> of_int m / of_int n" "of_int m / of_int n \<le> (4 :: rat)"
    and pr: "minRecoveryProbability \<le> ec_probability (nat n) (nat m)"
    by (auto simp: ValidateECParams_def not_less split: if_splits)
  from pos r have "(3 * of_int n :: rat) \<le> 2 * of_int m" "(of_int m :: rat) \<le> 4 * of_int n"
    by (simp_all add: field_simps)
  then have "3 * n \<le> 2 * m" "m \<le> 4 * n" by (metis of_int_le_iff of_int_mult of_int_numeral)+
  moreover have "(9999 / 10000 :: rat) \<le> (\<Sum>i = nat n..nat m. shard_prob (nat m) i)"
  proof -
    have "nat n \<le> nat m" using pos by (auto intro: nat_mono)
    with pr show ?thesis by (simp add: ec_probability_binomial minRecoveryProbability_def)
  qed
  ultimately show ?thesis using pos by (simp add: shard_prob_def recoveryProbability_def)
qed

section \<open>Validation\<close>

lemma sint_nonneg_eq_unat:
  fixes w :: "'a :: len word"
  shows "0 \<le> sint w \<Longrightarrow> sint w = int (unat w)"
proof -
  assume "0 \<le> sint w"
  moreover have "sint w < 2 ^ (LENGTH('a) - 1)" using sint_lt[of w] .
  moreover have "(2 :: int) ^ (LENGTH('a) - 1) \<le> 2 ^ LENGTH('a)" by (rule power_increasing) simp_all
  ultimately have "sint w mod 2 ^ LENGTH('a) = sint w" by (metis mod_pos_pos_trivial order_less_le_trans)
  moreover have "uint (word_of_int (sint w) :: 'a word) = sint w mod 2 ^ LENGTH('a)" by (rule uint_word_of_int)
  ultimately show ?thesis by simp
qed

lemma validate_sectors_sound:
  "validate_sectors now hks ss = Inr x \<Longrightarrow>
     distinct (map SectorHostKey ss) \<and> set (map SectorHostKey ss) \<inter> set hks = {} \<and>
     (\<forall>s \<in> set ss. Root s \<noteq> 0 \<and> SectorHostKey s \<noteq> 0 \<and>
        (\<forall>t. UploadedAt s = Some t \<longrightarrow> now - MaxSlabUploadAge \<le> t \<and> t \<le> now + MaxSlabUploadSkew))"
proof (induction ss arbitrary: hks)
  case (Cons s ss)
  from Cons.prems have "validate_sectors now (SectorHostKey s # hks) ss = Inr x" and
    "Root s \<noteq> 0" "SectorHostKey s \<noteq> 0" "SectorHostKey s \<notin> set hks"
    "\<forall>t. UploadedAt s = Some t \<longrightarrow> now - MaxSlabUploadAge \<le> t \<and> t \<le> now + MaxSlabUploadSkew"
    by (simp_all add: not_less split: if_splits option.splits)
  with Cons.IH[of "SectorHostKey s # hks"] show ?case by auto
qed simp

text \<open>
  A slab passes validation only if its version is supported, its encryption key is set,
  its number of data shards fits its number of sectors (also when the unsigned field
  exceeds the signed range), no two sectors are on the same host, every sector has a root
  and a host, and every reported upload time is at most two days old and at most five
  minutes ahead of the clock.
\<close>

theorem Validate_sound:
  assumes "Validate now s = Inr x"
  shows "Version s \<le> 1 \<and> EncryptionKey s \<noteq> 0 \<and>
     0 < unat (MinShards s) \<and> unat (MinShards s) \<le> length (Sectors s) \<and> length (Sectors s) \<le> 256 \<and>
     distinct (map SectorHostKey (Sectors s)) \<and>
     (\<forall>sec \<in> set (Sectors s). Root sec \<noteq> 0 \<and> SectorHostKey sec \<noteq> 0 \<and>
        (\<forall>t. UploadedAt sec = Some t \<longrightarrow> now - 48 * time_hour \<le> t \<and> t \<le> now + 5 * time_minute))"
proof -
  from assms have ec: "ValidateECParams (sint (MinShards s)) (int (length (Sectors s))) = Inr ()"
    and se: "validate_sectors now [] (Sectors s) = Inr x" and v: "Version s \<le> 1" "EncryptionKey s \<noteq> 0"
    by (auto simp: Validate_def rbind_eq_Inr maxSlabVersion_def split: if_splits)
  from ValidateECParams_data_positive[OF ec] have pos: "0 < sint (MinShards s)" "sint (MinShards s) \<le> int (length (Sectors s))"
    "length (Sectors s) \<le> 256" by auto
  have "sint (MinShards s) = int (unat (MinShards s))"
    by (rule sint_nonneg_eq_unat) (use pos(1) in simp)
  with pos have "0 < unat (MinShards s)" "unat (MinShards s) \<le> length (Sectors s)" by linarith+
  with pos v validate_sectors_sound[OF se] show ?thesis
    by (simp add: MaxSlabUploadAge_def MaxSlabUploadSkew_def)
qed

section \<open>The digest\<close>

lemma concat_WriteHash_inj:
  assumes "encoder_ok H" and "concat (map (WriteHash H) xs) = concat (map (WriteHash H) ys)"
  shows "xs = ys"
  using assms(2)
proof (induction xs arbitrary: ys)
  case Nil
  then show ?case using assms(1) by (cases ys) (auto simp: encoder_ok_def dest!: arg_cong[of _ _ length])
next
  case (Cons x xs)
  then obtain y ys' where ys: "ys = y # ys'"
    using assms(1) by (cases ys) (auto simp: encoder_ok_def dest!: arg_cong[of _ _ length])
  with Cons.prems assms(1) have "WriteHash H x = WriteHash H y" "concat (map (WriteHash H) xs) = concat (map (WriteHash H) ys')"
    by (auto simp: encoder_ok_def append_eq_append_conv)
  with Cons.IH assms(1) ys show ?case by (auto simp: encoder_ok_def inj_eq)
qed

lemma length_concat_WriteHash: "encoder_ok H \<Longrightarrow> length (concat (map (WriteHash H) xs)) = 32 * length xs"
  by (induction xs) (auto simp: encoder_ok_def)

lemma digest_preimage_determines:
  assumes "encoder_ok H" and "digest_preimage H v m ec roots = digest_preimage H v' m' ec' roots'"
  shows "v = v' \<and> m = m' \<and> ec = ec' \<and> roots = roots'"
proof -
  note len = length_concat_WriteHash[OF assms(1)]
  from assms have "(if v > 0 then 1 else 0) + 32 * length roots = (if v' > 0 then 1 else 0) + 32 * length roots'"
    by (auto simp: digest_preimage_def encoder_ok_def len dest!: arg_cong[of _ _ length] split: if_splits)
  then have "(v > 0) = (v' > 0)" by (auto split: if_splits) presburger+
  with assms have "(v > 0 \<longrightarrow> WriteUint8 H v = WriteUint8 H v')" "WriteUint64 H m = WriteUint64 H m'"
    "WriteHash H ec = WriteHash H ec'" "concat (map (WriteHash H) roots) = concat (map (WriteHash H) roots')"
    by (auto simp: digest_preimage_def encoder_ok_def append_eq_append_conv split: if_splits)
  moreover from \<open>(v > 0) = (v' > 0)\<close> calculation(1) assms(1) have "v = v'"
    by (cases "v > 0") (auto simp: encoder_ok_def inj_eq word_gt_0)
  ultimately show ?thesis using assms(1) concat_WriteHash_inj[OF assms(1)] by (auto simp: encoder_ok_def inj_eq)
qed

text \<open>
  Claim C30: the bytes hashed for a slab determine it: the preimages of two slabs are equal exactly when
  the version, the minimum number of shards, the encryption key and the
  sector roots in their order are equal, although the version byte is left out for version 0. So two slabs have the same digest
  exactly when they agree in all of these or the hash function maps two different preimages to the same hash.
\<close>

theorem digest_preimage_injective:
  assumes "encoder_ok H"
  defines "preimage \<equiv> \<lambda>s. digest_preimage H (Version s) (MinShards s) (EncryptionKey s) (map Root (Sectors s))"
    and "same \<equiv> \<lambda>s s'. Version s = Version s' \<and> MinShards s = MinShards s' \<and> EncryptionKey s = EncryptionKey s' \<and> map Root (Sectors s) = map Root (Sectors s')"
  shows "(preimage s = preimage s') = same s s' \<and>
    (Digest H s = Digest H s') = (same s s' \<or> preimage s \<noteq> preimage s' \<and> Sum H (preimage s) = Sum H (preimage s'))"
proof -
  have "(preimage s = preimage s') = same s s'"
    using digest_preimage_determines[OF assms(1)] by (auto simp: preimage_def same_def)
  moreover have "Digest H x = Sum H (preimage x)" for x by (simp add: Digest_def slabDigest_def preimage_def)
  ultimately show ?thesis by auto
qed

section \<open>Witnesses\<close>

lemma ValidateECParams_sound_witness:
  "ValidateECParams 3 12 = Inr () \<and>
   (9999 / 10000 :: rat) \<le> (\<Sum>i = 3..12. of_nat (12 choose i) * (3 / 4) ^ i * (1 / 4) ^ (12 - i))"
proof -
  have l: "[0..<3] = [0, 1, 2 :: nat]" "[3..<12] = [3, 4, 5, 6, 7, 8, 9, 10, 11 :: nat]" by code_simp+
  have "ValidateECParams 3 12 = Inr ()"
    by (simp add: l ValidateECParams_def maxTotalShards_def wrap64_def ec_probability_def ec_step_def Let_def
        recoveryProbability_def minRecoveryProbability_def power_divide)
  from ValidateECParams_sound[OF this] this show ?thesis by simp
qed

text \<open>An encoder that writes numbers in base 256.\<close>

fun bytes_of :: "nat \<Rightarrow> nat \<Rightarrow> u8 list" where
  "bytes_of 0 n = []"
| "bytes_of (Suc k) n = of_nat n # bytes_of k (n div 256)"

lemma length_bytes_of [simp]: "length (bytes_of k n) = k"
  by (induction k arbitrary: n) auto

lemma bytes_of_inj: "bytes_of k a = bytes_of k b \<Longrightarrow> a < 256 ^ k \<Longrightarrow> b < 256 ^ k \<Longrightarrow> a = b"
proof (induction k arbitrary: a b)
  case (Suc k)
  then have "a mod 256 = b mod 256" by (auto dest!: arg_cong[of "of_nat a" _ unat] simp: unat_of_nat)
  moreover have "a div 256 = b div 256"
    using Suc by (intro Suc.IH) (auto simp: less_mult_imp_div_less mult.commute)
  ultimately show ?case by (metis div_mult_mod_eq)
qed simp

definition plain_hasher :: hasher where
  "plain_hasher = \<lparr>WriteUint8 = (\<lambda>v. bytes_of 1 (unat v)), WriteUint64 = (\<lambda>v. bytes_of 8 (unat v)),
     WriteHash = (\<lambda>v. bytes_of 32 (unat v)), Sum = (\<lambda>bs. of_nat (length bs))\<rparr>"

lemma inj_bytes_of:
  assumes "LENGTH('a :: len) = 8 * k"
  shows "inj (\<lambda>v :: 'a word. bytes_of k (unat v))"
proof (rule injI)
  fix v w :: "'a word" assume "bytes_of k (unat v) = bytes_of k (unat w)"
  moreover have "unat u < 256 ^ k" for u :: "'a word"
    using unsigned_less[of u] assms by (simp add: power_mult)
  ultimately show "v = w" by (metis bytes_of_inj word_unat_eq_iff)
qed

lemma plain_hasher_ok: "encoder_ok plain_hasher"
  using inj_bytes_of[where 'a = 8 and k = 1] inj_bytes_of[where 'a = 64 and k = 8] inj_bytes_of[where 'a = 256 and k = 32]
  by (simp add: encoder_ok_def plain_hasher_def)

definition sample_slab :: slab_pin_params where
  "sample_slab = \<lparr>Version = 1, EncryptionKey = 7, MinShards = 3,
     Sectors = map (\<lambda>i. \<lparr>Root = of_nat (i + 1), SectorHostKey = of_nat (i + 11), UploadedAt = None\<rparr>) [0..<12]\<rparr>"

lemma Validate_sound_witness: "Validate 0 sample_slab = Inr () \<and> unat (MinShards sample_slab) \<le> length (Sectors sample_slab)"
proof -
  have l: "[0..<3] = [0, 1, 2 :: nat]" "[3..<12] = [3, 4, 5, 6, 7, 8, 9, 10, 11 :: nat]"
    "[0..<12] = [0, 1, 2, 3, 4, 5, 6, 7, 8, 9, 10, 11 :: nat]" by code_simp+
  have "Validate 0 sample_slab = Inr ()"
    by (simp add: Validate_def sample_slab_def maxSlabVersion_def l ValidateECParams_def maxTotalShards_def wrap64_def
        ec_probability_def ec_step_def Let_def recoveryProbability_def minRecoveryProbability_def power_divide)
  from Validate_sound[OF this] this show ?thesis by blast
qed

text \<open>Versions 0 and 1 with the same fields, and the sectors in another order: the preimages differ, for an encoder that exists.\<close>

definition pair_slab :: "u8 \<Rightarrow> hash256 list \<Rightarrow> slab_pin_params" where
  "pair_slab v roots = \<lparr>Version = v, EncryptionKey = 7, MinShards = 1,
     Sectors = map (\<lambda>r. \<lparr>Root = r, SectorHostKey = r, UploadedAt = None\<rparr>) roots\<rparr>"

lemma digest_preimage_injective_witness:
  "encoder_ok plain_hasher \<and>
   digest_preimage plain_hasher 0 1 7 [3, 9] \<noteq> digest_preimage plain_hasher 0 1 7 [9, 3] \<and>
   digest_preimage plain_hasher 0 1 7 [3, 9] \<noteq> digest_preimage plain_hasher 1 1 7 [3, 9] \<and>
   Digest plain_hasher (pair_slab 0 [3, 9]) \<noteq> Digest plain_hasher (pair_slab 1 [3, 9])"
proof -
  note D = digest_preimage_injective[OF plain_hasher_ok, of "pair_slab 0 [3, 9]"]
  have "Sum plain_hasher (digest_preimage plain_hasher 0 1 7 [3, 9]) \<noteq> Sum plain_hasher (digest_preimage plain_hasher 1 1 7 [3, 9])"
    by (simp add: digest_preimage_def plain_hasher_def)
  with plain_hasher_ok D[of "pair_slab 0 [9, 3]"] D[of "pair_slab 1 [3, 9]"] show ?thesis by (simp add: pair_slab_def)
qed

end
