(* ===== verification/Slab_Store.thy ===== *)
theory Slab_Store
  imports Sector_Store Slabs
begin

text \<open>
  The slabs, objects and accounts of the store: pinning and unpinning slabs and deleting
  orphaned ones (persist/postgres/sectors.go), pinning and deleting objects
  (persist/postgres/objects.go), the repair schedule and pruning of slabs
  (persist/postgres/slabs.go) and deleting accounts (persist/postgres/accounts.go).

  The \<open>uint64\<close> sums of slab sizes of one call are integers here: a slab has at most 32767
  data shards of 4 MiB, so a sum could only wrap with more than \<open>2 ^ 27\<close> slabs in one call.
\<close>

section \<open>Pinning slabs\<close>

text \<open>\<open>state IN (0,1) AND renewed_to IS NULL AND good AND proof_height > scanned_height\<close>\<close>

definition contract_active :: "contract_row \<Rightarrow> bool" where
  "contract_active c \<longleftrightarrow> ct_state c \<in> {ContractStatePending, ContractStateActive} \<and> ct_renewed_to c = None"

definition good_host :: "db \<Rightarrow> public_key \<Rightarrow> bool" where
  "good_host d hk \<longleftrightarrow> (\<exists>c \<in> set (tContracts d). contract_active c \<and> ct_good c \<and>
     ct_proof_height c > scanned_height (tGlobals d) \<and>
     (\<exists>h \<in> set (tHosts d). h_id h = ct_host_id c \<and> h_public_key h = hk))"

definition smallint_ok :: "nat \<Rightarrow> bool" where
  "smallint_ok n \<longleftrightarrow> n \<le> 32767"

text \<open>\<open>INSERT INTO slabs ... ON CONFLICT (digest) DO UPDATE\<close>: the id and whether the slab existed.\<close>

definition upsert_slab :: "gotime \<Rightarrow> hash256 \<Rightarrow> slab_pin_params \<Rightarrow> (int \<times> bool) tx" where
  "upsert_slab now digest slab d =
     (if \<not> smallint_ok (unat (MinShards slab)) then Inl ErrOutOfRange
      else case find (\<lambda>r. sl_digest r = digest) (tSlabs d) of
        Some r \<Rightarrow> Inr ((sl_id r, True),
          d\<lparr>tSlabs := update_rows (\<lambda>r. sl_digest r = digest) (\<lambda>r. r\<lparr>sl_pinned_at := now\<rparr>) (tSlabs d), seqSlabs := seqSlabs d + 1\<rparr>)
      | None \<Rightarrow> Inr ((seqSlabs d, False),
          d\<lparr>tSlabs := tSlabs d @ [\<lparr>sl_id = seqSlabs d, sl_pinned_at = now, sl_digest = digest,
               sl_encryption_key = EncryptionKey slab, sl_min_shards = unat (MinShards slab), sl_version = Version slab,
               sl_failed_repairs = 0, sl_next_repair = now\<rparr>], seqSlabs := seqSlabs d + 1\<rparr>))"

text \<open>\<open>INSERT INTO account_slabs ... ON CONFLICT DO NOTHING\<close>: whether a row was inserted.\<close>

definition insert_account_slab :: "int \<Rightarrow> int \<Rightarrow> db \<Rightarrow> bool \<times> db" where
  "insert_account_slab accountID slabID d =
     (if (accountID, slabID) \<in> set (tAccountSlabs d) then (False, d)
      else (True, d\<lparr>tAccountSlabs := tAccountSlabs d @ [(accountID, slabID)]\<rparr>))"

text \<open>
  \<open>INSERT INTO sectors ... ON CONFLICT (sector_root) DO UPDATE ... RETURNING\<close>: the id, the host,
  whether the sector is new and whether it had lost its host. \<open>LEAST\<close> ignores a missing time.
\<close>

definition upsert_sector :: "gotime \<Rightarrow> gotime \<Rightarrow> pinned_sector \<Rightarrow> (int \<times> int \<times> bool \<times> bool) tx" where
  "upsert_sector now nextCheck sector d =
     (case host_id_of d (SectorHostKey sector) of
        None \<Rightarrow> Inl (ErrMsg ''unknown host for sector'')
      | Some hid \<Rightarrow>
          let up = (case UploadedAt sector of None \<Rightarrow> now | Some t \<Rightarrow> min now t) in
          (case find (\<lambda>s. sec_root s = Root sector) (tSectors d) of
             None \<Rightarrow> Inr ((seqSectors d, hid, True, False),
               d\<lparr>tSectors := tSectors d @ [\<lparr>sec_id = seqSectors d, sec_root = Root sector, sec_host_id = Some hid, sec_csm = None,
                    sec_uploaded_at = up, sec_next_check = nextCheck, sec_failed_checks = 0, sec_num_migrated = 0\<rparr>],
                  seqSectors := seqSectors d + 1\<rparr>)
           | Some s \<Rightarrow> Inr ((sec_id s, (case sec_host_id s of None \<Rightarrow> hid | Some k \<Rightarrow> k), False, sec_host_id s = None),
               d\<lparr>tSectors := update_rows (\<lambda>s. sec_root s = Root sector)
                    (\<lambda>s. s\<lparr>sec_uploaded_at := max (sec_uploaded_at s) up,
                          sec_host_id := (case sec_host_id s of None \<Rightarrow> Some hid | Some k \<Rightarrow> Some k)\<rparr>) (tSectors d),
                  seqSectors := seqSectors d + 1\<rparr>)))"

text \<open>What the loop over the sectors of a slab collects.\<close>

record sector_results =
  sectorIDs :: "int list"
  badHosts :: nat
  unpinned :: int
  rebound :: int
  unpinnedDeltas :: "(int \<times> int) list"

fun upsert_sectors :: "(public_key \<Rightarrow> bool) \<Rightarrow> gotime \<Rightarrow> gotime \<Rightarrow> pinned_sector list \<Rightarrow> sector_results tx" where
  "upsert_sectors good now nextCheck [] d =
     Inr (\<lparr>sectorIDs = [], badHosts = 0, unpinned = 0, rebound = 0, unpinnedDeltas = []\<rparr>, d)"
| "upsert_sectors good now nextCheck (sector # rest) d =
     rbind (upsert_sector now nextCheck sector d) (\<lambda>((sid, hid, inserted, isRebound), d).
       rbind (upsert_sectors good now nextCheck rest d) (\<lambda>(r, d).
         Inr (\<lparr>sectorIDs = sid # sectorIDs r,
               badHosts = (if good (SectorHostKey sector) then badHosts r else badHosts r + 1),
               unpinned = (if inserted \<or> isRebound then unpinned r + 1 else unpinned r),
               rebound = (if isRebound then rebound r + 1 else rebound r),
               unpinnedDeltas = (if inserted \<or> isRebound then (hid, 1) # unpinnedDeltas r else unpinnedDeltas r)\<rparr>, d)))"

text \<open>\<open>INSERT INTO slab_sectors ... ON CONFLICT (slab_id, slab_index) DO NOTHING\<close> for each sector.\<close>

fun insert_slab_sectors :: "int \<Rightarrow> nat \<Rightarrow> int list \<Rightarrow> db \<Rightarrow> db result" where
  "insert_slab_sectors slabID i [] d = Inr d"
| "insert_slab_sectors slabID i (sid # rest) d =
     (if \<not> smallint_ok i then Inl ErrOutOfRange
      else if (\<exists>r \<in> set (tSlabSectors d). ss_slab_id r = slabID \<and> ss_slab_index r = i) then insert_slab_sectors slabID (i + 1) rest d
      else if (\<exists>r \<in> set (tSlabSectors d). ss_slab_id r = slabID \<and> ss_sector_id r = sid) then Inl ErrUniqueViolation
      else insert_slab_sectors slabID (i + 1) rest
             (d\<lparr>tSlabSectors := tSlabSectors d @ [\<lparr>ss_slab_id = slabID, ss_slab_index = i, ss_sector_id = sid\<rparr>]\<rparr>))"

text \<open>The counter updates after the sectors of a slab were upserted.\<close>

definition record_unpinned :: "sector_results \<Rightarrow> db \<Rightarrow> db result" where
  "record_unpinned r d =
     rbind (if unpinned r > 0
            then incrementHostsUnpinnedSectors (unpinnedDeltas r) (incrementStat statUnpinnedSectors (unpinned r) d)
            else Inr d)
       (\<lambda>d. Inr (if rebound r > 0 then incrementStat statUnpinnableSectors (- rebound r) d else d))"

text \<open>The body of the loop over the slabs: the data and size that count against the limits.\<close>

definition pin_slab ::
  "core_ops \<Rightarrow> hasher \<Rightarrow> (public_key \<Rightarrow> bool) \<Rightarrow> gotime \<Rightarrow> gotime \<Rightarrow> int \<Rightarrow> slab_pin_params \<Rightarrow> (int \<times> int) tx" where
  "pin_slab C H good now nextCheck accountID slab d =
     rbind (upsert_slab now (Digest H slab) slab d) (\<lambda>((slabID, existing), d).
       let (inserted, d) = insert_account_slab accountID slabID d;
           newPinned = (if inserted then (uint (MinShards slab) * uint (SectorSize C), int (length (Sectors slab)) * uint (SectorSize C)) else (0, 0));
           d = (if existing then d else incrementStat statSlabs 1 d)
       in rbind (upsert_sectors good now nextCheck (Sectors slab) d) (\<lambda>(r, d).
         if (of_nat (badHosts r) :: rat) > 1 / 5 * of_int (int (length (Sectors slab)) - uint (MinShards slab)) then Inl ErrBadHosts
         else rbind (record_unpinned r d) (\<lambda>d.
           rbind (insert_slab_sectors slabID 0 (sectorIDs r) d) (\<lambda>d. Inr (newPinned, d)))))"

fun pin_slabs_loop ::
  "core_ops \<Rightarrow> hasher \<Rightarrow> (public_key \<Rightarrow> bool) \<Rightarrow> gotime \<Rightarrow> gotime \<Rightarrow> int \<Rightarrow> slab_pin_params list \<Rightarrow> (int \<times> int) tx" where
  "pin_slabs_loop C H good now nextCheck accountID [] d = Inr ((0, 0), d)"
| "pin_slabs_loop C H good now nextCheck accountID (slab # rest) d =
     rbind (pin_slab C H good now nextCheck accountID slab d) (\<lambda>((pd, ps), d).
       rbind (pin_slabs_loop C H good now nextCheck accountID rest d) (\<lambda>((pd', ps'), d). Inr ((pd + pd', ps + ps'), d)))"

text \<open>The two \<open>UPDATE ... RETURNING\<close> statements that charge the account and its connect key.\<close>

definition charge_account :: "int \<Rightarrow> int \<Rightarrow> int \<Rightarrow> db \<Rightarrow> db result" where
  "charge_account accountID newData newSize d =
     (let d' = d\<lparr>tAccounts := update_rows (\<lambda>a. ac_id a = accountID)
                 (\<lambda>a. a\<lparr>ac_pinned_data := ac_pinned_data a + newData, ac_pinned_size := ac_pinned_size a + newSize\<rparr>) (tAccounts d)\<rparr>
      in case find (\<lambda>a. ac_id a = accountID) (tAccounts d') of
           None \<Rightarrow> Inl ErrNoRows
         | Some a \<Rightarrow> if ac_pinned_data a > ac_max_pinned_data a then Inl ErrAccountStorageLimitExceeded else Inr d')"

definition charge_connect_key :: "int \<Rightarrow> int \<Rightarrow> int \<Rightarrow> db \<Rightarrow> db result" where
  "charge_connect_key connectKeyID newData newSize d =
     (case find (\<lambda>k. ck_id k = connectKeyID) (tConnectKeys d) of
        None \<Rightarrow> Inl ErrNoRows
      | Some k \<Rightarrow>
          (case find (\<lambda>q. q_name q = ck_quota_name k) (tQuotas d) of
             None \<Rightarrow> Inl ErrNoRows
           | Some q \<Rightarrow>
               if ck_pinned_data k + newData > q_max_pinned_data q then Inl ErrAppKeyStorageLimitExceeded
               else Inr (d\<lparr>tConnectKeys := update_rows (\<lambda>k. ck_id k = connectKeyID)
                      (\<lambda>k. k\<lparr>ck_pinned_data := ck_pinned_data k + newData, ck_pinned_size := ck_pinned_size k + newSize\<rparr>) (tConnectKeys d)\<rparr>)))"

definition valid_min_shards :: "slab_pin_params \<Rightarrow> bool" where
  "valid_min_shards s \<longleftrightarrow> MinShards s \<noteq> 0 \<and> unat (MinShards s) \<le> length (Sectors s)"

definition PinSlabs ::
  "core_ops \<Rightarrow> hasher \<Rightarrow> gotime \<Rightarrow> account_key \<Rightarrow> gotime \<Rightarrow> slab_pin_params list \<Rightarrow> hash256 list tx" where
  "PinSlabs C H now account nextCheck toPin d =
     (case find (\<lambda>a. ac_public_key a = account) (tAccounts d) of
        None \<Rightarrow> Inl ErrAccountNotFound
      | Some a \<Rightarrow>
          if \<not> list_all valid_min_shards toPin then Inl ErrMinShards
          else rbind (pin_slabs_loop C H (good_host d) now nextCheck (ac_id a) toPin d) (\<lambda>((newData, newSize), d).
            rbind (charge_account (ac_id a) newData newSize d) (\<lambda>d.
              rbind (charge_connect_key (ac_connect_key_id a) newData newSize d) (\<lambda>d. Inr (map (Digest H) toPin, d)))))"

section \<open>Unpinning slabs\<close>

definition accountID :: "db \<Rightarrow> account_key \<Rightarrow> (int \<times> bool) result" where
  "accountID d account =
     (case find (\<lambda>a. ac_public_key a = account) (tAccounts d) of
        None \<Rightarrow> Inl ErrAccountNotFound
      | Some a \<Rightarrow> Inr (ac_id a, ac_deleted_at a \<noteq> None))"

definition slab_data :: "core_ops \<Rightarrow> db \<Rightarrow> int list \<Rightarrow> int" where
  "slab_data C d ids = (\<Sum>r \<leftarrow> filter (\<lambda>r. sl_id r \<in> set ids) (tSlabs d). int (sl_min_shards r)) * uint (SectorSize C)"

definition slab_size :: "core_ops \<Rightarrow> db \<Rightarrow> int list \<Rightarrow> int" where
  "slab_size C d ids = cnt (\<lambda>r. ss_slab_id r \<in> set ids) (tSlabSectors d) * uint (SectorSize C)"

text \<open>Appending to \<open>slab_deletion_queue\<close>.\<close>

definition queue_slabs :: "int list \<Rightarrow> db \<Rightarrow> db" where
  "queue_slabs ids d =
     d\<lparr>tDeletionQueue := tDeletionQueue d @ map (\<lambda>i. (seqQueue d + int i, ids ! i)) [0..<length ids],
       seqQueue := seqQueue d + int (length ids)\<rparr>"

definition unpinSlabs :: "core_ops \<Rightarrow> int \<Rightarrow> int list \<Rightarrow> db \<Rightarrow> db result" where
  "unpinSlabs C accID sIDs d =
     (let unpinnedIDs = map snd (filter (\<lambda>(a, s). a = accID \<and> s \<in> set sIDs) (tAccountSlabs d));
          d = d\<lparr>tAccountSlabs := filter (\<lambda>(a, s). \<not> (a = accID \<and> s \<in> set sIDs)) (tAccountSlabs d)\<rparr>
      in if unpinnedIDs = [] then Inr d
         else
           let dataDelta = slab_data C d unpinnedIDs; sizeDelta = slab_size C d unpinnedIDs;
               accs = update_rows (\<lambda>a. ac_id a = accID)
                 (\<lambda>a. a\<lparr>ac_pinned_data := ac_pinned_data a - dataDelta, ac_pinned_size := ac_pinned_size a - sizeDelta\<rparr>) (tAccounts d)
           in case find (\<lambda>a. ac_id a = accID) accs of
                None \<Rightarrow> Inl ErrNoRows
              | Some a \<Rightarrow>
                  if ac_pinned_data a < 0 \<or> ac_pinned_size a < 0 then Inl ErrCheckViolation
                  else
                    let d = d\<lparr>tAccounts := accs\<rparr>;
                        keys = (if ac_deleted_at a = None
                                then update_rows (\<lambda>k. ck_id k = ac_connect_key_id a)
                                  (\<lambda>k. k\<lparr>ck_pinned_data := ck_pinned_data k - dataDelta, ck_pinned_size := ck_pinned_size k - sizeDelta\<rparr>) (tConnectKeys d)
                                else tConnectKeys d)
                    in if \<exists>k \<in> set keys. ck_pinned_data k < 0 \<or> ck_pinned_size k < 0 then Inl ErrCheckViolation
                       else Inr (queue_slabs unpinnedIDs (d\<lparr>tConnectKeys := keys\<rparr>)))"

text \<open>Whether one of the account's objects references the slab.\<close>

definition referenced :: "db \<Rightarrow> int \<Rightarrow> hash256 \<Rightarrow> bool" where
  "referenced d accID digest \<longleftrightarrow>
     (\<exists>ob \<in> set (tObjects d). ob_account_id ob = accID \<and>
        (\<exists>r \<in> set (tObjectSlabs d). os_object_id r = ob_id ob \<and> os_slab_digest r = digest))"

definition unpinUnreferencedSlabs :: "core_ops \<Rightarrow> int \<Rightarrow> int list \<Rightarrow> gotime option \<Rightarrow> db \<Rightarrow> db result" where
  "unpinUnreferencedSlabs C accID sIDs cutoff d =
     (let toUnpin = map sl_id (filter (\<lambda>r. (accID, sl_id r) \<in> set (tAccountSlabs d) \<and> sl_id r \<in> set sIDs \<and>
                       (case cutoff of None \<Rightarrow> True | Some t \<Rightarrow> sl_pinned_at r < t) \<and> \<not> referenced d accID (sl_digest r)) (tSlabs d))
      in if toUnpin = [] then Inr d else unpinSlabs C accID toUnpin d)"

definition UnpinSlab :: "core_ops \<Rightarrow> account_key \<Rightarrow> hash256 \<Rightarrow> unit tx" where
  "UnpinSlab C account slabID d =
     rbind (accountID d account) (\<lambda>(accID, _).
       case find (\<lambda>r. sl_digest r = slabID) (tSlabs d) of
         None \<Rightarrow> Inl ErrSlabNotFound
       | Some r \<Rightarrow>
           if (accID, sl_id r) \<notin> set (tAccountSlabs d) then Inl ErrSlabNotFound
           else if referenced d accID slabID then Inl ErrSlabInUse
           else rbind (unpinSlabs C accID [sl_id r] d) (\<lambda>d. Inr ((), d)))"

section \<open>Deleting orphaned slabs\<close>

text \<open>Sectors that only the slabs to delete refer to.\<close>

definition orphaned_sector :: "db \<Rightarrow> int list \<Rightarrow> int \<Rightarrow> bool" where
  "orphaned_sector d toDelete sid \<longleftrightarrow>
     (\<exists>r \<in> set (tSlabSectors d). ss_sector_id r = sid \<and> ss_slab_id r \<in> set toDelete) \<and>
     \<not> (\<exists>r \<in> set (tSlabSectors d). ss_sector_id r = sid \<and> ss_slab_id r \<notin> set toDelete)"

text \<open>The slabs among \<open>sIDs\<close> that no account pins and no object references.\<close>

definition deletable_slabs :: "db \<Rightarrow> int list \<Rightarrow> int list" where
  "deletable_slabs d sIDs =
     map sl_id (filter (\<lambda>r. sl_id r \<in> set sIDs \<and> (\<forall>(a, s) \<in> set (tAccountSlabs d). s \<noteq> sl_id r) \<and>
       (\<forall>os \<in> set (tObjectSlabs d). os_slab_digest os \<noteq> sl_digest r)) (tSlabs d))"

text \<open>Deleting the orphaned sectors and the slabs; rows of \<open>slab_sectors\<close> go with either.\<close>

definition remove_slabs :: "int list \<Rightarrow> db \<Rightarrow> db" where
  "remove_slabs toDelete d =
     d\<lparr>tSectors := filter (\<lambda>s. \<not> orphaned_sector d toDelete (sec_id s)) (tSectors d),
       tSlabs := filter (\<lambda>r. sl_id r \<notin> set toDelete) (tSlabs d),
       tSlabSectors := filter (\<lambda>r. \<not> orphaned_sector d toDelete (ss_sector_id r) \<and> ss_slab_id r \<notin> set toDelete) (tSlabSectors d)\<rparr>"

definition deleteOrphanedSlabs :: "int list \<Rightarrow> db \<Rightarrow> db result" where
  "deleteOrphanedSlabs sIDs d =
     (let toDelete = deletable_slabs d sIDs;
          removed = filter (\<lambda>s. orphaned_sector d toDelete (sec_id s)) (tSectors d);
          hostUnpinned = count_by_host (filter is_unpinned removed);
          deletedSlabs = cnt (\<lambda>r. sl_id r \<in> set toDelete) (tSlabs d);
          d = remove_slabs toDelete d;
          d = incrementStat statPinnedSectors (- cnt is_pinned removed) d;
          d = incrementStat statUnpinnedSectors (- cnt is_unpinned removed) d;
          d = incrementStat statUnpinnableSectors (- cnt is_unpinnable removed) d
      in rbind (incrementHostsUnpinnedSectors (map (\<lambda>(h, n). (h, - n)) hostUnpinned) d) (\<lambda>d.
           Inr (incrementStat statSlabs (- deletedSlabs) d)))"

definition PruneDeletedSlabs :: "int \<Rightarrow> nat tx" where
  "PruneDeletedSlabs limit d =
     (if limit < 0 then Inl (ErrMsg ''limit can not be negative'')
      else
        let batch = take (nat limit) (stable_sort (\<lambda>a b. fst a < fst b) (tDeletionQueue d));
            slabIDs = rev (remdups (rev (map snd batch)))
        in if batch = [] then Inr (0, d)
           else rbind (deleteOrphanedSlabs slabIDs d) (\<lambda>d.
             Inr (length batch, d\<lparr>tDeletionQueue := filter (\<lambda>(i, _). i \<notin> set (map fst batch)) (tDeletionQueue d)\<rparr>)))"

section \<open>Objects\<close>

record object_slab =
  ObjSlabID :: hash256
  ObjOffset :: u32
  ObjLength :: u32

record pin_object_request =
  ObjectID :: hash256
  EncryptedDataKey :: "u8 list"
  EncryptedMetadataKey :: "u8 list"
  EncryptedMetadata :: "u8 list"
  DataSignature :: "u8 list"
  MetadataSignature :: "u8 list"
  ObjSlabs :: "object_slab list"

definition nullable :: "'a list \<Rightarrow> 'a list option" where
  "nullable bs = (if bs = [] then None else Some bs)"

text \<open>\<open>date_trunc('second', NOW())\<close>\<close>

definition trunc_second :: "gotime \<Rightarrow> gotime" where
  "trunc_second t = t - t mod 1000000000"

definition assertObjectNotBlocked :: "db \<Rightarrow> hash256 \<Rightarrow> unit result" where
  "assertObjectNotBlocked d key =
     (if (\<exists>b \<in> set (tBlocked d). bo_key b = key) then Inl ErrObjectBlocked else Inr ())"

text \<open>The lengths and unique columns of table \<open>objects\<close>.\<close>

definition object_row_ok :: "db \<Rightarrow> object_row \<Rightarrow> unit result" where
  "object_row_ok d r =
     (if length (ob_data_key r) \<noteq> 72 \<or> (\<exists>k. ob_meta_key r = Some k \<and> length k \<noteq> 72) \<or>
         length (ob_data_signature r) \<noteq> 64 \<or> length (ob_meta_signature r) \<noteq> 64 then Inl ErrCheckViolation
      else if (\<exists>x \<in> set (tObjects d). ob_id x \<noteq> ob_id r \<and>
                (ob_data_key x = ob_data_key r \<or> (ob_meta_key r \<noteq> None \<and> ob_meta_key x = ob_meta_key r) \<or>
                 ob_data_signature x = ob_data_signature r \<or> ob_meta_signature x = ob_meta_signature r)) then Inl ErrUniqueViolation
      else Inr ())"

definition upsert_object :: "gotime \<Rightarrow> int \<Rightarrow> pin_object_request \<Rightarrow> int tx" where
  "upsert_object now accID obj d =
     (let fill = (\<lambda>r. r\<lparr>ob_data_key := EncryptedDataKey obj, ob_meta_key := nullable (EncryptedMetadataKey obj),
                       ob_metadata := nullable (EncryptedMetadata obj), ob_data_signature := DataSignature obj,
                       ob_meta_signature := MetadataSignature obj, ob_updated_at := now\<rparr>)
      in case find (\<lambda>r. ob_account_id r = accID \<and> ob_key r = ObjectID obj) (tObjects d) of
           Some r \<Rightarrow> rbind (object_row_ok d (fill r)) (\<lambda>_.
             Inr (ob_id r, d\<lparr>tObjects := update_rows (\<lambda>x. ob_account_id x = accID \<and> ob_key x = ObjectID obj) fill (tObjects d),
                             seqObjects := seqObjects d + 1\<rparr>))
         | None \<Rightarrow>
             let r = fill \<lparr>ob_id = seqObjects d, ob_key = ObjectID obj, ob_account_id = accID, ob_data_key = [], ob_meta_key = None,
                       ob_metadata = None, ob_data_signature = [], ob_meta_signature = [], ob_created_at = now, ob_updated_at = now\<rparr>
             in rbind (object_row_ok d r) (\<lambda>_.
                  Inr (ob_id r, d\<lparr>tObjects := tObjects d @ [r], seqObjects := seqObjects d + 1\<rparr>)))"

definition upsert_event :: "gotime \<Rightarrow> int \<Rightarrow> hash256 \<Rightarrow> db \<Rightarrow> db" where
  "upsert_event now accID key d =
     (if (\<exists>e \<in> set (tObjectEvents d). oe_account_id e = accID \<and> oe_key e = key)
      then d\<lparr>tObjectEvents := update_rows (\<lambda>e. oe_account_id e = accID \<and> oe_key e = key)
               (\<lambda>e. e\<lparr>oe_deleted := False, oe_updated_at := trunc_second now\<rparr>) (tObjectEvents d)\<rparr>
      else d\<lparr>tObjectEvents := tObjectEvents d @ [\<lparr>oe_key = key, oe_account_id = accID, oe_deleted = False, oe_updated_at = trunc_second now\<rparr>]\<rparr>)"

definition PinObject :: "gotime \<Rightarrow> account_key \<Rightarrow> pin_object_request \<Rightarrow> unit tx" where
  "PinObject now account obj d =
     rbind (accountID d account) (\<lambda>(accID, deleted).
       if deleted then Inl ErrAccountNotFound
       else rbind (assertObjectNotBlocked d (ObjectID obj)) (\<lambda>_.
         rbind (upsert_object now accID obj d) (\<lambda>(objID, d).
           let d = upsert_event now accID (ObjectID obj) d;
               digests = map ObjSlabID (ObjSlabs obj);
               pinnedHere = cnt (\<lambda>(a, s). a = accID \<and> (\<exists>r \<in> set (tSlabs d). sl_id r = s \<and> sl_digest r \<in> set digests)) (tAccountSlabs d)
           in if int (card (set digests)) \<noteq> pinnedHere then Inl ErrObjectUnpinnedSlab
              else if (\<exists>s \<in> set (ObjSlabs obj). unat (ObjOffset s) \<ge> 2 ^ 31 \<or> unat (ObjLength s) \<ge> 2 ^ 31) then Inl ErrOutOfRange
              else Inr ((), d\<lparr>tObjectSlabs := filter (\<lambda>r. os_object_id r \<noteq> objID) (tObjectSlabs d) @
                     map (\<lambda>i. \<lparr>os_object_id = objID, os_slab_digest = ObjSlabID (ObjSlabs obj ! i), os_slab_index = i,
                               os_offset = ObjOffset (ObjSlabs obj ! i), os_length = ObjLength (ObjSlabs obj ! i)\<rparr>) [0..<length (ObjSlabs obj)]\<rparr>))))"

definition DeleteObject :: "core_ops \<Rightarrow> gotime \<Rightarrow> account_key \<Rightarrow> hash256 \<Rightarrow> unit tx" where
  "DeleteObject C now account key d =
     rbind (accountID d account) (\<lambda>(accID, _).
       case find (\<lambda>r. ob_key r = key \<and> ob_account_id r = accID) (tObjects d) of
         None \<Rightarrow> Inl ErrObjectNotFound
       | Some ob \<Rightarrow>
           let objectSlabIDs = map sl_id (filter (\<lambda>r. \<exists>os \<in> set (tObjectSlabs d). os_object_id os = ob_id ob \<and> os_slab_digest os = sl_digest r) (tSlabs d));
               d = d\<lparr>tObjectSlabs := filter (\<lambda>os. os_object_id os \<noteq> ob_id ob) (tObjectSlabs d)\<rparr>;
               d = d\<lparr>tObjects := filter (\<lambda>x. ob_id x \<noteq> ob_id ob) (tObjects d)\<rparr>;
               d = d\<lparr>tObjectEvents := update_rows (\<lambda>e. oe_account_id e = accID \<and> oe_key e = key)
                       (\<lambda>e. e\<lparr>oe_deleted := True, oe_updated_at := trunc_second now\<rparr>) (tObjectEvents d)\<rparr>
           in rbind (unpinUnreferencedSlabs C accID objectSlabIDs None d) (\<lambda>d. Inr ((), d)))"

section \<open>Pruning slabs, the repair schedule\<close>

definition unused_slabs :: "int \<Rightarrow> gotime \<Rightarrow> int \<Rightarrow> nat \<Rightarrow> db \<Rightarrow> int list" where
  "unused_slabs accID cutoff cursor limit d =
     take limit (stable_sort (<) (map sl_id (filter (\<lambda>r. (accID, sl_id r) \<in> set (tAccountSlabs d) \<and> sl_id r > cursor \<and>
        sl_pinned_at r < cutoff \<and> \<not> referenced d accID (sl_digest r)) (tSlabs d))))"

text \<open>One iteration of the loop of \<open>PruneSlabs\<close>: the next cursor and whether the slabs are exhausted.\<close>

definition prune_slabs_batch :: "core_ops \<Rightarrow> int \<Rightarrow> gotime \<Rightarrow> int \<Rightarrow> (int \<times> bool) tx" where
  "prune_slabs_batch C accID cutoff cursor d =
     (let candidates = unused_slabs accID cutoff cursor 100 d
      in if candidates = [] then Inr ((cursor, True), d)
         else rbind (unpinUnreferencedSlabs C accID candidates (Some cutoff) d)
                (\<lambda>d. Inr ((last candidates, length candidates < 100), d)))"

fun prune_slabs_loop :: "nat \<Rightarrow> core_ops \<Rightarrow> int \<Rightarrow> gotime \<Rightarrow> int \<Rightarrow> db \<Rightarrow> (unit result \<times> db) option" where
  "prune_slabs_loop 0 C accID cutoff cursor d = None"
| "prune_slabs_loop (Suc fuel) C accID cutoff cursor d =
     (case prune_slabs_batch C accID cutoff cursor d of
        Inl e \<Rightarrow> Some (Inl e, d)
      | Inr ((next, exhausted), d') \<Rightarrow>
          if exhausted then Some (Inr (), d') else prune_slabs_loop fuel C accID cutoff next d')"

definition PruneSlabs :: "nat \<Rightarrow> core_ops \<Rightarrow> account_key \<Rightarrow> gotime \<Rightarrow> db \<Rightarrow> (unit result \<times> db) option" where
  "PruneSlabs fuel C account cutoff d =
     (case accountID d account of
        Inl e \<Rightarrow> Some (Inl e, d)
      | Inr (accID, _) \<Rightarrow> prune_slabs_loop fuel C accID cutoff 0 d)"

definition minRepairBackoff :: duration where "minRepairBackoff = time_hour"
definition maxRepairBackoff :: duration where "maxRepairBackoff = 24 * time_hour"

text \<open>\<open>1 << n\<close> and the product with the backoff are 64-bit signed operations.\<close>

definition nextRepairBackoff :: "nat \<Rightarrow> duration" where
  "nextRepairBackoff currentFailures = min (wrap64 (minRepairBackoff * wrap64 (2 ^ currentFailures))) maxRepairBackoff"

definition MarkSlabRepaired :: "gotime \<Rightarrow> hash256 \<Rightarrow> bool \<Rightarrow> unit tx" where
  "MarkSlabRepaired now slabID success d =
     (case find (\<lambda>r. sl_digest r = slabID) (tSlabs d) of
        None \<Rightarrow> Inl ErrSlabNotFound
      | Some r \<Rightarrow>
          if success
          then Inr ((), d\<lparr>tSlabs := update_rows (\<lambda>r. sl_digest r = slabID) (\<lambda>r. r\<lparr>sl_failed_repairs := 0\<rparr>) (tSlabs d)\<rparr>)
          else Inr ((), d\<lparr>tSlabs := update_rows (\<lambda>r. sl_digest r = slabID)
                 (\<lambda>x. x\<lparr>sl_failed_repairs := sl_failed_repairs r + 1,
                       sl_next_repair := now + nextRepairBackoff (nat (sl_failed_repairs r))\<rparr>) (tSlabs d)\<rparr>))"

section \<open>Accounts\<close>

definition DeleteAccount :: "gotime \<Rightarrow> account_key \<Rightarrow> unit tx" where
  "DeleteAccount now account d =
     (case find (\<lambda>a. ac_public_key a = account \<and> ac_deleted_at a = None) (tAccounts d) of
        None \<Rightarrow> Inl ErrAccountNotFound
      | Some a \<Rightarrow>
          (case find (\<lambda>k. ck_id k = ac_connect_key_id a) (tConnectKeys d) of
             None \<Rightarrow> Inl ErrAccountNotFound
           | Some k \<Rightarrow>
               if ck_pinned_data k < ac_pinned_data a \<or> ck_pinned_size k < ac_pinned_size a then Inl ErrCheckViolation
               else Inr ((), d\<lparr>tAccounts := update_rows (\<lambda>x. ac_public_key x = account \<and> ac_deleted_at x = None) (\<lambda>x. x\<lparr>ac_deleted_at := Some now\<rparr>) (tAccounts d),
                               tConnectKeys := update_rows (\<lambda>x. ck_id x = ck_id k)
                                 (\<lambda>x. x\<lparr>ck_pinned_data := ck_pinned_data x - ac_pinned_data a, ck_pinned_size := ck_pinned_size x - ac_pinned_size a\<rparr>) (tConnectKeys d)\<rparr>)))"

text \<open>The first soft-deleted account by deletion time; equal times in table order.\<close>

definition next_deleted_account :: "db \<Rightarrow> account_row option" where
  "next_deleted_account d =
     (case stable_sort (\<lambda>a b. ac_deleted_at a \<noteq> None \<and> ac_deleted_at b \<noteq> None \<and> the (ac_deleted_at a) < the (ac_deleted_at b))
             (filter (\<lambda>a. ac_deleted_at a \<noteq> None) (tAccounts d)) of
        [] \<Rightarrow> None | a # _ \<Rightarrow> Some a)"

definition PruneAccounts :: "int \<Rightarrow> unit tx" where
  "PruneAccounts limit d =
     (if limit < 0 then Inl (ErrMsg ''limit can not be negative'')
      else case next_deleted_account d of
        None \<Rightarrow> Inl ErrAccountNotFound
      | Some a \<Rightarrow>
          let accID = ac_id a;
              objs = take (nat limit) (stable_sort (<) (map ob_id (filter (\<lambda>x. ob_account_id x = accID) (tObjects d))));
              d = d\<lparr>tObjects := filter (\<lambda>x. ob_id x \<notin> set objs) (tObjects d),
                    tObjectSlabs := filter (\<lambda>r. os_object_id r \<notin> set objs) (tObjectSlabs d)\<rparr>;
              remaining = limit - int (length objs)
          in if remaining = 0 then Inr ((), d)
             else
               let slabs = take (nat remaining) (stable_sort (<) (map snd (filter (\<lambda>(x, _). x = accID) (tAccountSlabs d))));
                   d = queue_slabs slabs (d\<lparr>tAccountSlabs := filter (\<lambda>(x, s). \<not> (x = accID \<and> s \<in> set slabs)) (tAccountSlabs d)\<rparr>)
               in if int (length slabs) = remaining then Inr ((), d)
                  else Inr ((), incrementStat statAccountsRegistered (- 1)
                         (d\<lparr>tAccounts := filter (\<lambda>x. ac_id x \<noteq> accID) (tAccounts d),
                            tObjectEvents := filter (\<lambda>e. oe_account_id e \<noteq> accID) (tObjectEvents d),
                            tAccountHosts := filter (\<lambda>r. ah_account_id r \<noteq> accID) (tAccountHosts d),
                            tPoolAttachments := filter (\<lambda>r. pa_account_id r \<noteq> accID) (tPoolAttachments d)\<rparr>)))"

section \<open>The sector counters\<close>

definition struct_inv :: "db \<Rightarrow> bool" where
  "struct_inv d \<longleftrightarrow> sectors_wf d \<and> keys_wf d \<and> hosts_known d \<and> pins_wf d"

lemma store_inv_alt: "store_inv d \<longleftrightarrow> struct_inv d \<and> counters_wf d"
  by (auto simp: store_inv_def struct_inv_def)

text \<open>Two databases with the same sectors, hosts, contracts and sector statistics.\<close>

definition same_sectors :: "db \<Rightarrow> db \<Rightarrow> bool" where
  "same_sectors d d' \<longleftrightarrow> tSectors d' = tSectors d \<and> tHosts d' = tHosts d \<and> tContracts d' = tContracts d \<and> tCSM d' = tCSM d \<and>
     seqSectors d' = seqSectors d \<and> seqCSM d' = seqCSM d \<and>
     (\<forall>n \<in> {statPinnedSectors, statUnpinnedSectors, statUnpinnableSectors}. sqlStatSelect d' n = sqlStatSelect d n)"

lemma same_sectors_trans: "same_sectors a b \<Longrightarrow> same_sectors b c \<Longrightarrow> same_sectors a c"
  by (simp add: same_sectors_def)

lemma same_sectors_refl [simp]: "same_sectors d d"
  by (simp add: same_sectors_def)

lemma struct_inv_frame:
  assumes "tSectors d' = tSectors d" "tHosts d' = tHosts d" "tContracts d' = tContracts d" "tCSM d' = tCSM d"
    "seqSectors d' = seqSectors d" "seqCSM d' = seqCSM d"
  shows "struct_inv d' = struct_inv d"
proof -
  have "pinned_on_host d' s = pinned_on_host d s" for s by (rule pinned_on_host_frame) (simp_all add: assms)
  then show ?thesis by (simp add: struct_inv_def sectors_wf_def keys_wf_def hosts_known_def pins_wf_def assms)
qed

lemma store_inv_same_sectors:
  assumes "same_sectors d d'" and "store_inv d"
  shows "store_inv d'"
proof -
  from assms(1) have "struct_inv d' = struct_inv d" by (intro struct_inv_frame) (simp_all add: same_sectors_def)
  moreover from assms have "counters_wf d'" by (simp add: counters_wf_def store_inv_def same_sectors_def)
  ultimately show ?thesis using assms(2) by (simp add: store_inv_alt)
qed

lemma sqlStatSelect_frame [store_simps]:
  "sqlStatSelect (d\<lparr>tSlabs := a, seqSlabs := i\<rparr>) n = sqlStatSelect d n"
  "sqlStatSelect (d\<lparr>tAccountSlabs := b\<rparr>) n = sqlStatSelect d n"
  "sqlStatSelect (d\<lparr>tSlabSectors := c\<rparr>) n = sqlStatSelect d n"
  "sqlStatSelect (d\<lparr>tAccounts := e\<rparr>) n = sqlStatSelect d n"
  "sqlStatSelect (d\<lparr>tConnectKeys := f\<rparr>) n = sqlStatSelect d n"
  "sqlStatSelect (d\<lparr>tObjectSlabs := g\<rparr>) n = sqlStatSelect d n"
  "sqlStatSelect (d\<lparr>tSectors := h, seqSectors := j\<rparr>) n = sqlStatSelect d n"
  by (simp_all add: sqlStatSelect_def)

lemma queue_slabs_same: "same_sectors d (queue_slabs ids d)"
  by (simp add: same_sectors_def queue_slabs_def sqlStatSelect_def)

lemma unpinSlabs_same: "unpinSlabs C accID sIDs d = Inr d' \<Longrightarrow> same_sectors d d'"
  by (auto simp: unpinSlabs_def Let_def same_sectors_def queue_slabs_def sqlStatSelect_def split: if_splits option.splits)

lemma unpinUnreferencedSlabs_same: "unpinUnreferencedSlabs C accID sIDs cutoff d = Inr d' \<Longrightarrow> same_sectors d d'"
  by (auto simp: unpinUnreferencedSlabs_def Let_def split: if_splits dest: unpinSlabs_same)

lemma UnpinSlab_same: "UnpinSlab C account slabID d = Inr (x, d') \<Longrightarrow> same_sectors d d'"
  by (auto simp: UnpinSlab_def rbind_eq_Inr split: if_splits option.splits prod.splits dest: unpinSlabs_same)

lemma upsert_object_same: "upsert_object now accID obj d = Inr (i, d') \<Longrightarrow> same_sectors d d'"
  by (auto simp: upsert_object_def Let_def rbind_eq_Inr same_sectors_def sqlStatSelect_def split: option.splits)

lemma upsert_event_same: "same_sectors d (upsert_event now accID key d)"
  by (simp add: upsert_event_def same_sectors_def sqlStatSelect_def)

lemma PinObject_same:
  assumes "PinObject now account obj d = Inr (x, d')"
  shows "same_sectors d d'"
proof -
  from assms obtain accID objID d1 ys where d1: "upsert_object now accID obj d = Inr (objID, d1)"
    and d': "d' = (upsert_event now accID (ObjectID obj) d1)\<lparr>tObjectSlabs := ys\<rparr>"
    by (auto simp: PinObject_def rbind_eq_Inr Let_def split: if_splits prod.splits)
  have "same_sectors (upsert_event now accID (ObjectID obj) d1) d'"
    by (simp add: d' same_sectors_def store_simps)
  with upsert_object_same[OF d1] upsert_event_same show ?thesis by (metis same_sectors_trans)
qed

lemma DeleteObject_same:
  assumes "DeleteObject C now account key d = Inr (x, d')"
  shows "same_sectors d d'"
proof -
  from assms obtain accID ids a b c where
    "unpinUnreferencedSlabs C accID ids None (d\<lparr>tObjectSlabs := a, tObjects := b, tObjectEvents := c\<rparr>) = Inr d'"
    by (auto simp: DeleteObject_def rbind_eq_Inr Let_def split: option.splits prod.splits)
  from unpinUnreferencedSlabs_same[OF this] show ?thesis by (simp add: same_sectors_def sqlStatSelect_def)
qed

lemma DeleteAccount_same: "DeleteAccount now account d = Inr (x, d') \<Longrightarrow> same_sectors d d'"
  by (auto simp: DeleteAccount_def same_sectors_def sqlStatSelect_def split: if_splits option.splits)

lemma MarkSlabRepaired_same: "MarkSlabRepaired now slabID ok d = Inr (x, d') \<Longrightarrow> same_sectors d d'"
  by (auto simp: MarkSlabRepaired_def same_sectors_def sqlStatSelect_def split: if_splits option.splits)

lemma PruneAccounts_same: "PruneAccounts limit d = Inr (x, d') \<Longrightarrow> same_sectors d d'"
  by (auto simp: PruneAccounts_def Let_def same_sectors_def queue_slabs_def sqlStatSelect_def incrementStat_def split: if_splits option.splits)

text \<open>Upserting the sectors of a slab: what the collected numbers mean.\<close>

definition sector_delta :: "db \<Rightarrow> db \<Rightarrow> int \<Rightarrow> int \<Rightarrow> (int \<times> int) list \<Rightarrow> bool" where
  "sector_delta d d' up re ds \<longleftrightarrow>
     cnt is_pinned (tSectors d') = cnt is_pinned (tSectors d) \<and>
     cnt is_unpinned (tSectors d') = cnt is_unpinned (tSectors d) + up \<and>
     cnt is_unpinnable (tSectors d') = cnt is_unpinnable (tSectors d) - re \<and>
     (\<forall>h. cnt (unpinned_on h) (tSectors d') = cnt (unpinned_on h) (tSectors d) + delta_of h ds)"

text \<open>Only the sectors change.\<close>

definition only_sectors :: "db \<Rightarrow> db \<Rightarrow> bool" where
  "only_sectors d d' \<longleftrightarrow> (\<exists>ss n. d' = d\<lparr>tSectors := ss, seqSectors := n\<rparr>)"

lemma only_sectors_refl: "only_sectors d d"
  unfolding only_sectors_def by (rule exI[of _ "tSectors d"], rule exI[of _ "seqSectors d"]) simp

lemma only_sectors_trans: "only_sectors a b \<Longrightarrow> only_sectors b c \<Longrightarrow> only_sectors a c"
  unfolding only_sectors_def by (elim exE, rule exI, rule exI) simp

lemma struct_inv_insert:
  assumes inv: "struct_inv d" and new: "r \<notin> sec_root ` set (tSectors d)" and h: "h \<in> h_id ` set (tHosts d)"
    and s: "sec_id s = seqSectors d" "sec_root s = r" "sec_host_id s = Some h" "sec_csm s = None"
  shows "struct_inv (d\<lparr>tSectors := tSectors d @ [s], seqSectors := seqSectors d + 1\<rparr>)" (is "struct_inv ?d'")
proof -
  have p: "pinned_on_host ?d' x = pinned_on_host d x" for x by (rule pinned_on_host_frame) simp_all
  have "sectors_wf ?d'"
    using inv new s by (auto simp: struct_inv_def sectors_wf_def)
  moreover have "keys_wf ?d'" using inv by (simp add: struct_inv_def keys_wf_def)
  moreover have "hosts_known ?d'" using inv h s by (auto simp: struct_inv_def hosts_known_def)
  moreover have "pins_wf ?d'" using inv s by (auto simp: struct_inv_def pins_wf_def p) (simp add: pinned_on_host_def)
  ultimately show ?thesis by (simp add: struct_inv_def)
qed

lemma struct_inv_update:
  assumes inv: "struct_inv d" and f: "\<And>s. sec_id (f s) = sec_id s \<and> sec_root (f s) = sec_root s"
    and new: "new_rows_ok d Q f" and n: "seqSectors d \<le> n"
  shows "struct_inv (d\<lparr>tSectors := update_rows Q f (tSectors d), seqSectors := n\<rparr>)" (is "struct_inv ?d'")
proof -
  have p: "pinned_on_host ?d' x = pinned_on_host d x" for x by (rule pinned_on_host_frame) simp_all
  have "sectors_wf ?d'"
    using inv f new n by (fastforce simp: struct_inv_def sectors_wf_def new_rows_ok_def map_update_rows ball_update_rows)
  moreover have "keys_wf ?d'" using inv by (simp add: struct_inv_def keys_wf_def)
  moreover have "hosts_known ?d'" using inv new by (auto simp: struct_inv_def hosts_known_def new_rows_ok_def ball_update_rows)
  moreover have "pins_wf ?d'"
  proof -
    from inv have "\<forall>s \<in> set (tSectors d). pinned_on_host d s" by (simp add: struct_inv_def pins_wf_def)
    moreover from new have "\<forall>s \<in> set (tSectors d). Q s \<longrightarrow> pinned_on_host d (f s)" by (simp add: new_rows_ok_def)
    ultimately show ?thesis by (simp add: pins_wf_def p ball_update_rows)
  qed
  ultimately show ?thesis by (simp add: struct_inv_def)
qed

lemma upsert_sector_effect:
  assumes inv: "struct_inv d" and eq: "upsert_sector now nextCheck sector d = Inr ((sid, hid, inserted, isRebound), d')"
  shows "struct_inv d' \<and> only_sectors d d' \<and>
    sector_delta d d' (if inserted \<or> isRebound then 1 else 0) (if isRebound then 1 else 0) (if inserted \<or> isRebound then [(hid, 1)] else [])"
proof -
  from eq obtain k where k: "host_id_of d (SectorHostKey sector) = Some k"
    by (auto simp: upsert_sector_def split: option.splits)
  then have k_in: "k \<in> h_id ` set (tHosts d)" by (auto simp: host_id_of_def dest: find_SomeD)
  define up where "up = (case UploadedAt sector of None \<Rightarrow> now | Some t \<Rightarrow> min now t)"
  show ?thesis
  proof (cases "find (\<lambda>s. sec_root s = Root sector) (tSectors d)")
    case None
    then have "Root sector \<notin> sec_root ` set (tSectors d)" by (auto simp: find_None_iff)
    from struct_inv_insert[OF inv this k_in] None eq k show ?thesis
      by (auto simp: upsert_sector_def Let_def only_sectors_def sector_delta_def class_defs)
  next
    case (Some s)
    then have s: "s \<in> set (tSectors d)" "sec_root s = Root sector" by (auto dest: find_SomeD)
    let ?Q = "\<lambda>s. sec_root s = Root sector"
    let ?f = "\<lambda>s. s\<lparr>sec_uploaded_at := max (sec_uploaded_at s) up,
        sec_host_id := (case sec_host_id s of None \<Rightarrow> Some k | Some k \<Rightarrow> Some k)\<rparr>"
    from eq k Some have d': "d' = d\<lparr>tSectors := update_rows ?Q ?f (tSectors d), seqSectors := seqSectors d + 1\<rparr>"
      and r: "\<not> inserted" "isRebound = (sec_host_id s = None)" "hid = (case sec_host_id s of None \<Rightarrow> k | Some k \<Rightarrow> k)"
      by (auto simp: upsert_sector_def Let_def up_def)
    have wf: "distinct (map sec_root (tSectors d))" "\<And>x. x \<in> set (tSectors d) \<Longrightarrow> sec_host_id x = None \<Longrightarrow> sec_csm x = None"
      "\<And>x. x \<in> set (tSectors d) \<Longrightarrow> pinned_on_host d x"
      "\<And>x h. x \<in> set (tSectors d) \<Longrightarrow> sec_host_id x = Some h \<Longrightarrow> h \<in> h_id ` set (tHosts d)"
      using inv by (auto simp: struct_inv_def sectors_wf_def pins_wf_def hosts_known_def)
    have "pinned_on_host d (?f x)" if "x \<in> set (tSectors d)" for x
      using wf(2,3)[OF that] by (cases "sec_host_id x") (auto simp: pinned_on_host_def)
    then have "new_rows_ok d ?Q ?f"
      using wf(2,4) k_in by (auto simp: new_rows_ok_def split: option.splits)
    then have "struct_inv d'" unfolding d' by (intro struct_inv_update[OF inv]) auto
    moreover have "only_sectors d d'" unfolding only_sectors_def d' by blast
    moreover have "cnt P (tSectors d') = cnt P (tSectors d) - (if P s then 1 else 0) + (if P (?f s) then 1 else 0)" for P
      using cnt_unique_root[OF wf(1) s(1), of "\<lambda>x. P (?f x)"] cnt_unique_root[OF wf(1) s(1), of P] s(2)
      by (simp add: d' cnt_update_rows conj_commute)
    then have "sector_delta d d' (if isRebound then 1 else 0) (if isRebound then 1 else 0) (if isRebound then [(hid, 1)] else [])"
      using r wf(2)[OF s(1)] unfolding sector_delta_def by (cases "sec_host_id s") (auto simp: class_defs)
    ultimately show ?thesis using r(1) by simp
  qed
qed

lemma sector_delta_trans:
  "sector_delta a b u r ds \<Longrightarrow> sector_delta b c u' r' ds' \<Longrightarrow> sector_delta a c (u + u') (r + r') (ds @ ds')"
proof -
  have "delta_of h (xs @ ys) = delta_of h xs + delta_of h ys" for h xs ys by (induction xs) auto
  then show "sector_delta a b u r ds \<Longrightarrow> sector_delta b c u' r' ds' \<Longrightarrow> ?thesis" by (simp add: sector_delta_def)
qed

lemma upsert_sectors_effect:
  "struct_inv d \<Longrightarrow> upsert_sectors good now nextCheck ss d = Inr (r, d') \<Longrightarrow>
   struct_inv d' \<and> only_sectors d d' \<and> sector_delta d d' (unpinned r) (rebound r) (unpinnedDeltas r) \<and>
   unpinned r = int (length (unpinnedDeltas r)) \<and> 0 \<le> rebound r"
proof (induction ss arbitrary: d r)
  case Nil
  then show ?case by (auto simp: only_sectors_refl sector_delta_def)
next
  case (Cons sector ss)
  from Cons.prems(2) obtain sid hid ins re d1 r1 where
    u: "upsert_sector now nextCheck sector d = Inr ((sid, hid, ins, re), d1)" and
    rest: "upsert_sectors good now nextCheck ss d1 = Inr (r1, d')" and
    r: "unpinned r = (if ins \<or> re then unpinned r1 + 1 else unpinned r1)" "rebound r = (if re then rebound r1 + 1 else rebound r1)"
      "unpinnedDeltas r = (if ins \<or> re then (hid, 1) # unpinnedDeltas r1 else unpinnedDeltas r1)"
    by (auto simp: rbind_eq_Inr)
  note U = upsert_sector_effect[OF Cons.prems(1) u]
  note R = Cons.IH[OF conjunct1[OF U] rest]
  from U R have "only_sectors d d'" by (blast intro: only_sectors_trans)
  moreover have "sector_delta d d' (unpinned r) (rebound r) (unpinnedDeltas r)"
  proof -
    have "sector_delta d d' ((if ins \<or> re then 1 else 0) + unpinned r1) ((if re then 1 else 0) + rebound r1)
        ((if ins \<or> re then [(hid, 1)] else []) @ unpinnedDeltas r1)"
      by (rule sector_delta_trans) (use U R in blast)+
    then show ?thesis by (cases ins; cases re) (simp_all add: r add.commute)
  qed
  ultimately show ?case using R by (auto simp: r)
qed

lemma struct_inv_hosts_map:
  assumes "struct_inv d" and "\<And>h. h_id (f h) = h_id h \<and> h_public_key (f h) = h_public_key h"
  shows "struct_inv (d\<lparr>tHosts := map f (tHosts d)\<rparr>)" (is "struct_inv ?d'")
proof -
  have "pinned_on_host ?d' s = pinned_on_host d s" for s by (rule pinned_on_host_frame) simp_all
  moreover have "map h_id (map f (tHosts d)) = map h_id (tHosts d)" "map h_public_key (map f (tHosts d)) = map h_public_key (tHosts d)"
    using assms(2) by simp_all
  moreover from this(1) have "h_id ` f ` set (tHosts d) = h_id ` set (tHosts d)" by (metis set_map)
  moreover have "h_id \<circ> f = h_id" "h_public_key \<circ> f = h_public_key" using assms(2) by auto
  ultimately have "sectors_wf ?d'" "keys_wf ?d'" "hosts_known ?d'" "pins_wf ?d'"
    using assms(1) by (simp_all add: struct_inv_def sectors_wf_def keys_wf_def hosts_known_def pins_wf_def)
  then show ?thesis by (simp add: struct_inv_def)
qed

lemma record_unpinned_effect:
  assumes eq: "record_unpinned r d = Inr d'" and u: "unpinned r = int (length (unpinnedDeltas r))" "0 \<le> rebound r"
  shows "d' = incrementStat statUnpinnableSectors (- rebound r)
     ((incrementStat statUnpinnedSectors (unpinned r) d)
        \<lparr>tHosts := map (\<lambda>h. h\<lparr>h_unpinned_sectors := h_unpinned_sectors h + delta_of (h_id h) (unpinnedDeltas r)\<rparr>) (tHosts d)\<rparr>)"
proof -
  have tail: "(if rebound r > 0 then incrementStat statUnpinnableSectors (- rebound r) e else e) = incrementStat statUnpinnableSectors (- rebound r) e" for e
    using u(2) by (auto simp: incrementStat_def)
  show ?thesis
  proof (cases "unpinned r > 0")
    case True
    with eq obtain e where e: "incrementHostsUnpinnedSectors (unpinnedDeltas r) (incrementStat statUnpinnedSectors (unpinned r) d) = Inr e"
      and d': "d' = incrementStat statUnpinnableSectors (- rebound r) e"
      by (auto simp: record_unpinned_def rbind_eq_Inr tail)
    from incrementHostsUnpinnedSectors_effect[OF e] show ?thesis by (simp add: d' store_simps)
  next
    case False
    with u(1) have "unpinnedDeltas r = []" "unpinned r = 0" by auto
    with eq False show ?thesis by (simp add: record_unpinned_def tail) (simp add: incrementStat_def)
  qed
qed

lemma record_unpinned_inv:
  assumes inv: "store_inv d" and o: "only_sectors d d1" and s: "struct_inv d1" and sd: "sector_delta d d1 (unpinned r) (rebound r) (unpinnedDeltas r)"
    and u: "unpinned r = int (length (unpinnedDeltas r))" "0 \<le> rebound r" and eq: "record_unpinned r d1 = Inr d'"
  shows "store_inv d'"
proof -
  let ?f = "\<lambda>h. h\<lparr>h_unpinned_sectors := h_unpinned_sectors h + delta_of (h_id h) (unpinnedDeltas r)\<rparr>"
  note E = record_unpinned_effect[OF eq u]
  from o have h: "tHosts d1 = tHosts d" and st: "\<And>n. sqlStatSelect d1 n = sqlStatSelect d n"
    by (auto simp: only_sectors_def sqlStatSelect_def)
  have "struct_inv (d1\<lparr>tHosts := map ?f (tHosts d1)\<rparr>)" by (rule struct_inv_hosts_map[OF s]) simp
  moreover have "struct_inv d' = struct_inv (d1\<lparr>tHosts := map ?f (tHosts d1)\<rparr>)"
    by (rule struct_inv_frame) (simp_all add: E store_simps)
  moreover have "counters_wf d'"
    using inv sd by (simp add: store_inv_def counters_wf_def sector_delta_def E h st store_simps)
  ultimately show ?thesis by (simp add: store_inv_alt)
qed

lemma insert_slab_sectors_effect:
  "insert_slab_sectors slabID i ids d = Inr d' \<Longrightarrow> \<exists>rows. d' = d\<lparr>tSlabSectors := rows\<rparr>"
proof (induction slabID i ids d rule: insert_slab_sectors.induct)
  case (1 slabID i d)
  then show ?case by (intro exI[of _ "tSlabSectors d"]) simp
next
  case (2 slabID i sid rest d)
  then show ?case by (auto split: if_splits)
qed

lemma insert_slab_sectors_same: "insert_slab_sectors slabID i ids d = Inr d' \<Longrightarrow> same_sectors d d'"
  by (auto dest!: insert_slab_sectors_effect simp: same_sectors_def store_simps)

lemma upsert_slab_same: "upsert_slab now digest slab d = Inr (x, d') \<Longrightarrow> same_sectors d d'"
  by (auto simp: upsert_slab_def same_sectors_def store_simps split: if_splits option.splits)

lemma insert_account_slab_same: "insert_account_slab accID slabID d = (x, d') \<Longrightarrow> same_sectors d d'"
  by (auto simp: insert_account_slab_def same_sectors_def store_simps split: if_splits)

text \<open>The steps of \<open>pin_slab\<close>, named.\<close>

lemma pin_slabE:
  assumes "pin_slab C H good now nextCheck accID slab d = Inr (x, d')"
  obtains slabID existing d1 inserted d2 d3 r d4 d5 where
    "upsert_slab now (Digest H slab) slab d = Inr ((slabID, existing), d1)"
    "insert_account_slab accID slabID d1 = (inserted, d2)"
    "d3 = (if existing then d2 else incrementStat statSlabs 1 d2)"
    "upsert_sectors good now nextCheck (Sectors slab) d3 = Inr (r, d4)"
    "record_unpinned r d4 = Inr d5"
    "insert_slab_sectors slabID 0 (sectorIDs r) d5 = Inr d'"
    "x = (if inserted then (uint (MinShards slab) * uint (SectorSize C), int (length (Sectors slab)) * uint (SectorSize C)) else (0, 0))"
    "(of_nat (badHosts r) :: rat) \<le> 1 / 5 * of_int (int (length (Sectors slab)) - uint (MinShards slab))"
proof -
  from assms obtain slabID existing d1 where 1: "upsert_slab now (Digest H slab) slab d = Inr ((slabID, existing), d1)"
    by (auto simp: pin_slab_def rbind_eq_Inr)
  obtain inserted d2 where 2: "insert_account_slab accID slabID d1 = (inserted, d2)" by (metis surj_pair)
  define d3 where "d3 = (if existing then d2 else incrementStat statSlabs 1 d2)"
  from assms 1 2 obtain r d4 where 4: "upsert_sectors good now nextCheck (Sectors slab) d3 = Inr (r, d4)"
    by (auto simp: pin_slab_def rbind_eq_Inr d3_def)
  from assms 1 2 4 obtain d5 where "record_unpinned r d4 = Inr d5" "insert_slab_sectors slabID 0 (sectorIDs r) d5 = Inr d'"
    "x = (if inserted then (uint (MinShards slab) * uint (SectorSize C), int (length (Sectors slab)) * uint (SectorSize C)) else (0, 0))"
    "(of_nat (badHosts r) :: rat) \<le> 1 / 5 * of_int (int (length (Sectors slab)) - uint (MinShards slab))"
    by (auto simp: pin_slab_def rbind_eq_Inr d3_def not_less split: if_splits)
  from that[OF 1 2 d3_def 4 this] show thesis .
qed

lemma pin_slab_inv:
  assumes inv: "store_inv d" and eq: "pin_slab C H good now nextCheck accID slab d = Inr (x, d')"
  shows "store_inv d'"
  using eq
proof (rule pin_slabE)
  fix slabID existing d1 inserted d2 d3 r d4 d5
  assume s: "upsert_slab now (Digest H slab) slab d = Inr ((slabID, existing), d1)"
    "insert_account_slab accID slabID d1 = (inserted, d2)" "d3 = (if existing then d2 else incrementStat statSlabs 1 d2)"
    and u: "upsert_sectors good now nextCheck (Sectors slab) d3 = Inr (r, d4)" and r: "record_unpinned r d4 = Inr d5"
    and i: "insert_slab_sectors slabID 0 (sectorIDs r) d5 = Inr d'"
  have "same_sectors d2 d3" by (simp add: s(3) same_sectors_def store_simps)
  with upsert_slab_same[OF s(1)] insert_account_slab_same[OF s(2)] have "same_sectors d d3"
    by (metis same_sectors_trans)
  with inv have inv3: "store_inv d3" by (rule store_inv_same_sectors[rotated])
  then have "struct_inv d3" by (simp add: store_inv_alt)
  from upsert_sectors_effect[OF this u] have "struct_inv d4" "only_sectors d3 d4" "sector_delta d3 d4 (unpinned r) (rebound r) (unpinnedDeltas r)"
    "unpinned r = int (length (unpinnedDeltas r))" "0 \<le> rebound r" by blast+
  from record_unpinned_inv[OF inv3 this(2,1,3,4,5) r] have "store_inv d5" .
  with insert_slab_sectors_same[OF i] show ?thesis by (rule store_inv_same_sectors)
qed

lemma pin_slabs_loop_inv:
  "store_inv d \<Longrightarrow> pin_slabs_loop C H good now nextCheck accID slabs d = Inr (x, d') \<Longrightarrow> store_inv d'"
proof (induction slabs arbitrary: d x)
  case (Cons slab slabs)
  then show ?case by (auto simp: rbind_eq_Inr split: prod.splits) (metis pin_slab_inv)
qed simp

lemma charge_account_same: "charge_account accID a b d = Inr d' \<Longrightarrow> same_sectors d d'"
  by (auto simp: charge_account_def Let_def same_sectors_def store_simps split: option.splits if_splits)

lemma charge_connect_key_same: "charge_connect_key keyID a b d = Inr d' \<Longrightarrow> same_sectors d d'"
  by (auto simp: charge_connect_key_def same_sectors_def store_simps split: option.splits if_splits)

lemma PinSlabsE:
  assumes "PinSlabs C H now account nextCheck toPin d = Inr (x, d')"
  obtains a nd ns d1 d2 where "find (\<lambda>a. ac_public_key a = account) (tAccounts d) = Some a" "list_all valid_min_shards toPin"
    "pin_slabs_loop C H (good_host d) now nextCheck (ac_id a) toPin d = Inr ((nd, ns), d1)"
    "charge_account (ac_id a) nd ns d1 = Inr d2" "charge_connect_key (ac_connect_key_id a) nd ns d2 = Inr d'" "x = map (Digest H) toPin"
proof -
  from assms obtain a where a: "find (\<lambda>a. ac_public_key a = account) (tAccounts d) = Some a" "list_all valid_min_shards toPin"
    by (auto simp: PinSlabs_def split: option.splits if_splits)
  obtain nd ns d1 where "pin_slabs_loop C H (good_host d) now nextCheck (ac_id a) toPin d = Inr ((nd, ns), d1)"
    using assms a by (cases "pin_slabs_loop C H (good_host d) now nextCheck (ac_id a) toPin d") (auto simp: PinSlabs_def)
  with assms a that show thesis by (auto simp: PinSlabs_def rbind_eq_Inr)
qed

lemma PinSlabs_inv:
  assumes inv: "store_inv d" and eq: "PinSlabs C H now account nextCheck toPin d = Inr (x, d')"
  shows "store_inv d'"
  using eq
proof (rule PinSlabsE)
  fix a nd ns d1 d2
  assume l: "pin_slabs_loop C H (good_host d) now nextCheck (ac_id a) toPin d = Inr ((nd, ns), d1)"
    and c: "charge_account (ac_id a) nd ns d1 = Inr d2" "charge_connect_key (ac_connect_key_id a) nd ns d2 = Inr d'"
  from pin_slabs_loop_inv[OF inv l] have "store_inv d1" .
  from store_inv_same_sectors[OF charge_account_same[OF c(1)] this] have "store_inv d2" .
  from store_inv_same_sectors[OF charge_connect_key_same[OF c(2)] this] show ?thesis .
qed

text \<open>Deleting orphaned slabs.\<close>

lemma cnt_filter_not: "cnt P (filter (\<lambda>x. \<not> R x) xs) = cnt P xs - cnt P (filter R xs)"
  by (induction xs) auto

lemma struct_inv_remove:
  assumes "struct_inv d"
  shows "struct_inv (remove_slabs toDelete d)" (is "struct_inv ?d'")
proof -
  have "pinned_on_host ?d' s = pinned_on_host d s" for s by (rule pinned_on_host_frame) (simp_all add: remove_slabs_def)
  then show ?thesis using assms
    by (auto simp: struct_inv_def sectors_wf_def keys_wf_def hosts_known_def pins_wf_def remove_slabs_def distinct_map_filter)
qed

lemma deleteOrphanedSlabs_effect:
  assumes eq: "deleteOrphanedSlabs sIDs d = Inr d'"
  defines "toDelete \<equiv> deletable_slabs d sIDs"
  defines "removed \<equiv> filter (\<lambda>s. orphaned_sector d toDelete (sec_id s)) (tSectors d)"
  shows "d' = incrementStat statSlabs (- cnt (\<lambda>r. sl_id r \<in> set toDelete) (tSlabs d))
     ((incrementStat statUnpinnableSectors (- cnt is_unpinnable removed) (incrementStat statUnpinnedSectors (- cnt is_unpinned removed)
        (incrementStat statPinnedSectors (- cnt is_pinned removed) (remove_slabs toDelete d))))
      \<lparr>tHosts := map (\<lambda>h. h\<lparr>h_unpinned_sectors := h_unpinned_sectors h - cnt (unpinned_on (h_id h)) removed\<rparr>) (tHosts d)\<rparr>)"
proof -
  let ?e = "incrementStat statUnpinnableSectors (- cnt is_unpinnable removed) (incrementStat statUnpinnedSectors (- cnt is_unpinned removed)
        (incrementStat statPinnedSectors (- cnt is_pinned removed) (remove_slabs toDelete d)))"
  from eq obtain e' where e': "incrementHostsUnpinnedSectors (map (\<lambda>(h, n). (h, - n)) (count_by_host (filter is_unpinned removed))) ?e = Inr e'"
    and d': "d' = incrementStat statSlabs (- cnt (\<lambda>r. sl_id r \<in> set toDelete) (tSlabs d)) e'"
    unfolding deleteOrphanedSlabs_def Let_def toDelete_def[symmetric] removed_def[symmetric] rbind_eq_Inr by blast
  have "cnt (\<lambda>s. sec_host_id s = Some h) (filter is_unpinned removed) = cnt (unpinned_on h) removed" for h
    unfolding cnt_filter by (rule cnt_cong) (auto simp: class_defs)
  with incrementHostsUnpinnedSectors_effect[OF e'] show ?thesis
    unfolding d' by (simp add: count_by_host_delta store_simps remove_slabs_def)
qed

lemma deleteOrphanedSlabs_inv:
  assumes inv: "store_inv d" and eq: "deleteOrphanedSlabs sIDs d = Inr d'"
  shows "store_inv d'"
proof -
  define T where "T = deletable_slabs d sIDs"
  define removed where "removed = filter (\<lambda>s. orphaned_sector d T (sec_id s)) (tSectors d)"
  note E = deleteOrphanedSlabs_effect[OF eq, folded T_def, folded removed_def]
  let ?f = "\<lambda>h. h\<lparr>h_unpinned_sectors := h_unpinned_sectors h - cnt (unpinned_on (h_id h)) removed\<rparr>"
  have "struct_inv ((remove_slabs T d)\<lparr>tHosts := map ?f (tHosts (remove_slabs T d))\<rparr>)" (is "struct_inv ?x")
    using inv by (intro struct_inv_hosts_map struct_inv_remove) (simp_all add: store_inv_alt)
  moreover have "struct_inv d' = struct_inv ?x"
    by (rule struct_inv_frame) (simp_all add: E store_simps remove_slabs_def)
  moreover have "counters_wf d'"
  proof -
    have "tSectors d' = filter (\<lambda>s. \<not> orphaned_sector d T (sec_id s)) (tSectors d)" by (simp add: E store_simps remove_slabs_def)
    then have "cnt P (tSectors d') = cnt P (tSectors d) - cnt P removed" for P by (simp add: cnt_filter_not removed_def)
    moreover have "sqlStatSelect (remove_slabs T d) n = sqlStatSelect d n" for n by (simp add: sqlStatSelect_def remove_slabs_def)
    ultimately show ?thesis using inv
      by (simp add: store_inv_def counters_wf_def) (simp add: E store_simps)
  qed
  ultimately show ?thesis by (simp add: store_inv_alt)
qed

lemma PruneDeletedSlabs_inv:
  assumes inv: "store_inv d" and eq: "PruneDeletedSlabs limit d = Inr (n, d')"
  shows "store_inv d'"
proof (cases "d' = d")
  case True
  with inv show ?thesis by simp
next
  case False
  with eq obtain ids e q where "deleteOrphanedSlabs ids d = Inr e" "d' = e\<lparr>tDeletionQueue := q\<rparr>"
    by (auto simp: PruneDeletedSlabs_def Let_def rbind_eq_Inr split: if_splits)
  moreover from this inv have "store_inv e" by (blast intro: deleteOrphanedSlabs_inv)
  ultimately show ?thesis by (auto intro!: store_inv_same_sectors[of e] simp: same_sectors_def sqlStatSelect_def)
qed

lemma prune_slabs_batch_same: "prune_slabs_batch C accID cutoff cursor d = Inr (x, d') \<Longrightarrow> same_sectors d d'"
  by (auto simp: prune_slabs_batch_def Let_def rbind_eq_Inr split: if_splits dest: unpinUnreferencedSlabs_same)

end
