(* ===== verification/Pin_References.thy ===== *)
theory Pin_References
  imports Slab_Store
begin

text \<open>
  Objects keep their data: every slab that an object of an account refers to exists and is
  pinned by that account, and every slab that an account pins exists. All operations of the
  store on slabs, objects and accounts keep this, so the background deletion of slabs never
  removes a slab that an object needs.
\<close>

section \<open>The invariant\<close>

definition slab_pinned_by :: "db \<Rightarrow> int \<Rightarrow> hash256 \<Rightarrow> bool" where
  "slab_pinned_by d accID digest \<longleftrightarrow> (\<exists>r \<in> set (tSlabs d). sl_digest r = digest \<and> (accID, sl_id r) \<in> set (tAccountSlabs d))"

definition objects_pinned :: "db \<Rightarrow> bool" where
  "objects_pinned d \<longleftrightarrow> (\<forall>ob \<in> set (tObjects d). \<forall>os \<in> set (tObjectSlabs d).
     os_object_id os = ob_id ob \<longrightarrow> slab_pinned_by d (ob_account_id ob) (os_slab_digest os))"

definition slabs_wf :: "db \<Rightarrow> bool" where
  "slabs_wf d \<longleftrightarrow> distinct (map sl_id (tSlabs d)) \<and> distinct (map sl_digest (tSlabs d)) \<and>
     (\<forall>r \<in> set (tSlabs d). sl_id r < seqSlabs d) \<and>
     distinct (tAccountSlabs d) \<and> (\<forall>(a, s) \<in> set (tAccountSlabs d). s \<in> sl_id ` set (tSlabs d))"

definition objects_wf :: "db \<Rightarrow> bool" where
  "objects_wf d \<longleftrightarrow> distinct (map ob_id (tObjects d)) \<and> distinct (map (\<lambda>ob. (ob_account_id ob, ob_key ob)) (tObjects d)) \<and> (\<forall>ob \<in> set (tObjects d). ob_id ob < seqObjects d) \<and>
     (\<forall>os \<in> set (tObjectSlabs d). os_object_id os \<in> ob_id ` set (tObjects d))"

definition ref_inv :: "db \<Rightarrow> bool" where
  "ref_inv d \<longleftrightarrow> slabs_wf d \<and> objects_wf d \<and> objects_pinned d"

lemma referenced_pinned:
  "objects_pinned d \<Longrightarrow> referenced d a dg \<Longrightarrow> slab_pinned_by d a dg"
  by (auto simp: objects_pinned_def referenced_def)

text \<open>The invariant in terms of \<open>referenced\<close>.\<close>

lemma objects_pinned_alt: "objects_pinned d \<longleftrightarrow> (\<forall>a dg. referenced d a dg \<longrightarrow> slab_pinned_by d a dg)"
  by (auto simp: objects_pinned_def referenced_def)

lemma same_slab:
  "slabs_wf d \<Longrightarrow> r \<in> set (tSlabs d) \<Longrightarrow> r' \<in> set (tSlabs d) \<Longrightarrow> sl_id r = sl_id r' \<or> sl_digest r = sl_digest r' \<Longrightarrow> r = r'"
  by (auto simp: slabs_wf_def distinct_map inj_on_def)

section \<open>Pinning slabs\<close>

text \<open>A step that only adds slabs and pins and leaves the objects alone.\<close>

definition adds_pins :: "db \<Rightarrow> db \<Rightarrow> bool" where
  "adds_pins d d' \<longleftrightarrow> tObjects d' = tObjects d \<and> tObjectSlabs d' = tObjectSlabs d \<and> seqObjects d' = seqObjects d \<and>
     set (tAccountSlabs d) \<subseteq> set (tAccountSlabs d') \<and>
     (\<forall>r \<in> set (tSlabs d). \<exists>r' \<in> set (tSlabs d'). sl_id r' = sl_id r \<and> sl_digest r' = sl_digest r)"

lemma adds_pins_refl: "adds_pins d d"
  by (auto simp: adds_pins_def)

lemma adds_pins_trans: "adds_pins a b \<Longrightarrow> adds_pins b c \<Longrightarrow> adds_pins a c"
  unfolding adds_pins_def by (metis subset_trans)

lemma slab_pinned_by_mono: "adds_pins d d' \<Longrightarrow> slab_pinned_by d a dg \<Longrightarrow> slab_pinned_by d' a dg"
  unfolding adds_pins_def slab_pinned_by_def by (metis subsetD)

lemma ref_inv_adds_pins:
  assumes "ref_inv d" and "adds_pins d d'" and "slabs_wf d'"
  shows "ref_inv d'"
  using assms slab_pinned_by_mono[OF assms(2)]
  by (auto simp: ref_inv_def objects_wf_def objects_pinned_def adds_pins_def)

lemma upsert_slab_refs:
  assumes wf: "slabs_wf d" and eq: "upsert_slab now digest slab d = Inr ((i, ex), d')"
  shows "slabs_wf d' \<and> adds_pins d d' \<and> i \<in> sl_id ` set (tSlabs d')"
proof (cases "find (\<lambda>r. sl_digest r = digest) (tSlabs d)")
  case None
  then have "digest \<notin> sl_digest ` set (tSlabs d)" by (auto simp: find_None_iff)
  with None eq wf show ?thesis
    by (fastforce simp: upsert_slab_def slabs_wf_def adds_pins_def split: if_splits)
next
  case (Some r)
  then have r: "r \<in> set (tSlabs d)" by (auto dest: find_SomeD)
  let ?U = "update_rows (\<lambda>r. sl_digest r = digest) (\<lambda>r. r\<lparr>sl_pinned_at := now\<rparr>) (tSlabs d)"
  have m: "map sl_id ?U = map sl_id (tSlabs d)" "map sl_digest ?U = map sl_digest (tSlabs d)" by (simp_all add: map_update_rows)
  then have "sl_id ` set ?U = sl_id ` set (tSlabs d)" by (metis set_map)
  moreover have "\<forall>r \<in> set (tSlabs d). \<exists>r' \<in> set ?U. sl_id r' = sl_id r \<and> sl_digest r' = sl_digest r"
  proof
    fix r assume "r \<in> set (tSlabs d)"
    then have "(if sl_digest r = digest then r\<lparr>sl_pinned_at := now\<rparr> else r) \<in> set ?U" by (auto simp: set_update_rows)
    then show "\<exists>r' \<in> set ?U. sl_id r' = sl_id r \<and> sl_digest r' = sl_digest r" by (rule bexI[rotated]) simp
  qed
  moreover have "\<forall>r \<in> set ?U. sl_id r < seqSlabs d + 1" using wf by (auto simp: ball_update_rows slabs_wf_def)
  ultimately show ?thesis using Some eq wf m r
    by (auto simp: upsert_slab_def slabs_wf_def adds_pins_def split: if_splits)
qed

lemma insert_account_slab_refs:
  assumes "slabs_wf d" and "slabID \<in> sl_id ` set (tSlabs d)" and "insert_account_slab accID slabID d = (b, d')"
  shows "slabs_wf d' \<and> adds_pins d d' \<and> (accID, slabID) \<in> set (tAccountSlabs d')"
  using assms by (auto simp: insert_account_slab_def slabs_wf_def adds_pins_def split: if_splits)

text \<open>The rest of pinning a slab does not touch slabs, pins or objects.\<close>

definition same_refs :: "db \<Rightarrow> db \<Rightarrow> bool" where
  "same_refs d d' \<longleftrightarrow> tSlabs d' = tSlabs d \<and> tAccountSlabs d' = tAccountSlabs d \<and> tObjects d' = tObjects d \<and>
     tObjectSlabs d' = tObjectSlabs d \<and> seqSlabs d' = seqSlabs d \<and> seqObjects d' = seqObjects d"

lemma same_refs_inv: "same_refs d d' \<Longrightarrow> slabs_wf d \<Longrightarrow> slabs_wf d' \<and> adds_pins d d'"
  by (auto simp: same_refs_def slabs_wf_def adds_pins_def)

lemma incrementHosts_refs: "incrementHostsUnpinnedSectors ds d = Inr d' \<Longrightarrow> same_refs d d'"
  by (auto dest!: incrementHostsUnpinnedSectors_effect simp: same_refs_def)

lemma incrementStat_refs: "same_refs d (incrementStat n v d)"
  by (simp add: same_refs_def store_simps)

lemma same_refs_trans: "same_refs a b \<Longrightarrow> same_refs b c \<Longrightarrow> same_refs a c"
  by (simp add: same_refs_def)

lemma record_unpinned_refs:
  assumes "record_unpinned r d = Inr d'"
  shows "same_refs d d'"
proof -
  from assms obtain e where e: "(if unpinned r > 0 then incrementHostsUnpinnedSectors (unpinnedDeltas r) (incrementStat statUnpinnedSectors (unpinned r) d)
      else Inr d) = Inr e" and d': "d' = (if rebound r > 0 then incrementStat statUnpinnableSectors (- rebound r) e else e)"
    by (auto simp: record_unpinned_def rbind_eq_Inr)
  have "same_refs d e"
  proof (cases "unpinned r > 0")
    case True
    with e have "incrementHostsUnpinnedSectors (unpinnedDeltas r) (incrementStat statUnpinnedSectors (unpinned r) d) = Inr e" by simp
    from same_refs_trans[OF incrementStat_refs incrementHosts_refs[OF this]] show ?thesis .
  next
    case False
    with e show ?thesis by (simp add: same_refs_def)
  qed
  moreover have "same_refs e d'" using incrementStat_refs by (simp add: d' same_refs_def)
  ultimately show ?thesis by (rule same_refs_trans)
qed

lemma upsert_sector_refs: "upsert_sector now nc sector d = Inr (x, d') \<Longrightarrow> same_refs d d'"
  by (auto simp: upsert_sector_def Let_def same_refs_def split: option.splits)

lemma upsert_sectors_refs: "upsert_sectors good now nc ss d = Inr (x, d') \<Longrightarrow> same_refs d d'"
proof (induction ss arbitrary: d x)
  case (Cons s ss)
  then show ?case by (fastforce simp: rbind_eq_Inr same_refs_def dest!: upsert_sector_refs)
qed (simp add: same_refs_def)

lemma pin_slab_refs:
  assumes wf: "slabs_wf d" and eq: "pin_slab C H good now nc accID slab d = Inr (x, d')"
  shows "slabs_wf d' \<and> adds_pins d d'"
  using eq
proof (rule pin_slabE)
  fix slabID existing d1 inserted d2 d3 r d4 d5
  assume 1: "upsert_slab now (Digest H slab) slab d = Inr ((slabID, existing), d1)"
    and 2: "insert_account_slab accID slabID d1 = (inserted, d2)" and 3: "d3 = (if existing then d2 else incrementStat statSlabs 1 d2)"
    and 4: "upsert_sectors good now nc (Sectors slab) d3 = Inr (r, d4)" and 5: "record_unpinned r d4 = Inr d5"
    and 6: "insert_slab_sectors slabID 0 (sectorIDs r) d5 = Inr d'"
  have "same_refs d2 d3" by (simp add: 3 same_refs_def store_simps)
  moreover have "same_refs d5 d'" using insert_slab_sectors_effect[OF 6] by (auto simp: same_refs_def)
  ultimately have "same_refs d2 d'" using upsert_sectors_refs[OF 4] record_unpinned_refs[OF 5] by (simp add: same_refs_def)
  with upsert_slab_refs[OF wf 1] insert_account_slab_refs[OF _ _ 2] show ?thesis
    using same_refs_inv[of d2 d'] by (blast intro: adds_pins_trans)
qed

lemma pin_slabs_loop_refs:
  "slabs_wf d \<Longrightarrow> pin_slabs_loop C H good now nc accID slabs d = Inr (x, d') \<Longrightarrow> slabs_wf d' \<and> adds_pins d d'"
proof (induction slabs arbitrary: d x)
  case (Cons slab slabs)
  from Cons.prems(2) obtain y z d1 where p: "pin_slab C H good now nc accID slab d = Inr (y, d1)"
    "pin_slabs_loop C H good now nc accID slabs d1 = Inr (z, d')"
    by (auto simp: rbind_eq_Inr)
  from pin_slab_refs[OF Cons.prems(1) p(1)] Cons.IH[OF _ p(2)] show ?case by (blast intro: adds_pins_trans)
qed (simp add: adds_pins_refl)

lemma charge_account_refs: "charge_account i a b d = Inr d' \<Longrightarrow> same_refs d d'"
  unfolding charge_account_def Let_def same_refs_def by (simp split: option.splits if_splits) auto

lemma charge_connect_key_refs: "charge_connect_key i a b d = Inr d' \<Longrightarrow> same_refs d d'"
  unfolding charge_connect_key_def same_refs_def by (simp split: option.splits if_splits) auto

lemma PinSlabs_refs:
  assumes inv: "ref_inv d" and eq: "PinSlabs C H now account nc toPin d = Inr (x, d')"
  shows "ref_inv d'"
  using eq
proof (rule PinSlabsE)
  fix a nd ns d1 d2
  assume l: "pin_slabs_loop C H (good_host d) now nc (ac_id a) toPin d = Inr ((nd, ns), d1)"
    and c: "charge_account (ac_id a) nd ns d1 = Inr d2" "charge_connect_key (ac_connect_key_id a) nd ns d2 = Inr d'"
  from inv have "slabs_wf d" by (simp add: ref_inv_def)
  note L = pin_slabs_loop_refs[OF this l]
  have "same_refs d1 d'" using charge_account_refs[OF c(1)] charge_connect_key_refs[OF c(2)] by (rule same_refs_trans)
  with L have s: "slabs_wf d'" "adds_pins d1 d'" using same_refs_inv[of d1 d'] by blast+
  from L have "adds_pins d d1" by blast
  from ref_inv_adds_pins[OF inv adds_pins_trans[OF this s(2)] s(1)] show ?thesis .
qed

section \<open>Unpinning slabs\<close>

text \<open>Removing pins of one account that none of its objects needs.\<close>

lemma objects_pinned_unpin:
  assumes inv: "ref_inv d" and free: "\<And>r. r \<in> set (tSlabs d) \<Longrightarrow> sl_id r \<in> S \<Longrightarrow> \<not> referenced d accID (sl_digest r)"
    and d': "tSlabs d' = tSlabs d" "tObjects d' = tObjects d" "tObjectSlabs d' = tObjectSlabs d" "seqSlabs d' = seqSlabs d"
      "seqObjects d' = seqObjects d" "tAccountSlabs d' = filter (\<lambda>(a, s). \<not> (a = accID \<and> s \<in> S)) (tAccountSlabs d)"
  shows "ref_inv d'"
proof -
  have ref: "referenced d' a dg = referenced d a dg" for a dg by (simp add: referenced_def d')
  have "slabs_wf d'" "objects_wf d'" using inv by (auto simp: ref_inv_def slabs_wf_def objects_wf_def d')
  moreover have "objects_pinned d'"
    unfolding objects_pinned_alt
  proof (intro allI impI)
    fix a dg assume "referenced d' a dg"
    then have r: "referenced d a dg" by (simp add: ref)
    from inv have "objects_pinned d" by (simp add: ref_inv_def)
    from referenced_pinned[OF this r] obtain r where "r \<in> set (tSlabs d)" "sl_digest r = dg" "(a, sl_id r) \<in> set (tAccountSlabs d)"
      unfolding slab_pinned_by_def by blast
    moreover from this free r have "\<not> (a = accID \<and> sl_id r \<in> S)" by blast
    ultimately show "slab_pinned_by d' a dg" by (auto simp: slab_pinned_by_def d')
  qed
  ultimately show ?thesis by (simp add: ref_inv_def)
qed

lemma unpinSlabs_frame:
  assumes "unpinSlabs C accID sIDs d = Inr d'"
  shows "tSlabs d' = tSlabs d" "tObjects d' = tObjects d" "tObjectSlabs d' = tObjectSlabs d" "seqSlabs d' = seqSlabs d"
      "seqObjects d' = seqObjects d" "tAccountSlabs d' = filter (\<lambda>(a, s). \<not> (a = accID \<and> s \<in> set sIDs)) (tAccountSlabs d)"
  using assms unfolding unpinSlabs_def Let_def
  by (simp_all add: queue_slabs_def split: if_splits option.splits) auto

lemma unpinSlabs_refs:
  assumes "ref_inv d" and "unpinSlabs C accID sIDs d = Inr d'"
    and "\<And>r. r \<in> set (tSlabs d) \<Longrightarrow> sl_id r \<in> set sIDs \<Longrightarrow> \<not> referenced d accID (sl_digest r)"
  shows "ref_inv d'"
  using objects_pinned_unpin[OF assms(1) assms(3) unpinSlabs_frame[OF assms(2)]] by blast

lemma unpinUnreferencedSlabs_refs:
  assumes inv: "ref_inv d" and eq: "unpinUnreferencedSlabs C accID sIDs cutoff d = Inr d'"
  shows "ref_inv d'"
proof (cases "d' = d")
  case True
  with inv show ?thesis by simp
next
  case False
  define T where "T = map sl_id (filter (\<lambda>r. (accID, sl_id r) \<in> set (tAccountSlabs d) \<and> sl_id r \<in> set sIDs \<and>
       (case cutoff of None \<Rightarrow> True | Some t \<Rightarrow> sl_pinned_at r < t) \<and> \<not> referenced d accID (sl_digest r)) (tSlabs d))"
  from False eq have "unpinSlabs C accID T d = Inr d'"
    unfolding unpinUnreferencedSlabs_def Let_def T_def[symmetric] by (auto split: if_splits)
  then show ?thesis
  proof (rule unpinSlabs_refs[OF inv])
    fix r assume "r \<in> set (tSlabs d)" "sl_id r \<in> set T"
    moreover from inv have "slabs_wf d" by (simp add: ref_inv_def)
    ultimately show "\<not> referenced d accID (sl_digest r)"
      unfolding T_def using same_slab by fastforce
  qed
qed

lemma UnpinSlab_refs:
  assumes inv: "ref_inv d" and eq: "UnpinSlab C account slabID d = Inr (x, d')"
  shows "ref_inv d'"
proof -
  from eq obtain accID b r where r: "find (\<lambda>r. sl_digest r = slabID) (tSlabs d) = Some r"
    and u: "unpinSlabs C accID [sl_id r] d = Inr d'" "\<not> referenced d accID slabID"
    by (auto simp: UnpinSlab_def rbind_eq_Inr split: option.splits if_splits)
  from r have "r \<in> set (tSlabs d)" "sl_digest r = slabID" by (auto dest: find_SomeD)
  moreover from inv have "slabs_wf d" by (simp add: ref_inv_def)
  ultimately show ?thesis using u(2) same_slab
    by (intro unpinSlabs_refs[OF inv u(1)]) fastforce
qed

section \<open>Objects\<close>

lemma accountIDD: "accountID d account = Inr (i, b) \<Longrightarrow> \<exists>a \<in> set (tAccounts d). ac_id a = i \<and> ac_public_key a = account \<and> b = (ac_deleted_at a \<noteq> None)"
  by (auto simp: accountID_def split: option.splits dest: find_SomeD)

text \<open>Removing objects together with their references.\<close>

lemma ref_inv_remove_objects:
  assumes inv: "ref_inv d" and d': "tSlabs d' = tSlabs d" "tAccountSlabs d' = tAccountSlabs d" "seqSlabs d' = seqSlabs d" "seqObjects d' = seqObjects d"
    "tObjects d' = filter (\<lambda>x. ob_id x \<notin> S) (tObjects d)" "tObjectSlabs d' = filter (\<lambda>r. os_object_id r \<notin> S) (tObjectSlabs d)"
  shows "ref_inv d'"
proof -
  have "slabs_wf d'" using inv by (simp add: ref_inv_def slabs_wf_def d')
  moreover have "objects_wf d'" using inv by (fastforce simp: ref_inv_def objects_wf_def d' distinct_map_filter)
  moreover have "objects_pinned d'" using inv by (auto simp: ref_inv_def objects_pinned_def slab_pinned_by_def d')
  ultimately show ?thesis by (simp add: ref_inv_def)
qed

lemma DeleteObject_refs:
  assumes inv: "ref_inv d" and eq: "DeleteObject C now account key d = Inr (x, d')"
  shows "ref_inv d'"
proof -
  from eq obtain accID ids i c where u: "unpinUnreferencedSlabs C accID ids None
      (d\<lparr>tObjectSlabs := filter (\<lambda>os. os_object_id os \<noteq> i) (tObjectSlabs d), tObjects := filter (\<lambda>x. ob_id x \<noteq> i) (tObjects d), tObjectEvents := c\<rparr>) = Inr d'"
    by (auto simp: DeleteObject_def rbind_eq_Inr Let_def split: option.splits)
  show ?thesis
    by (rule unpinUnreferencedSlabs_refs[OF _ u], rule ref_inv_remove_objects[OF inv, where S = "{i}"]) simp_all
qed

text \<open>
  The pin check of \<open>PinObject\<close>: as many of the account's pins have one of the digests as there
  are digests, so every digest is pinned.
\<close>

lemma pins_cover_digests:
  assumes wf: "slabs_wf d" and fin: "finite D"
    and card: "int (card D) = cnt (\<lambda>(a, s). a = accID \<and> (\<exists>r \<in> set (tSlabs d). sl_id r = s \<and> sl_digest r \<in> D)) (tAccountSlabs d)"
    and dg: "dg \<in> D"
  shows "slab_pinned_by d accID dg"
proof -
  let ?P = "\<lambda>(a, s). a = accID \<and> (\<exists>r \<in> set (tSlabs d). sl_id r = s \<and> sl_digest r \<in> D)"
  let ?L = "set (filter ?P (tAccountSlabs d))"
  let ?R = "{r \<in> set (tSlabs d). (accID, sl_id r) \<in> set (tAccountSlabs d) \<and> sl_digest r \<in> D}"
  have "card ?L = card D"
    using card wf by (simp add: cnt_def slabs_wf_def distinct_card del: set_filter)
  moreover have "?L = (\<lambda>r. (accID, sl_id r)) ` ?R" by auto
  moreover have "inj_on (\<lambda>r. (accID, sl_id r)) ?R" using same_slab[OF wf] by (auto simp: inj_on_def)
  ultimately have "card ?R = card D" by (simp add: card_image)
  moreover have "inj_on sl_digest ?R" using same_slab[OF wf] by (auto simp: inj_on_def)
  ultimately have "card (sl_digest ` ?R) = card D" by (simp add: card_image)
  with fin have "sl_digest ` ?R = D" by (intro card_subset_eq) auto
  with dg have "dg \<in> sl_digest ` ?R" by simp
  then show ?thesis by (auto simp: slab_pinned_by_def)
qed

lemma upsert_object_refs:
  assumes inv: "ref_inv d" and eq: "upsert_object now accID obj d = Inr (i, d')"
  shows "tSlabs d' = tSlabs d \<and> tAccountSlabs d' = tAccountSlabs d \<and> tObjectSlabs d' = tObjectSlabs d \<and> seqSlabs d' = seqSlabs d \<and>
    distinct (map ob_id (tObjects d')) \<and> distinct (map (\<lambda>ob. (ob_account_id ob, ob_key ob)) (tObjects d')) \<and>
    (\<forall>ob \<in> set (tObjects d'). ob_id ob < seqObjects d') \<and>
    ob_id ` set (tObjects d') = insert i (ob_id ` set (tObjects d)) \<and>
    (\<forall>ob \<in> set (tObjects d'). ob_id ob = i \<longrightarrow> ob_account_id ob = accID) \<and>
    (\<forall>ob \<in> set (tObjects d'). ob_id ob \<noteq> i \<longrightarrow> ob \<in> set (tObjects d))"
proof -
  define fill where "fill = (\<lambda>r::object_row. r\<lparr>ob_data_key := EncryptedDataKey obj, ob_meta_key := nullable (EncryptedMetadataKey obj),
                       ob_metadata := nullable (EncryptedMetadata obj), ob_data_signature := DataSignature obj,
                       ob_meta_signature := MetadataSignature obj, ob_updated_at := now\<rparr>)"
  have f: "ob_id (fill r) = ob_id r" "ob_account_id (fill r) = ob_account_id r" "ob_key (fill r) = ob_key r" for r by (simp_all add: fill_def)
  from inv have wf: "distinct (map ob_id (tObjects d))" "\<forall>ob \<in> set (tObjects d). ob_id ob < seqObjects d"
    "distinct (map (\<lambda>ob. (ob_account_id ob, ob_key ob)) (tObjects d))" by (auto simp: ref_inv_def objects_wf_def)
  let ?Q = "\<lambda>r. ob_account_id r = accID \<and> ob_key r = ObjectID obj"
  show ?thesis
  proof (cases "find ?Q (tObjects d)")
    case None
    let ?r = "fill \<lparr>ob_id = seqObjects d, ob_key = ObjectID obj, ob_account_id = accID, ob_data_key = [], ob_meta_key = None,
                       ob_metadata = None, ob_data_signature = [], ob_meta_signature = [], ob_created_at = now, ob_updated_at = now\<rparr>"
    from None eq have d': "d' = d\<lparr>tObjects := tObjects d @ [?r], seqObjects := seqObjects d + 1\<rparr>" "i = seqObjects d"
      by (auto simp: upsert_object_def Let_def rbind_eq_Inr fill_def[symmetric] f)
    moreover have "seqObjects d \<notin> ob_id ` set (tObjects d)" using wf(2) by auto
    moreover have "(accID, ObjectID obj) \<notin> (\<lambda>ob. (ob_account_id ob, ob_key ob)) ` set (tObjects d)"
      using None by (auto simp: find_None_iff)
    ultimately show ?thesis using wf by (auto simp: f)
  next
    case (Some r)
    then have r: "r \<in> set (tObjects d)" "?Q r" by (auto dest: find_SomeD)
    from Some eq have d': "d' = d\<lparr>tObjects := update_rows ?Q fill (tObjects d), seqObjects := seqObjects d + 1\<rparr>" and i: "i = ob_id r"
      by (auto simp: upsert_object_def Let_def rbind_eq_Inr fill_def[symmetric])
    have m: "map ob_id (update_rows ?Q fill (tObjects d)) = map ob_id (tObjects d)"
      "map (\<lambda>ob. (ob_account_id ob, ob_key ob)) (update_rows ?Q fill (tObjects d)) = map (\<lambda>ob. (ob_account_id ob, ob_key ob)) (tObjects d)"
      by (simp_all add: map_update_rows f)
    then have "ob_id ` set (update_rows ?Q fill (tObjects d)) = ob_id ` set (tObjects d)" by (metis set_map)
    moreover have "ob = r" if "ob \<in> set (tObjects d)" "ob_id ob = ob_id r \<or> ?Q ob" for ob
      using that wf(1,3) r by (auto simp: distinct_map inj_on_def)
    ultimately show ?thesis using wf r m
      by (auto simp: d' i ball_update_rows f)
  qed
qed

lemma PinObject_refs:
  assumes inv: "ref_inv d" and eq: "PinObject now account obj d = Inr (x, d')"
  shows "ref_inv d'"
proof -
  from eq obtain accID where acc: "accountID d account = Inr (accID, False)"
    by (auto simp: PinObject_def rbind_eq_Inr split: if_splits)
  with eq obtain i d1 where u: "upsert_object now accID obj d = Inr (i, d1)"
    by (auto simp: PinObject_def rbind_eq_Inr split: if_splits)
  define e where "e = upsert_event now accID (ObjectID obj) d1"
  define D where "D = set (map ObjSlabID (ObjSlabs obj))"
  define rows where "rows = map (\<lambda>k. \<lparr>os_object_id = i, os_slab_digest = ObjSlabID (ObjSlabs obj ! k), os_slab_index = k,
       os_offset = ObjOffset (ObjSlabs obj ! k), os_length = ObjLength (ObjSlabs obj ! k)\<rparr>) [0..<length (ObjSlabs obj)]"
  from eq acc u have d': "d' = e\<lparr>tObjectSlabs := filter (\<lambda>r. os_object_id r \<noteq> i) (tObjectSlabs e) @ rows\<rparr>"
    and c: "int (card D) = cnt (\<lambda>(a, s). a = accID \<and> (\<exists>r \<in> set (tSlabs e). sl_id r = s \<and> sl_digest r \<in> D)) (tAccountSlabs e)"
    unfolding e_def D_def rows_def
    by (auto simp: PinObject_def rbind_eq_Inr Let_def split: if_splits)
  note U = upsert_object_refs[OF inv u]
  have e: "tSlabs e = tSlabs d" "tAccountSlabs e = tAccountSlabs d" "tObjectSlabs e = tObjectSlabs d" "seqSlabs e = seqSlabs d"
    "tObjects e = tObjects d1" "seqObjects e = seqObjects d1"
    using U by (auto simp: e_def upsert_event_def)
  from inv have wf: "slabs_wf d" by (simp add: ref_inv_def)
  have pinned: "slab_pinned_by d accID dg" if "dg \<in> D" for dg
    by (rule pins_cover_digests[OF wf _ _ that]) (use c in \<open>simp_all add: e D_def\<close>)
  have "slabs_wf d'" using wf by (simp add: slabs_wf_def d' e)
  moreover have "os_object_id os = i \<and> os_slab_digest os \<in> D" if "os \<in> set rows" for os
    using that by (auto simp: rows_def D_def)
  note rows = this
  have "objects_wf d'" using U rows inv by (auto simp: objects_wf_def d' e ref_inv_def)
  moreover have "objects_pinned d'"
    unfolding objects_pinned_def
  proof (intro ballI impI)
    fix ob os assume a: "ob \<in> set (tObjects d')" "os \<in> set (tObjectSlabs d')" "os_object_id os = ob_id ob"
    have "slab_pinned_by d (ob_account_id ob) (os_slab_digest os)"
    proof (cases "ob_id ob = i")
      case True
      with a U have "ob_account_id ob = accID" by (simp add: d' e)
      moreover from True a have "os \<in> set rows" by (auto simp: d' e)
      ultimately show ?thesis using rows pinned by blast
    next
      case False
      with a U rows have "ob \<in> set (tObjects d)" "os \<in> set (tObjectSlabs d)" by (auto simp: d' e)
      with a(3) inv show ?thesis by (auto simp: ref_inv_def objects_pinned_def)
    qed
    then show "slab_pinned_by d' (ob_account_id ob) (os_slab_digest os)" by (simp add: slab_pinned_by_def d' e)
  qed
  ultimately show ?thesis by (simp add: ref_inv_def)
qed

section \<open>Background deletion\<close>

lemma deletable_unpinned: "i \<in> set (deletable_slabs d sIDs) \<Longrightarrow> (a, i) \<notin> set (tAccountSlabs d)"
  by (auto simp: deletable_slabs_def)

lemma remove_slabs_refs:
  assumes inv: "ref_inv d" and free: "\<And>a i. i \<in> set T \<Longrightarrow> (a, i) \<notin> set (tAccountSlabs d)"
  shows "ref_inv (remove_slabs T d)" (is "ref_inv ?d'")
proof -
  have "slabs_wf ?d'" using inv free
    by (fastforce simp: ref_inv_def slabs_wf_def remove_slabs_def distinct_map_filter)
  moreover have "objects_wf ?d'" using inv by (simp add: ref_inv_def objects_wf_def remove_slabs_def)
  moreover have "slab_pinned_by ?d' a dg" if "slab_pinned_by d a dg" for a dg
    using that free by (auto simp: slab_pinned_by_def remove_slabs_def)
  with inv have "objects_pinned ?d'" by (auto simp: ref_inv_def objects_pinned_def remove_slabs_def)
  ultimately show ?thesis by (simp add: ref_inv_def)
qed

lemma ref_inv_same_refs: "same_refs d d' \<Longrightarrow> ref_inv d \<Longrightarrow> ref_inv d'"
  by (auto simp: same_refs_def ref_inv_def slabs_wf_def objects_wf_def objects_pinned_def slab_pinned_by_def)

lemma deleteOrphanedSlabs_refs:
  assumes "ref_inv d" and "deleteOrphanedSlabs sIDs d = Inr d'"
  shows "ref_inv d'"
proof (rule ref_inv_same_refs[of "remove_slabs (deletable_slabs d sIDs) d"])
  show "same_refs (remove_slabs (deletable_slabs d sIDs) d) d'"
    by (simp add: deleteOrphanedSlabs_effect[OF assms(2)] same_refs_def store_simps remove_slabs_def)
  show "ref_inv (remove_slabs (deletable_slabs d sIDs) d)"
    by (rule remove_slabs_refs[OF assms(1) deletable_unpinned])
qed

lemma PruneDeletedSlabs_refs:
  assumes inv: "ref_inv d" and eq: "PruneDeletedSlabs limit d = Inr (n, d')"
  shows "ref_inv d'"
proof (cases "d' = d")
  case True
  with inv show ?thesis by simp
next
  case False
  with eq obtain ids e q where "deleteOrphanedSlabs ids d = Inr e" "d' = e\<lparr>tDeletionQueue := q\<rparr>"
    by (auto simp: PruneDeletedSlabs_def Let_def rbind_eq_Inr split: if_splits)
  moreover from this inv have "ref_inv e" by (blast intro: deleteOrphanedSlabs_refs)
  ultimately show ?thesis by (auto intro!: ref_inv_same_refs[of e] simp: same_refs_def)
qed

lemma prune_slabs_batch_refs:
  assumes "ref_inv d" and "prune_slabs_batch C accID cutoff cursor d = Inr (x, d')"
  shows "ref_inv d'"
  using assms by (auto simp: prune_slabs_batch_def Let_def rbind_eq_Inr split: if_splits intro: unpinUnreferencedSlabs_refs)

lemma DeleteAccount_refs: "ref_inv d \<Longrightarrow> DeleteAccount now account d = Inr (x, d') \<Longrightarrow> ref_inv d'"
  by (rule ref_inv_same_refs[of d]) (auto simp: DeleteAccount_def same_refs_def split: if_splits option.splits)

lemma MarkSlabRepaired_refs:
  assumes "ref_inv d" and "MarkSlabRepaired now slabID ok d = Inr (x, d')"
  shows "ref_inv d'"
proof -
  from assms(2) obtain Q f where d': "d' = d\<lparr>tSlabs := update_rows Q f (tSlabs d)\<rparr>" and f: "\<And>r. sl_id (f r) = sl_id r \<and> sl_digest (f r) = sl_digest r"
    by (auto simp: MarkSlabRepaired_def split: option.splits if_splits)
  have m: "map sl_id (update_rows Q f (tSlabs d)) = map sl_id (tSlabs d)" "map sl_digest (update_rows Q f (tSlabs d)) = map sl_digest (tSlabs d)"
    using f by (simp_all add: map_update_rows)
  then have i: "sl_id ` set (update_rows Q f (tSlabs d)) = sl_id ` set (tSlabs d)" by (metis set_map)
  have "slabs_wf d'" using assms(1) m i f by (simp add: ref_inv_def slabs_wf_def d' ball_update_rows)
  moreover have "adds_pins d d'"
  proof -
    have "\<exists>r' \<in> set (update_rows Q f (tSlabs d)). sl_id r' = sl_id r \<and> sl_digest r' = sl_digest r" if "r \<in> set (tSlabs d)" for r
      using that f by (intro bexI[of _ "if Q r then f r else r"]) (auto simp: set_update_rows)
    then show ?thesis by (simp add: adds_pins_def d')
  qed
  ultimately show ?thesis using ref_inv_adds_pins[OF assms(1)] by blast
qed

text \<open>An account's pins are removed only after all of its objects are gone.\<close>

lemma PruneAccounts_refs:
  assumes inv: "ref_inv d" and eq: "PruneAccounts limit d = Inr (x, d')"
  shows "ref_inv d'"
proof -
  from eq obtain a where a: "next_deleted_account d = Some a" and lim: "0 \<le> limit"
    by (auto simp: PruneAccounts_def split: if_splits option.splits)
  let ?acc = "ac_id a"
  define ids where "ids = stable_sort (<) (map ob_id (filter (\<lambda>x. ob_account_id x = ?acc) (tObjects d)))"
  define objs where "objs = take (nat limit) ids"
  define d1 where "d1 = d\<lparr>tObjects := filter (\<lambda>x. ob_id x \<notin> set objs) (tObjects d),
      tObjectSlabs := filter (\<lambda>r. os_object_id r \<notin> set objs) (tObjectSlabs d)\<rparr>"
  define remaining where "remaining = limit - int (length objs)"
  define slabs where "slabs = take (nat remaining) (stable_sort (<) (map snd (filter (\<lambda>(x, _). x = ?acc) (tAccountSlabs d))))"
  define d2 where "d2 = queue_slabs slabs (d1\<lparr>tAccountSlabs := filter (\<lambda>(x, s). \<not> (x = ?acc \<and> s \<in> set slabs)) (tAccountSlabs d)\<rparr>)"
  have d1: "ref_inv d1" by (rule ref_inv_remove_objects[OF inv, where S = "set objs"]) (simp_all add: d1_def)
  define d3 where "d3 = incrementStat statAccountsRegistered (- 1) (d2\<lparr>tAccounts := filter (\<lambda>x. ac_id x \<noteq> ?acc) (tAccounts d2),
      tObjectEvents := filter (\<lambda>e. oe_account_id e \<noteq> ?acc) (tObjectEvents d2),
      tAccountHosts := filter (\<lambda>r. ah_account_id r \<noteq> ?acc) (tAccountHosts d2),
      tPoolAttachments := filter (\<lambda>r. pa_account_id r \<noteq> ?acc) (tPoolAttachments d2)\<rparr>)"
  have slabs1: "tAccountSlabs d1 = tAccountSlabs d" by (simp add: d1_def)
  have "PruneAccounts limit d =
      Inr ((), if remaining = 0 then d1 else if int (length slabs) = remaining then d2 else d3)"
    unfolding PruneAccounts_def a option.case Let_def ids_def[symmetric] objs_def[symmetric] d1_def[symmetric] remaining_def[symmetric]
      slabs1 slabs_def[symmetric] d2_def[symmetric] d3_def[symmetric]
    using lim by (simp only: not_less[symmetric] if_False if_distrib[of Inr] split: if_split) simp
  then have "d' = (if remaining = 0 then d1 else if int (length slabs) = remaining then d2 else d3)" using eq by simp
  moreover have "same_refs d2 d3" by (simp add: d3_def same_refs_def store_simps)
  ultimately have d': "same_refs (if remaining = 0 then d1 else d2) d'" by (auto simp: same_refs_def)
  have "ref_inv d2" if "remaining \<noteq> 0"
  proof (rule objects_pinned_unpin[OF d1, where S = "set slabs" and accID = ?acc])
    fix r
    have "length objs < nat limit" using that lim by (auto simp: remaining_def objs_def)
    then have "objs = ids" by (simp add: objs_def)
    then have "set objs = ob_id ` {x \<in> set (tObjects d). ob_account_id x = ?acc}" by (auto simp: ids_def)
    then show "\<not> referenced d1 ?acc (sl_digest r)" by (auto simp: referenced_def d1_def)
  qed (simp_all add: d2_def queue_slabs_def d1_def)
  with d1 d' show ?thesis by (auto intro: ref_inv_same_refs split: if_splits)
qed

end
