(* ===== verification/Contract_Store.thy ===== *)
theory Contract_Store
  imports Pin_References
begin

text \<open>
  The contracts of the store, persist/postgres/contracts.go: forming, revising and renewing
  contracts, the contract elements kept for the chain subscriber, and the queries by which
  the managers pick contracts.

  Integer columns have a width in the schema: \<open>revision_number\<close> and \<open>leaf_index\<close> are 32 bits
  and signed, heights and sizes 64 bits and signed. A value that does not fit is an error.
  \<open>RiskedCollateral\<close> and \<open>RenterCost\<close> may panic, so the operations that call them return
  \<open>None\<close> for a panic.
\<close>

section \<open>Column types and constraints\<close>

definition int4_ok :: "u64 \<Rightarrow> bool" where
  "int4_ok n \<longleftrightarrow> unat n < 2 ^ 31"

definition int8_ok :: "u64 \<Rightarrow> bool" where
  "int8_ok n \<longleftrightarrow> unat n < 2 ^ 63"

text \<open>The range of the columns and the \<open>CHECK\<close> constraints of the table \<open>contracts\<close>.\<close>

definition contract_columns_ok :: "contract_row \<Rightarrow> bool" where
  "contract_columns_ok c \<longleftrightarrow> int4_ok (ct_revision_number c) \<and> int8_ok (ct_proof_height c) \<and>
     int8_ok (ct_expiration_height c) \<and> int8_ok (ct_capacity c) \<and> int8_ok (ct_size c)"

definition contract_checks_ok :: "contract_row \<Rightarrow> bool" where
  "contract_checks_ok c \<longleftrightarrow> ct_size c \<le> ct_capacity c \<and> ct_used_collateral c \<le> ct_total_collateral c"

definition contract_known :: "db \<Rightarrow> contract_id \<Rightarrow> bool" where
  "contract_known d i \<longleftrightarrow> i \<in> ct_contract_id ` set (tContracts d)"

text \<open>\<open>INSERT INTO contracts\<close>: the constraints of the new row.\<close>

definition insert_contract :: "contract_row \<Rightarrow> db \<Rightarrow> db result" where
  "insert_contract c d =
     (if \<not> contract_columns_ok c then Inl ErrOutOfRange
      else if \<not> contract_checks_ok c then Inl ErrCheckViolation
      else if contract_known d (ct_contract_id c) then Inl ErrUniqueViolation
      else if ct_renewed_from c \<noteq> None \<and> ct_renewed_from c \<in> ct_renewed_from ` set (tContracts d) then Inl ErrUniqueViolation
      else Inr (d\<lparr>tContracts := tContracts d @ [c]\<rparr>))"

text \<open>\<open>UPDATE contracts SET renewed_to = $1 WHERE contract_id = $2\<close>: the number of rows.\<close>

definition set_renewed_to :: "contract_id \<Rightarrow> contract_id option \<Rightarrow> db \<Rightarrow> (nat \<times> db) result" where
  "set_renewed_to i renewedTo d =
     (if \<not> contract_known d i then Inr (0, d)
      else if renewedTo \<noteq> None \<and> \<not> contract_known d (the renewedTo) then Inl ErrForeignKeyViolation
      else if renewedTo \<noteq> None \<and> (\<exists>c \<in> set (tContracts d). ct_contract_id c \<noteq> i \<and> ct_renewed_to c = renewedTo) then Inl ErrUniqueViolation
      else Inr (length (filter (\<lambda>c. ct_contract_id c = i) (tContracts d)),
                d\<lparr>tContracts := update_rows (\<lambda>c. ct_contract_id c = i) (\<lambda>c. c\<lparr>ct_renewed_to := renewedTo\<rparr>) (tContracts d)\<rparr>))"

definition updateHostUsage :: "core_ops \<Rightarrow> public_key \<Rightarrow> usage \<Rightarrow> db \<Rightarrow> (unit \<times> db) outcome" where
  "updateHostUsage C hostKey usage d =
     Option.bind (RenterCost C usage) (\<lambda>cost.
       Some (if hostKey \<notin> h_public_key ` set (tHosts d) then Inl ErrHostNotFound
             else Inr ((), d\<lparr>tHosts := update_rows (\<lambda>h. h_public_key h = hostKey)
                    (\<lambda>h. h\<lparr>h_usage_account_funding := h_usage_account_funding h + UsageAccountFunding usage,
                          h_usage_total_spent := h_usage_total_spent h + cost\<rparr>) (tHosts d)\<rparr>)))"

section \<open>Revisions\<close>

definition ContractRevision :: "contract_id \<Rightarrow> db \<Rightarrow> (contract_revision \<times> bool) result" where
  "ContractRevision contractID d =
     (case contract_by_id d contractID of
        None \<Rightarrow> Inl ErrNotFound
      | Some c \<Rightarrow> Inr (\<lparr>RevID = contractID, Revision = ct_raw_revision c\<rparr>, ct_renewed_to c \<noteq> None))"

text \<open>The columns \<open>UpdateContractRevision\<close> sets.\<close>

definition revise_row :: "v2_contract \<Rightarrow> currency \<Rightarrow> contract_row \<Rightarrow> contract_row" where
  "revise_row update risked c = c\<lparr>ct_raw_revision := update, ct_revision_number := RevisionNumber update,
     ct_capacity := FileCapacity update, ct_size := Filesize update,
     ct_remaining_allowance := RenterOutputValue update, ct_used_collateral := risked\<rparr>"

definition UpdateContractRevision :: "core_ops \<Rightarrow> contract_revision \<Rightarrow> usage \<Rightarrow> db \<Rightarrow> (unit \<times> db) outcome" where
  "UpdateContractRevision C contract usage d =
     (case contract_by_id d (RevID contract) of
        None \<Rightarrow> Some (Inl ErrNotFound)
      | Some c \<Rightarrow>
          let update = Revision contract in
          if ct_revision_number c \<ge> RevisionNumber update
          then Some (Inl (ErrMsg ''the updated revision number is not strictly higher than the existing revision number''))
          else Option.bind (RiskedCollateral C update) (\<lambda>risked.
            if \<not> contract_columns_ok (revise_row update risked c) then Some (Inl ErrOutOfRange)
            else if \<not> contract_checks_ok (revise_row update risked c) then Some (Inl ErrCheckViolation)
            else updateHostUsage C (HostPublicKey update) usage
                   (d\<lparr>tContracts := update_rows (\<lambda>c. ct_contract_id c = RevID contract) (revise_row update risked) (tContracts d)\<rparr>)))"

section \<open>Forming and renewing contracts\<close>

abbreviation oneDay :: duration where "oneDay \<equiv> 24 * time_hour"

definition no_spending :: contract_spending where
  "no_spending = \<lparr>SpendAppendSector = 0, SpendFreeSector = 0, SpendFundAccount = 0, SpendSectorRoots = 0\<rparr>"

definition formed_row ::
  "gotime \<Rightarrow> int \<Rightarrow> contract_id \<Rightarrow> v2_contract \<Rightarrow> currency \<Rightarrow> currency \<Rightarrow> currency \<Rightarrow> contract_row" where
  "formed_row now hostID contractID revision contractPrice allowance minerFee =
     \<lparr>ct_host_id = hostID, ct_contract_id = contractID, ct_formation = now,
      ct_proof_height = FileProofHeight revision, ct_expiration_height = FileExpirationHeight revision,
      ct_renewed_from = None, ct_renewed_to = None, ct_revision_number = RevisionNumber revision,
      ct_state = ContractStatePending, ct_last_broadcast_attempt = now, ct_next_prune = now + oneDay,
      ct_capacity = FileCapacity revision, ct_size = Filesize revision, ct_contract_price = contractPrice,
      ct_initial_allowance = allowance, ct_remaining_allowance = allowance, ct_miner_fee = minerFee,
      ct_used_collateral = 0, ct_total_collateral = FileTotalCollateral revision, ct_good = True,
      ct_spending = no_spending, ct_raw_revision = revision\<rparr>"

text \<open>\<open>INSERT INTO contract_sectors_map\<close>\<close>

definition insert_csm :: "contract_id \<Rightarrow> db \<Rightarrow> db result" where
  "insert_csm contractID d =
     (if csm_by_contract d contractID \<noteq> None then Inl ErrUniqueViolation
      else Inr (d\<lparr>tCSM := tCSM d @ [\<lparr>csm_id = seqCSM d, csm_contract_id = contractID\<rparr>], seqCSM := seqCSM d + 1\<rparr>))"

definition AddFormedContract ::
  "core_ops \<Rightarrow> gotime \<Rightarrow> public_key \<Rightarrow> contract_id \<Rightarrow> v2_contract \<Rightarrow> currency \<Rightarrow> currency \<Rightarrow> currency \<Rightarrow> usage
     \<Rightarrow> db \<Rightarrow> (unit \<times> db) outcome" where
  "AddFormedContract C now hostKey contractID revision contractPrice allowance minerFee usage d =
     (case host_id_of d hostKey of
        None \<Rightarrow> Some (Inl ErrHostNotFound)
      | Some hostID \<Rightarrow>
          (case rbind (insert_contract (formed_row now hostID contractID revision contractPrice allowance minerFee) d)
                  (insert_csm contractID) of
             Inl e \<Rightarrow> Some (Inl e)
           | Inr d \<Rightarrow> updateHostUsage C hostKey usage d))"

definition renewed_row ::
  "gotime \<Rightarrow> contract_row \<Rightarrow> contract_id \<Rightarrow> v2_contract \<Rightarrow> currency \<Rightarrow> currency \<Rightarrow> currency \<Rightarrow> contract_row" where
  "renewed_row now c renewedTo revision risked contractPrice minerFee =
     \<lparr>ct_host_id = ct_host_id c, ct_contract_id = renewedTo, ct_formation = now,
      ct_proof_height = FileProofHeight revision, ct_expiration_height = FileExpirationHeight revision,
      ct_renewed_from = Some (ct_contract_id c), ct_renewed_to = None, ct_revision_number = RevisionNumber revision,
      ct_state = ContractStatePending, ct_last_broadcast_attempt = now, ct_next_prune = now + oneDay,
      ct_capacity = FileCapacity revision, ct_size = Filesize revision, ct_contract_price = contractPrice,
      ct_initial_allowance = RenterOutputValue revision, ct_remaining_allowance = RenterOutputValue revision,
      ct_miner_fee = minerFee, ct_used_collateral = risked, ct_total_collateral = FileTotalCollateral revision,
      ct_good = True, ct_spending = no_spending, ct_raw_revision = revision\<rparr>"

text \<open>\<open>UPDATE contract_sectors_map SET contract_id = $1 WHERE contract_id = $2\<close> on one row.\<close>

definition move_csm :: "contract_id \<Rightarrow> contract_id \<Rightarrow> db \<Rightarrow> db result" where
  "move_csm renewedFrom renewedTo d =
     (if csm_by_contract d renewedFrom = None then Inl (ErrMsg ''no entry found for contract'')
      else if renewedFrom \<noteq> renewedTo \<and> csm_by_contract d renewedTo \<noteq> None then Inl ErrUniqueViolation
      else Inr (d\<lparr>tCSM := update_rows (\<lambda>m. csm_contract_id m = renewedFrom) (\<lambda>m. m\<lparr>csm_contract_id := renewedTo\<rparr>) (tCSM d)\<rparr>))"

text \<open>The three statements of \<open>AddRenewedContract\<close> before the usage of the host is updated.\<close>

definition renewal_statements ::
  "gotime \<Rightarrow> contract_id \<Rightarrow> contract_id \<Rightarrow> v2_contract \<Rightarrow> currency \<Rightarrow> currency \<Rightarrow> currency \<Rightarrow> db \<Rightarrow> db result" where
  "renewal_statements now renewedFrom renewedTo revision risked contractPrice minerFee d =
     rbind (case contract_by_id d renewedFrom of
              None \<Rightarrow> Inr d
            | Some c \<Rightarrow> insert_contract (renewed_row now c renewedTo revision risked contractPrice minerFee) d)
       (\<lambda>d. rbind (set_renewed_to renewedFrom (Some renewedTo) d) (\<lambda>(n, d).
         if n \<noteq> 1 then Inl (ErrMsg ''expected 1 row to be affected'')
         else move_csm renewedFrom renewedTo d))"

definition AddRenewedContract ::
  "core_ops \<Rightarrow> gotime \<Rightarrow> contract_id \<Rightarrow> contract_id \<Rightarrow> v2_contract \<Rightarrow> currency \<Rightarrow> currency \<Rightarrow> usage
     \<Rightarrow> db \<Rightarrow> (unit \<times> db) outcome" where
  "AddRenewedContract C now renewedFrom renewedTo revision contractPrice minerFee usage d =
     Option.bind (RiskedCollateral C revision) (\<lambda>risked.
       case renewal_statements now renewedFrom renewedTo revision risked contractPrice minerFee d of
         Inl e \<Rightarrow> Some (Inl e)
       | Inr d \<Rightarrow> updateHostUsage C (HostPublicKey revision) usage d)"

section \<open>Updates of single columns\<close>

abbreviation update_contract :: "contract_id \<Rightarrow> (contract_row \<Rightarrow> contract_row) \<Rightarrow> db \<Rightarrow> db" where
  "update_contract i f d \<equiv> d\<lparr>tContracts := update_rows (\<lambda>c. ct_contract_id c = i) f (tContracts d)\<rparr>"

definition MarkBroadcastAttempt :: "gotime \<Rightarrow> contract_id \<Rightarrow> unit tx" where
  "MarkBroadcastAttempt now contractID d =
     Inr ((), update_contract contractID (\<lambda>c. c\<lparr>ct_last_broadcast_attempt := now\<rparr>) d)"

definition UpdateNextPrune :: "contract_id \<Rightarrow> gotime \<Rightarrow> unit tx" where
  "UpdateNextPrune contractID nextPrune d =
     Inr ((), update_contract contractID (\<lambda>c. c\<lparr>ct_next_prune := nextPrune\<rparr>) d)"

definition MarkUnrenewableContractsBad :: "u64 \<Rightarrow> unit tx" where
  "MarkUnrenewableContractsBad maxProofHeight d =
     (if \<not> int8_ok maxProofHeight then Inl ErrOutOfRange
      else Inr ((), d\<lparr>tContracts := update_rows
             (\<lambda>c. contract_active c \<and> ct_good c \<and> ct_proof_height c \<le> maxProofHeight)
             (\<lambda>c. c\<lparr>ct_good := False\<rparr>) (tContracts d)\<rparr>))"

definition MarkContractBad :: "contract_id \<Rightarrow> unit tx" where
  "MarkContractBad contractID d = markContractBad contractID d"

definition RejectPendingContracts :: "gotime \<Rightarrow> unit tx" where
  "RejectPendingContracts maxFormation d =
     Inr ((), d\<lparr>tContracts := update_rows (\<lambda>c. ct_state c = ContractStatePending \<and> ct_formation c < maxFormation)
             (\<lambda>c. c\<lparr>ct_state := ContractStateRejected\<rparr>) (tContracts d)\<rparr>)"

definition PruneExpiredContractElements :: "u64 \<Rightarrow> unit tx" where
  "PruneExpiredContractElements maxBlocksSinceExpiry d =
     Inr ((), d\<lparr>tElements := filter (\<lambda>e. \<not> (\<exists>c \<in> set (tContracts d). ct_contract_id c = ce_contract_id e \<and>
             unat (scanned_height (tGlobals d)) \<ge> unat (ct_expiration_height c) + unat maxBlocksSinceExpiry)) (tElements d)\<rparr>)"

section \<open>The update transaction of the chain subscriber\<close>

definition store_IsKnownContract :: "contract_id \<Rightarrow> bool tx" where
  "store_IsKnownContract contractID d = Inr (contract_known d contractID, d)"

definition ContractElements :: "contract_element_row list tx" where
  "ContractElements d = Inr (tElements d, d)"

definition DeleteContractElements :: "contract_id list \<Rightarrow> unit tx" where
  "DeleteContractElements contractIDs d =
     Inr ((), fold (\<lambda>i d. d\<lparr>tElements := filter (\<lambda>e. ce_contract_id e \<noteq> i) (tElements d)\<rparr>) contractIDs d)"

definition upsert_element :: "contract_element_row \<Rightarrow> db \<Rightarrow> db result" where
  "upsert_element fce d =
     (if \<not> int4_ok (ce_leaf_index fce) then Inl ErrOutOfRange
      else if ce_contract_id fce \<in> ce_contract_id ` set (tElements d)
      then Inr (d\<lparr>tElements := update_rows (\<lambda>e. ce_contract_id e = ce_contract_id fce) (\<lambda>e. fce) (tElements d)\<rparr>)
      else if \<not> contract_known d (ce_contract_id fce) then Inl ErrForeignKeyViolation
      else Inr (d\<lparr>tElements := tElements d @ [fce]\<rparr>))"

fun UpdateContractElements :: "contract_element_row list \<Rightarrow> unit tx" where
  "UpdateContractElements [] d = Inr ((), d)"
| "UpdateContractElements (fce # fces) d = rbind (upsert_element fce d) (UpdateContractElements fces)"

definition UpdateContractState :: "contract_id \<Rightarrow> contract_state \<Rightarrow> unit tx" where
  "UpdateContractState contractID state d = Inr ((), update_contract contractID (\<lambda>c. c\<lparr>ct_state := state\<rparr>) d)"

definition UpdateContractRenewedTo :: "contract_id \<Rightarrow> contract_id option \<Rightarrow> unit tx" where
  "UpdateContractRenewedTo contractID renewedTo d =
     (if renewedTo \<noteq> None \<and> \<not> contract_known d (the renewedTo) then Inr ((), d)
      else rbind (set_renewed_to contractID renewedTo d) (\<lambda>(n, d).
        if n \<noteq> 1 then Inl (ErrMsg ''expected 1 row to be affected'') else Inr ((), d)))"

section \<open>Queries\<close>

text \<open>\<open>asNullable\<close> leaves the zero value for \<open>NULL\<close>.\<close>

definition scanContract :: "host_row \<times> contract_row \<Rightarrow> contract" where
  "scanContract row = (let h = fst row; c = snd row in
     \<lparr>ID = ct_contract_id c, HostKey = h_public_key h, Formation = ct_formation c,
      RenewedFrom = (case ct_renewed_from c of None \<Rightarrow> 0 | Some i \<Rightarrow> i),
      NextPrune = ct_next_prune c, LastBroadcastAttempt = ct_last_broadcast_attempt c,
      ContractRevisionNumber = ct_revision_number c, ProofHeight = ct_proof_height c,
      ExpirationHeight = ct_expiration_height c, Capacity = ct_capacity c, Size = ct_size c,
      InitialAllowance = ct_initial_allowance c, ContractRemainingAllowance = ct_remaining_allowance c,
      TotalCollateral = ct_total_collateral c,
      RenewedTo = (case ct_renewed_to c of None \<Rightarrow> 0 | Some i \<Rightarrow> i),
      UsedCollateral = ct_used_collateral c, CContractPrice = ct_contract_price c, MinerFee = ct_miner_fee c,
      Good = ct_good c, State = ct_state c, Spending = ct_spending c\<rparr>)"

text \<open>\<open>contracts c INNER JOIN hosts h ON c.host_id = h.id\<close>\<close>

definition contracts_hosts :: "db \<Rightarrow> (host_row \<times> contract_row) list" where
  "contracts_hosts d = concat (map (\<lambda>c. map (\<lambda>h. (h, c)) (filter (\<lambda>h. h_id h = ct_host_id c) (tHosts d))) (tContracts d))"

definition Contract :: "contract_id \<Rightarrow> db \<Rightarrow> contract result" where
  "Contract contractID d =
     (case filter (\<lambda>row. ct_contract_id (snd row) = contractID) (contracts_hosts d) of
        [] \<Rightarrow> Inl ErrNotFound
      | row # _ \<Rightarrow> Inr (scanContract row))"

record contract_query_opts =
  OptRevisable :: "bool option"
  OptGood :: "bool option"
  OptIDs :: "contract_id list"
  OptHostKeys :: "public_key list"
  OptSorting :: "(string \<times> bool) list"

text \<open>The number behind a column of type \<open>state\<close>.\<close>

fun contract_state_number :: "contract_state \<Rightarrow> int" where
  "contract_state_number ContractStatePending = 0"
| "contract_state_number ContractStateActive = 1"
| "contract_state_number ContractStateResolved = 2"
| "contract_state_number ContractStateExpired = 3"
| "contract_state_number ContractStateRejected = 4"
| "contract_state_number (ContractStateOther n) = uint n"

text \<open>
  The columns of \<open>sortMapping\<close>, as the value by which a row is sorted; \<open>None\<close> is \<open>NULL\<close>.
\<close>

definition sortMapping :: "(string \<times> (host_row \<times> contract_row \<Rightarrow> int option)) list" where
  "sortMapping =
    [(''id'', \<lambda>(h, c). Some (uint (ct_contract_id c))),
     (''hostKey'', \<lambda>(h, c). Some (uint (h_public_key h))),
     (''formation'', \<lambda>(h, c). Some (ct_formation c)),
     (''renewedFrom'', \<lambda>(h, c). map_option uint (ct_renewed_from c)),
     (''nextPrune'', \<lambda>(h, c). Some (ct_next_prune c)),
     (''lastBroadcastAttempt'', \<lambda>(h, c). Some (ct_last_broadcast_attempt c)),
     (''revisionNumber'', \<lambda>(h, c). Some (uint (ct_revision_number c))),
     (''proofHeight'', \<lambda>(h, c). Some (uint (ct_proof_height c))),
     (''expirationHeight'', \<lambda>(h, c). Some (uint (ct_expiration_height c))),
     (''capacity'', \<lambda>(h, c). Some (uint (ct_capacity c))),
     (''size'', \<lambda>(h, c). Some (uint (ct_size c))),
     (''initialAllowance'', \<lambda>(h, c). Some (int (ct_initial_allowance c))),
     (''remainingAllowance'', \<lambda>(h, c). Some (int (ct_remaining_allowance c))),
     (''totalCollateral'', \<lambda>(h, c). Some (int (ct_total_collateral c))),
     (''renewedTo'', \<lambda>(h, c). map_option uint (ct_renewed_to c)),
     (''usedCollateral'', \<lambda>(h, c). Some (int (ct_used_collateral c))),
     (''contractPrice'', \<lambda>(h, c). Some (int (ct_contract_price c))),
     (''minerFee'', \<lambda>(h, c). Some (int (ct_miner_fee c))),
     (''good'', \<lambda>(h, c). Some (of_bool (ct_good c))),
     (''state'', \<lambda>(h, c). Some (contract_state_number (ct_state c))),
     (''spending.appendSector'', \<lambda>(h, c). Some (int (SpendAppendSector (ct_spending c)))),
     (''spending.freeSector'', \<lambda>(h, c). Some (int (SpendFreeSector (ct_spending c)))),
     (''spending.fundAccount'', \<lambda>(h, c). Some (int (SpendFundAccount (ct_spending c)))),
     (''spending.sectorRoots'', \<lambda>(h, c). Some (int (SpendSectorRoots (ct_spending c))))]"

text \<open>Ascending order puts \<open>NULL\<close> last, descending order first.\<close>

fun null_less :: "int option \<Rightarrow> int option \<Rightarrow> bool" where
  "null_less (Some a) (Some b) = (a < b)"
| "null_less (Some a) None = True"
| "null_less None _ = False"

fun order_by :: "((host_row \<times> contract_row \<Rightarrow> int option) \<times> bool) list \<Rightarrow> host_row \<times> contract_row \<Rightarrow> host_row \<times> contract_row \<Rightarrow> bool" where
  "order_by [] a b = False"
| "order_by ((col, desc) # rest) a b =
     (if col a = col b then order_by rest a b
      else if desc then null_less (col b) (col a) else null_less (col a) (col b))"

fun sort_parts :: "(string \<times> bool) list \<Rightarrow> ((host_row \<times> contract_row \<Rightarrow> int option) \<times> bool) list result" where
  "sort_parts [] = Inr []"
| "sort_parts ((field, desc) # sorts) =
     (case map_of sortMapping field of
        None \<Rightarrow> Inl ErrInvalidSortField
      | Some column \<Rightarrow> rbind (sort_parts sorts) (\<lambda>parts. Inr ((column, desc) # parts)))"

definition buildContractOrderByClause :: "(string \<times> bool) list \<Rightarrow> ((host_row \<times> contract_row \<Rightarrow> int option) \<times> bool) list result" where
  "buildContractOrderByClause sorts =
     (if sorts = [] then Inr [(\<lambda>(h, c). Some (uint (ct_contract_id c)), False)] else sort_parts sorts)"

definition contract_matches :: "db \<Rightarrow> contract_query_opts \<Rightarrow> host_row \<times> contract_row \<Rightarrow> bool" where
  "contract_matches d opts row = (let h = fst row; c = snd row in
     (OptGood opts = None \<or> OptGood opts = Some (ct_good c)) \<and>
     (OptRevisable opts = None \<or>
      (OptRevisable opts = Some True \<and> contract_active c \<and> ct_proof_height c > scanned_height (tGlobals d)) \<or>
      (OptRevisable opts = Some False \<and> ct_state c \<in> {ContractStateResolved, ContractStateExpired, ContractStateRejected})) \<and>
     (OptIDs opts = [] \<or> ct_contract_id c \<in> set (OptIDs opts)) \<and>
     (OptHostKeys opts = [] \<or> h_public_key h \<in> set (OptHostKeys opts)))"

definition Contracts ::
  "((host_row \<times> contract_row) list \<Rightarrow> (host_row \<times> contract_row) list) \<Rightarrow> nat \<Rightarrow> nat \<Rightarrow> contract_query_opts \<Rightarrow> db \<Rightarrow> contract list result" where
  "Contracts scan offset limit opts d =
     rbind (buildContractOrderByClause (OptSorting opts)) (\<lambda>order.
       Inr (map scanContract (page_of (stable_sort (order_by order) (scan (filter (contract_matches d opts) (contracts_hosts d)))) offset limit)))"

definition revisable :: "db \<Rightarrow> contract_row \<Rightarrow> bool" where
  "revisable d c \<longleftrightarrow> contract_active c \<and> ct_proof_height c > scanned_height (tGlobals d)"

definition ContractsForBroadcasting :: "(contract_row list \<Rightarrow> contract_row list) \<Rightarrow> gotime \<Rightarrow> nat \<Rightarrow> db \<Rightarrow> contract_id list" where
  "ContractsForBroadcasting scan minBroadcast limit d =
     map ct_contract_id (take limit (stable_sort (\<lambda>a b. ct_last_broadcast_attempt a < ct_last_broadcast_attempt b)
       (scan (filter (\<lambda>c. revisable d c \<and> ct_last_broadcast_attempt c < minBroadcast) (tContracts d)))))"

text \<open>The condition the queries for funding, pinning and pruning share.\<close>

definition usable_on :: "db \<Rightarrow> public_key \<Rightarrow> contract_row \<Rightarrow> bool" where
  "usable_on d hk c \<longleftrightarrow> host_id_of d hk = Some (ct_host_id c) \<and> revisable d c \<and> ct_good c \<and> ct_remaining_allowance c > 0"

definition ContractsForFunding :: "(contract_row list \<Rightarrow> contract_row list) \<Rightarrow> public_key \<Rightarrow> nat \<Rightarrow> db \<Rightarrow> contract_id list" where
  "ContractsForFunding scan hk limit d =
     map ct_contract_id (take limit (stable_sort (\<lambda>a b. ct_remaining_allowance b < ct_remaining_allowance a)
       (scan (filter (usable_on d hk) (tContracts d)))))"

definition ContractsForPinning :: "(contract_row list \<Rightarrow> contract_row list) \<Rightarrow> public_key \<Rightarrow> u64 \<Rightarrow> db \<Rightarrow> contract_id list" where
  "ContractsForPinning scan hk maxSize d =
     map ct_contract_id (stable_sort (\<lambda>a b. uint (ct_capacity b) - uint (ct_size b) < uint (ct_capacity a) - uint (ct_size a))
       (scan (filter (\<lambda>c. usable_on d hk c \<and> ct_size c < maxSize) (tContracts d))))"

definition ContractsForPruning :: "gotime \<Rightarrow> (contract_row list \<Rightarrow> contract_row list) \<Rightarrow> public_key \<Rightarrow> db \<Rightarrow> contract_id list" where
  "ContractsForPruning now scan hk d =
     map ct_contract_id (stable_sort (\<lambda>a b. ct_size b < ct_size a)
       (scan (filter (\<lambda>c. usable_on d hk c \<and> ct_next_prune c < now) (tContracts d))))"

definition ContractElement :: "contract_id \<Rightarrow> db \<Rightarrow> contract_element_row result" where
  "ContractElement contractID d =
     (case find (\<lambda>e. ce_contract_id e = contractID) (tElements d) of None \<Rightarrow> Inl ErrNotFound | Some e \<Rightarrow> Inr e)"

definition ContractElementsForBroadcast :: "(contract_element_row list \<Rightarrow> contract_element_row list) \<Rightarrow> u64 \<Rightarrow> db \<Rightarrow> contract_element_row list" where
  "ContractElementsForBroadcast scan maxBlocksSinceExpiry d =
     scan (filter (\<lambda>e. case contract_by_id d (ce_contract_id e) of
         None \<Rightarrow> False
       | Some c \<Rightarrow> unat (scanned_height (tGlobals d)) \<ge> unat (ct_expiration_height c) + unat maxBlocksSinceExpiry \<and>
                   ct_state c = ContractStateActive \<and> ct_renewed_to c = None) (tElements d))"

definition PrunableContractRoots :: "contract_id \<Rightarrow> hash256 list \<Rightarrow> db \<Rightarrow> hash256 list result" where
  "PrunableContractRoots contractID roots d =
     (case csm_by_contract d contractID of
        None \<Rightarrow> Inl ErrNoRows
      | Some m \<Rightarrow>
          (case contract_by_id d contractID of
             None \<Rightarrow> Inl ErrNotFound
           | Some c \<Rightarrow>
               let wanted = map sec_root (filter (\<lambda>s. sec_root s \<in> set roots \<and>
                       (sec_csm s = Some (csm_id m) \<or> (sec_host_id s = Some (ct_host_id c) \<and> sec_csm s = None))) (tSectors d))
               in Inr (filter (\<lambda>r. r \<notin> set wanted) roots)))"

record contracts_stats =
  StatContracts :: int
  StatBadContracts :: int
  StatRenewing :: int
  StatLockedAllowance :: nat
  StatRemainingAllowance :: nat
  StatTotalCapacity :: int
  StatTotalSize :: int

definition ContractsStats :: "db \<Rightarrow> contracts_stats" where
  "ContractsStats d =
     (let cs = filter (revisable d) (tContracts d);
          h = unat (scanned_height (tGlobals d)); w = unat (RenewWindow (maintenance (tGlobals d)))
      in \<lparr>StatContracts = int (length cs),
          StatBadContracts = int (length cs) - int (length (filter ct_good cs)),
          StatRenewing = int (length (filter (\<lambda>c. ct_good c \<and> h + w \<ge> unat (ct_proof_height c)) cs)),
          StatLockedAllowance = sum_list (map ct_initial_allowance cs),
          StatRemainingAllowance = sum_list (map ct_remaining_allowance cs),
          StatTotalCapacity = sum_list (map (\<lambda>c. uint (ct_capacity c)) cs),
          StatTotalSize = sum_list (map (\<lambda>c. uint (ct_size c)) cs)\<rparr>)"

definition MaintenanceSettings :: "db \<Rightarrow> maintenance_settings" where
  "MaintenanceSettings d = maintenance (tGlobals d)"

section \<open>Effects of the operations\<close>

lemma updateHostUsage_effect:
  assumes "updateHostUsage C hk usage d = Some (Inr (x, d'))"
  obtains cost where "RenterCost C usage = Some cost" "hk \<in> h_public_key ` set (tHosts d)"
    "d' = d\<lparr>tHosts := update_rows (\<lambda>h. h_public_key h = hk)
       (\<lambda>h. h\<lparr>h_usage_account_funding := h_usage_account_funding h + UsageAccountFunding usage,
             h_usage_total_spent := h_usage_total_spent h + cost\<rparr>) (tHosts d)\<rparr>"
  using assms by (auto simp: updateHostUsage_def bind_eq_Some_conv split: if_splits)

lemma UpdateContractRevision_effect:
  assumes "UpdateContractRevision C contract usage d = Some (Inr (x, d'))"
  obtains c risked where "contract_by_id d (RevID contract) = Some c" "ct_revision_number c < RevisionNumber (Revision contract)"
    "RiskedCollateral C (Revision contract) = Some risked"
    "contract_columns_ok (revise_row (Revision contract) risked c)" "contract_checks_ok (revise_row (Revision contract) risked c)"
    "updateHostUsage C (HostPublicKey (Revision contract)) usage
       (d\<lparr>tContracts := update_rows (\<lambda>c. ct_contract_id c = RevID contract) (revise_row (Revision contract) risked) (tContracts d)\<rparr>)
     = Some (Inr (x, d'))"
  using assms unfolding UpdateContractRevision_def
  by (auto simp: Let_def bind_eq_Some_conv not_le split: option.splits if_splits)

lemma insert_contract_effect:
  assumes "insert_contract c d = Inr d'"
  shows "d' = d\<lparr>tContracts := tContracts d @ [c]\<rparr> \<and> contract_columns_ok c \<and> contract_checks_ok c \<and>
     \<not> contract_known d (ct_contract_id c) \<and>
     (ct_renewed_from c = None \<or> ct_renewed_from c \<notin> ct_renewed_from ` set (tContracts d))"
  using assms by (auto simp: insert_contract_def split: if_splits)

lemma AddFormedContract_effect:
  assumes "AddFormedContract C now hk i revn cp al mf usage d = Some (Inr (x, d'))"
  obtains hid where "host_id_of d hk = Some hid"
    "insert_contract (formed_row now hid i revn cp al mf) d = Inr (d\<lparr>tContracts := tContracts d @ [formed_row now hid i revn cp al mf]\<rparr>)"
    "csm_by_contract d i = None"
    "updateHostUsage C hk usage (d\<lparr>tContracts := tContracts d @ [formed_row now hid i revn cp al mf],
       tCSM := tCSM d @ [\<lparr>csm_id = seqCSM d, csm_contract_id = i\<rparr>], seqCSM := seqCSM d + 1\<rparr>) = Some (Inr (x, d'))"
proof -
  from assms obtain hid d1 d2 where h: "host_id_of d hk = Some hid"
    and i: "insert_contract (formed_row now hid i revn cp al mf) d = Inr d1" and m: "insert_csm i d1 = Inr d2"
    and u: "updateHostUsage C hk usage d2 = Some (Inr (x, d'))"
    by (auto simp: AddFormedContract_def rbind_eq_Inr split: option.splits sum.splits)
  have d1: "d1 = d\<lparr>tContracts := tContracts d @ [formed_row now hid i revn cp al mf]\<rparr>" using insert_contract_effect[OF i] by simp
  with m have "csm_by_contract d i = None" and
    "d2 = d\<lparr>tContracts := tContracts d @ [formed_row now hid i revn cp al mf],
       tCSM := tCSM d @ [\<lparr>csm_id = seqCSM d, csm_contract_id = i\<rparr>], seqCSM := seqCSM d + 1\<rparr>"
    by (auto simp: insert_csm_def csm_by_contract_def split: if_splits)
  with that h i u d1 show thesis by simp
qed

text \<open>The database after the three statements of a renewal.\<close>

definition renew_db :: "contract_row \<Rightarrow> contract_id \<Rightarrow> contract_id \<Rightarrow> db \<Rightarrow> db" where
  "renew_db c renewedFrom renewedTo d =
     d\<lparr>tContracts := update_rows (\<lambda>c. ct_contract_id c = renewedFrom) (\<lambda>c. c\<lparr>ct_renewed_to := Some renewedTo\<rparr>) (tContracts d @ [c]),
       tCSM := update_rows (\<lambda>m. csm_contract_id m = renewedFrom) (\<lambda>m. m\<lparr>csm_contract_id := renewedTo\<rparr>) (tCSM d)\<rparr>"

lemma AddRenewedContract_effect:
  assumes "AddRenewedContract C now rf rt revn cp mf usage d = Some (Inr (x, d'))"
  obtains c risked where "RiskedCollateral C revn = Some risked" "contract_by_id d rf = Some c"
    "insert_contract (renewed_row now c rt revn risked cp mf) d = Inr (d\<lparr>tContracts := tContracts d @ [renewed_row now c rt revn risked cp mf]\<rparr>)"
    "\<forall>c' \<in> set (tContracts d). ct_contract_id c' \<noteq> rf \<longrightarrow> ct_renewed_to c' \<noteq> Some rt"
    "csm_by_contract d rf \<noteq> None" "csm_by_contract d rt = None" "rf \<noteq> rt"
    "updateHostUsage C (HostPublicKey revn) usage (renew_db (renewed_row now c rt revn risked cp mf) rf rt d) = Some (Inr (x, d'))"
proof -
  from assms obtain risked where r: "RiskedCollateral C revn = Some risked"
    and "(case renewal_statements now rf rt revn risked cp mf d of
            Inl e \<Rightarrow> Some (Inl e) | Inr d \<Rightarrow> updateHostUsage C (HostPublicKey revn) usage d) = Some (Inr (x, d'))"
    unfolding AddRenewedContract_def bind_eq_Some_conv by blast
  then obtain d3 where st: "renewal_statements now rf rt revn risked cp mf d = Inr d3"
    and u: "updateHostUsage C (HostPublicKey revn) usage d3 = Some (Inr (x, d'))"
    by (auto split: sum.splits)
  from st obtain d1 n d2 where i: "(case contract_by_id d rf of None \<Rightarrow> Inr d | Some c \<Rightarrow> insert_contract (renewed_row now c rt revn risked cp mf) d) = Inr d1"
    and s: "set_renewed_to rf (Some rt) d1 = Inr (n, d2)" and n: "n = 1" and m: "move_csm rf rt d2 = Inr d3"
    unfolding renewal_statements_def rbind_eq_Inr by (auto split: if_splits)
  show thesis
  proof (cases "contract_by_id d rf")
    case None
    then have "\<not> contract_known d rf" by (auto simp: contract_by_id_def contract_known_def find_None_iff)
    with i None s n show ?thesis by (simp add: set_renewed_to_def)
  next
    case (Some c)
    let ?c = "renewed_row now c rt revn risked cp mf"
    from i Some have i': "insert_contract ?c d = Inr d1" by simp
    note E = insert_contract_effect[OF i']
    have cid: "ct_contract_id c = rf" "contract_known d rf" using Some
      by (auto simp: contract_by_id_def find_Some_iff contract_known_def intro: nth_mem)
    with E have ne: "rf \<noteq> rt" by (auto simp: renewed_row_def)
    from s E have d2: "d2 = d1\<lparr>tContracts := update_rows (\<lambda>c. ct_contract_id c = rf) (\<lambda>c. c\<lparr>ct_renewed_to := Some rt\<rparr>) (tContracts d1)\<rparr>"
      and un: "\<forall>c' \<in> set (tContracts d). ct_contract_id c' \<noteq> rf \<longrightarrow> ct_renewed_to c' \<noteq> Some rt"
      using cid by (auto simp: set_renewed_to_def contract_known_def split: if_splits)
    from m E d2 ne have "csm_by_contract d rf \<noteq> None" "csm_by_contract d rt = None" "d3 = renew_db ?c rf rt d"
      by (auto simp: move_csm_def csm_by_contract_def renew_db_def split: if_splits)
    with that[OF r Some] E un ne u i' show ?thesis by simp
  qed
qed

lemma distinct_update_key:
  assumes "distinct (map csm_contract_id xs)" and "rt \<notin> csm_contract_id ` set xs"
  shows "distinct (map csm_contract_id (update_rows (\<lambda>m. csm_contract_id m = rf) (\<lambda>m. m\<lparr>csm_contract_id := rt\<rparr>) xs))"
  using assms by (induction xs) (auto simp: set_update_rows split: if_splits, metis image_eqI)

lemma find_append: "find P (xs @ ys) = (case find P xs of None \<Rightarrow> find P ys | Some x \<Rightarrow> Some x)"
  by (induction xs) auto

section \<open>The store invariant\<close>

lemma store_inv_update_hosts:
  assumes inv: "store_inv d"
    and f: "\<And>h. h_id (f h) = h_id h \<and> h_public_key (f h) = h_public_key h \<and> h_unpinned_sectors (f h) = h_unpinned_sectors h"
  shows "store_inv (d\<lparr>tHosts := update_rows Q f (tHosts d)\<rparr>)" (is "store_inv ?d'")
proof -
  have ids: "map h_id (update_rows Q f (tHosts d)) = map h_id (tHosts d)"
    "map h_public_key (update_rows Q f (tHosts d)) = map h_public_key (tHosts d)"
    using f by (auto intro!: map_update_rows)
  then have set: "h_id ` set (update_rows Q f (tHosts d)) = h_id ` set (tHosts d)" by (metis set_map)
  have "pinned_on_host ?d' s = pinned_on_host d s" for s by (rule pinned_on_host_frame) simp_all
  then show ?thesis using inv ids set f
    by (simp add: store_inv_def sectors_wf_def keys_wf_def hosts_known_def pins_wf_def counters_wf_def sqlStatSelect_def ball_update_rows)
qed

lemma updateHostUsage_inv:
  "store_inv d \<Longrightarrow> updateHostUsage C hk usage d = Some (Inr (x, d')) \<Longrightarrow> store_inv d'"
  by (erule updateHostUsage_effect) (simp add: store_inv_update_hosts)

lemma UpdateContractRevision_inv:
  assumes "store_inv d" "UpdateContractRevision C contract usage d = Some (Inr (x, d'))"
  shows "store_inv d'"
  by (rule UpdateContractRevision_effect[OF assms(2)])
     (rule updateHostUsage_inv[OF store_inv_update_contracts[OF assms(1)]], simp_all add: revise_row_def)

text \<open>Adding a contract and a map entry for it leaves every existing lookup as it was.\<close>

lemma store_inv_add_contract:
  assumes inv: "store_inv d" and new: "\<not> contract_known d (ct_contract_id c)" and h: "ct_host_id c \<in> h_id ` set (tHosts d)"
  shows "store_inv (d\<lparr>tContracts := tContracts d @ [c]\<rparr>)" (is "store_inv ?d'")
proof -
  have "contract_of_csm ?d' m = contract_of_csm d m" if "contract_of_csm d m \<noteq> None" for m
    using that by (auto simp: contract_of_csm_def contract_by_id_def find_append split: option.splits)
  then have p: "pinned_on_host ?d' s" if "pinned_on_host d s" for s
    using that unfolding pinned_on_host_def by (metis option.distinct(1))
  with inv new h show ?thesis
    by (auto simp: store_inv_def sectors_wf_def keys_wf_def hosts_known_def pins_wf_def counters_wf_def sqlStatSelect_def contract_known_def)
qed

lemma store_inv_add_csm:
  assumes inv: "store_inv d" and new: "csm_by_contract d i = None" and k: "contract_known d i"
  shows "store_inv (d\<lparr>tCSM := tCSM d @ [\<lparr>csm_id = seqCSM d, csm_contract_id = i\<rparr>], seqCSM := seqCSM d + 1\<rparr>)" (is "store_inv ?d'")
proof -
  have "contract_of_csm ?d' m = contract_of_csm d m" if "contract_of_csm d m \<noteq> None" for m
    using that by (auto simp: contract_of_csm_def contract_by_id_def find_append split: option.splits)
  then have p: "pinned_on_host ?d' s" if "pinned_on_host d s" for s
    using that unfolding pinned_on_host_def by (metis option.distinct(1))
  from new have "\<forall>m \<in> set (tCSM d). csm_contract_id m \<noteq> i" by (auto simp: csm_by_contract_def find_None_iff)
  moreover have "\<forall>m \<in> set (tCSM d). csm_id m \<noteq> seqCSM d" using inv by (auto simp: store_inv_def keys_wf_def)
  moreover have "\<forall>m \<in> set (tCSM d). csm_id m < seqCSM d + 1" using inv by (force simp: store_inv_def keys_wf_def)
  ultimately show ?thesis using inv p k
    by (auto simp: store_inv_def sectors_wf_def keys_wf_def hosts_known_def pins_wf_def counters_wf_def sqlStatSelect_def contract_known_def)
qed

lemma host_id_of_known: "host_id_of d hk = Some hid \<Longrightarrow> hid \<in> h_id ` set (tHosts d)"
  by (auto simp: host_id_of_def find_Some_iff)

lemma AddFormedContract_inv:
  assumes inv: "store_inv d" and eq: "AddFormedContract C now hk i revn cp al mf usage d = Some (Inr (x, d'))"
  shows "store_inv d'"
proof (rule AddFormedContract_effect[OF eq])
  fix hid
  let ?c = "formed_row now hid i revn cp al mf"
  let ?d1 = "d\<lparr>tContracts := tContracts d @ [?c]\<rparr>"
  assume h: "host_id_of d hk = Some hid" and i: "insert_contract ?c d = Inr ?d1" and m: "csm_by_contract d i = None"
    and u: "updateHostUsage C hk usage (d\<lparr>tContracts := tContracts d @ [?c],
      tCSM := tCSM d @ [\<lparr>csm_id = seqCSM d, csm_contract_id = i\<rparr>], seqCSM := seqCSM d + 1\<rparr>) = Some (Inr (x, d'))"
  have "store_inv ?d1"
    using inv insert_contract_effect[OF i] host_id_of_known[OF h] by (intro store_inv_add_contract) (simp_all add: formed_row_def)
  from store_inv_add_csm[OF this, of i] m have
    "store_inv (d\<lparr>tContracts := tContracts d @ [?c], tCSM := tCSM d @ [\<lparr>csm_id = seqCSM d, csm_contract_id = i\<rparr>], seqCSM := seqCSM d + 1\<rparr>)"
    by (simp add: csm_by_contract_def contract_known_def formed_row_def)
  then show "store_inv d'" using u by (rule updateHostUsage_inv)
qed

text \<open>Moving a map entry to another contract of the same host keeps the sectors pinned.\<close>

lemma contract_by_id_known: "contract_known d i \<longleftrightarrow> contract_by_id d i \<noteq> None"
  by (auto simp: contract_known_def contract_by_id_def find_None_iff)

lemma contract_by_id_Some: "contract_by_id d i = Some c \<Longrightarrow> c \<in> set (tContracts d) \<and> ct_contract_id c = i"
  by (auto simp: contract_by_id_def find_Some_iff)

lemma find_csm_moved:
  "find (\<lambda>r. csm_id r = m) (update_rows Q (\<lambda>r. r\<lparr>csm_contract_id := i\<rparr>) xs)
     = map_option (\<lambda>r. if Q r then r\<lparr>csm_contract_id := i\<rparr> else r) (find (\<lambda>r. csm_id r = m) xs)"
  by (rule find_update_rows) simp

lemma store_inv_move_csm:
  assumes inv: "store_inv d" and m: "csm_by_contract d rt = None"
    and a: "contract_by_id d rf = Some a" and b: "contract_by_id d rt = Some b" and host: "ct_host_id b = ct_host_id a"
  shows "store_inv (d\<lparr>tCSM := update_rows (\<lambda>m. csm_contract_id m = rf) (\<lambda>m. m\<lparr>csm_contract_id := rt\<rparr>) (tCSM d)\<rparr>)" (is "store_inv ?d'")
proof -
  have ids: "map csm_id (tCSM ?d') = map csm_id (tCSM d)" by (simp add: map_update_rows)
  have new: "rt \<notin> csm_contract_id ` set (tCSM d)" using m by (auto simp: csm_by_contract_def find_None_iff)
  have "distinct (map csm_contract_id (tCSM ?d'))" if "distinct (map csm_contract_id (tCSM d))"
    using that new by (simp add: distinct_update_key)
  moreover have "contract_known d rt" using b contract_by_id_known by blast
  ultimately have "keys_wf ?d'" using inv ids
    by (auto simp: store_inv_def keys_wf_def ball_update_rows contract_known_def)
  moreover have "pinned_on_host ?d' s" if p: "pinned_on_host d s" for s
    unfolding pinned_on_host_def
  proof (intro allI impI)
    fix k assume "sec_csm s = Some k"
    with p obtain c where c: "contract_of_csm d k = Some c" "sec_host_id s = Some (ct_host_id c)" by (auto simp: pinned_on_host_def)
    then obtain r where r: "find (\<lambda>r. csm_id r = k) (tCSM d) = Some r" "contract_by_id d (csm_contract_id r) = Some c"
      by (auto simp: contract_of_csm_def split: option.splits)
    then show "\<exists>c. contract_of_csm ?d' k = Some c \<and> sec_host_id s = Some (ct_host_id c)"
      using a b c host by (auto simp: contract_of_csm_def contract_by_id_def find_csm_moved)
  qed
  ultimately show ?thesis using inv
    by (simp add: store_inv_def sectors_wf_def hosts_known_def pins_wf_def counters_wf_def sqlStatSelect_def)
qed

lemma AddRenewedContract_inv:
  assumes inv: "store_inv d" and eq: "AddRenewedContract C now rf rt revn cp mf usage d = Some (Inr (x, d'))"
  shows "store_inv d'"
proof (rule AddRenewedContract_effect[OF eq])
  fix c risked
  let ?c = "renewed_row now c rt revn risked cp mf"
  let ?d1 = "d\<lparr>tContracts := tContracts d @ [?c]\<rparr>"
  let ?d2 = "?d1\<lparr>tContracts := update_rows (\<lambda>c. ct_contract_id c = rf) (\<lambda>c. c\<lparr>ct_renewed_to := Some rt\<rparr>) (tContracts ?d1)\<rparr>"
  assume c: "contract_by_id d rf = Some c" and i: "insert_contract ?c d = Inr ?d1" and ne: "rf \<noteq> rt"
    and m: "csm_by_contract d rt = None"
    and u: "updateHostUsage C (HostPublicKey revn) usage (renew_db ?c rf rt d) = Some (Inr (x, d'))"
  from c contract_by_id_Some inv have "ct_host_id c \<in> h_id ` set (tHosts d)" by (auto simp: store_inv_def keys_wf_def)
  then have "store_inv ?d1"
    using inv insert_contract_effect[OF i] by (intro store_inv_add_contract) (simp_all add: renewed_row_def)
  then have d2: "store_inv ?d2" by (rule store_inv_update_contracts) simp
  have "find (\<lambda>c. ct_contract_id c = rt) (tContracts d) = None"
    using insert_contract_effect[OF i] by (auto simp: contract_known_def renewed_row_def find_None_iff)
  then have "contract_by_id ?d2 rt = Some ?c"
    using ne by (auto simp: contract_by_id_def find_update_rows find_append renewed_row_def)
  moreover have "contract_by_id ?d2 rf = Some (c\<lparr>ct_renewed_to := Some rt\<rparr>)"
    using c contract_by_id_Some[OF c] by (auto simp: contract_by_id_def find_update_rows find_append)
  ultimately have "store_inv (renew_db ?c rf rt d)"
    using store_inv_move_csm[OF d2, of rt rf] m by (simp add: renew_db_def csm_by_contract_def renewed_row_def)
  then show "store_inv d'" using u by (rule updateHostUsage_inv)
qed

section \<open>Well-formed contracts\<close>

definition contract_row_wf :: "db \<Rightarrow> contract_row \<Rightarrow> bool" where
  "contract_row_wf d c \<longleftrightarrow> contract_columns_ok c \<and> contract_checks_ok c \<and>
     ct_revision_number c = RevisionNumber (ct_raw_revision c) \<and>
     (\<forall>i. ct_renewed_to c = Some i \<longrightarrow> contract_known d i) \<and> (\<forall>i. ct_renewed_from c = Some i \<longrightarrow> contract_known d i)"

definition elements_wf :: "db \<Rightarrow> bool" where
  "elements_wf d \<longleftrightarrow> distinct (map ce_contract_id (tElements d)) \<and>
     (\<forall>e \<in> set (tElements d). contract_known d (ce_contract_id e) \<and> int4_ok (ce_leaf_index e))"

definition contracts_wf :: "db \<Rightarrow> bool" where
  "contracts_wf d \<longleftrightarrow> (\<forall>c \<in> set (tContracts d). contract_row_wf d c) \<and> elements_wf d"

lemma contracts_wf_frame: "tContracts d' = tContracts d \<Longrightarrow> tElements d' = tElements d \<Longrightarrow> contracts_wf d' = contracts_wf d"
  by (simp add: contracts_wf_def elements_wf_def contract_row_wf_def contract_known_def)

lemma contract_known_update:
  "(\<And>c. ct_contract_id (f c) = ct_contract_id c) \<Longrightarrow>
   contract_known (d\<lparr>tContracts := update_rows Q f (tContracts d)\<rparr>) = contract_known d"
proof
  fix i assume f: "\<And>c. ct_contract_id (f c) = ct_contract_id c"
  then have "map ct_contract_id (update_rows Q f (tContracts d)) = map ct_contract_id (tContracts d)" by (simp add: map_update_rows)
  from arg_cong[OF this, of set] show "contract_known (d\<lparr>tContracts := update_rows Q f (tContracts d)\<rparr>) i = contract_known d i"
    by (simp add: contract_known_def)
qed

lemma contracts_wf_update_contracts:
  assumes wf: "contracts_wf d" and id: "\<And>c. ct_contract_id (f c) = ct_contract_id c"
    and f: "\<And>c. c \<in> set (tContracts d) \<Longrightarrow> Q c \<Longrightarrow> contract_row_wf d c \<Longrightarrow> contract_row_wf d (f c)"
  shows "contracts_wf (d\<lparr>tContracts := update_rows Q f (tContracts d)\<rparr>)" (is "contracts_wf ?d'")
proof -
  have k: "contract_known ?d' = contract_known d" using id by (rule contract_known_update)
  then have "contract_row_wf ?d' = contract_row_wf d" by (simp add: contract_row_wf_def fun_eq_iff)
  with wf f k show ?thesis by (simp add: contracts_wf_def elements_wf_def ball_update_rows)
qed

lemma contracts_wf_add_contract:
  assumes "contracts_wf d" "contract_row_wf (d\<lparr>tContracts := tContracts d @ [c]\<rparr>) c"
  shows "contracts_wf (d\<lparr>tContracts := tContracts d @ [c]\<rparr>)"
  using assms by (auto simp: contracts_wf_def contract_row_wf_def elements_wf_def contract_known_def)

lemma updateHostUsage_frame:
  "updateHostUsage C hk usage d = Some (Inr (x, d')) \<Longrightarrow> \<exists>hs. d' = d\<lparr>tHosts := hs\<rparr>"
  by (erule updateHostUsage_effect) blast

lemma updateHostUsage_contracts_wf:
  assumes "contracts_wf d" and "updateHostUsage C hk usage d = Some (Inr (x, d'))"
  shows "contracts_wf d'"
  using updateHostUsage_frame[OF assms(2)] assms(1) contracts_wf_frame[of d' d] by auto

lemma UpdateContractRevision_contracts_wf:
  assumes keys: "store_inv d" and wf: "contracts_wf d" and eq: "UpdateContractRevision C contract usage d = Some (Inr (x, d'))"
  shows "contracts_wf d'"
proof (rule UpdateContractRevision_effect[OF eq])
  fix c risked
  assume c: "contract_by_id d (RevID contract) = Some c" and ok: "contract_columns_ok (revise_row (Revision contract) risked c)"
      "contract_checks_ok (revise_row (Revision contract) risked c)"
    and u: "updateHostUsage C (HostPublicKey (Revision contract)) usage (d\<lparr>tContracts :=
       update_rows (\<lambda>c. ct_contract_id c = RevID contract) (revise_row (Revision contract) risked) (tContracts d)\<rparr>) = Some (Inr (x, d'))"
  have uniq: "x = c" if "x \<in> set (tContracts d)" "ct_contract_id x = RevID contract" for x
    using that contract_by_id_Some[OF c] keys by (auto simp: store_inv_def keys_wf_def distinct_map inj_on_def)
  have "contracts_wf (d\<lparr>tContracts := update_rows (\<lambda>c. ct_contract_id c = RevID contract) (revise_row (Revision contract) risked) (tContracts d)\<rparr>)"
    using wf by (rule contracts_wf_update_contracts) (use uniq ok in \<open>auto simp: revise_row_def contract_row_wf_def\<close>)
  then show ?thesis using u by (rule updateHostUsage_contracts_wf)
qed

lemma AddFormedContract_contracts_wf:
  assumes wf: "contracts_wf d" and eq: "AddFormedContract C now hk i revn cp al mf usage d = Some (Inr (x, d'))"
  shows "contracts_wf d'"
proof (rule AddFormedContract_effect[OF eq])
  fix hid
  let ?c = "formed_row now hid i revn cp al mf"
  let ?d1 = "d\<lparr>tContracts := tContracts d @ [?c]\<rparr>"
  assume i: "insert_contract ?c d = Inr ?d1"
    and u: "updateHostUsage C hk usage (d\<lparr>tContracts := tContracts d @ [?c],
      tCSM := tCSM d @ [\<lparr>csm_id = seqCSM d, csm_contract_id = i\<rparr>], seqCSM := seqCSM d + 1\<rparr>) = Some (Inr (x, d'))"
  have "contracts_wf ?d1"
    using insert_contract_effect[OF i] by (intro contracts_wf_add_contract[OF wf]) (simp add: contract_row_wf_def formed_row_def)
  then have "contracts_wf (?d1\<lparr>tCSM := tCSM d @ [\<lparr>csm_id = seqCSM d, csm_contract_id = i\<rparr>], seqCSM := seqCSM d + 1\<rparr>)"
    by (subst contracts_wf_frame[of _ ?d1]) simp_all
  from this u show ?thesis by (rule updateHostUsage_contracts_wf)
qed

lemma AddRenewedContract_contracts_wf:
  assumes wf: "contracts_wf d" and eq: "AddRenewedContract C now rf rt revn cp mf usage d = Some (Inr (x, d'))"
  shows "contracts_wf d'"
proof (rule AddRenewedContract_effect[OF eq])
  fix c risked
  let ?c = "renewed_row now c rt revn risked cp mf"
  let ?d1 = "d\<lparr>tContracts := tContracts d @ [?c]\<rparr>"
  let ?d2 = "?d1\<lparr>tContracts := update_rows (\<lambda>c. ct_contract_id c = rf) (\<lambda>c. c\<lparr>ct_renewed_to := Some rt\<rparr>) (tContracts ?d1)\<rparr>"
  assume c: "contract_by_id d rf = Some c" and i: "insert_contract ?c d = Inr ?d1"
    and u: "updateHostUsage C (HostPublicKey revn) usage (renew_db ?c rf rt d) = Some (Inr (x, d'))"
  have "contract_row_wf ?d1 ?c"
    using insert_contract_effect[OF i] contract_by_id_Some[OF c] by (auto simp: contract_row_wf_def renewed_row_def contract_known_def)
  with wf have "contracts_wf ?d1" by (rule contracts_wf_add_contract)
  moreover have "contract_known ?d1 rt" by (simp add: contract_known_def renewed_row_def)
  ultimately have "contracts_wf ?d2"
    by (intro contracts_wf_update_contracts) (auto simp: contract_row_wf_def contract_columns_ok_def contract_checks_ok_def)
  then have "contracts_wf (renew_db ?c rf rt d)" by (subst contracts_wf_frame[of _ ?d2]) (simp_all add: renew_db_def)
  then show ?thesis using u by (rule updateHostUsage_contracts_wf)
qed

section \<open>Revisions only go forward\<close>

lemma ContractRevision_frame: "tContracts d' = tContracts d \<Longrightarrow> ContractRevision i d' = ContractRevision i d"
  by (simp add: ContractRevision_def contract_by_id_def)

lemma find_update_contract:
  assumes "\<And>c. ct_contract_id (f c) = ct_contract_id c"
  shows "contract_by_id (d\<lparr>tContracts := update_rows Q f (tContracts d)\<rparr>) i
    = map_option (\<lambda>c. if Q c then f c else c) (contract_by_id d i)"
  using assms by (simp add: contract_by_id_def find_update_rows)

lemma ContractRevision_row:
  assumes "ContractRevision i d = Inr (old, renewed)" and "contracts_wf d"
  obtains c where "contract_by_id d i = Some c" "old = \<lparr>RevID = i, Revision = ct_raw_revision c\<rparr>" "renewed = (ct_renewed_to c \<noteq> None)"
    "ct_revision_number c = RevisionNumber (Revision old)"
proof -
  from assms(1) obtain c where c: "contract_by_id d i = Some c" "old = \<lparr>RevID = i, Revision = ct_raw_revision c\<rparr>" "renewed = (ct_renewed_to c \<noteq> None)"
    by (auto simp: ContractRevision_def split: option.splits)
  moreover have "ct_revision_number c = RevisionNumber (Revision old)"
    using contract_by_id_Some[OF c(1)] assms(2) c(2) by (auto simp: contracts_wf_def contract_row_wf_def)
  ultimately show thesis by (rule that)
qed

lemma revision_step:
  assumes rev: "ContractRevision (RevID new) d = Inr (old, renewed)" and wf: "contracts_wf d"
    and up: "UpdateContractRevision C new usage d = Some (Inr (x, d'))"
  shows "RevisionNumber (Revision old) < RevisionNumber (Revision new) \<and> ContractRevision (RevID new) d' = Inr (new, renewed) \<and>
    (\<forall>i. i \<noteq> RevID new \<longrightarrow> ContractRevision i d' = ContractRevision i d)"
proof (rule ContractRevision_row[OF rev wf])
  fix c
  assume c: "contract_by_id d (RevID new) = Some c" and old: "old = \<lparr>RevID = RevID new, Revision = ct_raw_revision c\<rparr>" "renewed = (ct_renewed_to c \<noteq> None)"
    and n: "ct_revision_number c = RevisionNumber (Revision old)"
  from up show ?thesis
  proof (rule UpdateContractRevision_effect)
    fix c2 risked
    let ?d1 = "d\<lparr>tContracts := update_rows (\<lambda>c. ct_contract_id c = RevID new) (revise_row (Revision new) risked) (tContracts d)\<rparr>"
    assume c2: "contract_by_id d (RevID new) = Some c2" and lt: "ct_revision_number c2 < RevisionNumber (Revision new)"
      and u: "updateHostUsage C (HostPublicKey (Revision new)) usage ?d1 = Some (Inr (x, d'))"
    have "ContractRevision i d' = ContractRevision i ?d1" for i
      using updateHostUsage_frame[OF u] by (auto intro: ContractRevision_frame)
    moreover have "contract_by_id ?d1 i = map_option (\<lambda>c. if ct_contract_id c = RevID new then revise_row (Revision new) risked c else c) (contract_by_id d i)" for i
      by (rule find_update_contract) (simp add: revise_row_def)
    ultimately show ?thesis
      using c c2 lt n old contract_by_id_Some[OF c] contract_by_id_Some
      by (auto simp: ContractRevision_def revise_row_def split: option.splits)
  qed
qed

text \<open>
  Claim C19: an accepted revision is the one that is read back; its number is higher than the
  one it replaces, whether the contract was renewed does not change, and the revision of
  every other contract stays as it was. A revision that is not newer is refused.
\<close>

theorem UpdateContractRevision_spec:
  assumes "ContractRevision (RevID new) d = Inr (old, renewed)" and "contracts_wf d"
  shows "(RevisionNumber (Revision new) \<le> RevisionNumber (Revision old) \<longrightarrow>
            (\<exists>e. UpdateContractRevision C new usage d = Some (Inl e))) \<and>
         (\<forall>d'. UpdateContractRevision C new usage d = Some (Inr ((), d')) \<longrightarrow>
           RevisionNumber (Revision old) < RevisionNumber (Revision new) \<and>
           ContractRevision (RevID new) d' = Inr (new, renewed) \<and>
           (\<forall>i. i \<noteq> RevID new \<longrightarrow> ContractRevision i d' = ContractRevision i d))"
proof (rule ContractRevision_row[OF assms], intro conjI impI allI)
  fix c assume "contract_by_id d (RevID new) = Some c" "ct_revision_number c = RevisionNumber (Revision old)"
    "RevisionNumber (Revision new) \<le> RevisionNumber (Revision old)"
  then show "\<exists>e. UpdateContractRevision C new usage d = Some (Inl e)" by (simp add: UpdateContractRevision_def)
qed (use revision_step[OF assms] in blast)+

section \<open>Renewals keep the sectors pinned\<close>

definition pinned_roots :: "db \<Rightarrow> contract_id \<Rightarrow> hash256 list" where
  "pinned_roots d i =
     (case csm_by_contract d i of
        None \<Rightarrow> []
      | Some m \<Rightarrow> map sec_root (filter (\<lambda>s. sec_csm s = Some (csm_id m)) (tSectors d)))"

lemma csm_by_contract_moved:
  assumes "csm_by_contract d rt = None" "rf \<noteq> rt"
  shows "csm_by_contract (d\<lparr>tCSM := update_rows (\<lambda>m. csm_contract_id m = rf) (\<lambda>m. m\<lparr>csm_contract_id := rt\<rparr>) (tCSM d)\<rparr>) i
    = (if i = rt then map_option (\<lambda>m. m\<lparr>csm_contract_id := rt\<rparr>) (csm_by_contract d rf)
       else if i = rf then None else csm_by_contract d i)"
proof -
  have "find (\<lambda>m. csm_contract_id m = i) (update_rows (\<lambda>m. csm_contract_id m = rf) (\<lambda>m. m\<lparr>csm_contract_id := rt\<rparr>) xs)
    = (if i = rt then map_option (\<lambda>m. m\<lparr>csm_contract_id := rt\<rparr>) (find (\<lambda>m. csm_contract_id m = rf) xs)
       else if i = rf then None else find (\<lambda>m. csm_contract_id m = i) xs)"
    if "find (\<lambda>m. csm_contract_id m = rt) xs = None" for xs :: "csm_row list"
    using that assms(2) by (induction xs) (auto split: if_splits)
  with assms(1) show ?thesis by (simp add: csm_by_contract_def)
qed

text \<open>
  Claim C18: recording a renewal moves all sectors pinned to the old contract to the new one,
  leaves the sectors of every other contract, marks the old contract as renewed to the new
  one, and makes the new contract a pending contract of the same host with the revision.
\<close>

theorem AddRenewedContract_spec:
  assumes "AddRenewedContract C now rf rt revn cp mf usage d = Some (Inr ((), d'))"
  shows "pinned_roots d' rt = pinned_roots d rf \<and> pinned_roots d' rf = [] \<and>
    (\<forall>i. i \<noteq> rf \<and> i \<noteq> rt \<longrightarrow> pinned_roots d' i = pinned_roots d i) \<and>
    (\<exists>old. contract_by_id d rf = Some old \<and> contract_by_id d' rf = Some (old\<lparr>ct_renewed_to := Some rt\<rparr>) \<and>
       (\<exists>new. contract_by_id d rt = None \<and> contract_by_id d' rt = Some new \<and> ct_host_id new = ct_host_id old \<and>
          ct_state new = ContractStatePending \<and> ct_renewed_from new = Some rf \<and> ct_raw_revision new = revn))"
  using assms
proof (rule AddRenewedContract_effect)
  fix c risked
  let ?c = "renewed_row now c rt revn risked cp mf"
  let ?d1 = "d\<lparr>tContracts := tContracts d @ [?c]\<rparr>"
  assume c: "contract_by_id d rf = Some c" and i: "insert_contract ?c d = Inr ?d1" and ne: "rf \<noteq> rt"
    and m: "csm_by_contract d rf \<noteq> None" "csm_by_contract d rt = None"
    and u: "updateHostUsage C (HostPublicKey revn) usage (renew_db ?c rf rt d) = Some (Inr ((), d'))"
  from updateHostUsage_frame[OF u] have fr: "tContracts d' = tContracts (renew_db ?c rf rt d)" "tCSM d' = tCSM (renew_db ?c rf rt d)"
    "tSectors d' = tSectors d" by (auto simp: renew_db_def)
  have "csm_by_contract d' k = (if k = rt then map_option (\<lambda>m. m\<lparr>csm_contract_id := rt\<rparr>) (csm_by_contract d rf)
       else if k = rf then None else csm_by_contract d k)" for k
    using csm_by_contract_moved[OF m(2) ne, of k] fr by (simp add: csm_by_contract_def renew_db_def)
  with ne have "pinned_roots d' k = (if k = rt then pinned_roots d rf else if k = rf then [] else pinned_roots d k)" for k
    using fr by (auto simp: pinned_roots_def split: option.splits)
  moreover have none: "contract_by_id d rt = None"
    using insert_contract_effect[OF i] by (simp add: contract_by_id_known renewed_row_def)
  then have "contract_by_id d' rt = Some ?c" using ne fr
    by (auto simp: contract_by_id_def renew_db_def find_update_rows find_append renewed_row_def simp del: update_rows_simps)
  moreover have "contract_by_id d' rf = Some (c\<lparr>ct_renewed_to := Some rt\<rparr>)"
    using c contract_by_id_Some[OF c] fr by (auto simp: contract_by_id_def renew_db_def find_update_rows find_append)
  ultimately show ?thesis using none ne c contract_by_id_Some[OF c] by (auto simp: renewed_row_def)
qed

section \<open>Fetching contracts page by page\<close>

text \<open>The join with the hosts has one row per contract.\<close>

lemma filter_key_single:
  assumes "distinct (map key xs)" and "k \<in> key ` set xs"
  shows "\<exists>x. filter (\<lambda>x. key x = k) xs = [x]"
  using assms
proof (induction xs)
  case (Cons x xs)
  show ?case
  proof (cases "key x = k")
    case True
    with Cons.prems have "filter (\<lambda>x. key x = k) xs = []" by (auto simp: filter_empty_conv) (metis image_eqI)
    with True show ?thesis by simp
  qed (use Cons in auto)
qed simp

lemma contracts_hosts_snd:
  assumes "keys_wf d"
  shows "map snd (contracts_hosts d) = tContracts d"
proof -
  have "map snd (concat (map (\<lambda>c. map (\<lambda>h. (h, c)) (filter (\<lambda>h. h_id h = ct_host_id c) (tHosts d))) cs)) = cs"
    if "\<forall>c \<in> set cs. ct_host_id c \<in> h_id ` set (tHosts d)" for cs :: "contract_row list"
    using that
  proof (induction cs)
    case (Cons c cs)
    from Cons.prems assms filter_key_single[of h_id "tHosts d" "ct_host_id c"]
    obtain h where "filter (\<lambda>h. h_id h = ct_host_id c) (tHosts d) = [h]" by (auto simp: keys_wf_def)
    with Cons show ?case by simp
  qed simp
  with assms show ?thesis by (simp add: contracts_hosts_def keys_wf_def)
qed

lemma contracts_hosts_distinct:
  assumes "keys_wf d"
  shows "distinct (map (\<lambda>row. uint (ct_contract_id (snd row))) (contracts_hosts d))"
proof -
  have "map (\<lambda>row. uint (ct_contract_id (snd row))) (contracts_hosts d) = map uint (map ct_contract_id (map snd (contracts_hosts d)))" by simp
  also have "\<dots> = map uint (map ct_contract_id (tContracts d))" by (simp only: contracts_hosts_snd[OF assms])
  finally show ?thesis using assms by (simp add: keys_wf_def distinct_map inj_on_def word_uint_eq_iff[symmetric])
qed

lemma stable_sort_key_unique:
  fixes key :: "'a \<Rightarrow> int"
  assumes "mset xs = mset ys" and "distinct (map key xs)"
  shows "stable_sort (\<lambda>a b. key a < key b) xs = stable_sort (\<lambda>a b. key a < key b) ys"
proof -
  let ?s = "stable_sort (\<lambda>a b. key a < key b)"
  have sw: "strict_weak (\<lambda>a b. key a < key b)" by (auto simp: strict_weak_def)
  have sorted: "sorted (map key (?s zs))" for zs
    using sorted_stable_sort[OF sw, of zs] by (simp add: sorted_map not_less)
  have m: "mset (?s zs) = mset zs" for zs by simp
  have dist: "distinct (map key (?s zs))" if "mset zs = mset xs" for zs
  proof -
    have "mset (map key (?s zs)) = mset (map key xs)" using that by simp
    then show ?thesis using assms(2) by (metis distinct_count_atmost_1 set_mset_mset)
  qed
  have "set (?s xs) = set (?s ys)" using assms(1) by (metis m set_mset_mset)
  moreover from dist[of xs] have "inj_on key (set (?s xs))" by (simp add: distinct_map)
  ultimately show ?thesis
    using sorted dist[of xs] dist[of ys] assms(1) by (intro map_sorted_distinct_set_unique[of key]) auto
qed

text \<open>
  Reading the contracts page by page without a sort order, as the maintenance loops
  do, terminates and returns every contract that matches the options exactly once, ordered by
  identifier, whatever order the database scans the rows in for each page.
\<close>

theorem Contracts_pagination:
  assumes "store_inv d" and "OptSorting opts = []" and "0 < batch" and "length (tContracts d) div batch < fuel"
    and "\<forall>k ys. mset (scan k ys) = mset ys"
  shows "\<exists>rows. fetch_all fuel batch 0 (\<lambda>off lim. Contracts (scan off) off lim opts d) = Some (Inr (map scanContract rows)) \<and>
     mset rows = mset (filter (contract_matches d opts) (contracts_hosts d)) \<and>
     sorted (map (\<lambda>row. uint (ct_contract_id (snd row))) rows) \<and> distinct (map (\<lambda>row. ct_contract_id (snd row)) rows)"
proof -
  let ?key = "\<lambda>row :: host_row \<times> contract_row. uint (ct_contract_id (snd row))"
  let ?s = "stable_sort (\<lambda>a b. ?key a < ?key b)"
  define xs where "xs = filter (contract_matches d opts) (contracts_hosts d)"
  have k: "keys_wf d" using assms(1) by (simp add: store_inv_def)
  then have dist: "distinct (map ?key xs)"
    unfolding xs_def by (rule distinct_map_filter[OF contracts_hosts_distinct])
  have ob: "order_by [(\<lambda>(h, c). Some (uint (ct_contract_id c)), False)] = (\<lambda>a b. ?key a < ?key b)"
    by (auto simp: fun_eq_iff)
  have sc: "?s (scan n xs) = ?s xs" for n
  proof -
    have "mset (map ?key (scan n xs)) = mset (map ?key xs)" using assms(5) by simp
    with dist have "distinct (map ?key (scan n xs))" using mset_eq_imp_distinct_iff by blast
    with assms(5) show ?thesis by (intro stable_sort_key_unique) auto
  qed
  have page: "Contracts (scan off) off lim opts d = Inr (page_of (map scanContract (?s xs)) off lim)" for off lim
    by (simp add: Contracts_def buildContractOrderByClause_def assms(2) ob sc flip: xs_def) (simp add: page_of_def take_map drop_map)
  have "length xs \<le> length (contracts_hosts d)" by (simp add: xs_def)
  also have "length (contracts_hosts d) = length (tContracts d)" by (metis contracts_hosts_snd[OF k] length_map)
  finally have "length xs div batch < fuel" using assms(4) div_le_mono le_less_trans by blast
  with assms(3) have "fetch_all fuel batch 0 (\<lambda>off lim. Contracts (scan off) off lim opts d) = Some (Inr (map scanContract (?s xs)))"
    using fetch_all_page_of[of batch "map scanContract (?s xs)" 0 fuel] by (simp add: page)
  moreover have "sorted (map ?key (?s xs))"
    using sorted_stable_sort[of "\<lambda>a b. ?key a < ?key b" xs] by (simp add: strict_weak_def sorted_map not_less)
  moreover have "mset (map ?key (?s xs)) = mset (map ?key xs)" by simp
  then have "distinct (map ?key (?s xs))" using dist by (metis distinct_count_atmost_1 set_mset_mset)
  then have "distinct (map (\<lambda>row. ct_contract_id (snd row)) (?s xs))" by (auto simp: distinct_map inj_on_def)
  ultimately show ?thesis by (intro exI[of _ "?s xs"]) (simp add: xs_def)
qed

section \<open>Witnesses\<close>

lemma sample_db_contracts_wf: "contracts_wf sample_db"
  by (simp add: contracts_wf_def contract_row_wf_def elements_wf_def contract_columns_ok_def contract_checks_ok_def
      int4_ok_def int8_ok_def sample_defs sample_fc_def)

definition sample_revision :: contract_revision where
  "sample_revision = \<lparr>RevID = 21, Revision = sample_fc\<lparr>RevisionNumber := 2, FileCapacity := 4194304, Filesize := 4194304\<rparr>\<rparr>"

lemmas contract_defs = contract_columns_ok_def contract_checks_ok_def int4_ok_def int8_ok_def contract_by_id_def
  csm_by_contract_def contract_known_def updateHostUsage_def

lemma sample_core_usage:
  "RiskedCollateral sample_core fc = Some 0" "RenterCost sample_core (plain_usage s r) = Some s"
  by (simp_all add: sample_core_def plain_usage_def)

lemma UpdateContractRevision_spec_witness:
  "\<exists>d'. UpdateContractRevision sample_core sample_revision (plain_usage 5 0) sample_db = Some (Inr ((), d')) \<and>
     ContractRevision 21 d' = Inr (sample_revision, False)"
proof -
  have r: "ContractRevision (RevID sample_revision) sample_db = Inr (\<lparr>RevID = 21, Revision = sample_fc\<rparr>, False)"
    by (simp add: ContractRevision_def contract_by_id_def sample_defs sample_revision_def)
  obtain d' where d': "UpdateContractRevision sample_core sample_revision (plain_usage 5 0) sample_db = Some (Inr ((), d'))"
    by (simp add: UpdateContractRevision_def Let_def word_le_nat_alt contract_defs sample_core_usage sample_defs sample_revision_def sample_fc_def revise_row_def)
  have "RevID sample_revision = 21" by (simp add: sample_revision_def)
  with d' UpdateContractRevision_spec[OF r sample_db_contracts_wf, of sample_core "plain_usage 5 0"] show ?thesis by metis
qed

lemma AddRenewedContract_spec_witness:
  "\<exists>d'. AddRenewedContract sample_core 7 21 22 sample_fc 0 0 (plain_usage 5 0) sample_db = Some (Inr ((), d')) \<and>
     pinned_roots d' 22 = [31, 32] \<and> pinned_roots d' 21 = []"
proof -
  obtain d' where d': "AddRenewedContract sample_core 7 21 22 sample_fc 0 0 (plain_usage 5 0) sample_db = Some (Inr ((), d'))"
    by (simp add: AddRenewedContract_def renewal_statements_def insert_contract_def renewed_row_def set_renewed_to_def move_csm_def
        contract_defs sample_core_usage sample_defs sample_fc_def)
  have "pinned_roots sample_db 21 = [31, 32]" by (simp add: pinned_roots_def csm_by_contract_def sample_defs)
  with d' AddRenewedContract_spec[OF d'] show ?thesis by auto
qed

definition no_options :: contract_query_opts where
  "no_options = \<lparr>OptRevisable = None, OptGood = None, OptIDs = [], OptHostKeys = [], OptSorting = []\<rparr>"

lemma Contracts_pagination_witness:
  "\<exists>rows. fetch_all 2 1 0 (\<lambda>off lim. Contracts (\<lambda>ys. ys) off lim no_options sample_db) = Some (Inr (map scanContract rows)) \<and>
     map (\<lambda>row. ct_contract_id (snd row)) rows = [21]"
proof -
  have "0 < (1::nat)" "OptSorting no_options = []" "length (tContracts sample_db) div 1 < 2" "\<forall>k ys. mset ((\<lambda>_ ys. ys) k ys) = mset ys"
    by (simp_all add: no_options_def sample_defs)
  from Contracts_pagination[OF sample_db_inv this(2) this(1) this(3) this(4)]
  obtain rows where f: "fetch_all 2 1 0 (\<lambda>off lim. Contracts (\<lambda>ys. ys) off lim no_options sample_db) = Some (Inr (map scanContract rows))"
    and m: "mset rows = mset (filter (contract_matches sample_db no_options) (contracts_hosts sample_db))" by auto
  have "filter (contract_matches sample_db no_options) (contracts_hosts sample_db) = [(sample_host_row 1 11 1, sample_contract_row 1 21)]"
    by (simp add: contracts_hosts_def contract_matches_def no_options_def sample_defs)
  with m have "rows = [(sample_host_row 1 11 1, sample_contract_row 1 21)]" by simp
  then have "map (\<lambda>row. ct_contract_id (snd row)) rows = [21]" by (simp add: sample_contract_row_def)
  with f show ?thesis by (intro exI[of _ rows] conjI)
qed

end
