(* ===== verification/Chain_Update.thy ===== *)
theory Chain_Update
  imports Contract_Store
begin

text \<open>
  Chain updates of the contract manager, contracts/chain.go: for every block the subscriber
  reverts or applies, the states, renewal links and elements of the known contracts are
  updated in one transaction. What happens after a sync is in \<open>Chain_Actions\<close>.

  A block is the list of its contract diffs and the function that updates a Merkle proof;
  both come from the package go.sia.tech/core. The method \<open>V2RevisionElement\<close> of a diff is a
  field that holds its result.
\<close>

section \<open>Diffs and the update transaction\<close>

datatype resolution = V2FileContractRenewal | V2StorageProof | V2FileContractExpiration

record contract_diff =
  diffElement :: contract_element_row
  Created :: bool
  Resolution :: "resolution option"
  V2RevisionElement :: "contract_element_row option"

abbreviation diff_id :: "contract_diff \<Rightarrow> contract_id" where
  "diff_id diff \<equiv> ce_contract_id (diffElement diff)"

text \<open>A state element is its leaf index and its proof.\<close>

type_synonym proof_updater = "u64 \<times> hash256 list \<Rightarrow> u64 \<times> hash256 list"

record block_update =
  V2FileContractElementDiffs :: "contract_diff list"
  UpdateElementProof :: proof_updater

record update_tx =
  utx_db :: db
  knownContracts :: "contract_id \<rightharpoonup> bool"

type_synonym 'a utx = "update_tx \<Rightarrow> ('a \<times> update_tx) result"

definition on_store :: "'a tx \<Rightarrow> 'a utx" where
  "on_store f tx = rbind (f (utx_db tx)) (\<lambda>(x, d). Inr (x, tx\<lparr>utx_db := d\<rparr>))"

text \<open>The embedded transaction is only asked the first time.\<close>

definition IsKnownContract :: "contract_id \<Rightarrow> bool utx" where
  "IsKnownContract fcid tx =
     (case knownContracts tx fcid of
        Some known \<Rightarrow> Inr (known, tx)
      | None \<Rightarrow> rbind (on_store (store_IsKnownContract fcid) tx) (\<lambda>(known, tx).
          Inr (known, tx\<lparr>knownContracts := (knownContracts tx)(fcid \<mapsto> known)\<rparr>)))"

section \<open>Applying a block\<close>

text \<open>The body of the loop of \<open>applyV2ContractDiffs\<close> for a known contract.\<close>

definition apply_known_diff ::
  "core_ops \<Rightarrow> contract_diff \<Rightarrow> contract_element_row list \<times> contract_id list \<Rightarrow> (contract_element_row list \<times> contract_id list) utx" where
  "apply_known_diff C diff acc tx = (case acc of (updated, resolved) \<Rightarrow>
     if Created diff then
       rbind (on_store (UpdateContractState (diff_id diff) ContractStateActive) tx) (\<lambda>(_, tx).
         Inr ((updated @ [diffElement diff], resolved), tx))
     else if Resolution diff \<noteq> None then
       rbind (on_store (UpdateContractState (diff_id diff) ContractStateResolved) tx) (\<lambda>(_, tx).
         rbind (if Resolution diff = Some V2FileContractRenewal
                then on_store (UpdateContractRenewedTo (diff_id diff) (Some (V2RenewalID C (diff_id diff)))) tx
                else Inr ((), tx)) (\<lambda>(_, tx).
           Inr ((updated, resolved @ [diff_id diff]), tx)))
     else Inr ((updated @ [case V2RevisionElement diff of None \<Rightarrow> diffElement diff | Some fce \<Rightarrow> fce], resolved), tx))"

fun apply_diffs ::
  "core_ops \<Rightarrow> contract_diff list \<Rightarrow> contract_element_row list \<times> contract_id list \<Rightarrow> (contract_element_row list \<times> contract_id list) utx" where
  "apply_diffs C [] acc tx = Inr (acc, tx)"
| "apply_diffs C (diff # ds) acc tx =
     rbind (IsKnownContract (diff_id diff) tx) (\<lambda>(known, tx).
       if \<not> known then apply_diffs C ds acc tx
       else rbind (apply_known_diff C diff acc tx) (\<lambda>(acc, tx). apply_diffs C ds acc tx))"

definition applyV2ContractDiffs :: "core_ops \<Rightarrow> contract_diff list \<Rightarrow> unit utx" where
  "applyV2ContractDiffs C ds tx =
     rbind (apply_diffs C ds ([], []) tx) (\<lambda>((updated, resolved), tx).
       rbind (if updated \<noteq> [] then on_store (UpdateContractElements updated) tx else Inr ((), tx)) (\<lambda>(_, tx).
         if resolved \<noteq> [] then on_store (DeleteContractElements resolved) tx else Inr ((), tx)))"

definition update_proof :: "proof_updater \<Rightarrow> contract_element_row \<Rightarrow> contract_element_row" where
  "update_proof upd fce = (let (i, p) = upd (ce_leaf_index fce, ce_merkle_proof fce) in fce\<lparr>ce_leaf_index := i, ce_merkle_proof := p\<rparr>)"

definition updateContractElementProofs :: "proof_updater \<Rightarrow> unit utx" where
  "updateContractElementProofs updater tx =
     rbind (on_store ContractElements tx) (\<lambda>(fces, tx).
       on_store (UpdateContractElements (map (update_proof updater) fces)) tx)"

definition applyChainUpdate :: "core_ops \<Rightarrow> block_update \<Rightarrow> unit utx" where
  "applyChainUpdate C cau tx =
     rbind (applyV2ContractDiffs C (V2FileContractElementDiffs cau) tx) (\<lambda>(_, tx).
       updateContractElementProofs (UpdateElementProof cau) tx)"

section \<open>Reverting a block\<close>

definition revert_known_diff ::
  "contract_diff \<Rightarrow> contract_id list \<times> contract_element_row list \<Rightarrow> (contract_id list \<times> contract_element_row list) utx" where
  "revert_known_diff diff acc tx = (case acc of (reverted, updated) \<Rightarrow>
     if Created diff then
       rbind (on_store (UpdateContractState (diff_id diff) ContractStatePending) tx) (\<lambda>(_, tx).
         Inr ((reverted @ [diff_id diff], updated), tx))
     else if Resolution diff \<noteq> None then
       rbind (on_store (UpdateContractState (diff_id diff) ContractStateActive) tx) (\<lambda>(_, tx).
         rbind (if Resolution diff = Some V2FileContractRenewal
                then on_store (UpdateContractRenewedTo (diff_id diff) None) tx
                else Inr ((), tx)) (\<lambda>(_, tx).
           Inr ((reverted, updated @ [diffElement diff]), tx)))
     else Inr ((reverted, updated @ [diffElement diff]), tx))"

fun revert_diffs ::
  "contract_diff list \<Rightarrow> contract_id list \<times> contract_element_row list \<Rightarrow> (contract_id list \<times> contract_element_row list) utx" where
  "revert_diffs [] acc tx = Inr (acc, tx)"
| "revert_diffs (diff # ds) acc tx =
     rbind (IsKnownContract (diff_id diff) tx) (\<lambda>(known, tx).
       if \<not> known then revert_diffs ds acc tx
       else rbind (revert_known_diff diff acc tx) (\<lambda>(acc, tx). revert_diffs ds acc tx))"

definition revertV2ContractDiffs :: "contract_diff list \<Rightarrow> unit utx" where
  "revertV2ContractDiffs ds tx =
     rbind (revert_diffs ds ([], []) tx) (\<lambda>((reverted, updated), tx).
       rbind (if reverted \<noteq> [] then on_store (DeleteContractElements reverted) tx else Inr ((), tx)) (\<lambda>(_, tx).
         if updated \<noteq> [] then on_store (UpdateContractElements updated) tx else Inr ((), tx)))"

definition revertChainUpdate :: "block_update \<Rightarrow> unit utx" where
  "revertChainUpdate cru tx =
     rbind (revertV2ContractDiffs (V2FileContractElementDiffs cru) tx) (\<lambda>(_, tx).
       updateContractElementProofs (UpdateElementProof cru) tx)"

section \<open>UpdateChainState\<close>

fun revert_all :: "block_update list \<Rightarrow> unit utx" where
  "revert_all [] tx = Inr ((), tx)"
| "revert_all (cru # crus) tx = rbind (revertChainUpdate cru tx) (\<lambda>(_, tx). revert_all crus tx)"

fun apply_all :: "core_ops \<Rightarrow> block_update list \<Rightarrow> unit utx" where
  "apply_all C [] tx = Inr ((), tx)"
| "apply_all C (cau # caus) tx = rbind (applyChainUpdate C cau tx) (\<lambda>(_, tx). apply_all C caus tx)"

definition UpdateChainState :: "core_ops \<Rightarrow> block_update list \<Rightarrow> block_update list \<Rightarrow> unit tx" where
  "UpdateChainState C reverted applied d =
     rbind (revert_all reverted \<lparr>utx_db = d, knownContracts = Map.empty\<rparr>) (\<lambda>(_, tx).
       rbind (apply_all C applied tx) (\<lambda>(_, tx). Inr ((), utx_db tx)))"

section \<open>The cache of known contracts\<close>

definition cache_ok :: "update_tx \<Rightarrow> bool" where
  "cache_ok tx \<longleftrightarrow> (\<forall>i k. knownContracts tx i = Some k \<longrightarrow> k = contract_known (utx_db tx) i)"

lemma IsKnownContract_cached:
  assumes "cache_ok tx" and "IsKnownContract i tx = Inr (k, tx')"
  shows "k = contract_known (utx_db tx) i \<and> utx_db tx' = utx_db tx \<and> cache_ok tx'"
  using assms
  by (cases "knownContracts tx i") (auto simp: IsKnownContract_def on_store_def store_IsKnownContract_def cache_ok_def split: if_splits)

lemma on_store_Inr: "on_store f tx = Inr (x, tx') \<longleftrightarrow> (\<exists>d. f (utx_db tx) = Inr (x, d) \<and> tx' = tx\<lparr>utx_db := d\<rparr>)"
  by (auto simp: on_store_def rbind_eq_Inr)

section \<open>What one diff does\<close>

definition apply_row :: "core_ops \<Rightarrow> (contract_id \<Rightarrow> bool) \<Rightarrow> contract_diff \<Rightarrow> contract_row \<Rightarrow> contract_row" where
  "apply_row C known diff c =
     (if Created diff then c\<lparr>ct_state := ContractStateActive\<rparr>
      else if Resolution diff = Some V2FileContractRenewal \<and> known (V2RenewalID C (diff_id diff))
      then c\<lparr>ct_state := ContractStateResolved, ct_renewed_to := Some (V2RenewalID C (diff_id diff))\<rparr>
      else if Resolution diff \<noteq> None then c\<lparr>ct_state := ContractStateResolved\<rparr> else c)"

definition revert_row :: "contract_diff \<Rightarrow> contract_row \<Rightarrow> contract_row" where
  "revert_row diff c =
     (if Created diff then c\<lparr>ct_state := ContractStatePending\<rparr>
      else if Resolution diff = Some V2FileContractRenewal then c\<lparr>ct_state := ContractStateActive, ct_renewed_to := None\<rparr>
      else if Resolution diff \<noteq> None then c\<lparr>ct_state := ContractStateActive\<rparr> else c)"

definition applied_elements :: "contract_diff \<Rightarrow> contract_element_row list" where
  "applied_elements diff =
     (if Created diff then [diffElement diff] else if Resolution diff \<noteq> None then []
      else [case V2RevisionElement diff of None \<Rightarrow> diffElement diff | Some fce \<Rightarrow> fce])"

definition resolved_ids :: "contract_diff \<Rightarrow> contract_id list" where
  "resolved_ids diff = (if \<not> Created diff \<and> Resolution diff \<noteq> None then [diff_id diff] else [])"

definition created_ids :: "contract_diff \<Rightarrow> contract_id list" where
  "created_ids diff = (if Created diff then [diff_id diff] else [])"

definition reverted_elements :: "contract_diff \<Rightarrow> contract_element_row list" where
  "reverted_elements diff = (if Created diff then [] else [diffElement diff])"

abbreviation update_one :: "contract_id \<Rightarrow> (contract_row \<Rightarrow> contract_row) \<Rightarrow> contract_row list \<Rightarrow> contract_row list" where
  "update_one i g cs \<equiv> update_rows (\<lambda>c. ct_contract_id c = i) g cs"

lemma update_one_twice:
  "(\<And>c. ct_contract_id (g c) = ct_contract_id c) \<Longrightarrow> update_one i h (update_one i g cs) = update_one i (\<lambda>c. h (g c)) cs"
  by (induction cs) auto

lemma update_one_id: "update_one i (\<lambda>c. c) cs = cs"
  by (rule update_rows_id) simp

lemma UpdateContractRenewedTo_effect:
  assumes "UpdateContractRenewedTo i rt d = Inr (x, d')"
  shows "d' = (if rt = None \<or> contract_known d (the rt) then update_contract i (\<lambda>c. c\<lparr>ct_renewed_to := rt\<rparr>) d else d)"
  using assms by (auto simp: UpdateContractRenewedTo_def set_renewed_to_def rbind_eq_Inr split: if_splits)

lemma apply_known_diff_effect:
  assumes "apply_known_diff C diff (u, r) tx = Inr (acc, tx')"
  shows "acc = (u @ applied_elements diff, r @ resolved_ids diff) \<and> knownContracts tx' = knownContracts tx \<and>
    utx_db tx' = update_contract (diff_id diff) (apply_row C (contract_known (utx_db tx)) diff) (utx_db tx)"
proof -
  consider (created) "Created diff" | (renewal) "\<not> Created diff" "Resolution diff = Some V2FileContractRenewal"
    | (resolved) "\<not> Created diff" "Resolution diff \<noteq> None" "Resolution diff \<noteq> Some V2FileContractRenewal"
    | (revised) "\<not> Created diff" "Resolution diff = None" by blast
  then show ?thesis
  proof cases
    case renewal
    let ?d = "update_contract (diff_id diff) (\<lambda>c. c\<lparr>ct_state := ContractStateResolved\<rparr>) (utx_db tx)"
    let ?rid = "V2RenewalID C (diff_id diff)"
    have k: "contract_known ?d = contract_known (utx_db tx)" by (rule contract_known_update) simp
    from assms renewal obtain d2 where u2: "UpdateContractRenewedTo (diff_id diff) (Some ?rid) ?d = Inr ((), d2)"
      and eqs: "acc = (u, r @ [diff_id diff])" "tx' = tx\<lparr>utx_db := d2\<rparr>"
      by (auto simp: apply_known_diff_def rbind_eq_Inr on_store_Inr UpdateContractState_def)
    from UpdateContractRenewedTo_effect[OF u2] k
    have "utx_db tx' = update_contract (diff_id diff) (apply_row C (contract_known (utx_db tx)) diff) (utx_db tx)"
      using renewal eqs(2) by (simp add: update_one_twice apply_row_def[abs_def])
    with renewal eqs show ?thesis by (simp add: applied_elements_def resolved_ids_def)
  qed (use assms in \<open>auto simp: apply_known_diff_def rbind_eq_Inr on_store_Inr UpdateContractState_def
      applied_elements_def resolved_ids_def apply_row_def[abs_def] update_one_id\<close>)
qed

lemma revert_known_diff_effect:
  assumes "revert_known_diff diff (r, u) tx = Inr (acc, tx')"
  shows "acc = (r @ created_ids diff, u @ reverted_elements diff) \<and> knownContracts tx' = knownContracts tx \<and>
    utx_db tx' = update_contract (diff_id diff) (revert_row diff) (utx_db tx)"
proof -
  consider (created) "Created diff" | (renewal) "\<not> Created diff" "Resolution diff = Some V2FileContractRenewal"
    | (resolved) "\<not> Created diff" "Resolution diff \<noteq> None" "Resolution diff \<noteq> Some V2FileContractRenewal"
    | (revised) "\<not> Created diff" "Resolution diff = None" by blast
  then show ?thesis
  proof cases
    case renewal
    let ?d = "update_contract (diff_id diff) (\<lambda>c. c\<lparr>ct_state := ContractStateActive\<rparr>) (utx_db tx)"
    from assms renewal obtain d2 where u2: "UpdateContractRenewedTo (diff_id diff) None ?d = Inr ((), d2)"
      and eqs: "acc = (r, u @ [diffElement diff])" "tx' = tx\<lparr>utx_db := d2\<rparr>"
      by (auto simp: revert_known_diff_def rbind_eq_Inr on_store_Inr UpdateContractState_def)
    from UpdateContractRenewedTo_effect[OF u2]
    have "utx_db tx' = update_contract (diff_id diff) (revert_row diff) (utx_db tx)"
      using renewal eqs(2) by (simp add: update_one_twice revert_row_def[abs_def])
    with renewal eqs show ?thesis by (simp add: reverted_elements_def created_ids_def)
  qed (use assms in \<open>auto simp: revert_known_diff_def rbind_eq_Inr on_store_Inr UpdateContractState_def
      reverted_elements_def created_ids_def revert_row_def[abs_def] update_one_id\<close>)
qed

section \<open>What the diffs of a block do\<close>

lemma not_in_image: "k \<notin> f ` S \<longleftrightarrow> (\<forall>x \<in> S. f x \<noteq> k)"
  by auto

lemma find_key_None: "find (\<lambda>x. key x = k) xs = None \<longleftrightarrow> k \<notin> key ` set xs"
  by (auto simp: find_None_iff)

definition diff_for :: "contract_diff list \<Rightarrow> contract_id \<Rightarrow> contract_diff option" where
  "diff_for ds i = find (\<lambda>f. diff_id f = i) ds"

definition on_rows :: "(contract_diff \<Rightarrow> contract_row \<Rightarrow> contract_row) \<Rightarrow> contract_diff list \<Rightarrow> contract_row list \<Rightarrow> contract_row list" where
  "on_rows g ds cs = map (\<lambda>c. case diff_for ds (ct_contract_id c) of None \<Rightarrow> c | Some f \<Rightarrow> g f c) cs"

lemma on_rows_Nil [simp]: "on_rows g [] cs = cs"
  by (simp add: on_rows_def diff_for_def)

lemma on_rows_Cons:
  assumes "\<And>f c. ct_contract_id (g f c) = ct_contract_id c" and "diff_id f \<notin> diff_id ` set ds"
  shows "on_rows g ds (update_one (diff_id f) (g f) cs) = on_rows g (f # ds) cs"
proof -
  have "diff_for ds (diff_id f) = None" using assms(2) by (simp add: diff_for_def find_key_None)
  then show ?thesis by (auto simp: on_rows_def update_rows_def assms(1)) (simp_all add: diff_for_def)
qed

lemma on_rows_unknown:
  assumes "\<forall>c \<in> set cs. ct_contract_id c \<noteq> diff_id f"
  shows "on_rows g (f # ds) cs = on_rows g ds cs"
  using assms by (auto simp: on_rows_def diff_for_def)

lemma cache_ok_update:
  assumes "cache_ok tx" and "knownContracts tx' = knownContracts tx"
    and "utx_db tx' = update_contract i g (utx_db tx)" and "\<And>c. ct_contract_id (g c) = ct_contract_id c"
  shows "cache_ok tx' \<and> contract_known (utx_db tx') = contract_known (utx_db tx)"
proof -
  have "contract_known (utx_db tx') = contract_known (utx_db tx)" unfolding assms(3) by (rule contract_known_update) (rule assms(4))
  with assms(1,2) show ?thesis by (simp add: cache_ok_def)
qed

lemma apply_row_id [simp]: "ct_contract_id (apply_row C k f c) = ct_contract_id c" "ct_host_id (apply_row C k f c) = ct_host_id c"
  by (simp_all add: apply_row_def)

lemma revert_row_id [simp]: "ct_contract_id (revert_row f c) = ct_contract_id c" "ct_host_id (revert_row f c) = ct_host_id c"
  by (simp_all add: revert_row_def)

lemma apply_diffs_effect:
  assumes "apply_diffs C ds (u, r) tx = Inr ((u', r'), tx')" and "cache_ok tx" and "distinct (map diff_id ds)"
  shows "cache_ok tx' \<and> contract_known (utx_db tx') = contract_known (utx_db tx) \<and>
    utx_db tx' = (utx_db tx)\<lparr>tContracts := on_rows (apply_row C (contract_known (utx_db tx))) ds (tContracts (utx_db tx))\<rparr> \<and>
    u' = u @ concat (map applied_elements (filter (\<lambda>f. contract_known (utx_db tx) (diff_id f)) ds)) \<and>
    r' = r @ concat (map resolved_ids (filter (\<lambda>f. contract_known (utx_db tx) (diff_id f)) ds))"
  using assms
proof (induction ds arbitrary: u r tx)
  case (Cons f ds)
  let ?K = "contract_known (utx_db tx)"
  from Cons.prems(1) obtain k tx1 where k: "IsKnownContract (diff_id f) tx = Inr (k, tx1)"
    and rest: "(if \<not> k then apply_diffs C ds (u, r) tx1
       else rbind (apply_known_diff C f (u, r) tx1) (\<lambda>(acc, tx). apply_diffs C ds acc tx)) = Inr ((u', r'), tx')"
    by (auto simp: rbind_eq_Inr)
  from IsKnownContract_cached[OF Cons.prems(2) k] have k': "k = ?K (diff_id f)" "utx_db tx1 = utx_db tx" "cache_ok tx1" by auto
  from Cons.prems(3) have dist: "distinct (map diff_id ds)" "diff_id f \<notin> diff_id ` set ds" by auto
  show ?case
  proof (cases k)
    case False
    with k' have un: "on_rows g (f # ds) (tContracts (utx_db tx)) = on_rows g ds (tContracts (utx_db tx))" for g
      by (intro on_rows_unknown) (simp add: contract_known_def not_in_image)
    have e: "filter (\<lambda>f. ?K (diff_id f)) (f # ds) = filter (\<lambda>f. ?K (diff_id f)) ds" using False k' by simp
    from rest False have "apply_diffs C ds (u, r) tx1 = Inr ((u', r'), tx')" by simp
    from Cons.IH[OF this k'(3) dist(1)] show ?thesis unfolding un e k'(2) .
  next
    case True
    with rest obtain acc tx2 where a: "apply_known_diff C f (u, r) tx1 = Inr (acc, tx2)" and b: "apply_diffs C ds acc tx2 = Inr ((u', r'), tx')"
      by (auto simp: rbind_eq_Inr)
    note E = apply_known_diff_effect[OF a]
    have c: "cache_ok tx2 \<and> contract_known (utx_db tx2) = contract_known (utx_db tx1)"
      by (rule cache_ok_update[OF k'(3), where i = "diff_id f" and g = "apply_row C (contract_known (utx_db tx1)) f"]) (use E in auto)
    have "on_rows (apply_row C ?K) ds (update_one (diff_id f) (apply_row C ?K f) (tContracts (utx_db tx))) = on_rows (apply_row C ?K) (f # ds) (tContracts (utx_db tx))"
      using dist by (intro on_rows_Cons) simp_all
    then have db: "(utx_db tx2)\<lparr>tContracts := on_rows (apply_row C ?K) ds (tContracts (utx_db tx2))\<rparr>
        = (utx_db tx)\<lparr>tContracts := on_rows (apply_row C ?K) (f # ds) (tContracts (utx_db tx))\<rparr>" using E k'(2) by simp
    have K2: "contract_known (utx_db tx2) = ?K" using c k'(2) by simp
    have e: "filter (\<lambda>f. ?K (diff_id f)) (f # ds) = f # filter (\<lambda>f. ?K (diff_id f)) ds" using True k' by simp
    from b E have "apply_diffs C ds (u @ applied_elements f, r @ resolved_ids f) tx2 = Inr ((u', r'), tx')" by simp
    from Cons.IH[OF this conjunct1[OF c] dist(1)] show ?thesis unfolding K2 db e list.map concat.simps append_assoc .
  qed
qed simp

lemma revert_diffs_effect:
  assumes "revert_diffs ds (r, u) tx = Inr ((r', u'), tx')" and "cache_ok tx" and "distinct (map diff_id ds)"
  shows "cache_ok tx' \<and> contract_known (utx_db tx') = contract_known (utx_db tx) \<and>
    utx_db tx' = (utx_db tx)\<lparr>tContracts := on_rows revert_row ds (tContracts (utx_db tx))\<rparr> \<and>
    r' = r @ concat (map created_ids (filter (\<lambda>f. contract_known (utx_db tx) (diff_id f)) ds)) \<and>
    u' = u @ concat (map reverted_elements (filter (\<lambda>f. contract_known (utx_db tx) (diff_id f)) ds))"
  using assms
proof (induction ds arbitrary: u r tx)
  case (Cons f ds)
  let ?K = "contract_known (utx_db tx)"
  from Cons.prems(1) obtain k tx1 where k: "IsKnownContract (diff_id f) tx = Inr (k, tx1)"
    and rest: "(if \<not> k then revert_diffs ds (r, u) tx1
       else rbind (revert_known_diff f (r, u) tx1) (\<lambda>(acc, tx). revert_diffs ds acc tx)) = Inr ((r', u'), tx')"
    by (auto simp: rbind_eq_Inr)
  from IsKnownContract_cached[OF Cons.prems(2) k] have k': "k = ?K (diff_id f)" "utx_db tx1 = utx_db tx" "cache_ok tx1" by auto
  from Cons.prems(3) have dist: "distinct (map diff_id ds)" "diff_id f \<notin> diff_id ` set ds" by auto
  show ?case
  proof (cases k)
    case False
    with k' have un: "on_rows g (f # ds) (tContracts (utx_db tx)) = on_rows g ds (tContracts (utx_db tx))" for g
      by (intro on_rows_unknown) (simp add: contract_known_def not_in_image)
    have e: "filter (\<lambda>f. ?K (diff_id f)) (f # ds) = filter (\<lambda>f. ?K (diff_id f)) ds" using False k' by simp
    from rest False have "revert_diffs ds (r, u) tx1 = Inr ((r', u'), tx')" by simp
    from Cons.IH[OF this k'(3) dist(1)] show ?thesis unfolding un e k'(2) .
  next
    case True
    with rest obtain acc tx2 where a: "revert_known_diff f (r, u) tx1 = Inr (acc, tx2)" and b: "revert_diffs ds acc tx2 = Inr ((r', u'), tx')"
      by (auto simp: rbind_eq_Inr)
    note E = revert_known_diff_effect[OF a]
    have c: "cache_ok tx2 \<and> contract_known (utx_db tx2) = contract_known (utx_db tx1)"
      by (rule cache_ok_update[OF k'(3), where i = "diff_id f" and g = "revert_row f"]) (use E in auto)
    have "on_rows revert_row ds (update_one (diff_id f) (revert_row f) (tContracts (utx_db tx))) = on_rows revert_row (f # ds) (tContracts (utx_db tx))"
      using dist by (intro on_rows_Cons) simp_all
    then have db: "(utx_db tx2)\<lparr>tContracts := on_rows (revert_row) ds (tContracts (utx_db tx2))\<rparr>
        = (utx_db tx)\<lparr>tContracts := on_rows (revert_row) (f # ds) (tContracts (utx_db tx))\<rparr>" using E k'(2) by simp
    have K2: "contract_known (utx_db tx2) = ?K" using c k'(2) by simp
    have e: "filter (\<lambda>f. ?K (diff_id f)) (f # ds) = f # filter (\<lambda>f. ?K (diff_id f)) ds" using True k' by simp
    from b E have "revert_diffs ds (r @ created_ids f, u @ reverted_elements f) tx2 = Inr ((r', u'), tx')" by simp
    from Cons.IH[OF this conjunct1[OF c] dist(1)] show ?thesis unfolding K2 db e list.map concat.simps append_assoc .
  qed
qed simp

section \<open>Contract elements\<close>

definition element_at :: "db \<Rightarrow> contract_id \<Rightarrow> contract_element_row option" where
  "element_at d i = find (\<lambda>e. ce_contract_id e = i) (tElements d)"

lemma find_replace:
  "find (\<lambda>e. ce_contract_id e = i) (update_rows (\<lambda>e. ce_contract_id e = ce_contract_id fce) (\<lambda>e. fce) xs)
    = (if i = ce_contract_id fce \<and> i \<in> ce_contract_id ` set xs then Some fce else find (\<lambda>e. ce_contract_id e = i) xs)"
  by (induction xs) auto

lemma upsert_element_effect:
  assumes "upsert_element fce d = Inr d'"
  shows "(\<exists>es. d' = d\<lparr>tElements := es\<rparr>) \<and> element_at d' i = (if i = ce_contract_id fce then Some fce else element_at d i)"
proof (cases "ce_contract_id fce \<in> ce_contract_id ` set (tElements d)")
  case True
  with assms have "d' = d\<lparr>tElements := update_rows (\<lambda>e. ce_contract_id e = ce_contract_id fce) (\<lambda>e. fce) (tElements d)\<rparr>"
    by (simp add: upsert_element_def split: if_splits)
  with True show ?thesis by (auto simp: element_at_def find_replace)
next
  case False
  with assms have "d' = d\<lparr>tElements := tElements d @ [fce]\<rparr>" by (simp add: upsert_element_def split: if_splits)
  with False show ?thesis by (auto simp: element_at_def find_append simp flip: find_key_None split: option.splits)
qed

lemma UpdateContractElements_effect:
  assumes "UpdateContractElements us d = Inr (x, d')" and "distinct (map ce_contract_id us)"
  shows "(\<exists>es. d' = d\<lparr>tElements := es\<rparr>) \<and>
    (\<forall>i. element_at d' i = (case find (\<lambda>e. ce_contract_id e = i) us of Some e \<Rightarrow> Some e | None \<Rightarrow> element_at d i))"
  using assms
proof (induction us arbitrary: d)
  case Nil
  then show ?case by (auto intro: exI[of _ "tElements d"])
next
  case (Cons e us)
  from Cons.prems(1) obtain d1 where d1: "upsert_element e d = Inr d1" and r: "UpdateContractElements us d1 = Inr (x, d')"
    by (auto simp: rbind_eq_Inr)
  have n: "find (\<lambda>a. ce_contract_id a = ce_contract_id e) us = None" using Cons.prems(2) by (simp add: find_key_None)
  have "element_at d1 i = (if i = ce_contract_id e then Some e else element_at d i)" for i using upsert_element_effect[OF d1] by blast
  moreover obtain es where "d1 = d\<lparr>tElements := es\<rparr>" using upsert_element_effect[OF d1] by blast
  ultimately show ?case using Cons.IH[OF r] Cons.prems(2) n by (auto split: option.splits)
qed

lemma upsert_element_distinct:
  "distinct (map ce_contract_id (tElements d)) \<Longrightarrow> upsert_element fce d = Inr d' \<Longrightarrow> distinct (map ce_contract_id (tElements d'))"
  by (auto simp: upsert_element_def map_update_rows split: if_splits)

lemma UpdateContractElements_distinct:
  "distinct (map ce_contract_id (tElements d)) \<Longrightarrow> UpdateContractElements us d = Inr (x, d') \<Longrightarrow> distinct (map ce_contract_id (tElements d'))"
  by (induction us arbitrary: d) (auto simp: rbind_eq_Inr intro: upsert_element_distinct)

lemma DeleteContractElements_effect:
  assumes "DeleteContractElements ids d = Inr (x, d')"
  shows "d' = d\<lparr>tElements := filter (\<lambda>e. ce_contract_id e \<notin> set ids) (tElements d)\<rparr>"
proof -
  have "fold (\<lambda>i d. d\<lparr>tElements := filter (\<lambda>e. ce_contract_id e \<noteq> i) (tElements d)\<rparr>) ids d
    = d\<lparr>tElements := filter (\<lambda>e. ce_contract_id e \<notin> set ids) (tElements d)\<rparr>" for d :: db
    by (induction ids arbitrary: d) (auto simp: conj_commute)
  with assms show ?thesis by (simp add: DeleteContractElements_def)
qed

lemma element_at_filter:
  "find (\<lambda>e. ce_contract_id e = i) (filter (\<lambda>e. ce_contract_id e \<notin> S) xs) = (if i \<in> S then None else find (\<lambda>e. ce_contract_id e = i) xs)"
  by (induction xs) auto

section \<open>Blocks\<close>

text \<open>
  What the package go.sia.tech/core guarantees for the diffs of a block: at most one diff per
  contract, and the revised element has the identifier of the contract.
\<close>

definition block_ok :: "contract_diff list \<Rightarrow> bool" where
  "block_ok ds \<longleftrightarrow> distinct (map diff_id ds) \<and>
     (\<forall>f \<in> set ds. \<forall>e. V2RevisionElement f = Some e \<longrightarrow> ce_contract_id e = diff_id f)"

text \<open>At most one element or identifier per diff, for the contract of the diff.\<close>

definition per_diff :: "('a \<Rightarrow> contract_id) \<Rightarrow> (contract_diff \<Rightarrow> 'a list) \<Rightarrow> contract_diff list \<Rightarrow> bool" where
  "per_diff key g ds \<longleftrightarrow> (\<forall>f \<in> set ds. g f = [] \<or> (\<exists>e. g f = [e] \<and> key e = diff_id f))"

lemma per_diff_simps: "per_diff key g (f # ds) \<longleftrightarrow> (g f = [] \<or> (\<exists>e. g f = [e] \<and> key e = diff_id f)) \<and> per_diff key g ds"
  by (simp add: per_diff_def)

lemma per_diff_filter: "per_diff key g ds \<Longrightarrow> per_diff key g (filter P ds)"
  by (simp add: per_diff_def)

lemma key_concat_subset: "per_diff key g ds \<Longrightarrow> x \<in> set (concat (map g ds)) \<Longrightarrow> key x \<in> diff_id ` set ds"
  by (force simp: per_diff_def)

lemma distinct_concat_per_diff:
  "per_diff key g ds \<Longrightarrow> distinct (map diff_id ds) \<Longrightarrow> distinct (map key (concat (map g ds)))"
proof (induction ds)
  case (Cons f ds)
  then have "key x \<noteq> diff_id f" if "x \<in> set (concat (map g ds))" for x
    using key_concat_subset[of key g ds x] that by (auto simp: per_diff_simps)
  then have "diff_id f \<notin> key ` set (concat (map g ds))" by (simp only: not_in_image) blast
  with Cons show ?case by (auto simp: per_diff_simps simp del: set_concat)
qed simp

lemma find_concat_per_diff:
  "per_diff key g ds \<Longrightarrow> distinct (map diff_id ds) \<Longrightarrow>
   find (\<lambda>e. key e = i) (concat (map g ds)) = (case diff_for ds i of None \<Rightarrow> None | Some f \<Rightarrow> (case g f of [] \<Rightarrow> None | e # _ \<Rightarrow> Some e))"
proof (induction ds)
  case (Cons f ds)
  have tail: "find (\<lambda>e. key e = i) (concat (map g ds)) = (case diff_for ds i of None \<Rightarrow> None | Some f \<Rightarrow> (case g f of [] \<Rightarrow> None | e # _ \<Rightarrow> Some e))"
    using Cons by (simp add: per_diff_simps)
  have none: "diff_for ds i = None" if "diff_id f = i" using that Cons.prems(2) by (simp add: diff_for_def find_key_None)
  have head: "diff_for (f # ds) i = (if diff_id f = i then Some f else diff_for ds i)" by (simp add: diff_for_def)
  show ?case
  proof (cases "diff_id f = i")
    case True
    have "g f = [] \<or> (\<exists>e. g f = [e] \<and> key e = i)" using Cons.prems(1) True by (simp add: per_diff_simps)
    with True none[OF True] tail head show ?thesis by auto
  next
    case False
    have "g f = [] \<or> (\<exists>e. g f = [e] \<and> key e \<noteq> i)" using Cons.prems(1) False by (auto simp: per_diff_simps)
    then show ?thesis unfolding head using False tail by auto
  qed
qed (simp add: diff_for_def)

lemma diff_for_filter: "diff_for (filter (\<lambda>f. K (diff_id f)) ds) i = (if K i then diff_for ds i else None)"
  by (induction ds) (auto simp: diff_for_def)

lemma per_diff_instances:
  assumes "block_ok ds"
  shows "per_diff ce_contract_id applied_elements ds" "per_diff ce_contract_id reverted_elements ds"
    "per_diff (\<lambda>i. i) resolved_ids ds" "per_diff (\<lambda>i. i) created_ids ds"
proof -
  have "applied_elements f = [] \<or> (\<exists>e. applied_elements f = [e] \<and> ce_contract_id e = diff_id f)" if "f \<in> set ds" for f
  proof (cases "V2RevisionElement f")
    case None
    then show ?thesis by (simp add: applied_elements_def)
  next
    case (Some e)
    with assms that have "ce_contract_id e = diff_id f" unfolding block_ok_def by blast
    with Some show ?thesis by (simp add: applied_elements_def)
  qed
  then show "per_diff ce_contract_id applied_elements ds" by (simp add: per_diff_def)
qed (simp_all add: per_diff_def reverted_elements_def resolved_ids_def created_ids_def)

lemma diff_for_Some: "diff_for ds i = Some f \<Longrightarrow> f \<in> set ds \<and> diff_id f = i"
  by (auto simp: diff_for_def find_Some_iff)

lemma member_concat_ids:
  assumes "per_diff (\<lambda>i. i) g ds" and "distinct (map diff_id ds)"
  shows "i \<in> set (concat (map g ds)) \<longleftrightarrow> (\<exists>f. diff_for ds i = Some f \<and> g f \<noteq> [])"
proof -
  have "i \<in> set (concat (map g ds)) \<longleftrightarrow> find (\<lambda>e. e = i) (concat (map g ds)) \<noteq> None" by (simp add: find_None_iff)
  also have "\<dots> \<longleftrightarrow> (\<exists>f. diff_for ds i = Some f \<and> g f \<noteq> [])"
    unfolding find_concat_per_diff[OF assms] by (auto split: option.splits list.splits)
  finally show ?thesis .
qed

definition contract_view :: "db \<Rightarrow> contract_id \<Rightarrow> v2_contract option" where
  "contract_view d i = map_option ce_contract (element_at d i)"

definition elements_distinct :: "db \<Rightarrow> bool" where
  "elements_distinct d \<longleftrightarrow> distinct (map ce_contract_id (tElements d))"

text \<open>The two statements on elements after the loop, in either order.\<close>

lemma upsert_elements:
  assumes "(if us \<noteq> [] then on_store (UpdateContractElements us) tx else Inr ((), tx)) = Inr (x, tx')"
    and "distinct (map ce_contract_id us)" and "elements_distinct (utx_db tx)"
  shows "knownContracts tx' = knownContracts tx \<and> (\<exists>es. utx_db tx' = (utx_db tx)\<lparr>tElements := es\<rparr>) \<and> elements_distinct (utx_db tx') \<and>
    (\<forall>i. element_at (utx_db tx') i = (case find (\<lambda>e. ce_contract_id e = i) us of Some e \<Rightarrow> Some e | None \<Rightarrow> element_at (utx_db tx) i))"
proof (cases "us = []")
  case True
  with assms show ?thesis by (auto intro: exI[of _ "tElements (utx_db tx)"])
next
  case False
  with assms(1) obtain d where d: "UpdateContractElements us (utx_db tx) = Inr (x, d)" and tx': "tx' = tx\<lparr>utx_db := d\<rparr>"
    by (auto simp: on_store_Inr)
  from UpdateContractElements_effect[OF d assms(2)] UpdateContractElements_distinct[OF _ d] assms(3) tx' show ?thesis
    by (simp add: elements_distinct_def)
qed

lemma delete_elements:
  assumes "(if ids \<noteq> [] then on_store (DeleteContractElements ids) tx else Inr ((), tx)) = Inr (x, tx')"
    and "elements_distinct (utx_db tx)"
  shows "knownContracts tx' = knownContracts tx \<and> (\<exists>es. utx_db tx' = (utx_db tx)\<lparr>tElements := es\<rparr>) \<and> elements_distinct (utx_db tx') \<and>
    (\<forall>i. element_at (utx_db tx') i = (if i \<in> set ids then None else element_at (utx_db tx) i))"
proof (cases "ids = []")
  case True
  with assms show ?thesis by (auto intro: exI[of _ "tElements (utx_db tx)"])
next
  case False
  with assms(1) obtain d where d: "DeleteContractElements ids (utx_db tx) = Inr (x, d)" and tx': "tx' = tx\<lparr>utx_db := d\<rparr>"
    by (auto simp: on_store_Inr)
  from DeleteContractElements_effect[OF d] tx' assms(2) show ?thesis
    by (auto simp: element_at_def element_at_filter elements_distinct_def distinct_map_filter)
qed

lemma updateContractElementProofs_effect:
  assumes "updateContractElementProofs upd tx = Inr (x, tx')" and "elements_distinct (utx_db tx)"
  shows "knownContracts tx' = knownContracts tx \<and> (\<exists>es. utx_db tx' = (utx_db tx)\<lparr>tElements := es\<rparr>) \<and> elements_distinct (utx_db tx') \<and>
    (\<forall>i. element_at (utx_db tx') i = map_option (update_proof upd) (element_at (utx_db tx) i))"
proof -
  let ?us = "map (update_proof upd) (tElements (utx_db tx))"
  from assms(1) obtain d where d: "UpdateContractElements ?us (utx_db tx) = Inr (x, d)" and tx': "tx' = tx\<lparr>utx_db := d\<rparr>"
    by (auto simp: updateContractElementProofs_def rbind_eq_Inr on_store_Inr ContractElements_def)
  have id: "ce_contract_id (update_proof upd e) = ce_contract_id e" for e by (simp add: update_proof_def split: prod.splits)
  then have "distinct (map ce_contract_id ?us)" using assms(2) by (simp add: elements_distinct_def o_def)
  moreover have "find (\<lambda>e. ce_contract_id e = i) (map (update_proof upd) es) = map_option (update_proof upd) (find (\<lambda>e. ce_contract_id e = i) es)" for i es
    by (induction es) (simp_all add: id)
  ultimately show ?thesis
    using UpdateContractElements_effect[OF d] UpdateContractElements_distinct[OF _ d] assms(2) tx'
    by (auto simp: elements_distinct_def element_at_def split: option.splits)
qed

definition first_contract :: "contract_element_row list \<Rightarrow> v2_contract option" where
  "first_contract es = (case es of [] \<Rightarrow> None | e # _ \<Rightarrow> Some (ce_contract e))"

text \<open>The diff of a block for a contract, if the contract is known.\<close>

definition known_diff :: "db \<Rightarrow> contract_diff list \<Rightarrow> contract_id \<Rightarrow> contract_diff option" where
  "known_diff d ds i = (if contract_known d i then diff_for ds i else None)"

lemma known_diff_eq: "diff_for (filter (\<lambda>f. contract_known d (diff_id f)) ds) i = known_diff d ds i"
  by (simp add: known_diff_def diff_for_filter)

definition block_effect ::
  "(contract_diff \<Rightarrow> contract_row \<Rightarrow> contract_row) \<Rightarrow> (contract_diff \<Rightarrow> contract_element_row list) \<Rightarrow> contract_diff list \<Rightarrow> db \<Rightarrow> db \<Rightarrow> bool" where
  "block_effect row elems ds d d' \<longleftrightarrow> (\<exists>es. d' = d\<lparr>tContracts := on_rows row ds (tContracts d), tElements := es\<rparr>) \<and>
     elements_distinct d' \<and> contract_known d' = contract_known d \<and>
     (\<forall>i. contract_view d' i = (case known_diff d ds i of None \<Rightarrow> contract_view d i | Some f \<Rightarrow> first_contract (elems f)))"

lemma ce_contract_update_proof [simp]: "ce_contract (update_proof upd e) = ce_contract e"
  by (simp add: update_proof_def split: prod.splits)

lemma known_frame: "contract_known (d\<lparr>tElements := es\<rparr>) = contract_known d"
  by (simp add: contract_known_def fun_eq_iff)

lemma applyChainUpdate_effect:
  assumes eq: "applyChainUpdate C b tx = Inr (x, tx')" and c: "cache_ok tx" and ok: "block_ok (V2FileContractElementDiffs b)"
    and e: "elements_distinct (utx_db tx)"
  shows "cache_ok tx' \<and> block_effect (apply_row C (contract_known (utx_db tx))) applied_elements (V2FileContractElementDiffs b) (utx_db tx) (utx_db tx')"
proof -
  let ?ds = "V2FileContractElementDiffs b" and ?K = "contract_known (utx_db tx)"
  let ?fs = "filter (\<lambda>f. ?K (diff_id f)) ?ds"
  from eq obtain u r tx1 y tx2 z tx3 where a: "apply_diffs C ?ds ([], []) tx = Inr ((u, r), tx1)"
    and b: "(if u \<noteq> [] then on_store (UpdateContractElements u) tx1 else Inr ((), tx1)) = Inr (y, tx2)"
    and d: "(if r \<noteq> [] then on_store (DeleteContractElements r) tx2 else Inr ((), tx2)) = Inr (z, tx3)"
    and p: "updateContractElementProofs (UpdateElementProof b) tx3 = Inr (x, tx')"
    unfolding applyChainUpdate_def applyV2ContractDiffs_def rbind_eq_Inr by (auto simp: rbind_eq_Inr simp del: split_paired_Ex)
  have dist: "distinct (map diff_id ?ds)" using ok by (simp add: block_ok_def)
  note A = apply_diffs_effect[OF a c dist]
  have pd: "per_diff ce_contract_id applied_elements ?fs" "per_diff (\<lambda>i. i) resolved_ids ?fs" "distinct (map diff_id ?fs)"
    using per_diff_instances[OF ok] dist by (auto intro: per_diff_filter distinct_map_filter)
  have u: "u = concat (map applied_elements ?fs)" and r: "r = concat (map resolved_ids ?fs)" using A by auto
  have e1: "elements_distinct (utx_db tx1)" using A e by (simp add: elements_distinct_def)
  note B = upsert_elements[OF b distinct_concat_per_diff[OF pd(1) pd(3), folded u] e1]
  note D = delete_elements[OF d] note P = updateContractElementProofs_effect[OF p]
  have at1: "element_at (utx_db tx1) i = element_at (utx_db tx) i" for i using A by (simp add: element_at_def)
  have at3: "element_at (utx_db tx3) i = (case known_diff (utx_db tx) ?ds i of None \<Rightarrow> element_at (utx_db tx) i
      | Some f \<Rightarrow> (case applied_elements f of [] \<Rightarrow> None | e # _ \<Rightarrow> Some e))" for i
  proof -
    have "i \<in> set r \<longleftrightarrow> (\<exists>f. known_diff (utx_db tx) ?ds i = Some f \<and> resolved_ids f \<noteq> [])"
      unfolding r member_concat_ids[OF pd(2,3)] known_diff_eq ..
    moreover have "find (\<lambda>e. ce_contract_id e = i) u = (case known_diff (utx_db tx) ?ds i of None \<Rightarrow> None
        | Some f \<Rightarrow> (case applied_elements f of [] \<Rightarrow> None | e # _ \<Rightarrow> Some e))"
      unfolding u find_concat_per_diff[OF pd(1,3)] known_diff_eq ..
    ultimately show ?thesis using B D at1[of i]
      by (auto simp: applied_elements_def resolved_ids_def split: option.splits)
  qed
  obtain es where db: "utx_db tx' = (utx_db tx)\<lparr>tContracts := on_rows (apply_row C ?K) ?ds (tContracts (utx_db tx)), tElements := es\<rparr>"
    using A B D P by auto
  have k: "contract_known (utx_db tx') = ?K" using A B D P by (auto simp: known_frame)
  have "contract_view (utx_db tx') i = (case known_diff (utx_db tx) ?ds i of None \<Rightarrow> contract_view (utx_db tx) i
      | Some f \<Rightarrow> first_contract (applied_elements f))" for i
  proof -
    have "elements_distinct (utx_db tx3)" using B D by blast
    then have "element_at (utx_db tx') i = map_option (update_proof (UpdateElementProof b)) (element_at (utx_db tx3) i)" using P by blast
    then show ?thesis unfolding contract_view_def at3 first_contract_def by (simp add: option.map_comp o_def split: option.splits list.splits)
  qed
  moreover have "cache_ok tx'" using A B D P k by (auto simp: cache_ok_def)
  ultimately show ?thesis using db k P D B by (auto simp: block_effect_def)
qed

lemma revertChainUpdate_effect:
  assumes eq: "revertChainUpdate b tx = Inr (x, tx')" and c: "cache_ok tx" and ok: "block_ok (V2FileContractElementDiffs b)"
    and e: "elements_distinct (utx_db tx)"
  shows "cache_ok tx' \<and> block_effect revert_row reverted_elements (V2FileContractElementDiffs b) (utx_db tx) (utx_db tx')"
proof -
  let ?ds = "V2FileContractElementDiffs b" and ?K = "contract_known (utx_db tx)"
  let ?fs = "filter (\<lambda>f. ?K (diff_id f)) ?ds"
  from eq obtain u r tx1 y tx2 z tx3 where a: "revert_diffs ?ds ([], []) tx = Inr ((r, u), tx1)"
    and d: "(if r \<noteq> [] then on_store (DeleteContractElements r) tx1 else Inr ((), tx1)) = Inr (z, tx2)"
    and b: "(if u \<noteq> [] then on_store (UpdateContractElements u) tx2 else Inr ((), tx2)) = Inr (y, tx3)"
    and p: "updateContractElementProofs (UpdateElementProof b) tx3 = Inr (x, tx')"
    unfolding revertChainUpdate_def revertV2ContractDiffs_def rbind_eq_Inr by (auto simp: rbind_eq_Inr simp del: split_paired_Ex)
  have dist: "distinct (map diff_id ?ds)" using ok by (simp add: block_ok_def)
  note A = revert_diffs_effect[OF a c dist]
  have pd: "per_diff ce_contract_id reverted_elements ?fs" "per_diff (\<lambda>i. i) created_ids ?fs" "distinct (map diff_id ?fs)"
    using per_diff_instances[OF ok] dist by (auto intro: per_diff_filter distinct_map_filter)
  have u: "u = concat (map reverted_elements ?fs)" and r: "r = concat (map created_ids ?fs)" using A by auto
  have e1: "elements_distinct (utx_db tx1)" using A e by (simp add: elements_distinct_def)
  note D = delete_elements[OF d e1]
  note B = upsert_elements[OF b distinct_concat_per_diff[OF pd(1) pd(3), folded u]] note P = updateContractElementProofs_effect[OF p]
  have at1: "element_at (utx_db tx1) i = element_at (utx_db tx) i" for i using A by (simp add: element_at_def)
  have at3: "element_at (utx_db tx3) i = (case known_diff (utx_db tx) ?ds i of None \<Rightarrow> element_at (utx_db tx) i
      | Some f \<Rightarrow> (case reverted_elements f of [] \<Rightarrow> None | e # _ \<Rightarrow> Some e))" for i
  proof -
    have "i \<in> set r \<longleftrightarrow> (\<exists>f. known_diff (utx_db tx) ?ds i = Some f \<and> created_ids f \<noteq> [])"
      unfolding r member_concat_ids[OF pd(2,3)] known_diff_eq ..
    moreover have "find (\<lambda>e. ce_contract_id e = i) u = (case known_diff (utx_db tx) ?ds i of None \<Rightarrow> None
        | Some f \<Rightarrow> (case reverted_elements f of [] \<Rightarrow> None | e # _ \<Rightarrow> Some e))"
      unfolding u find_concat_per_diff[OF pd(1,3)] known_diff_eq ..
    ultimately show ?thesis using B D at1[of i]
      by (auto simp: reverted_elements_def created_ids_def split: option.splits)
  qed
  obtain es where db: "utx_db tx' = (utx_db tx)\<lparr>tContracts := on_rows revert_row ?ds (tContracts (utx_db tx)), tElements := es\<rparr>"
    using A B D P by auto
  have k: "contract_known (utx_db tx') = ?K" using A B D P by (auto simp: known_frame)
  have "contract_view (utx_db tx') i = (case known_diff (utx_db tx) ?ds i of None \<Rightarrow> contract_view (utx_db tx) i
      | Some f \<Rightarrow> first_contract (reverted_elements f))" for i
  proof -
    have "elements_distinct (utx_db tx3)" using B D by blast
    then have "element_at (utx_db tx') i = map_option (update_proof (UpdateElementProof b)) (element_at (utx_db tx3) i)" using P by blast
    then show ?thesis unfolding contract_view_def at3 first_contract_def by (simp add: option.map_comp o_def split: option.splits list.splits)
  qed
  moreover have "cache_ok tx'" using A B D P k by (auto simp: cache_ok_def)
  ultimately show ?thesis using db k P D B by (auto simp: block_effect_def)
qed

section \<open>Reorganisations\<close>

lemma UpdateChainState_apply:
  assumes "UpdateChainState C [] [b] d = Inr (x, d')" and "block_ok (V2FileContractElementDiffs b)" and "elements_distinct d"
  shows "block_effect (apply_row C (contract_known d)) applied_elements (V2FileContractElementDiffs b) d d'"
proof -
  from assms(1) obtain y tx where "applyChainUpdate C b \<lparr>utx_db = d, knownContracts = Map.empty\<rparr> = Inr (y, tx)" "d' = utx_db tx"
    by (auto simp: UpdateChainState_def rbind_eq_Inr)
  with applyChainUpdate_effect[of C b "\<lparr>utx_db = d, knownContracts = Map.empty\<rparr>"] assms(2,3) show ?thesis by (auto simp: cache_ok_def)
qed


lemma UpdateChainState_both:
  assumes "UpdateChainState C [b] [b2] d = Inr (x, d')" and "block_ok (V2FileContractElementDiffs b)"
    and "block_ok (V2FileContractElementDiffs b2)" and "elements_distinct d"
  obtains d1 where "block_effect revert_row reverted_elements (V2FileContractElementDiffs b) d d1"
    "block_effect (apply_row C (contract_known d1)) applied_elements (V2FileContractElementDiffs b2) d1 d'"
proof -
  let ?tx = "\<lparr>utx_db = d, knownContracts = Map.empty\<rparr>"
  from assms(1) obtain y z tx1 tx2 where r: "revertChainUpdate b ?tx = Inr (y, tx1)"
    and a: "applyChainUpdate C b2 tx1 = Inr (z, tx2)" and d': "d' = utx_db tx2"
    by (auto simp: UpdateChainState_def rbind_eq_Inr)
  have c: "cache_ok ?tx" and e: "elements_distinct (utx_db ?tx)" using assms(4) by (simp_all add: cache_ok_def)
  note R = revertChainUpdate_effect[OF r c assms(2) e]
  then have "elements_distinct (utx_db tx1)" by (simp add: block_effect_def)
  with R have "block_effect (apply_row C (contract_known (utx_db tx1))) applied_elements (V2FileContractElementDiffs b2) (utx_db tx1) (utx_db tx2)"
    using applyChainUpdate_effect[OF a _ assms(3)] by blast
  with R d' show thesis by (intro that[of "utx_db tx1"]) simp_all
qed

lemma on_rows_ids:
  assumes "\<And>f c. ct_contract_id (g f c) = ct_contract_id c"
  shows "on_rows h ds (on_rows g ds cs) = on_rows (\<lambda>f c. h f (g f c)) ds cs"
  using assms by (auto simp: on_rows_def split: option.splits)

lemma on_rows_cong:
  assumes "\<And>c f. c \<in> set cs \<Longrightarrow> f \<in> set ds \<Longrightarrow> diff_id f = ct_contract_id c \<Longrightarrow> g f c = h f c"
  shows "on_rows g ds cs = on_rows h ds cs"
  using assms diff_for_Some by (auto simp: on_rows_def split: option.splits)



lemma known_diff_cong: "contract_known d' = contract_known d \<Longrightarrow> known_diff d' ds i = known_diff d ds i"
  by (simp add: known_diff_def)



text \<open>
  A reorganisation that reverts a block and applies a block with the same contract
  diffs leaves the contracts and their elements, up to Merkle proofs, as they were after the
  first time, whatever the state before the first block was. (A renewal whose new contract is
  not in the database must not have been linked to another one.)
\<close>

theorem reapply_idempotent:
  assumes "UpdateChainState C [] [b] d = Inr ((), d1)" and "UpdateChainState C [b'] [b''] d1 = Inr ((), d2)"
    and "V2FileContractElementDiffs b' = V2FileContractElementDiffs b" and "V2FileContractElementDiffs b'' = V2FileContractElementDiffs b"
    and "block_ok (V2FileContractElementDiffs b)" and "contracts_wf d"
    and "\<forall>f \<in> set (V2FileContractElementDiffs b). \<forall>c \<in> set (tContracts d). ct_contract_id c = diff_id f \<longrightarrow>
       Resolution f = Some V2FileContractRenewal \<longrightarrow> \<not> contract_known d (V2RenewalID C (diff_id f)) \<longrightarrow> ct_renewed_to c = None"
  shows "tContracts d2 = tContracts d1 \<and> contract_view d2 = contract_view d1"
proof -
  let ?ds = "V2FileContractElementDiffs b" and ?A = "apply_row C (contract_known d)"
  have e: "elements_distinct d" using assms(6) by (simp add: contracts_wf_def elements_wf_def elements_distinct_def)
  note A = UpdateChainState_apply[OF assms(1,5) e]
  then have e1: "elements_distinct d1" and k1: "contract_known d1 = contract_known d" by (simp_all add: block_effect_def)
  obtain d' where R: "block_effect revert_row reverted_elements ?ds d1 d'"
    and B: "block_effect (apply_row C (contract_known d')) applied_elements ?ds d' d2"
    using UpdateChainState_both[OF assms(2) _ _ e1] assms(3,4,5) by metis
  have k': "contract_known d' = contract_known d" using R k1 by (simp add: block_effect_def)
  have "?A f (revert_row f (?A f c)) = ?A f c"
    if c: "c \<in> set (tContracts d)" "f \<in> set ?ds" "diff_id f = ct_contract_id c" for c f
  proof -
    have "Resolution f = Some V2FileContractRenewal \<Longrightarrow> \<not> contract_known d (V2RenewalID C (diff_id f)) \<Longrightarrow> ct_renewed_to c = None"
      using assms(7) c by metis
    then show ?thesis by (auto simp: apply_row_def revert_row_def)
  qed
  then have "on_rows ?A ?ds (on_rows revert_row ?ds (on_rows ?A ?ds (tContracts d))) = on_rows ?A ?ds (tContracts d)"
    by (simp add: on_rows_ids) (rule on_rows_cong, simp)
  with A R B k' have "tContracts d2 = tContracts d1" by (auto simp: block_effect_def)
  moreover have "contract_view d2 i = contract_view d1 i" for i
  proof -
    have "known_diff d1 ?ds i = known_diff d ?ds i" "known_diff d' ?ds i = known_diff d ?ds i"
      using known_diff_cong[OF k1] known_diff_cong[OF k'] by simp_all
    with A R B show ?thesis by (auto simp: block_effect_def split: option.splits)
  qed
  ultimately show ?thesis by auto
qed

section \<open>Invariants\<close>

text \<open>Contracts with their revision numbers.\<close>

definition contract_versions :: "contract_row list \<Rightarrow> (contract_id \<times> u64) list" where
  "contract_versions cs = map (\<lambda>c. (ct_contract_id c, ct_revision_number c)) cs"

text \<open>Nothing but contract rows and elements changes, and no contract is added, removed or revised.\<close>

definition only_contracts :: "db \<Rightarrow> db \<Rightarrow> bool" where
  "only_contracts d d' \<longleftrightarrow> (\<exists>cs es. d' = d\<lparr>tContracts := cs, tElements := es\<rparr>) \<and> contract_versions (tContracts d') = contract_versions (tContracts d)"

definition keeps_invs :: "db \<Rightarrow> db \<Rightarrow> bool" where
  "keeps_invs d d' \<longleftrightarrow> only_contracts d d' \<and> (store_inv d \<and> contracts_wf d \<longrightarrow> store_inv d' \<and> contracts_wf d')"

lemma only_contracts_intros [simp, intro]:
  "contract_versions cs = contract_versions (tContracts d) \<Longrightarrow> only_contracts d (d\<lparr>tContracts := cs\<rparr>)" "only_contracts d (d\<lparr>tElements := es\<rparr>)"
proof -
  have eqs: "d\<lparr>tContracts := cs\<rparr> = d\<lparr>tContracts := cs, tElements := tElements d\<rparr>" "d\<lparr>tElements := es\<rparr> = d\<lparr>tContracts := tContracts d, tElements := es\<rparr>"
    by simp_all
  show "only_contracts d (d\<lparr>tContracts := cs\<rparr>)" if "contract_versions cs = contract_versions (tContracts d)"
    unfolding only_contracts_def by (intro conjI exI, rule eqs(1)) (simp add: that)
  show "only_contracts d (d\<lparr>tElements := es\<rparr>)"
    unfolding only_contracts_def by (intro conjI exI, rule eqs(2)) simp
qed

lemma only_contracts_refl [simp]: "only_contracts d d"
  using only_contracts_intros(2)[of d "tElements d"] by simp

lemma only_contracts_trans [trans]: "only_contracts a b \<Longrightarrow> only_contracts b c \<Longrightarrow> only_contracts a c"
  unfolding only_contracts_def by (elim exE conjE) (simp, blast)

lemma versions_update_rows:
  "(\<And>c. ct_contract_id (g c) = ct_contract_id c \<and> ct_revision_number (g c) = ct_revision_number c) \<Longrightarrow>
   contract_versions (update_rows Q g cs) = contract_versions cs"
  unfolding contract_versions_def by (rule map_update_rows) simp

lemma only_contracts_refs: "only_contracts d d' \<Longrightarrow> same_refs d d'"
  by (auto simp: only_contracts_def same_refs_def)

lemma keeps_invs_refl [simp]: "keeps_invs d d"
  by (simp add: keeps_invs_def)

lemma keeps_invs_trans [trans]: "keeps_invs a b \<Longrightarrow> keeps_invs b c \<Longrightarrow> keeps_invs a c"
  by (auto simp: keeps_invs_def intro: only_contracts_trans)

lemma keeps_invs_update_contract:
  assumes "\<And>c. ct_contract_id (g c) = ct_contract_id c \<and> ct_host_id (g c) = ct_host_id c \<and> ct_revision_number (g c) = ct_revision_number c"
    and "\<And>c. c \<in> set (tContracts d) \<Longrightarrow> Q c \<Longrightarrow> contract_row_wf d c \<Longrightarrow> contract_row_wf d (g c)"
  shows "keeps_invs d (d\<lparr>tContracts := update_rows Q g (tContracts d)\<rparr>)"
  using assms by (auto simp: keeps_invs_def intro!: store_inv_update_contracts contracts_wf_update_contracts versions_update_rows)

lemmas row_wf_defs = contract_row_wf_def contract_columns_ok_def contract_checks_ok_def

lemma UpdateContractState_keeps: "UpdateContractState i st d = Inr (x, d') \<Longrightarrow> keeps_invs d d'"
  by (auto simp: UpdateContractState_def row_wf_defs intro!: keeps_invs_update_contract)

lemma UpdateContractRenewedTo_keeps:
  assumes "UpdateContractRenewedTo i rt d = Inr (x, d')"
  shows "keeps_invs d d'"
  using UpdateContractRenewedTo_effect[OF assms]
  by (auto simp: row_wf_defs intro!: keeps_invs_update_contract split: if_splits)

lemma store_inv_elements: "store_inv (d\<lparr>tElements := es\<rparr>) = store_inv d"
proof -
  have "pinned_on_host (d\<lparr>tElements := es\<rparr>) s = pinned_on_host d s" for s by (rule pinned_on_host_frame) simp_all
  then show ?thesis
    by (simp add: store_inv_def sectors_wf_def keys_wf_def hosts_known_def pins_wf_def counters_wf_def sqlStatSelect_def)
qed

lemma keeps_invs_elements:
  assumes "contracts_wf d \<Longrightarrow> elements_wf (d\<lparr>tElements := es\<rparr>)"
  shows "keeps_invs d (d\<lparr>tElements := es\<rparr>)"
  using assms by (auto simp: keeps_invs_def store_inv_elements contracts_wf_def contract_row_wf_def contract_known_def)

lemma upsert_element_keeps:
  assumes "upsert_element fce d = Inr d'"
  shows "keeps_invs d d'"
proof (cases "ce_contract_id fce \<in> ce_contract_id ` set (tElements d)")
  case True
  with assms have d': "d' = d\<lparr>tElements := update_rows (\<lambda>e. ce_contract_id e = ce_contract_id fce) (\<lambda>e. fce) (tElements d)\<rparr>"
    and ok: "int4_ok (ce_leaf_index fce)" by (simp_all add: upsert_element_def split: if_splits)
  show ?thesis unfolding d'
  proof (rule keeps_invs_elements)
    assume wf: "contracts_wf d"
    with True have "contract_known d (ce_contract_id fce)" by (force simp: contracts_wf_def elements_wf_def)
    with wf ok show "elements_wf (d\<lparr>tElements := update_rows (\<lambda>e. ce_contract_id e = ce_contract_id fce) (\<lambda>e. fce) (tElements d)\<rparr>)"
      by (simp add: contracts_wf_def elements_wf_def map_update_rows ball_update_rows known_frame)
  qed
next
  case False
  with assms have d': "d' = d\<lparr>tElements := tElements d @ [fce]\<rparr>" and "int4_ok (ce_leaf_index fce)" "contract_known d (ce_contract_id fce)"
    by (simp_all add: upsert_element_def split: if_splits)
  with False show ?thesis unfolding d'
    by (intro keeps_invs_elements) (auto simp: contracts_wf_def elements_wf_def known_frame)
qed

lemma UpdateContractElements_keeps: "UpdateContractElements us d = Inr (x, d') \<Longrightarrow> keeps_invs d d'"
  by (induction us arbitrary: d) (auto simp: rbind_eq_Inr dest!: upsert_element_keeps intro: keeps_invs_trans)

lemma filter_elements_keeps: "keeps_invs d (d\<lparr>tElements := filter P (tElements d)\<rparr>)"
  by (rule keeps_invs_elements) (auto simp: contracts_wf_def elements_wf_def known_frame distinct_map_filter)

lemma PruneExpiredContractElements_keeps: "PruneExpiredContractElements n d = Inr (x, d') \<Longrightarrow> keeps_invs d d'"
  by (simp add: PruneExpiredContractElements_def) (use filter_elements_keeps in blast)

lemma DeleteContractElements_keeps: "DeleteContractElements ids d = Inr (x, d') \<Longrightarrow> keeps_invs d d'"
  by (drule DeleteContractElements_effect) (simp add: filter_elements_keeps)

lemma IsKnownContract_db: "IsKnownContract i tx = Inr (k, tx') \<Longrightarrow> utx_db tx' = utx_db tx"
  by (auto simp: IsKnownContract_def on_store_def store_IsKnownContract_def split: option.splits)

lemma utx_keeps:
  "on_store (UpdateContractState i st) tx = Inr (y, tx') \<Longrightarrow> keeps_invs (utx_db tx) (utx_db tx')"
  "on_store (UpdateContractRenewedTo i rt) tx = Inr (y, tx') \<Longrightarrow> keeps_invs (utx_db tx) (utx_db tx')"
  "on_store (UpdateContractElements us) tx = Inr (y, tx') \<Longrightarrow> keeps_invs (utx_db tx) (utx_db tx')"
  "on_store (DeleteContractElements ids) tx = Inr (y, tx') \<Longrightarrow> keeps_invs (utx_db tx) (utx_db tx')"
  by (auto simp: on_store_Inr intro: UpdateContractState_keeps UpdateContractRenewedTo_keeps UpdateContractElements_keeps DeleteContractElements_keeps)

lemma apply_known_diff_keeps: "apply_known_diff C f acc tx = Inr (acc', tx') \<Longrightarrow> keeps_invs (utx_db tx) (utx_db tx')"
  by (auto simp: apply_known_diff_def rbind_eq_Inr dest!: utx_keeps intro: keeps_invs_trans split: if_splits prod.splits)

lemma revert_known_diff_keeps: "revert_known_diff f acc tx = Inr (acc', tx') \<Longrightarrow> keeps_invs (utx_db tx) (utx_db tx')"
  by (auto simp: revert_known_diff_def rbind_eq_Inr dest!: utx_keeps intro: keeps_invs_trans split: if_splits prod.splits)

lemma apply_diffs_keeps: "apply_diffs C ds acc tx = Inr (acc', tx') \<Longrightarrow> keeps_invs (utx_db tx) (utx_db tx')"
proof (induction ds arbitrary: acc tx)
  case (Cons f ds)
  then obtain k tx1 where k: "IsKnownContract (diff_id f) tx = Inr (k, tx1)"
    and r: "(if \<not> k then apply_diffs C ds acc tx1 else rbind (apply_known_diff C f acc tx1) (\<lambda>(acc, tx). apply_diffs C ds acc tx)) = Inr (acc', tx')"
    by (auto simp: rbind_eq_Inr)
  from r Cons.IH have "keeps_invs (utx_db tx1) (utx_db tx')"
    by (auto simp: rbind_eq_Inr split: if_splits dest!: apply_known_diff_keeps intro: keeps_invs_trans)
  with IsKnownContract_db[OF k] show ?case by simp
qed simp

lemma revert_diffs_keeps: "revert_diffs ds acc tx = Inr (acc', tx') \<Longrightarrow> keeps_invs (utx_db tx) (utx_db tx')"
proof (induction ds arbitrary: acc tx)
  case (Cons f ds)
  then obtain k tx1 where k: "IsKnownContract (diff_id f) tx = Inr (k, tx1)"
    and r: "(if \<not> k then revert_diffs ds acc tx1 else rbind (revert_known_diff f acc tx1) (\<lambda>(acc, tx). revert_diffs ds acc tx)) = Inr (acc', tx')"
    by (auto simp: rbind_eq_Inr)
  from r Cons.IH have "keeps_invs (utx_db tx1) (utx_db tx')"
    by (auto simp: rbind_eq_Inr split: if_splits dest!: revert_known_diff_keeps intro: keeps_invs_trans)
  with IsKnownContract_db[OF k] show ?case by simp
qed simp

lemma proofs_keeps: "updateContractElementProofs upd tx = Inr (x, tx') \<Longrightarrow> keeps_invs (utx_db tx) (utx_db tx')"
  by (auto simp: updateContractElementProofs_def rbind_eq_Inr on_store_Inr ContractElements_def dest: UpdateContractElements_keeps)

lemma elements_keeps:
  "(if us \<noteq> [] then on_store (UpdateContractElements us) tx else Inr ((), tx)) = Inr (x, tx') \<Longrightarrow> keeps_invs (utx_db tx) (utx_db tx')"
  "(if ids \<noteq> [] then on_store (DeleteContractElements ids) tx else Inr ((), tx)) = Inr (y, tx') \<Longrightarrow> keeps_invs (utx_db tx) (utx_db tx')"
  by (auto dest: utx_keeps split: if_splits)

lemma applyChainUpdate_keeps: "applyChainUpdate C b tx = Inr (x, tx') \<Longrightarrow> keeps_invs (utx_db tx) (utx_db tx')"
  unfolding applyChainUpdate_def applyV2ContractDiffs_def rbind_eq_Inr
  by (auto simp: rbind_eq_Inr simp del: split_paired_Ex dest!: apply_diffs_keeps elements_keeps proofs_keeps)
     (metis keeps_invs_trans)

lemma revertChainUpdate_keeps: "revertChainUpdate b tx = Inr (x, tx') \<Longrightarrow> keeps_invs (utx_db tx) (utx_db tx')"
  unfolding revertChainUpdate_def revertV2ContractDiffs_def rbind_eq_Inr
  by (auto simp: rbind_eq_Inr simp del: split_paired_Ex dest!: revert_diffs_keeps elements_keeps proofs_keeps)
     (metis keeps_invs_trans)

lemma apply_all_keeps: "apply_all C bs tx = Inr (x, tx') \<Longrightarrow> keeps_invs (utx_db tx) (utx_db tx')"
  by (induction bs arbitrary: tx) (auto simp: rbind_eq_Inr dest!: applyChainUpdate_keeps intro: keeps_invs_trans)

lemma revert_all_keeps: "revert_all bs tx = Inr (x, tx') \<Longrightarrow> keeps_invs (utx_db tx) (utx_db tx')"
  by (induction bs arbitrary: tx) (auto simp: rbind_eq_Inr dest!: revertChainUpdate_keeps intro: keeps_invs_trans)

lemma UpdateChainState_keeps: "UpdateChainState C reverted applied d = Inr (x, d') \<Longrightarrow> keeps_invs d d'"
  unfolding UpdateChainState_def
  by (auto simp: rbind_eq_Inr dest!: apply_all_keeps revert_all_keeps intro: keeps_invs_trans)

section \<open>Witnesses\<close>

definition sample_element :: contract_element_row where
  "sample_element = \<lparr>ce_contract_id = 21, ce_contract = sample_fc, ce_leaf_index = 5, ce_merkle_proof = []\<rparr>"

definition sample_block :: block_update where
  "sample_block = \<lparr>V2FileContractElementDiffs = [\<lparr>diffElement = sample_element, Created = True, Resolution = None, V2RevisionElement = None\<rparr>],
     UpdateElementProof = (\<lambda>(i, p). (i, 7 # p))\<rparr>"

definition pending_db :: db where
  "pending_db = sample_db\<lparr>tContracts := [(sample_contract_row 1 21)\<lparr>ct_state := ContractStatePending\<rparr>]\<rparr>"

lemma pending_db_wf: "contracts_wf pending_db" "store_inv pending_db"
proof -
  have d: "pending_db = sample_db\<lparr>tContracts := update_rows (\<lambda>_. True) (\<lambda>c. c\<lparr>ct_state := ContractStatePending\<rparr>) (tContracts sample_db)\<rparr>"
    by (simp add: pending_db_def sample_defs)
  have "keeps_invs sample_db pending_db" unfolding d by (rule keeps_invs_update_contract) (auto simp: row_wf_defs)
  then show "contracts_wf pending_db" "store_inv pending_db"
    using sample_db_inv sample_db_contracts_wf by (simp_all add: keeps_invs_def)
qed

lemmas block_eval = UpdateChainState_def applyChainUpdate_def revertChainUpdate_def applyV2ContractDiffs_def revertV2ContractDiffs_def
  IsKnownContract_def on_store_def store_IsKnownContract_def apply_known_diff_def revert_known_diff_def UpdateContractState_def
  upsert_element_def updateContractElementProofs_def ContractElements_def update_proof_def DeleteContractElements_def int4_ok_def contract_known_def

lemma sample_block_ok: "block_ok (V2FileContractElementDiffs sample_block)"
  by (simp add: block_ok_def sample_block_def)


lemma reapply_idempotent_witness:
  "\<exists>d1 d2. UpdateChainState sample_core [] [sample_block] pending_db = Inr ((), d1) \<and>
     UpdateChainState sample_core [sample_block] [sample_block] d1 = Inr ((), d2) \<and> contract_view d2 21 = Some sample_fc"
proof -
  obtain d1 where d1: "UpdateChainState sample_core [] [sample_block] pending_db = Inr ((), d1)" and v: "contract_view d1 21 = Some sample_fc"
    and k: "tContracts d1 = tContracts sample_db" "tElements d1 = [sample_element\<lparr>ce_merkle_proof := [7]\<rparr>]"
    by (simp add: block_eval sample_block_def sample_element_def pending_db_def sample_defs contract_view_def element_at_def)
  obtain d2 where d2: "UpdateChainState sample_core [sample_block] [sample_block] d1 = Inr ((), d2)"
    by (simp add: block_eval sample_block_def sample_element_def k sample_defs)
  have "\<forall>f \<in> set (V2FileContractElementDiffs sample_block). \<forall>c \<in> set (tContracts pending_db). ct_contract_id c = diff_id f \<longrightarrow>
       Resolution f = Some V2FileContractRenewal \<longrightarrow> \<not> contract_known pending_db (V2RenewalID sample_core (diff_id f)) \<longrightarrow> ct_renewed_to c = None"
    by (simp add: sample_block_def)
  from reapply_idempotent[OF d1 d2 refl refl sample_block_ok pending_db_wf(1) this]
  have "contract_view d2 = contract_view d1" by blast
  with d1 d2 v show ?thesis by auto
qed

end
