(* ===== verification/Revisions.thy ===== *)
theory Revisions
  imports Contract_Store
begin

text \<open>
  The revision manager, contracts/revision.go: running a revision of a contract against a host
  and recording it, and recovering when the host has a newer revision than the database.

  The Go interface \<open>RevisionStore\<close> is a record of functions on the state of the store, so that
  what the manager relies on can be stated as laws (the locale \<open>revision_store_laws\<close>) and
  shown for the database. The host is a state of any type: the revise function and
  \<open>LatestRevision\<close> take it and return it changed.
\<close>

section \<open>The manager\<close>

text \<open>\<open>UpdateContractRevision\<close> may panic in currency arithmetic: \<open>None\<close>.\<close>

record 's revision_store =
  rsContractRevision :: "contract_id \<Rightarrow> 's \<Rightarrow> (contract_revision \<times> bool) result"
  rsUpdateContractRevision :: "contract_revision \<Rightarrow> usage \<Rightarrow> 's \<Rightarrow> (unit result \<times> 's) option"
  rsMarkContractBad :: "contract_id \<Rightarrow> 's \<Rightarrow> unit result \<times> 's"

record latest_revision_response =
  LatestContract :: v2_contract
  Renewed :: bool

type_synonym 'w latest_revision_client = "public_key \<Rightarrow> contract_id \<Rightarrow> 'w \<Rightarrow> latest_revision_response result \<times> 'w"
type_synonym 'w revise_fn = "contract_revision \<Rightarrow> 'w \<Rightarrow> (contract_revision \<times> usage) result \<times> 'w"

definition isBeyondMaxRevisionHeight :: "u64 \<Rightarrow> u64 \<Rightarrow> u64 \<Rightarrow> bool" where
  "isBeyondMaxRevisionHeight proofHeight revisionSubmissionBuffer blockHeight =
     (let maxRevisionHeight = (if proofHeight > revisionSubmissionBuffer then proofHeight - revisionSubmissionBuffer else 0)
      in blockHeight \<ge> maxRevisionHeight)"

definition no_usage :: usage where
  "no_usage = \<lparr>UsageRPC = 0, UsageStorage = 0, UsageEgress = 0, UsageIngress = 0, UsageAccountFunding = 0, UsageRiskedCollateral = 0\<rparr>"

text \<open>Errors of \<open>MarkContractBad\<close> and \<open>UpdateContractRevision\<close> are only logged here.\<close>

definition syncRevision ::
  "core_ops \<Rightarrow> 's revision_store \<Rightarrow> 'w latest_revision_client \<Rightarrow> contract_id \<Rightarrow> v2_contract \<Rightarrow> 's \<Rightarrow> 'w
     \<Rightarrow> ((v2_contract \<times> bool) result \<times> 's \<times> 'w) option" where
  "syncRevision C S LatestRevision contractID revision s w =
     (case LatestRevision (HostPublicKey revision) contractID w of
        (Inl e, w) \<Rightarrow> Some (Inl e, s, w)
      | (Inr resp, w) \<Rightarrow>
          if RevisionNumber (LatestContract resp) < RevisionNumber revision then
            Some (Inl (ErrMsg ''local revision is newer than host revision''), snd (rsMarkContractBad S contractID s), w)
          else
            Option.bind (if cCmp C (RemainingAllowance C (LatestContract resp)) (RemainingAllowance C revision) < 0
                         then map_option (\<lambda>x. no_usage\<lparr>UsageStorage := x\<rparr>)
                                (cSub C (RemainingAllowance C revision) (RemainingAllowance C (LatestContract resp)))
                         else Some no_usage) (\<lambda>usage.
            Option.bind (rsUpdateContractRevision S \<lparr>RevID = contractID, Revision = LatestContract resp\<rparr> usage s) (\<lambda>(_, s).
              Some (Inr (LatestContract resp, Renewed resp), s, w))))"

text \<open>The end of \<open>WithRevision\<close>: recording the result of the revise function.\<close>

definition finish_revision ::
  "'s revision_store \<Rightarrow> contract_id \<Rightarrow> contract_revision \<Rightarrow> (contract_revision \<times> usage) result \<Rightarrow> 's \<Rightarrow> 'w \<Rightarrow> (unit result \<times> 's \<times> 'w) option" where
  "finish_revision S contractID contract res s w =
     (case res of
        Inl e \<Rightarrow> Some (Inl e, s, w)
      | Inr (revised, usage) \<Rightarrow>
          if RevID revised \<noteq> contractID then None
          else if RevisionNumber (Revision revised) > RevisionNumber (Revision contract) then
            map_option (\<lambda>(r, s). (r, s, w)) (rsUpdateContractRevision S revised usage s)
          else Some (Inr (), s, w))"

text \<open>The second half of \<open>WithRevision\<close>, after the revision was synced with the host.\<close>

definition retry_revision ::
  "'s revision_store \<Rightarrow> u64 \<Rightarrow> u64 \<Rightarrow> contract_id \<Rightarrow> contract_revision \<Rightarrow> 'w revise_fn \<Rightarrow> (v2_contract \<times> bool) result \<Rightarrow> 's \<Rightarrow> 'w
     \<Rightarrow> (unit result \<times> 's \<times> 'w) option" where
  "retry_revision S buffer bh contractID contract reviseFn synced s w =
     (case synced of
        Inl e \<Rightarrow> Some (Inl e, s, w)
      | Inr (latest, renewed) \<Rightarrow>
          if renewed then Some (Inl ErrContractRenewed, s, w)
          else if isBeyondMaxRevisionHeight (FileProofHeight latest) buffer bh then Some (Inl ErrContractNotRevisable, s, w)
          else case reviseFn (contract\<lparr>Revision := latest\<rparr>) w of (res, w) \<Rightarrow>
            finish_revision S contractID (contract\<lparr>Revision := latest\<rparr>) res s w)"

text \<open>\<open>invalidSig e\<close>: the text of the error contains the one of \<open>proto.ErrInvalidSignature\<close>.\<close>

definition WithRevision ::
  "core_ops \<Rightarrow> 's revision_store \<Rightarrow> 'w latest_revision_client \<Rightarrow> u64 \<Rightarrow> u64 \<Rightarrow> (err \<Rightarrow> bool) \<Rightarrow> contract_id \<Rightarrow> 'w revise_fn
     \<Rightarrow> 's \<Rightarrow> 'w \<Rightarrow> (unit result \<times> 's \<times> 'w) option" where
  "WithRevision C S LatestRevision buffer bh invalidSig contractID reviseFn s w =
     (case rsContractRevision S contractID s of
        Inl e \<Rightarrow> Some (Inl e, s, w)
      | Inr (contract, renewed) \<Rightarrow>
          if renewed then Some (Inl ErrContractRenewed, s, w)
          else if isBeyondMaxRevisionHeight (FileProofHeight (Revision contract)) buffer bh then Some (Inl ErrContractNotRevisable, s, w)
          else case reviseFn contract w of (res, w) \<Rightarrow>
            (case res of
               Inr _ \<Rightarrow> finish_revision S contractID contract res s w
             | Inl err \<Rightarrow>
                 if \<not> invalidSig err then Some (Inl err, s, w)
                 else Option.bind (syncRevision C S LatestRevision contractID (Revision contract) s w) (\<lambda>(synced, s, w).
                   retry_revision S buffer bh contractID contract reviseFn synced s w)))"

text \<open>
  What a call of \<open>WithRevision\<close> comes to: \<open>P\<close> is kept by calls of the revise function that report an invalid signature, by \<open>LatestRevision\<close>
  and by the store, \<open>K\<close> holds of the contract that is revised. Either the revise function was not called in the end,
  or its last call failed, or it succeeded and its result was possibly recorded. Only a call that reports an invalid
  signature is followed by another one.
\<close>

lemma finish_cases:
  assumes "finish_revision S i c res s w = Some (x, s', w')"
  obtains (err) e where "res = Inl e" "x = Inl e" "s' = s" "w' = w"
  | (revised) rv u where "res = Inr (rv, u)" "w' = w" "s' = s \<or> (\<exists>y. rsUpdateContractRevision S rv u s = Some (y, s'))"
  using assms by (auto simp: finish_revision_def split: sum.splits if_splits)

lemma syncRevision_cases:
  assumes "P s w" "syncRevision C S LR i r s w = Some (x, s', w')"
    and LR: "\<And>s w hk j r w'. P s w \<Longrightarrow> LR hk j w = (r, w') \<Longrightarrow> P s w'"
    and upd: "\<And>s w r u x s'. P s w \<Longrightarrow> rsUpdateContractRevision S r u s = Some (x, s') \<Longrightarrow> P s' w"
    and bad: "\<And>s w j. P s w \<Longrightarrow> P (snd (rsMarkContractBad S j s)) w"
  shows "P s' w'"
  using assms(2) LR[OF assms(1)] bad
  by (auto simp: syncRevision_def bind_eq_Some_conv split: prod.splits sum.splits if_splits dest!: upd[rotated])

lemma WithRevision_outcomes:
  assumes "P s w" "\<And>c b. rsContractRevision S i s = Inr (c, b) \<Longrightarrow> K c" "\<And>c v. K c \<Longrightarrow> K (c\<lparr>Revision := v\<rparr>)"
    and err: "\<And>s w c e w'. P s w \<Longrightarrow> K c \<Longrightarrow> reviseFn c w = (Inl e, w') \<Longrightarrow> sig e \<Longrightarrow> P s w'"
    and LR: "\<And>s w hk j r w'. P s w \<Longrightarrow> LR hk j w = (r, w') \<Longrightarrow> P s w'"
    and upd: "\<And>s w r u x s'. P s w \<Longrightarrow> rsUpdateContractRevision S r u s = Some (x, s') \<Longrightarrow> P s' w"
    and bad: "\<And>s w j. P s w \<Longrightarrow> P (snd (rsMarkContractBad S j s)) w"
    and eq: "WithRevision C S LR b bh sig i reviseFn s w = Some (x, s', w')"
  obtains (unrevised) e where "x = Inl e" "P s' w'"
  | (failed) c w1 e where "K c" "P s' w1" "reviseFn c w1 = (Inl e, w')" "x = Inl e"
  | (revised) c w1 s1 rv u where "K c" "P s1 w1" "reviseFn c w1 = (Inr (rv, u), w')" "s' = s1 \<or> (\<exists>y. rsUpdateContractRevision S rv u s1 = Some (y, s'))"
proof (cases "rsContractRevision S i s")
  case (Inl e)
  with eq assms(1) show ?thesis by (auto simp: WithRevision_def intro: unrevised)
next
  case (Inr cr)
  note outcomes = unrevised failed revised
  obtain c renewed where cr: "cr = (c, renewed)" by fastforce
  have K: "K c" using assms(2) Inr cr by blast
  have fin: thesis if "K c'" "P s0 w0" "reviseFn c' w0 = (res, w2)" "finish_revision S i c' res s0 w2 = Some (x, s', w')" for c' s0 w0 res w2
    using that(4)
  proof (cases rule: finish_cases)
    case (err e)
    with that show ?thesis by (intro outcomes(2)[of c' w0 e]) auto
  next
    case (revised rv u)
    with that show ?thesis by (intro outcomes(3)[of c' s0 w0 rv u]) auto
  qed
  obtain res w1 where r: "reviseFn c w = (res, w1)" by fastforce
  consider (early) "renewed \<or> isBeyondMaxRevisionHeight (FileProofHeight (Revision c)) b bh"
    | (once) "\<not> renewed" "\<not> isBeyondMaxRevisionHeight (FileProofHeight (Revision c)) b bh" "\<forall>e. res = Inl e \<longrightarrow> \<not> sig e"
    | (resync) e where "\<not> renewed" "\<not> isBeyondMaxRevisionHeight (FileProofHeight (Revision c)) b bh" "res = Inl e" "sig e" by blast
  then show ?thesis
  proof cases
    case early
    with eq Inr cr assms(1) show ?thesis by (auto simp: WithRevision_def intro: outcomes(1) split: if_splits)
  next
    case once
    with eq Inr cr r have "finish_revision S i c res s w1 = Some (x, s', w')"
      by (auto simp: WithRevision_def finish_revision_def split: sum.splits)
    with fin[OF K assms(1) r] show ?thesis by blast
  next
    case (resync e)
    with eq Inr cr r obtain synced s1 w2 where sy: "syncRevision C S LR i (Revision c) s w1 = Some (synced, s1, w2)"
      and rt: "retry_revision S b bh i c reviseFn synced s1 w2 = Some (x, s', w')" by (auto simp: WithRevision_def bind_eq_Some_conv)
    have "P s w1" using err[OF assms(1) K] r resync by blast
    then have P: "P s1 w2" by (rule syncRevision_cases[where P = P]) (fact sy LR upd bad)+
    from rt consider (stop) e where "x = Inl e" "s' = s1" "w' = w2"
      | (again) latest where "(case reviseFn (c\<lparr>Revision := latest\<rparr>) w2 of (res, w) \<Rightarrow> finish_revision S i (c\<lparr>Revision := latest\<rparr>) res s1 w) = Some (x, s', w')"
      unfolding retry_revision_def by (auto split: sum.splits if_splits)
    then show ?thesis
    proof cases
      case stop
      with P show ?thesis by (intro outcomes(1)) auto
    next
      case again
      obtain res2 w3 where r2: "reviseFn (c\<lparr>Revision := latest\<rparr>) w2 = (res2, w3)" by fastforce
      with again show ?thesis by (intro fin[OF assms(3)[OF K] P r2]) simp
    qed
  qed
qed

text \<open>When every failed call of the revise function keeps \<open>P\<close>.\<close>

lemma WithRevision_cases:
  assumes "P s w" "\<And>c b. rsContractRevision S i s = Inr (c, b) \<Longrightarrow> K c" "\<And>c v. K c \<Longrightarrow> K (c\<lparr>Revision := v\<rparr>)"
    and err: "\<And>s w c e w'. P s w \<Longrightarrow> K c \<Longrightarrow> reviseFn c w = (Inl e, w') \<Longrightarrow> P s w'"
    and LR: "\<And>s w hk j r w'. P s w \<Longrightarrow> LR hk j w = (r, w') \<Longrightarrow> P s w'"
    and upd: "\<And>s w r u x s'. P s w \<Longrightarrow> rsUpdateContractRevision S r u s = Some (x, s') \<Longrightarrow> P s' w"
    and bad: "\<And>s w j. P s w \<Longrightarrow> P (snd (rsMarkContractBad S j s)) w"
    and eq: "WithRevision C S LR b bh sig i reviseFn s w = Some (x, s', w')"
  obtains (unrevised) e where "x = Inl e" "P s' w'"
  | (revised) c w1 s1 rv u where "K c" "P s1 w1" "reviseFn c w1 = (Inr (rv, u), w')" "s' = s1 \<or> (\<exists>y. rsUpdateContractRevision S rv u s1 = Some (y, s'))"
  using assms(1-3) err LR upd bad eq
  by (rule WithRevision_outcomes[where P = P and K = K]) (auto intro: unrevised revised dest: err)


section \<open>What the manager relies on\<close>

locale revision_store_laws =
  fixes S :: "'s revision_store" and inv :: "'s \<Rightarrow> bool"
  assumes revision_id: "rsContractRevision S i s = Inr (r, b) \<Longrightarrow> RevID r = i"
    and update_ok: "inv s \<Longrightarrow> rsUpdateContractRevision S r u s = Some (Inr (), s') \<Longrightarrow>
      inv s' \<and> (\<exists>old b. rsContractRevision S (RevID r) s = Inr (old, b) \<and> RevisionNumber (Revision old) < RevisionNumber (Revision r) \<and>
        rsContractRevision S (RevID r) s' = Inr (r, b)) \<and> (\<forall>i. i \<noteq> RevID r \<longrightarrow> rsContractRevision S i s' = rsContractRevision S i s)"
    and update_err: "rsUpdateContractRevision S r u s = Some (Inl e, s') \<Longrightarrow> s' = s"
    and mark_bad: "inv s \<Longrightarrow> inv (snd (rsMarkContractBad S i s)) \<and> rsContractRevision S j (snd (rsMarkContractBad S i s)) = rsContractRevision S j s"
begin

definition forward :: "contract_id \<Rightarrow> 's \<Rightarrow> 's \<Rightarrow> bool" where
  "forward i s s' \<longleftrightarrow> inv s' \<and> (\<forall>j. j \<noteq> i \<longrightarrow> rsContractRevision S j s' = rsContractRevision S j s) \<and>
     (\<forall>r b. rsContractRevision S i s = Inr (r, b) \<longrightarrow> (\<exists>r'. rsContractRevision S i s' = Inr (r', b) \<and>
        RevisionNumber (Revision r) \<le> RevisionNumber (Revision r')))"

lemma forward_refl: "inv s \<Longrightarrow> forward i s s"
  by (simp add: forward_def)

lemma forward_trans:
  assumes "forward i a b" "forward i b c"
  shows "forward i a c"
proof -
  have "\<exists>r'. rsContractRevision S i c = Inr (r', x) \<and> RevisionNumber (Revision r) \<le> RevisionNumber (Revision r')"
    if a: "rsContractRevision S i a = Inr (r, x)" for r x
  proof -
    from assms(1) a obtain r1 where 1: "rsContractRevision S i b = Inr (r1, x)" "RevisionNumber (Revision r) \<le> RevisionNumber (Revision r1)"
      unfolding forward_def by blast
    with assms(2) obtain r2 where "rsContractRevision S i c = Inr (r2, x)" "RevisionNumber (Revision r1) \<le> RevisionNumber (Revision r2)"
      unfolding forward_def by blast
    with 1 show ?thesis by auto
  qed
  with assms show ?thesis by (simp add: forward_def)
qed

lemma update_forward:
  assumes "inv s" "rsUpdateContractRevision S r u s = Some (x, s')"
  shows "forward (RevID r) s s'"
proof (cases x)
  case (Inl e)
  with assms update_err[of r u s e s'] show ?thesis by (simp add: forward_refl)
next
  case (Inr y)
  with update_ok[OF assms(1)] assms(2) show ?thesis by (fastforce simp: forward_def)
qed

lemma mark_bad_forward: "inv s \<Longrightarrow> forward i s (snd (rsMarkContractBad S j s))"
  using mark_bad by (simp add: forward_def)

lemma syncRevision_forward:
  assumes "inv s" "syncRevision C S LR i r s w = Some (x, s', w')"
  shows "forward i s s'"
  using assms mark_bad_forward[OF assms(1)]
  by (auto simp: syncRevision_def bind_eq_Some_conv forward_refl dest: update_forward split: prod.splits sum.splits if_splits)

lemma finish_forward:
  assumes "inv s" "finish_revision S i contract res s w = Some (x, s', w')"
  shows "forward i s s'"
  using assms update_forward[OF assms(1)]
  by (auto simp: finish_revision_def forward_refl split: prod.splits sum.splits if_splits)

lemma finish_ok:
  assumes "inv s" "finish_revision S i contract res s w = Some (Inr (), s', w')"
  shows "\<exists>revised usage. res = Inr (revised, usage) \<and> RevID revised = i \<and>
    (if RevisionNumber (Revision contract) < RevisionNumber (Revision revised)
     then \<exists>b. rsContractRevision S i s' = Inr (revised, b) else s' = s)"
proof -
  from assms(2) obtain revised usage where r: "res = Inr (revised, usage)" "RevID revised = i"
    by (auto simp: finish_revision_def split: sum.splits if_splits)
  show ?thesis
  proof (cases "RevisionNumber (Revision contract) < RevisionNumber (Revision revised)")
    case True
    with assms(2) r have "rsUpdateContractRevision S revised usage s = Some (Inr (), s')" by (auto simp: finish_revision_def)
    from update_ok[OF assms(1) this] True r show ?thesis by auto
  next
    case False
    with assms(2) r show ?thesis by (auto simp: finish_revision_def)
  qed
qed

text \<open>
  A successful call ran the revise function last on some revision of the contract; when the
  result is newer than that revision it is what the store now holds.
\<close>

lemma WithRevision_ok:
  assumes "inv s" "WithRevision C S LR buffer bh sig i reviseFn s w = Some (Inr (), s', w')"
  shows "\<exists>contract w1 revised usage w2. RevID contract = i \<and> reviseFn contract w1 = (Inr (revised, usage), w2) \<and> RevID revised = i \<and>
    \<not> isBeyondMaxRevisionHeight (FileProofHeight (Revision contract)) buffer bh \<and>
    (RevisionNumber (Revision contract) < RevisionNumber (Revision revised) \<longrightarrow> (\<exists>b. rsContractRevision S i s' = Inr (revised, b)))"
proof -
  from assms(2) obtain contract where c: "rsContractRevision S i s = Inr (contract, False)"
    and h: "\<not> isBeyondMaxRevisionHeight (FileProofHeight (Revision contract)) buffer bh"
    by (auto simp: WithRevision_def split: sum.splits if_splits)
  have id: "RevID contract = i" using revision_id[OF c] .
  obtain res w1 where rf: "reviseFn contract w = (res, w1)" by (cases "reviseFn contract w")
  show ?thesis
  proof (cases res)
    case (Inr y)
    with assms(2) c h rf have "finish_revision S i contract res s w1 = Some (Inr (), s', w')" by (simp add: WithRevision_def)
    from finish_ok[OF assms(1) this] id h rf show ?thesis by (metis (no_types, lifting))
  next
    case (Inl err)
    with assms(2) c h rf obtain synced s1 w2 where sy0: "syncRevision C S LR i (Revision contract) s w1 = Some (synced, s1, w2)"
      and rt: "retry_revision S buffer bh i contract reviseFn synced s1 w2 = Some (Inr (), s', w')"
      by (auto simp: WithRevision_def bind_eq_Some_conv split: if_splits)
    from rt obtain latest where sy: "syncRevision C S LR i (Revision contract) s w1 = Some (Inr (latest, False), s1, w2)"
      and h2: "\<not> isBeyondMaxRevisionHeight (FileProofHeight latest) buffer bh"
      and fin: "(case reviseFn (contract\<lparr>Revision := latest\<rparr>) w2 of (res, w) \<Rightarrow>
        finish_revision S i (contract\<lparr>Revision := latest\<rparr>) res s1 w) = Some (Inr (), s', w')"
      unfolding retry_revision_def using sy0 by (auto split: if_splits sum.splits)
    obtain res2 w3 where rf2: "reviseFn (contract\<lparr>Revision := latest\<rparr>) w2 = (res2, w3)" by (cases "reviseFn (contract\<lparr>Revision := latest\<rparr>) w2")
    have "inv s1" using syncRevision_forward[OF assms(1) sy] by (simp add: forward_def)
    from finish_ok[OF this] fin rf2 obtain revised usage where "res2 = Inr (revised, usage)" "RevID revised = i"
      "RevisionNumber latest < RevisionNumber (Revision revised) \<longrightarrow> (\<exists>b. rsContractRevision S i s' = Inr (revised, b))"
      by (fastforce split: if_splits)
    with rf2 h2 id show ?thesis
      by (intro exI[of _ "contract\<lparr>Revision := latest\<rparr>"] exI[of _ w2] exI[of _ revised] exI[of _ usage] exI[of _ w3]) simp
  qed
qed

lemma WithRevision_forward:
  assumes "inv s" "WithRevision C S LR buffer bh sig i reviseFn s w = Some (x, s', w')"
  shows "forward i s s'"
proof (cases "rsContractRevision S i s")
  case (Inl e)
  with assms show ?thesis by (simp add: WithRevision_def forward_refl)
next
  case (Inr cr)
  obtain contract renewed where cr: "cr = (contract, renewed)" by (cases cr)
  obtain res w1 where rf: "reviseFn contract w = (res, w1)" by (cases "reviseFn contract w")
  show ?thesis
  proof (cases "\<exists>err. res = Inl err \<and> sig err \<and> \<not> renewed \<and> \<not> isBeyondMaxRevisionHeight (FileProofHeight (Revision contract)) buffer bh")
    case False
    with assms Inr cr rf show ?thesis
      by (auto simp: WithRevision_def forward_refl dest: finish_forward split: if_splits sum.splits)
  next
    case True
    with assms(2) Inr cr rf obtain synced s1 w2 where sy: "syncRevision C S LR i (Revision contract) s w1 = Some (synced, s1, w2)"
      and rest: "retry_revision S buffer bh i contract reviseFn synced s1 w2 = Some (x, s', w')"
      by (auto simp: WithRevision_def bind_eq_Some_conv)
    note f1 = syncRevision_forward[OF assms(1) sy]
    then have "inv s1" by (simp add: forward_def)
    with rest f1 show ?thesis
      by (auto simp: retry_revision_def forward_refl dest: finish_forward intro: forward_trans split: sum.splits if_splits prod.splits)
  qed
qed

end

section \<open>The database as a revision store\<close>

definition commit :: "('a \<times> db) outcome \<Rightarrow> db \<Rightarrow> ('a result \<times> db) option" where
  "commit r d = map_option (\<lambda>r. case r of Inl e \<Rightarrow> (Inl e, d) | Inr (x, d') \<Rightarrow> (Inr x, d')) r"

definition pg_revision_store :: "core_ops \<Rightarrow> db revision_store" where
  "pg_revision_store C = \<lparr>
     rsContractRevision = ContractRevision,
     rsUpdateContractRevision = (\<lambda>r u d. commit (UpdateContractRevision C r u d) d),
     rsMarkContractBad = (\<lambda>i d. the (commit (Some (MarkContractBad i d)) d))\<rparr>"

definition revision_inv :: "db \<Rightarrow> bool" where
  "revision_inv d \<longleftrightarrow> store_inv d \<and> contracts_wf d"

lemma markContractBad_keeps:
  assumes "MarkContractBad i d = Inr (x, d')"
  shows "(revision_inv d \<longrightarrow> revision_inv d') \<and> ContractRevision j d' = ContractRevision j d"
proof -
  let ?g = "\<lambda>c. c\<lparr>ct_good := False\<rparr>"
  from assms have d': "d' = update_contract i ?g d" by (auto simp: MarkContractBad_def markContractBad_def Let_def split: if_splits)
  have "revision_inv d \<longrightarrow> revision_inv d'" unfolding revision_inv_def d'
    by (auto intro!: store_inv_update_contracts contracts_wf_update_contracts
        simp: contract_row_wf_def contract_columns_ok_def contract_checks_ok_def)
  moreover have "contract_by_id d' j = map_option (\<lambda>c. if ct_contract_id c = i then ?g c else c) (contract_by_id d j)"
    unfolding d' by (rule find_update_contract) simp
  ultimately show ?thesis by (auto simp: ContractRevision_def split: option.splits)
qed

lemma commit_simps:
  "commit None d = None" "commit (Some (Inl e)) d = Some (Inl e, d)" "commit (Some (Inr (x, d'))) d = Some (Inr x, d')"
  by (simp_all add: commit_def)

lemma commit_cases:
  obtains "r = None" | e where "r = Some (Inl e)" | x d' where "r = Some (Inr (x, d'))"
  by (metis option.exhaust sum.exhaust surj_pair)

lemma commit_Inr: "commit r d = Some (Inr x, d') \<longleftrightarrow> r = Some (Inr (x, d'))"
  by (rule commit_cases[of r]) (auto simp: commit_simps)

lemma commit_Inl: "commit r d = Some (Inl e, d') \<longleftrightarrow> r = Some (Inl e) \<and> d' = d"
  by (rule commit_cases[of r]) (auto simp: commit_simps)

interpretation pg: revision_store_laws "pg_revision_store C" revision_inv
proof unfold_locales
  fix i and s :: db and r b
  assume "rsContractRevision (pg_revision_store C) i s = Inr (r, b)"
  then show "RevID r = i" by (auto simp: pg_revision_store_def ContractRevision_def split: option.splits)
next
  fix s s' :: db and r u
  assume inv: "revision_inv s" and up: "rsUpdateContractRevision (pg_revision_store C) r u s = Some (Inr (), s')"
  from up have eq: "UpdateContractRevision C r u s = Some (Inr ((), s'))" by (simp add: pg_revision_store_def commit_Inr)
  then obtain c where "contract_by_id s (RevID r) = Some c" by (rule UpdateContractRevision_effect)
  then obtain old b where o: "ContractRevision (RevID r) s = Inr (old, b)" by (simp add: ContractRevision_def)
  have wf: "contracts_wf s" using inv by (simp add: revision_inv_def)
  have "\<forall>i. i \<noteq> RevID r \<longrightarrow> ContractRevision i s' = ContractRevision i s" "RevisionNumber (Revision old) < RevisionNumber (Revision r)"
    "ContractRevision (RevID r) s' = Inr (r, b)"
    using revision_step[OF o wf eq] by simp_all
  moreover have "revision_inv s'"
    using inv UpdateContractRevision_inv[OF _ eq] UpdateContractRevision_contracts_wf[OF _ _ eq] by (simp add: revision_inv_def)
  ultimately show "revision_inv s' \<and> (\<exists>old b. rsContractRevision (pg_revision_store C) (RevID r) s = Inr (old, b) \<and>
      RevisionNumber (Revision old) < RevisionNumber (Revision r) \<and> rsContractRevision (pg_revision_store C) (RevID r) s' = Inr (r, b)) \<and>
      (\<forall>i. i \<noteq> RevID r \<longrightarrow> rsContractRevision (pg_revision_store C) i s' = rsContractRevision (pg_revision_store C) i s)"
    using o by (simp add: pg_revision_store_def)
next
  fix s s' :: db and r u e
  assume "rsUpdateContractRevision (pg_revision_store C) r u s = Some (Inl e, s')"
  then show "s' = s" by (simp add: pg_revision_store_def commit_Inl)
next
  fix s :: db and i j
  assume "revision_inv s"
  then show "revision_inv (snd (rsMarkContractBad (pg_revision_store C) i s)) \<and>
      rsContractRevision (pg_revision_store C) j (snd (rsMarkContractBad (pg_revision_store C) i s)) = rsContractRevision (pg_revision_store C) j s"
    using markContractBad_keeps[of i s]
    by (cases "MarkContractBad i s") (auto simp: pg_revision_store_def commit_def)
qed

section \<open>Properties\<close>

lemma isBeyondMaxRevisionHeight_nat:
  "isBeyondMaxRevisionHeight proofHeight buffer height \<longleftrightarrow> unat proofHeight \<le> unat height + unat buffer"
  by (auto simp: isBeyondMaxRevisionHeight_def Let_def word_le_nat_alt word_less_nat_alt unat_sub)

text \<open>
  Claim C11: whatever the host and the revise function do, running a revision on the database
  keeps the store's invariants, never lowers the stored revision number of the contract, keeps
  whether it was renewed, and leaves the revisions of all other contracts alone; and when it
  reports success, the last call of the revise function returned a revision of this contract
  that is revisable at this height, and if that revision was newer it is the one stored.
\<close>

theorem WithRevision_safe:
  assumes "store_inv d" and "contracts_wf d"
    and "WithRevision C (pg_revision_store C) LatestRevision buffer bh invalidSig i reviseFn d w = Some (res, d', w')"
  shows "store_inv d' \<and> contracts_wf d' \<and> (\<forall>j. j \<noteq> i \<longrightarrow> ContractRevision j d' = ContractRevision j d) \<and>
    (\<forall>r b. ContractRevision i d = Inr (r, b) \<longrightarrow> (\<exists>r'. ContractRevision i d' = Inr (r', b) \<and>
       RevisionNumber (Revision r) \<le> RevisionNumber (Revision r'))) \<and>
    (res = Inr () \<longrightarrow> (\<exists>contract w1 revised usage w2. reviseFn contract w1 = (Inr (revised, usage), w2) \<and> RevID contract = i \<and> RevID revised = i \<and>
       unat bh + unat buffer < unat (FileProofHeight (Revision contract)) \<and>
       (RevisionNumber (Revision contract) < RevisionNumber (Revision revised) \<longrightarrow> (\<exists>b. ContractRevision i d' = Inr (revised, b)))))"
proof -
  have S: "rsContractRevision (pg_revision_store C) = ContractRevision" by (simp add: pg_revision_store_def)
  have inv: "revision_inv d" using assms(1,2) by (simp add: revision_inv_def)
  from pg.WithRevision_forward[OF inv assms(3)]
  have "revision_inv d'" "\<forall>j. j \<noteq> i \<longrightarrow> ContractRevision j d' = ContractRevision j d"
    "\<forall>r b. ContractRevision i d = Inr (r, b) \<longrightarrow> (\<exists>r'. ContractRevision i d' = Inr (r', b) \<and> RevisionNumber (Revision r) \<le> RevisionNumber (Revision r'))"
    unfolding pg.forward_def S by blast+
  moreover have "\<exists>contract w1 revised usage w2. reviseFn contract w1 = (Inr (revised, usage), w2) \<and> RevID contract = i \<and> RevID revised = i \<and>
       unat bh + unat buffer < unat (FileProofHeight (Revision contract)) \<and>
       (RevisionNumber (Revision contract) < RevisionNumber (Revision revised) \<longrightarrow> (\<exists>b. ContractRevision i d' = Inr (revised, b)))" if "res = Inr ()"
    using pg.WithRevision_ok[OF inv assms(3)[unfolded that]]
    unfolding S isBeyondMaxRevisionHeight_nat by (metis not_le)
  ultimately show ?thesis by (simp add: revision_inv_def)
qed

definition sample_revise :: "nat revise_fn" where
  "sample_revise r n = (if n = 0 then (Inl ErrInvalidSignature, 1) else (Inr (r\<lparr>Revision := (Revision r)\<lparr>RevisionNumber := RevisionNumber (Revision r) + 1\<rparr>\<rparr>, plain_usage 5 0), n + 1))"

lemma WithRevision_safe_witness:
  "\<exists>d' r. WithRevision sample_core (pg_revision_store sample_core) (\<lambda>_ _ n. (Inr \<lparr>LatestContract = sample_fc\<lparr>RevisionNumber := 7\<rparr>, Renewed = False\<rparr>, n))
      10 100 (\<lambda>e. e = ErrInvalidSignature) 21 sample_revise sample_db 0 = Some (Inr (), d', 2) \<and> store_inv d' \<and>
     ContractRevision 21 d' = Inr (r, False) \<and> 1 \<le> RevisionNumber (Revision r)"
proof -
  let ?LR = "\<lambda>_ _ n :: nat. (Inr \<lparr>LatestContract = sample_fc\<lparr>RevisionNumber := 7\<rparr>, Renewed = False\<rparr>, n)"
  obtain d' where w: "WithRevision sample_core (pg_revision_store sample_core) ?LR 10 100 (\<lambda>e. e = ErrInvalidSignature) 21 sample_revise sample_db 0 = Some (Inr (), d', 2)"
    by (simp add: WithRevision_def pg_revision_store_def ContractRevision_def isBeyondMaxRevisionHeight_def syncRevision_def retry_revision_def
        finish_revision_def sample_revise_def commit_def UpdateContractRevision_def Let_def word_le_nat_alt word_less_nat_alt contract_defs sample_core_usage
        sample_core_def no_usage_def plain_usage_def sample_defs sample_fc_def revise_row_def)
  have "ContractRevision 21 sample_db = Inr (\<lparr>RevID = 21, Revision = sample_fc\<rparr>, False)"
    by (simp add: ContractRevision_def contract_by_id_def sample_defs)
  with WithRevision_safe[OF sample_db_inv sample_db_contracts_wf w] w show ?thesis by (auto simp: sample_fc_def)
qed

end
