(* ===== verification/Host_Store.thy ===== *)
theory Host_Store
  imports Contract_Store "HOL-Library.Char_ord" "HOL-Library.List_Lexorder"
begin

text \<open>
  The hosts of the store, persist/postgres/hosts.go: announcements and imports, the
  blocklist, scan results and prices, stuck and lost hosts, pruning, and the queries over
  hosts with the usability checks that the SQL fragments compute.

  The names of the two transport protocols (packages of go.sia.tech/coreutils) are a
  parameter \<open>protocols\<close>. The decay of the uptime is \<open>EXP\<close> in the database; it is the
  parameter \<open>decay\<close>, a function of the time since the last scan.
\<close>

section \<open>Addresses\<close>

record protocols =
  siamuxProtocol :: string
  quicProtocol :: string

fun last_index :: "'a \<Rightarrow> 'a list \<Rightarrow> nat option" where
  "last_index x [] = None"
| "last_index x (y # ys) =
     (case last_index x ys of Some i \<Rightarrow> Some (Suc i) | None \<Rightarrow> if x = y then Some 0 else None)"

fun first_index :: "'a \<Rightarrow> 'a list \<Rightarrow> nat option" where
  "first_index x [] = None"
| "first_index x (y # ys) = (if x = y then Some 0 else map_option Suc (first_index x ys))"

text \<open>\<open>net.SplitHostPort\<close> of the standard library; \<open>None\<close> is an error.\<close>

definition SplitHostPort :: "string \<Rightarrow> (string \<times> string) option" where
  "SplitHostPort hostport =
     (case last_index CHR '':'' hostport of
        None \<Rightarrow> None
      | Some i \<Rightarrow>
          if hd hostport = CHR ''[''
          then (case first_index CHR '']'' hostport of
                  None \<Rightarrow> None
                | Some e \<Rightarrow>
                    if e + 1 \<noteq> i \<or> CHR ''['' \<in> set (drop 1 hostport) \<or> CHR '']'' \<in> set (drop (e + 1) hostport) then None
                    else Some (take (e - 1) (drop 1 hostport), drop (i + 1) hostport))
          else if CHR '':'' \<in> set (take i hostport) \<or> CHR ''['' \<in> set hostport \<or> CHR '']'' \<in> set hostport then None
          else Some (take i hostport, drop (i + 1) hostport))"

text \<open>\<open>strconv.Atoi\<close>: an optional sign and decimal digits, in the range of a 64-bit \<open>int\<close>.\<close>

definition is_digit :: "char \<Rightarrow> bool" where
  "is_digit c \<longleftrightarrow> 48 \<le> (of_char c :: nat) \<and> (of_char c :: nat) \<le> 57"

definition decimal :: "string \<Rightarrow> int" where
  "decimal ds = foldl (\<lambda>n c. n * 10 + (int (of_char c) - 48)) 0 ds"

definition Atoi :: "string \<Rightarrow> int option" where
  "Atoi s =
     (let neg = (s \<noteq> [] \<and> hd s = CHR ''-'');
          ds = (if s \<noteq> [] \<and> hd s \<in> {CHR ''-'', CHR ''+''} then tl s else s);
          v = (if neg then - decimal ds else decimal ds)
      in if ds = [] \<or> \<not> list_all is_digit ds \<or> v < - (2 ^ 63) \<or> v > 2 ^ 63 - 1 then None else Some v)"

definition badQUICPorts :: "int list" where
  "badQUICPorts = [1, 7, 9, 11, 13, 15, 17, 19, 20, 21, 22, 23, 25, 37, 42, 43, 53, 69, 77, 79, 87, 95, 101, 102,
     103, 104, 109, 110, 111, 113, 115, 117, 119, 123, 135, 137, 139, 143, 161, 179, 389, 427, 465, 512, 513, 514,
     515, 526, 530, 531, 532, 540, 548, 554, 556, 563, 587, 601, 636, 989, 990, 993, 995, 1719, 1720, 1723, 2049,
     3659, 4045, 4190, 5060, 5061, 6000, 6566, 6665, 6666, 6667, 6668, 6669, 6679, 6697, 10080]"

definition IsBadQUICAddress :: "protocols \<Rightarrow> net_address \<Rightarrow> bool" where
  "IsBadQUICAddress P na =
     (if Protocol na \<noteq> quicProtocol P then False
      else case SplitHostPort (Address na) of
        None \<Rightarrow> True
      | Some (_, portStr) \<Rightarrow> (case Atoi portStr of None \<Rightarrow> True | Some port \<Rightarrow> port \<in> set badQUICPorts))"

section \<open>Announcements and imports\<close>

definition announced_quic :: "protocols \<Rightarrow> net_address list \<Rightarrow> bool" where
  "announced_quic P ha \<longleftrightarrow> (\<exists>na \<in> set ha. Protocol na = quicProtocol P \<and> \<not> IsBadQUICAddress P na)"

definition announced_siamux :: "protocols \<Rightarrow> net_address list \<Rightarrow> bool" where
  "announced_siamux P ha \<longleftrightarrow> (\<exists>na \<in> set ha. Protocol na \<noteq> quicProtocol P \<and> Protocol na = siamuxProtocol P)"

text \<open>The defaults of a new row of the table \<open>hosts\<close>.\<close>

definition unscanned_settings :: host_settings where
  "unscanned_settings = \<lparr>ProtocolVersion = (0, 0, 0), WalletAddress = 0, MaxCollateral = 0, RemainingStorage = 0,
     Prices = \<lparr>ContractPrice = 0, StoragePrice = 0, IngressPrice = 0, EgressPrice = 0, TipHeight = 0, ValidUntil = 0,
       Collateral = 0, FreeSectorPrice = 0, PricesSignature = 0\<rparr>,
     Release = [], AcceptingContracts = False, MaxContractDuration = 0, TotalStorage = 0\<rparr>"

definition new_host_row :: "gotime \<Rightarrow> int \<Rightarrow> public_key \<Rightarrow> gotime \<Rightarrow> bool \<Rightarrow> bool \<Rightarrow> host_row" where
  "new_host_row now i hk announced hasQUIC hasSiamux =
     \<lparr>h_id = i, h_public_key = hk, h_consecutive_failed_scans = 0, h_recent_uptime = 9 / 10, h_last_integrity_check = now,
      h_last_failed_scan = None, h_last_successful_scan = None, h_last_announcement = announced, h_has_quic = hasQUIC,
      h_has_siamux = hasSiamux, h_next_scan = now, h_country_code = [], h_location = (0, 0), h_lost_sectors = 0,
      h_unpinned_sectors = 0, h_stuck_since = None, h_scans = 0, h_scans_failed = 0, h_usage_account_funding = 0,
      h_usage_total_spent = 0, h_settings = unscanned_settings, h_settings_valid_until = None\<rparr>"

text \<open>\<open>INSERT INTO hosts ... ON CONFLICT (public_key) DO UPDATE\<close>, with the row to insert and the update.\<close>

definition upsert_host :: "host_row \<Rightarrow> (host_row \<Rightarrow> host_row) \<Rightarrow> int tx" where
  "upsert_host new upd d =
     (case find (\<lambda>h. h_public_key h = h_public_key new) (tHosts d) of
        Some h \<Rightarrow> Inr (h_id h, d\<lparr>tHosts := update_rows (\<lambda>h. h_public_key h = h_public_key new) upd (tHosts d), seqHosts := seqHosts d + 1\<rparr>)
      | None \<Rightarrow> Inr (seqHosts d, d\<lparr>tHosts := tHosts d @ [new], seqHosts := seqHosts d + 1\<rparr>))"

text \<open>Replacing the addresses of a host; the protocol must have a number in the database.\<close>

definition replace_addresses :: "protocols \<Rightarrow> int \<Rightarrow> net_address list \<Rightarrow> unit tx" where
  "replace_addresses P hostID addresses d =
     (if \<exists>na \<in> set addresses. Protocol na \<noteq> siamuxProtocol P \<and> Protocol na \<noteq> quicProtocol P
      then Inl (ErrMsg ''unknown network protocol'')
      else Inr ((), d\<lparr>tHostAddresses := filter (\<lambda>a. ha_host_id a \<noteq> hostID) (tHostAddresses d) @
             map (\<lambda>na. \<lparr>ha_host_id = hostID, ha_net_address = Address na, ha_protocol = Protocol na\<rparr>) addresses\<rparr>))"

definition AddHostAnnouncement :: "protocols \<Rightarrow> gotime \<Rightarrow> public_key \<Rightarrow> net_address list \<Rightarrow> gotime \<Rightarrow> unit tx" where
  "AddHostAnnouncement P now hk ha ts d =
     (let hasQUIC = announced_quic P ha; hasSiamux = announced_siamux P ha
      in rbind (upsert_host (new_host_row now (seqHosts d) hk ts hasQUIC hasSiamux)
                 (\<lambda>h. h\<lparr>h_last_announcement := ts, h_has_quic := hasQUIC, h_has_siamux := hasSiamux\<rparr>) d)
           (\<lambda>(hostID, d). replace_addresses P hostID ha d))"

definition ImportHost :: "protocols \<Rightarrow> gotime \<Rightarrow> public_key \<Rightarrow> net_address list \<Rightarrow> unit tx" where
  "ImportHost P now hk addresses d =
     (let hasQUIC = announced_quic P addresses; hasSiamux = announced_siamux P addresses
      in rbind (upsert_host (new_host_row now (seqHosts d) hk now hasQUIC hasSiamux)
                 (\<lambda>h. h\<lparr>h_has_quic := hasQUIC, h_has_siamux := hasSiamux, h_next_scan := now, h_consecutive_failed_scans := 0\<rparr>) d)
           (\<lambda>(hostID, d). replace_addresses P hostID addresses d))"

section \<open>The blocklist\<close>

text \<open>The existing reasons are read through the table \<open>hosts\<close>.\<close>

definition blocked_reasons :: "db \<Rightarrow> public_key \<Rightarrow> string list" where
  "blocked_reasons d hk =
     (if host_id_of d hk = None then []
      else case find (\<lambda>b. hb_public_key b = hk) (tHostBlocklist d) of None \<Rightarrow> [] | Some b \<Rightarrow> hb_reasons b)"

definition upsert_blocked :: "gotime \<Rightarrow> public_key \<Rightarrow> string list \<Rightarrow> db \<Rightarrow> db" where
  "upsert_blocked now hk reasons d =
     (if hk \<in> hb_public_key ` set (tHostBlocklist d)
      then d\<lparr>tHostBlocklist := update_rows (\<lambda>b. hb_public_key b = hk) (\<lambda>b. b\<lparr>hb_reasons := reasons\<rparr>) (tHostBlocklist d)\<rparr>
      else d\<lparr>tHostBlocklist := tHostBlocklist d @ [\<lparr>hb_public_key = hk, hb_added = now, hb_reasons = reasons\<rparr>]\<rparr>)"

text \<open>The unpinned sectors of a blocked host are given up.\<close>

definition drop_unpinned :: "int \<Rightarrow> db \<Rightarrow> db result" where
  "drop_unpinned hostID d =
     (let unpinnable = cnt (unpinned_on hostID) (tSectors d);
          d = d\<lparr>tSectors := update_rows (unpinned_on hostID) (\<lambda>s. s\<lparr>sec_host_id := None, sec_failed_checks := 0\<rparr>) (tSectors d)\<rparr>
      in if unpinnable > 0
         then incrementHostUnpinnedSectors hostID (- unpinnable)
                (incrementStat statUnpinnedSectors (- unpinnable) (incrementStat statUnpinnableSectors unpinnable d))
         else Inr d)"

definition block_host :: "gotime \<Rightarrow> string list \<Rightarrow> public_key \<Rightarrow> db \<Rightarrow> db result" where
  "block_host now reasons hk d =
     (let updated = remdups_adj (sort (blocked_reasons d hk @ reasons));
          d = upsert_blocked now hk updated d
      in case host_id_of d hk of
           None \<Rightarrow> Inr d
         | Some hostID \<Rightarrow>
             drop_unpinned hostID (d\<lparr>tContracts := update_rows (\<lambda>c. ct_host_id c = hostID) (\<lambda>c. c\<lparr>ct_good := False\<rparr>) (tContracts d)\<rparr>))"

fun BlockHosts :: "gotime \<Rightarrow> public_key list \<Rightarrow> string list \<Rightarrow> unit tx" where
  "BlockHosts now [] reasons d = Inr ((), d)"
| "BlockHosts now (hk # hks) reasons d = rbind (block_host now reasons hk d) (BlockHosts now hks reasons)"

definition mark_good :: "public_key list \<Rightarrow> db \<Rightarrow> db" where
  "mark_good hks d = d\<lparr>tContracts := update_rows
     (\<lambda>c. \<exists>h \<in> set (tHosts d). h_id h = ct_host_id c \<and> h_public_key h \<in> set hks) (\<lambda>c. c\<lparr>ct_good := True\<rparr>) (tContracts d)\<rparr>"

definition UnblockHost :: "public_key \<Rightarrow> unit tx" where
  "UnblockHost hk d =
     Inr ((), mark_good [hk] (d\<lparr>tHostBlocklist := filter (\<lambda>b. hb_public_key b \<noteq> hk) (tHostBlocklist d)\<rparr>))"

definition RemoveBlocklistReasons :: "public_key list \<Rightarrow> string list \<Rightarrow> nat tx" where
  "RemoveBlocklistReasons hks reasons d =
     (if hks = [] \<or> reasons = [] then Inr (0, d)
      else
        let gone = (\<lambda>b. hb_public_key b \<in> set hks \<and> (\<forall>r \<in> set (hb_reasons b). r \<in> set reasons));
            unblocked = map hb_public_key (filter gone (tHostBlocklist d));
            d = d\<lparr>tHostBlocklist := filter (\<lambda>b. \<not> gone b) (tHostBlocklist d)\<rparr>;
            d = (if unblocked \<noteq> [] then mark_good unblocked d else d)
        in Inr (length unblocked, d\<lparr>tHostBlocklist := update_rows (\<lambda>b. hb_public_key b \<in> set hks)
               (\<lambda>b. b\<lparr>hb_reasons := filter (\<lambda>r. r \<notin> set reasons) (hb_reasons b)\<rparr>) (tHostBlocklist d)\<rparr>))"

definition BlockedHosts :: "(blocklist_row list \<Rightarrow> blocklist_row list) \<Rightarrow> nat \<Rightarrow> nat \<Rightarrow> db \<Rightarrow> public_key list" where
  "BlockedHosts scan offset limit d = map hb_public_key (page_of (scan (tHostBlocklist d)) offset limit)"

section \<open>Scans and prices\<close>

text \<open>The time since the last scan, zero for a host that was never scanned.\<close>

definition elapsed_time :: "gotime \<Rightarrow> host_row \<Rightarrow> duration" where
  "elapsed_time now h =
     (case (h_last_failed_scan h, h_last_successful_scan h) of
        (None, None) \<Rightarrow> 0
      | (Some t, None) \<Rightarrow> now - t
      | (None, Some t) \<Rightarrow> now - t
      | (Some t, Some t') \<Rightarrow> now - max t t')"

definition failed_scan :: "(duration \<Rightarrow> rat) \<Rightarrow> gotime \<Rightarrow> gotime \<Rightarrow> host_row \<Rightarrow> host_row" where
  "failed_scan decay now nextScan h =
     h\<lparr>h_recent_uptime := h_recent_uptime h * decay (elapsed_time now h),
       h_consecutive_failed_scans := h_consecutive_failed_scans h + 1,
       h_scans := h_scans h + 1, h_scans_failed := h_scans_failed h + 1,
       h_last_failed_scan := Some now, h_next_scan := nextScan\<rparr>"

definition successful_scan :: "(duration \<Rightarrow> rat) \<Rightarrow> gotime \<Rightarrow> host_settings \<Rightarrow> location \<Rightarrow> gotime \<Rightarrow> host_row \<Rightarrow> host_row" where
  "successful_scan decay now hs loc nextScan h =
     h\<lparr>h_recent_uptime := 1 * (1 - decay (elapsed_time now h)) + h_recent_uptime h * decay (elapsed_time now h),
       h_consecutive_failed_scans := 0, h_scans := h_scans h + 1,
       h_last_successful_scan := Some now, h_next_scan := nextScan,
       h_country_code := (if CountryCode loc \<noteq> [] then CountryCode loc else h_country_code h),
       h_location := (if (Latitude loc, Longitude loc) \<noteq> (0, 0) then (Latitude loc, Longitude loc) else h_location h),
       h_settings := hs, h_settings_valid_until := Some (ValidUntil (Prices hs))\<rparr>"

definition uptime_ok :: "host_row \<Rightarrow> bool" where
  "uptime_ok h \<longleftrightarrow> 0 < h_recent_uptime h \<and> h_recent_uptime h < 1"

definition incrementNumScans :: "bool \<Rightarrow> db \<Rightarrow> db" where
  "incrementNumScans success d =
     (let d = incrementStat statScans 1 d in if success then d else incrementStat statScansFailed 1 d)"

text \<open>The columns of type \<open>BIGINT\<close> that hold unsigned values of the host.\<close>

definition settings_columns_ok :: "host_settings \<Rightarrow> bool" where
  "settings_columns_ok hs \<longleftrightarrow> int8_ok (MaxContractDuration hs) \<and> int8_ok (RemainingStorage hs) \<and> int8_ok (TotalStorage hs) \<and>
     int8_ok (TipHeight (Prices hs))"

definition UpdateHostScan ::
  "(duration \<Rightarrow> rat) \<Rightarrow> gotime \<Rightarrow> public_key \<Rightarrow> host_settings \<Rightarrow> location \<Rightarrow> bool \<Rightarrow> gotime \<Rightarrow> unit tx" where
  "UpdateHostScan decay now hk hs loc scanSucceeded nextScan d =
     (let upd = (if scanSucceeded then successful_scan decay now hs loc nextScan else failed_scan decay now nextScan);
          rows = update_rows (\<lambda>h. h_public_key h = hk) upd (tHosts d)
      in if hk \<notin> h_public_key ` set (tHosts d) then Inl ErrHostNotFound
         else if scanSucceeded \<and> \<not> settings_columns_ok hs then Inl ErrOutOfRange
         else if \<exists>h \<in> set rows. \<not> uptime_ok h then Inl ErrCheckViolation
         else Inr ((), incrementNumScans scanSucceeded (d\<lparr>tHosts := rows\<rparr>)))"

text \<open>\<open>settings_valid_until < $8\<close> is not true for a host without settings.\<close>

definition UpdateHostPrices :: "public_key \<Rightarrow> host_prices \<Rightarrow> unit tx" where
  "UpdateHostPrices hk prices d =
     (if \<not> int8_ok (TipHeight prices) then Inl ErrOutOfRange
      else Inr ((), d\<lparr>tHosts := update_rows
       (\<lambda>h. h_public_key h = hk \<and> (case h_settings_valid_until h of None \<Rightarrow> False | Some t \<Rightarrow> t < ValidUntil prices))
       (\<lambda>h. h\<lparr>h_settings := (h_settings h)\<lparr>Prices := prices\<rparr>, h_settings_valid_until := Some (ValidUntil prices)\<rparr>) (tHosts d)\<rparr>))"

section \<open>Maintenance of the table\<close>

definition host_prunable :: "db \<Rightarrow> gotime \<Rightarrow> int \<Rightarrow> host_row \<Rightarrow> bool" where
  "host_prunable d minLastSuccessfulScan minFailed h \<longleftrightarrow>
     (case h_last_successful_scan h of None \<Rightarrow> True | Some t \<Rightarrow> t \<le> minLastSuccessfulScan) \<and>
     h_consecutive_failed_scans h \<ge> minFailed \<and> \<not> (\<exists>c \<in> set (tContracts d). ct_host_id c = h_id h)"

text \<open>
  Deleting a host deletes its addresses and its rows of the funding tables; it fails while a
  sector refers to the host.
\<close>

definition PruneHosts :: "gotime \<Rightarrow> int \<Rightarrow> nat tx" where
  "PruneHosts minLastSuccessfulScan minFailed d =
     (let gone = map h_id (filter (host_prunable d minLastSuccessfulScan minFailed) (tHosts d))
      in if \<exists>s \<in> set (tSectors d). \<exists>i \<in> set gone. sec_host_id s = Some i then Inl ErrForeignKeyViolation
         else Inr (length gone, d\<lparr>tHosts := filter (\<lambda>h. \<not> host_prunable d minLastSuccessfulScan minFailed h) (tHosts d),
                tHostAddresses := filter (\<lambda>a. ha_host_id a \<notin> set gone) (tHostAddresses d),
                tAccountHosts := filter (\<lambda>r. ah_host_id r \<notin> set gone) (tAccountHosts d),
                tPoolHosts := filter (\<lambda>r. ph_host_id r \<notin> set gone) (tPoolHosts d),
                tPoolAttachments := filter (\<lambda>r. pa_host_id r \<notin> set gone) (tPoolAttachments d)\<rparr>))"

definition ResetLostSectors :: "public_key \<Rightarrow> unit tx" where
  "ResetLostSectors hk d =
     (if hk \<notin> h_public_key ` set (tHosts d) then Inl ErrHostNotFound
      else Inr ((), d\<lparr>tHosts := update_rows (\<lambda>h. h_public_key h = hk) (\<lambda>h. h\<lparr>h_lost_sectors := 0\<rparr>) (tHosts d)\<rparr>))"

definition UpdateStuckHosts :: "gotime \<Rightarrow> public_key list \<Rightarrow> unit tx" where
  "UpdateStuckHosts now stuck d =
     (let hs = update_rows (\<lambda>h. h_public_key h \<in> set stuck)
                 (\<lambda>h. h\<lparr>h_stuck_since := (case h_stuck_since h of None \<Rightarrow> Some now | Some t \<Rightarrow> Some t)\<rparr>) (tHosts d)
      in Inr ((), d\<lparr>tHosts := update_rows (\<lambda>h. h_stuck_since h \<noteq> None \<and> h_public_key h \<notin> set stuck)
                 (\<lambda>h. h\<lparr>h_stuck_since := None\<rparr>) hs\<rparr>))"

definition StuckHosts :: "db \<Rightarrow> (public_key \<times> gotime \<times> int) list" where
  "StuckHosts d = map (\<lambda>h. (h_public_key h, the (h_stuck_since h), h_unpinned_sectors h)) (filter (\<lambda>h. h_stuck_since h \<noteq> None) (tHosts d))"

definition on_blocklist :: "db \<Rightarrow> host_row \<Rightarrow> bool" where
  "on_blocklist d h \<longleftrightarrow> h_public_key h \<in> hb_public_key ` set (tHostBlocklist d)"

definition HostsForIntegrityChecks :: "gotime \<Rightarrow> (host_row list \<Rightarrow> host_row list) \<Rightarrow> gotime \<Rightarrow> nat \<Rightarrow> public_key list tx" where
  "HostsForIntegrityChecks now scan maxLastCheck limit d =
     (let due = (\<lambda>h. (\<exists>s \<in> set (tSectors d). sec_host_id s = Some (h_id h) \<and> sec_next_check s \<le> now) \<and>
                     \<not> on_blocklist d h \<and> h_last_integrity_check h \<le> maxLastCheck);
          ids = map h_id (take limit (scan (filter due (tHosts d))))
      in Inr (map h_public_key (filter (\<lambda>h. h_id h \<in> set ids) (tHosts d)),
              d\<lparr>tHosts := update_rows (\<lambda>h. h_id h \<in> set ids) (\<lambda>h. h\<lparr>h_last_integrity_check := now\<rparr>) (tHosts d)\<rparr>))"

section \<open>Queries\<close>

definition HostsForScanning :: "gotime \<Rightarrow> (host_row list \<Rightarrow> host_row list) \<Rightarrow> db \<Rightarrow> public_key list" where
  "HostsForScanning now scan d =
     map h_public_key (stable_sort (\<lambda>a b. h_next_scan a < h_next_scan b) (scan (filter (\<lambda>h. h_next_scan h \<le> now) (tHosts d))))"

text \<open>\<open>state IN (0,1) AND renewed_to IS NULL AND good AND proof_height > scanned_height\<close>\<close>

definition good_contract_on :: "db \<Rightarrow> host_row \<Rightarrow> contract_row \<Rightarrow> bool" where
  "good_contract_on d h c \<longleftrightarrow> ct_host_id c = h_id h \<and> revisable d c \<and> ct_good c"

definition has_unpinned :: "db \<Rightarrow> host_row \<Rightarrow> bool" where
  "has_unpinned d h \<longleftrightarrow> (\<exists>s \<in> set (tSectors d). unpinned_on (h_id h) s)"

definition HostsWithUnpinnableSectors :: "db \<Rightarrow> public_key list" where
  "HostsWithUnpinnableSectors d =
     map h_public_key (filter (\<lambda>h. has_unpinned d h \<and> \<not> (\<exists>c \<in> set (tContracts d). good_contract_on d h c)) (tHosts d))"

definition HostsForFunding :: "db \<Rightarrow> public_key list" where
  "HostsForFunding d = map h_public_key (filter (\<lambda>h. \<exists>c \<in> set (tContracts d). good_contract_on d h c) (tHosts d))"

definition HostsForPinning :: "db \<Rightarrow> public_key list" where
  "HostsForPinning d =
     map h_public_key (filter (\<lambda>h. has_unpinned d h \<and> (\<exists>c \<in> set (tContracts d). good_contract_on d h c)) (tHosts d))"

definition HostsForPruning :: "gotime \<Rightarrow> db \<Rightarrow> public_key list" where
  "HostsForPruning now d =
     map h_public_key (filter (\<lambda>h. \<exists>c \<in> set (tContracts d). good_contract_on d h c \<and> ct_next_prune c < now) (tHosts d))"

definition HostsWithLostSectors :: "db \<Rightarrow> public_key list" where
  "HostsWithLostSectors d = map h_public_key (filter (\<lambda>h. h_lost_sectors h > 0) (tHosts d))"

section \<open>Usability\<close>

text \<open>
  \<open>sqlUsabilityCheckColumns\<close>, one expression per check, and \<open>sqlUsabilityFilter\<close>, the conditions
  of the \<open>WHERE\<close> clauses. A successful scan sets \<open>last_successful_scan\<close> and
  \<open>settings_valid_until\<close> together, so the comparison of the two is not \<open>NULL\<close> for a host with
  settings.
\<close>

definition version_number :: "version \<Rightarrow> nat" where
  "version_number v = (case v of (a, b, c) \<Rightarrow> unat a * 2 ^ 16 + unat b * 2 ^ 8 + unat c)"

definition has_settings :: "host_row \<Rightarrow> bool" where
  "has_settings h \<longleftrightarrow> h_last_successful_scan h \<noteq> None"

definition prices_valid :: "host_row \<Rightarrow> bool" where
  "prices_valid h = (case (h_settings_valid_until h, h_last_successful_scan h) of
     (Some v, Some l) \<Rightarrow> v \<ge> l + 15 * time_minute | _ \<Rightarrow> False)"

definition one_sc :: nat where "one_sc = 10 ^ 24"
definition one_tb :: nat where "one_tb = 10 ^ 12"
definition sectors_per_tb :: nat where "sectors_per_tb = 250000"

definition sqlUsabilityCheckColumns :: "global_settings \<Rightarrow> host_row \<Rightarrow> usability" where
  "sqlUsabilityCheckColumns g h =
     (let hs = h_settings h; p = Prices hs; lim = usability_limits g; period = unat (Period (maintenance g)) in
      \<lparr>UUptime = (h_recent_uptime h \<ge> 9 / 10),
       UMaxContractDuration = (has_settings h \<and> unat (MaxContractDuration hs) \<ge> period),
       UMaxCollateral = (has_settings h \<and> MaxCollateral hs \<ge> Collateral p * one_tb * period),
       UProtocolVersion = (has_settings h \<and> version_number (ProtocolVersion hs) \<ge> version_number (MinProtocolVersion lim)),
       UPriceValidity = (has_settings h \<and> prices_valid h),
       UAcceptingContracts = (has_settings h \<and> AcceptingContracts hs),
       UQUIC = h_has_quic h,
       USiamux = h_has_siamux h,
       UContractPrice = (has_settings h \<and> ContractPrice p \<le> one_sc),
       UCollateral = (has_settings h \<and> Collateral p \<ge> MinCollateral lim \<and> Collateral p \<ge> 2 * StoragePrice p),
       UStoragePrice = (has_settings h \<and> StoragePrice p \<le> MaxStoragePrice lim),
       UIngressPrice = (has_settings h \<and> IngressPrice p \<le> MaxIngressPrice lim),
       UEgressPrice = (has_settings h \<and> EgressPrice p \<le> MaxEgressPrice lim),
       UFreeSectorPrice = (has_settings h \<and> FreeSectorPrice p \<le> one_sc div sectors_per_tb)\<rparr>)"

definition sqlUsabilityFilter :: "global_settings \<Rightarrow> host_row \<Rightarrow> bool" where
  "sqlUsabilityFilter g h \<longleftrightarrow>
     (let hs = h_settings h; p = Prices hs; lim = usability_limits g; period = unat (Period (maintenance g)) in
      h_recent_uptime h \<ge> 9 / 10 \<and> has_settings h \<and> unat (MaxContractDuration hs) \<ge> period \<and>
      MaxCollateral hs \<ge> Collateral p * one_tb * period \<and>
      version_number (ProtocolVersion hs) \<ge> version_number (MinProtocolVersion lim) \<and> prices_valid h \<and>
      AcceptingContracts hs \<and> h_has_quic h \<and> h_has_siamux h \<and> ContractPrice p \<le> one_sc \<and>
      Collateral p \<ge> MinCollateral lim \<and> Collateral p \<ge> 2 * StoragePrice p \<and> StoragePrice p \<le> MaxStoragePrice lim \<and>
      IngressPrice p \<le> MaxIngressPrice lim \<and> EgressPrice p \<le> MaxEgressPrice lim \<and>
      FreeSectorPrice p \<le> one_sc div sectors_per_tb)"

text \<open>The addresses of a host, without those that browsers cannot reach.\<close>

definition decorateHostAddresses :: "protocols \<Rightarrow> db \<Rightarrow> int \<Rightarrow> net_address list" where
  "decorateHostAddresses P d hostID =
     filter (\<lambda>na. \<not> IsBadQUICAddress P na)
       (map (\<lambda>a. \<lparr>Protocol = ha_protocol a, Address = ha_net_address a\<rparr>) (filter (\<lambda>a. ha_host_id a = hostID) (tHostAddresses d)))"

definition time_of :: "gotime option \<Rightarrow> gotime" where
  "time_of t = (case t of None \<Rightarrow> 0 | Some t \<Rightarrow> t)"

definition scanHost :: "protocols \<Rightarrow> db \<Rightarrow> host_row \<Rightarrow> host" where
  "scanHost P d h =
     \<lparr>PublicKey = h_public_key h, LastAnnouncement = h_last_announcement h, LastFailedScan = time_of (h_last_failed_scan h),
      LastSuccessfulScan = time_of (h_last_successful_scan h), NextScan = h_next_scan h,
      ConsecutiveFailedScans = h_consecutive_failed_scans h, RecentUptime = h_recent_uptime h,
      Addresses = decorateHostAddresses P d (h_id h), HostCountryCode = h_country_code h, HostLatitude = fst (h_location h),
      HostLongitude = snd (h_location h),
      Settings = (h_settings h)\<lparr>Prices := (Prices (h_settings h))\<lparr>ValidUntil := time_of (h_settings_valid_until h)\<rparr>\<rparr>,
      Usability = sqlUsabilityCheckColumns (tGlobals d) h, Blocked = on_blocklist d h,
      BlockedReasons = (case find (\<lambda>b. hb_public_key b = h_public_key h) (tHostBlocklist d) of None \<Rightarrow> [] | Some b \<Rightarrow> hb_reasons b),
      LostSectors = of_int (h_lost_sectors h), UnpinnedSectors = of_int (h_unpinned_sectors h),
      AccountFunding = h_usage_account_funding h, TotalSpent = h_usage_total_spent h, StuckSince = time_of (h_stuck_since h)\<rparr>"

definition Host :: "protocols \<Rightarrow> public_key \<Rightarrow> db \<Rightarrow> host result" where
  "Host P hk d =
     (case find (\<lambda>h. h_public_key h = hk) (tHosts d) of None \<Rightarrow> Inl ErrHostNotFound | Some h \<Rightarrow> Inr (scanHost P d h))"

record host_query_opts =
  OptUsable :: "bool option"
  OptBlocked :: "bool option"
  OptActiveContracts :: "bool option"
  OptPublicKeys :: "public_key list"
  OptHostSorting :: "(string \<times> bool) list"

text \<open>The columns hosts can be sorted by.\<close>

definition hostSortMapping :: "(string \<times> (host_row \<Rightarrow> rat)) list" where
  "hostSortMapping =
    [(''recentUptime'', h_recent_uptime),
     (''settings.protocolVersion'', \<lambda>h. of_nat (version_number (ProtocolVersion (h_settings h)))),
     (''settings.acceptingContracts'', \<lambda>h. of_bool (AcceptingContracts (h_settings h))),
     (''settings.maxCollateral'', \<lambda>h. of_nat (MaxCollateral (h_settings h))),
     (''settings.maxContractDuration'', \<lambda>h. of_nat (unat (MaxContractDuration (h_settings h)))),
     (''settings.remainingStorage'', \<lambda>h. of_nat (unat (RemainingStorage (h_settings h)))),
     (''settings.totalStorage'', \<lambda>h. of_nat (unat (TotalStorage (h_settings h)))),
     (''settings.prices.contractPrice'', \<lambda>h. of_nat (ContractPrice (Prices (h_settings h)))),
     (''settings.prices.collateral'', \<lambda>h. of_nat (Collateral (Prices (h_settings h)))),
     (''settings.prices.storagePrice'', \<lambda>h. of_nat (StoragePrice (Prices (h_settings h)))),
     (''settings.prices.ingressPrice'', \<lambda>h. of_nat (IngressPrice (Prices (h_settings h)))),
     (''settings.prices.egressPrice'', \<lambda>h. of_nat (EgressPrice (Prices (h_settings h)))),
     (''settings.prices.freeSectorPrice'', \<lambda>h. of_nat (FreeSectorPrice (Prices (h_settings h))))]"

fun hosts_before :: "((host_row \<Rightarrow> rat) \<times> bool) list \<Rightarrow> host_row \<Rightarrow> host_row \<Rightarrow> bool" where
  "hosts_before [] a b = False"
| "hosts_before ((col, desc) # rest) a b =
     (if col a = col b then hosts_before rest a b else if desc then col b < col a else col a < col b)"

fun host_sort_parts :: "(string \<times> bool) list \<Rightarrow> ((host_row \<Rightarrow> rat) \<times> bool) list result" where
  "host_sort_parts [] = Inr []"
| "host_sort_parts ((field, desc) # sorts) =
     (case map_of hostSortMapping field of
        None \<Rightarrow> Inl ErrInvalidSortField
      | Some column \<Rightarrow> rbind (host_sort_parts sorts) (\<lambda>parts. Inr ((column, desc) # parts)))"

text \<open>The id is appended as a tiebreaker.\<close>

definition buildHostOrderByClause :: "(string \<times> bool) list \<Rightarrow> ((host_row \<Rightarrow> rat) \<times> bool) list result" where
  "buildHostOrderByClause sorts =
     rbind (host_sort_parts sorts) (\<lambda>parts. Inr (parts @ [(\<lambda>h. of_int (h_id h), False)]))"

definition host_matches :: "db \<Rightarrow> host_query_opts \<Rightarrow> host_row \<Rightarrow> bool" where
  "host_matches d opts h \<longleftrightarrow>
     (OptUsable opts = None \<or> OptUsable opts = Some (sqlUsabilityFilter (tGlobals d) h)) \<and>
     (OptBlocked opts = None \<or> OptBlocked opts = Some (on_blocklist d h)) \<and>
     (OptActiveContracts opts = None \<or> OptActiveContracts opts = Some (\<exists>c \<in> set (tContracts d). ct_host_id c = h_id h \<and> revisable d c)) \<and>
     (OptPublicKeys opts = [] \<or> h_public_key h \<in> set (OptPublicKeys opts))"

definition Hosts :: "protocols \<Rightarrow> (host_row list \<Rightarrow> host_row list) \<Rightarrow> nat \<Rightarrow> nat \<Rightarrow> host_query_opts \<Rightarrow> db \<Rightarrow> host list result" where
  "Hosts P scan offset limit opts d =
     rbind (buildHostOrderByClause (OptHostSorting opts)) (\<lambda>order.
       Inr (map (scanHost P d) (page_of (stable_sort (hosts_before order) (scan (filter (host_matches d opts) (tHosts d)))) offset limit)))"

record host_info =
  InfoPublicKey :: public_key
  InfoAddresses :: "net_address list"
  InfoCountryCode :: string
  InfoLatitude :: rat
  InfoLongitude :: rat
  InfoGoodForUpload :: bool

record usable_hosts_opts =
  UOptCountry :: "string option"
  UOptProtocol :: "string option"
  UOptLocation :: "(rat \<times> rat) option"

definition good_for_upload :: "host_row \<Rightarrow> bool" where
  "good_for_upload h \<longleftrightarrow> h_stuck_since h = None \<and> RemainingStorage (h_settings h) > 0"

definition usable_matches :: "db \<Rightarrow> usable_hosts_opts \<Rightarrow> host_row \<Rightarrow> bool" where
  "usable_matches d opts h \<longleftrightarrow>
     h_last_successful_scan h \<noteq> None \<and> sqlUsabilityFilter (tGlobals d) h \<and>
     (UOptCountry opts = None \<or> UOptCountry opts = Some (h_country_code h)) \<and>
     (\<exists>c \<in> set (tContracts d). good_contract_on d h c) \<and>
     (case UOptProtocol opts of None \<Rightarrow> True
      | Some p \<Rightarrow> \<exists>a \<in> set (tHostAddresses d). ha_host_id a = h_id h \<and> ha_protocol a = p)"

text \<open>\<open>location <-> point\<close> is the Euclidean distance; its square gives the same order.\<close>

definition square_distance :: "rat \<times> rat \<Rightarrow> rat \<times> rat \<Rightarrow> rat" where
  "square_distance p q = (fst p - fst q) ^ 2 + (snd p - snd q) ^ 2"

definition usable_before :: "usable_hosts_opts \<Rightarrow> host_row \<Rightarrow> host_row \<Rightarrow> bool" where
  "usable_before opts a b =
     (case UOptLocation opts of
        None \<Rightarrow> h_id a < h_id b
      | Some p \<Rightarrow> hosts_before [(\<lambda>h. square_distance (h_location h) p, False), (\<lambda>h. of_int (h_id h), False)] a b)"

definition UsableHosts ::
  "protocols \<Rightarrow> (host_row list \<Rightarrow> host_row list) \<Rightarrow> nat \<Rightarrow> nat \<Rightarrow> usable_hosts_opts \<Rightarrow> db \<Rightarrow> host_info list" where
  "UsableHosts P scan offset limit opts d =
     map (\<lambda>h. \<lparr>InfoPublicKey = h_public_key h, InfoAddresses = decorateHostAddresses P d (h_id h), InfoCountryCode = h_country_code h,
               InfoLatitude = fst (h_location h), InfoLongitude = snd (h_location h), InfoGoodForUpload = good_for_upload h\<rparr>)
       (page_of (stable_sort (usable_before opts) (scan (filter (usable_matches d opts) (tHosts d)))) offset limit)"

section \<open>Invariants\<close>

definition host_wf :: "db \<Rightarrow> host_row \<Rightarrow> bool" where
  "host_wf d h \<longleftrightarrow> h_id h < seqHosts d \<and> uptime_ok h \<and> (h_last_successful_scan h \<noteq> None \<longrightarrow> h_settings_valid_until h \<noteq> None)"

definition hosts_wf :: "db \<Rightarrow> bool" where
  "hosts_wf d \<longleftrightarrow> (\<forall>h \<in> set (tHosts d). host_wf d h) \<and> distinct (map hb_public_key (tHostBlocklist d)) \<and>
     (\<forall>a \<in> set (tHostAddresses d). ha_host_id a \<in> h_id ` set (tHosts d))"

definition host_inv :: "db \<Rightarrow> bool" where
  "host_inv d \<longleftrightarrow> store_inv d \<and> contracts_wf d \<and> hosts_wf d"

definition keeps_host_inv :: "db \<Rightarrow> db \<Rightarrow> bool" where
  "keeps_host_inv d d' \<longleftrightarrow> same_refs d d' \<and> (host_inv d \<longrightarrow> host_inv d')"

lemma keeps_host_inv_refl [simp]: "keeps_host_inv d d"
  by (simp add: keeps_host_inv_def same_refs_def)

lemma keeps_host_inv_trans [trans]: "keeps_host_inv a b \<Longrightarrow> keeps_host_inv b c \<Longrightarrow> keeps_host_inv a c"
  by (auto simp: keeps_host_inv_def intro: same_refs_trans)

text \<open>An update of hosts that keeps keys and counters.\<close>

lemma keeps_update_hosts:
  assumes f: "\<And>h. h_id (f h) = h_id h \<and> h_public_key (f h) = h_public_key h \<and> h_unpinned_sectors (f h) = h_unpinned_sectors h"
    and wf: "\<And>h. h \<in> set (tHosts d) \<Longrightarrow> Q h \<Longrightarrow> host_wf d h \<Longrightarrow> host_wf d (f h)"
  shows "keeps_host_inv d (d\<lparr>tHosts := update_rows Q f (tHosts d)\<rparr>)" (is "keeps_host_inv d ?d'")
proof -
  have ids: "h_id ` set (update_rows Q f (tHosts d)) = h_id ` set (tHosts d)"
    using map_update_rows[of Q h_id f "tHosts d"] f by (metis set_map)
  have "store_inv ?d'" if "store_inv d" using that f by (rule store_inv_update_hosts)
  moreover have "contracts_wf ?d'" if "contracts_wf d" using that by (subst contracts_wf_frame[of _ d]) simp_all
  moreover have "hosts_wf ?d'" if "hosts_wf d"
    using that wf ids by (simp add: hosts_wf_def ball_update_rows) (simp add: host_wf_def)
  ultimately show ?thesis by (simp add: keeps_host_inv_def host_inv_def same_refs_def)
qed

text \<open>Steps on tables that the invariants of sectors and contracts do not mention.\<close>

lemma keeps_other_tables:
  assumes "same_sectors d d'" "tElements d' = tElements d" "same_refs d d'" "hosts_wf d \<Longrightarrow> hosts_wf d'"
  shows "keeps_host_inv d d'"
  using assms contracts_wf_frame[of d' d] store_inv_same_sectors[OF assms(1)]
  by (auto simp: keeps_host_inv_def host_inv_def same_sectors_def)

lemma store_inv_add_host:
  assumes inv: "store_inv d" and wf: "hosts_wf d" and new: "h_public_key h \<notin> h_public_key ` set (tHosts d)"
    "h_id h = seqHosts d" "h_unpinned_sectors h = 0"
  shows "store_inv (d\<lparr>tHosts := tHosts d @ [h]\<rparr>)" (is "store_inv ?d'")
proof -
  have "pinned_on_host ?d' s = pinned_on_host d s" for s by (rule pinned_on_host_frame) simp_all
  moreover have fresh: "seqHosts d \<notin> h_id ` set (tHosts d)" using wf by (auto simp: hosts_wf_def host_wf_def)
  moreover have "cnt (unpinned_on (seqHosts d)) (tSectors d) = 0"
    using store_invD(5)[OF inv] fresh by (auto simp: cnt_zero_iff class_defs)
  ultimately show ?thesis using inv new
    by (auto simp: store_inv_def sectors_wf_def keys_wf_def hosts_known_def pins_wf_def counters_wf_def sqlStatSelect_def)
qed

lemma hosts_wf_seq: "hosts_wf d \<Longrightarrow> hosts_wf (d\<lparr>seqHosts := seqHosts d + 1\<rparr>)"
  by (force simp: hosts_wf_def host_wf_def)

lemma upsert_host_keeps:
  assumes "upsert_host new upd d = Inr (i, d')" and "h_id new = seqHosts d" "h_unpinned_sectors new = 0" "uptime_ok new"
      "h_last_successful_scan new = None"
    and f: "\<And>h. h_id (upd h) = h_id h \<and> h_public_key (upd h) = h_public_key h \<and> h_unpinned_sectors (upd h) = h_unpinned_sectors h \<and>
      h_recent_uptime (upd h) = h_recent_uptime h \<and> h_last_successful_scan (upd h) = h_last_successful_scan h \<and>
      h_settings_valid_until (upd h) = h_settings_valid_until h"
  shows "keeps_host_inv d d' \<and> i \<in> h_id ` set (tHosts d')"
proof (cases "find (\<lambda>h. h_public_key h = h_public_key new) (tHosts d)")
  case None
  with assms(1) have d': "d' = d\<lparr>tHosts := tHosts d @ [new], seqHosts := seqHosts d + 1\<rparr>" "i = seqHosts d" by (auto simp: upsert_host_def)
  from None have "h_public_key new \<notin> h_public_key ` set (tHosts d)" by (auto simp: find_None_iff)
  then have "store_inv (d\<lparr>tHosts := tHosts d @ [new]\<rparr>)" if "host_inv d"
    using that assms by (intro store_inv_add_host) (simp_all add: host_inv_def)
  from store_inv_same_sectors[OF _ this, of d'] have "store_inv d'" if "host_inv d"
    using that by (simp add: d' same_sectors_def sqlStatSelect_def)
  moreover have "contracts_wf d'" if "contracts_wf d" using that by (subst contracts_wf_frame[of _ d]) (simp_all add: d')
  moreover have "hosts_wf d'" if "hosts_wf d"
    using that assms(2-5) by (force simp: d' hosts_wf_def host_wf_def)
  ultimately show ?thesis using assms(2) by (auto simp: keeps_host_inv_def host_inv_def same_refs_def d')
next
  case (Some h)
  let ?Q = "\<lambda>h. h_public_key h = h_public_key new"
  let ?e = "d\<lparr>tHosts := update_rows ?Q upd (tHosts d)\<rparr>"
  from Some assms(1) have d': "d' = ?e\<lparr>seqHosts := seqHosts ?e + 1\<rparr>" "i = h_id h" by (auto simp: upsert_host_def)
  have "keeps_host_inv d ?e" using f by (intro keeps_update_hosts) (auto simp: host_wf_def uptime_ok_def)
  also have "keeps_host_inv ?e d'"
    unfolding d' by (rule keeps_other_tables) (simp_all only: hosts_wf_seq, simp_all add: same_sectors_def same_refs_def sqlStatSelect_def)
  finally have "keeps_host_inv d d'" .
  moreover have "map h_id (update_rows ?Q upd (tHosts d)) = map h_id (tHosts d)" using f by (intro map_update_rows) simp
  then have "h_id ` set (tHosts d') = h_id ` set (tHosts d)" by (simp add: d') (metis set_map)
  moreover have "h \<in> set (tHosts d)" using Some by (auto dest: find_SomeD)
  ultimately show ?thesis by (simp add: d')
qed

lemma replace_addresses_keeps:
  assumes "replace_addresses P i as d = Inr (x, d')" and "i \<in> h_id ` set (tHosts d)"
  shows "keeps_host_inv d d'"
  using assms
  by (intro keeps_other_tables) (auto simp: replace_addresses_def same_sectors_def same_refs_def sqlStatSelect_def hosts_wf_def host_wf_def split: if_splits)

lemma AddHostAnnouncement_keeps: "AddHostAnnouncement P now hk ha ts d = Inr (x, d') \<Longrightarrow> keeps_host_inv d d'"
  by (auto simp: AddHostAnnouncement_def Let_def rbind_eq_Inr new_host_row_def uptime_ok_def dest!: upsert_host_keeps
      intro: keeps_host_inv_trans replace_addresses_keeps)

lemma ImportHost_keeps: "ImportHost P now hk as d = Inr (x, d') \<Longrightarrow> keeps_host_inv d d'"
  by (auto simp: ImportHost_def Let_def rbind_eq_Inr new_host_row_def uptime_ok_def dest!: upsert_host_keeps
      intro: keeps_host_inv_trans replace_addresses_keeps)

text \<open>Giving up the unpinned sectors of a host.\<close>

lemma drop_unpinned_effect:
  assumes "drop_unpinned i d = Inr d'"
  defines "n \<equiv> cnt (unpinned_on i) (tSectors d)"
  shows "d' = (incrementStat statUnpinnedSectors (- n) (incrementStat statUnpinnableSectors n
      (d\<lparr>tSectors := update_rows (unpinned_on i) (\<lambda>s. s\<lparr>sec_host_id := None, sec_failed_checks := 0\<rparr>) (tSectors d)\<rparr>)))
      \<lparr>tHosts := update_rows (\<lambda>h. h_id h = i) (\<lambda>h. h\<lparr>h_unpinned_sectors := h_unpinned_sectors h - n\<rparr>) (tHosts d)\<rparr>"
proof (cases "n > 0")
  case True
  with assms show ?thesis by (auto simp: drop_unpinned_def Let_def incrementHostUnpinnedSectors_eq store_simps)
next
  case False
  then have "n = 0" unfolding n_def by (simp add: order.antisym not_less)
  with assms have "d' = d\<lparr>tSectors := update_rows (unpinned_on i) (\<lambda>s. s\<lparr>sec_host_id := None, sec_failed_checks := 0\<rparr>) (tSectors d)\<rparr>"
    by (simp add: drop_unpinned_def Let_def)
  with \<open>n = 0\<close> show ?thesis by (simp add: incrementStat_def update_rows_id)
qed

lemma drop_unpinned_inv:
  assumes inv: "store_inv d" and eq: "drop_unpinned i d = Inr d'"
  shows "store_inv d'"
proof -
  note E = drop_unpinned_effect[OF eq]
  let ?f = "\<lambda>s. s\<lparr>sec_host_id := None, sec_failed_checks := 0\<rparr>"
  let ?n = "cnt (unpinned_on i) (tSectors d)"
  have row: "row_step d d' (unpinned_on i) ?f"
    by (simp add: row_step_def E store_simps map_update_rows)
  have new: "new_rows_ok d (unpinned_on i) ?f" by (simp add: new_rows_ok_def pinned_on_host_def class_defs)
  have fs: "\<not> is_pinned (?f s)" "\<not> unpinned_on h (?f s)" "\<not> is_unpinned (?f s)" if "unpinned_on i s" for s h
    using that by (auto simp: class_defs)
  have cs: "cnt (\<lambda>s. is_pinned s \<and> unpinned_on i s) (tSectors d) = 0" "cnt (\<lambda>s. is_unpinnable s \<and> unpinned_on i s) (tSectors d) = 0"
    "cnt (\<lambda>s. unpinned_on i s \<and> is_pinned (?f s)) (tSectors d) = 0" "cnt (\<lambda>s. unpinned_on i s \<and> is_unpinned (?f s)) (tSectors d) = 0"
    "cnt (\<lambda>s. unpinned_on i s \<and> unpinned_on h (?f s)) (tSectors d) = 0" for h
    by (auto simp: cnt_zero_iff class_defs)
  have n: "cnt (\<lambda>s. is_unpinned s \<and> unpinned_on i s) (tSectors d) = ?n" "cnt (\<lambda>s. unpinned_on i s \<and> is_unpinnable (?f s)) (tSectors d) = ?n"
    by (auto intro!: cnt_cong simp: class_defs)
  have h: "cnt (\<lambda>s. unpinned_on h s \<and> unpinned_on i s) (tSectors d) = (if h = i then ?n else 0)" for h
    by (auto simp: cnt_zero_iff class_defs intro!: cnt_cong)
  have hosts: "\<exists>h \<in> set (tHosts d). h_id h = h_id h' \<and> h_unpinned_sectors h' = h_unpinned_sectors h - (if h_id h = i then ?n else 0)"
    if "h' \<in> set (tHosts d')" for h'
    using that unfolding E by (auto simp: set_update_rows store_simps)
  have "counter_step d d' (unpinned_on i) ?f"
    unfolding counter_step_def cs n h using hosts by (intro conjI) (simp_all add: E store_simps)
  with inv row new show ?thesis by (rule store_inv_step)
qed

lemma drop_unpinned_returns:
  assumes "store_inv d"
  shows "\<exists>d'. drop_unpinned i d = Inr d'"
proof -
  have "h_unpinned_sectors h = cnt (unpinned_on (h_id h)) (tSectors d)" if "h \<in> set (tHosts d)" for h
    using assms that by (simp add: store_inv_def counters_wf_def)
  then have "\<exists>d'. incrementHostUnpinnedSectors i (- cnt (unpinned_on i) (tSectors d)) e = Inr d'" if "tHosts e = tHosts d" for e
    using that by (intro incrementHostUnpinnedSectors_returns) auto
  then show ?thesis by (simp add: drop_unpinned_def Let_def store_simps)
qed

lemma drop_unpinned_keeps:
  assumes "drop_unpinned i d = Inr d'"
  shows "keeps_host_inv d d'"
proof -
  note E = drop_unpinned_effect[OF assms]
  have ids: "map h_id (tHosts d') = map h_id (tHosts d)" by (simp add: E map_update_rows)
  have "hosts_wf d'" if "hosts_wf d"
    using that arg_cong[OF ids, of set] by (simp add: hosts_wf_def E ball_update_rows store_simps) (auto simp: host_wf_def uptime_ok_def store_simps)
  moreover have "contracts_wf d'" if "contracts_wf d" using that by (subst contracts_wf_frame[of _ d]) (simp_all add: E store_simps)
  ultimately show ?thesis using drop_unpinned_inv[OF _ assms] by (auto simp: keeps_host_inv_def host_inv_def same_refs_def E store_simps)
qed

lemma upsert_blocked_keeps: "keeps_host_inv d (upsert_blocked now hk rs d)"
  by (rule keeps_other_tables)
     (auto simp: upsert_blocked_def same_sectors_def same_refs_def sqlStatSelect_def hosts_wf_def host_wf_def map_update_rows)

lemma keeps_contract_flag:
  "keeps_host_inv d (d\<lparr>tContracts := update_rows Q (\<lambda>c. c\<lparr>ct_good := g\<rparr>) (tContracts d)\<rparr>)"
  by (auto simp: keeps_host_inv_def host_inv_def same_refs_def hosts_wf_def host_wf_def
      intro!: store_inv_update_contracts contracts_wf_update_contracts)
     (auto simp: contract_row_wf_def contract_columns_ok_def contract_checks_ok_def)

lemma block_host_keeps: "block_host now rs hk d = Inr d' \<Longrightarrow> keeps_host_inv d d'"
  by (auto simp: block_host_def Let_def split: option.splits
      intro: upsert_blocked_keeps keeps_host_inv_trans[OF keeps_host_inv_trans[OF upsert_blocked_keeps keeps_contract_flag] drop_unpinned_keeps])

lemma BlockHosts_keeps: "BlockHosts now hks rs d = Inr (x, d') \<Longrightarrow> keeps_host_inv d d'"
  by (induction hks arbitrary: d) (auto simp: rbind_eq_Inr dest!: block_host_keeps intro: keeps_host_inv_trans)

lemma block_host_returns:
  assumes "host_inv d"
  shows "\<exists>d'. block_host now rs hk d = Inr d'"
proof -
  let ?d1 = "upsert_blocked now hk (remdups_adj (sort (blocked_reasons d hk @ rs))) d"
  have "host_inv (?d1\<lparr>tContracts := update_rows Q (\<lambda>c. c\<lparr>ct_good := False\<rparr>) (tContracts ?d1)\<rparr>)" for Q
    using assms keeps_host_inv_trans[OF upsert_blocked_keeps keeps_contract_flag] by (auto simp: keeps_host_inv_def)
  then have "store_inv (?d1\<lparr>tContracts := update_rows Q (\<lambda>c. c\<lparr>ct_good := False\<rparr>) (tContracts ?d1)\<rparr>)" for Q by (simp add: host_inv_def)
  from drop_unpinned_returns[OF this] show ?thesis by (auto simp: block_host_def Let_def split: option.splits)
qed

lemma BlockHosts_returns: "host_inv d \<Longrightarrow> \<exists>d'. BlockHosts now hks rs d = Inr ((), d')"
proof (induction hks arbitrary: d)
  case (Cons hk hks)
  then obtain d1 where d1: "block_host now rs hk d = Inr d1" using block_host_returns by blast
  with Cons.prems have "host_inv d1" using block_host_keeps by (auto simp: keeps_host_inv_def)
  with Cons.IH d1 show ?case by simp
qed simp

lemma keeps_blocklist:
  assumes "distinct (map hb_public_key (tHostBlocklist d)) \<Longrightarrow> distinct (map hb_public_key bs)"
  shows "keeps_host_inv d (d\<lparr>tHostBlocklist := bs\<rparr>)"
  using assms by (intro keeps_other_tables) (auto simp: same_sectors_def same_refs_def sqlStatSelect_def hosts_wf_def host_wf_def)

lemma mark_good_keeps: "keeps_host_inv d (mark_good hks d)"
  unfolding mark_good_def by (rule keeps_contract_flag)

lemma UnblockHost_keeps: "UnblockHost hk d = Inr (x, d') \<Longrightarrow> keeps_host_inv d d'"
  by (auto simp: UnblockHost_def distinct_map_filter intro!: keeps_host_inv_trans[OF keeps_blocklist mark_good_keeps])

lemma RemoveBlocklistReasons_keeps:
  assumes "RemoveBlocklistReasons hks rs d = Inr (n, d')"
  shows "keeps_host_inv d d'"
proof (cases "hks = [] \<or> rs = []")
  case True
  with assms show ?thesis by (auto simp: RemoveBlocklistReasons_def)
next
  case False
  define gone where "gone = (\<lambda>b :: blocklist_row. hb_public_key b \<in> set hks \<and> (\<forall>r \<in> set (hb_reasons b). r \<in> set rs))"
  let ?d1 = "d\<lparr>tHostBlocklist := filter (\<lambda>b. \<not> gone b) (tHostBlocklist d)\<rparr>"
  define d2 where "d2 = (if map hb_public_key (filter gone (tHostBlocklist d)) \<noteq> []
     then mark_good (map hb_public_key (filter gone (tHostBlocklist d))) ?d1 else ?d1)"
  have d': "d' = d2\<lparr>tHostBlocklist := update_rows (\<lambda>b. hb_public_key b \<in> set hks)
       (\<lambda>b. b\<lparr>hb_reasons := filter (\<lambda>r. r \<notin> set rs) (hb_reasons b)\<rparr>) (tHostBlocklist d2)\<rparr>"
    using False assms unfolding RemoveBlocklistReasons_def gone_def[symmetric] Let_def d2_def[symmetric] by simp
  have "keeps_host_inv d ?d1" by (rule keeps_blocklist) (simp add: distinct_map_filter)
  also have "keeps_host_inv ?d1 d2" by (simp add: d2_def mark_good_keeps)
  also have "keeps_host_inv d2 d'" unfolding d' by (rule keeps_blocklist) (simp add: map_update_rows)
  finally show ?thesis .
qed

text \<open>Scans, prices and the rest.\<close>

lemma update_scan_core:
  "h_id (failed_scan decay now n h) = h_id h" "h_public_key (failed_scan decay now n h) = h_public_key h"
  "h_unpinned_sectors (failed_scan decay now n h) = h_unpinned_sectors h"
  "h_id (successful_scan decay now hs loc n h) = h_id h" "h_public_key (successful_scan decay now hs loc n h) = h_public_key h"
  "h_unpinned_sectors (successful_scan decay now hs loc n h) = h_unpinned_sectors h"
  by (simp_all add: failed_scan_def successful_scan_def)

lemma incrementStat_keeps:
  assumes "n \<notin> {statPinnedSectors, statUnpinnedSectors, statUnpinnableSectors}"
  shows "keeps_host_inv d (incrementStat n v d)"
  using assms by (intro keeps_other_tables) (auto simp: same_sectors_def same_refs_def store_simps hosts_wf_def host_wf_def)

lemma UpdateHostScan_keeps:
  assumes "UpdateHostScan decay now hk hs loc ok next d = Inr (x, d')"
  shows "keeps_host_inv d d'"
proof -
  define upd where "upd = (if ok then successful_scan decay now hs loc next else failed_scan decay now next)"
  let ?Q = "\<lambda>h. h_public_key h = hk"
  from assms have up: "\<forall>h \<in> set (update_rows ?Q upd (tHosts d)). uptime_ok h"
    and d': "d' = incrementNumScans ok (d\<lparr>tHosts := update_rows ?Q upd (tHosts d)\<rparr>)"
    unfolding UpdateHostScan_def Let_def upd_def[symmetric] by (auto split: if_splits)
  have "keeps_host_inv d (d\<lparr>tHosts := update_rows ?Q upd (tHosts d)\<rparr>)"
  proof (rule keeps_update_hosts)
    show "h_id (upd h) = h_id h \<and> h_public_key (upd h) = h_public_key h \<and> h_unpinned_sectors (upd h) = h_unpinned_sectors h" for h
      by (simp add: upd_def update_scan_core)
    show "host_wf d (upd h)" if "h \<in> set (tHosts d)" "?Q h" "host_wf d h" for h
    proof -
      from that up have "uptime_ok (upd h)" by (auto simp: ball_update_rows)
      moreover have "h_id (upd h) = h_id h" by (simp add: upd_def update_scan_core)
      ultimately show ?thesis using that(3) by (auto simp: host_wf_def upd_def successful_scan_def failed_scan_def)
    qed
  qed
  also have "keeps_host_inv \<dots> d'" unfolding d' incrementNumScans_def Let_def
    by (auto intro!: incrementStat_keeps keeps_host_inv_trans[OF incrementStat_keeps incrementStat_keeps])
  finally show ?thesis .
qed

lemma host_updates_keep:
  "UpdateHostPrices hk p d = Inr (x, d') \<Longrightarrow> keeps_host_inv d d'"
  "ResetLostSectors hk d = Inr (x, d') \<Longrightarrow> keeps_host_inv d d'"
  "HostsForIntegrityChecks now scan t l d = Inr (ks, d') \<Longrightarrow> keeps_host_inv d d'"
  by (auto simp: UpdateHostPrices_def ResetLostSectors_def HostsForIntegrityChecks_def Let_def host_wf_def uptime_ok_def split: if_splits
      intro!: keeps_update_hosts)

lemma UpdateStuckHosts_keeps:
  assumes "UpdateStuckHosts now stuck d = Inr (x, d')"
  shows "keeps_host_inv d d'"
proof -
  let ?f = "\<lambda>h. h\<lparr>h_stuck_since := (case h_stuck_since h of None \<Rightarrow> Some now | Some t \<Rightarrow> Some t)\<rparr>"
  let ?d1 = "d\<lparr>tHosts := update_rows (\<lambda>h. h_public_key h \<in> set stuck) ?f (tHosts d)\<rparr>"
  from assms have d': "d' = ?d1\<lparr>tHosts := update_rows (\<lambda>h. h_stuck_since h \<noteq> None \<and> h_public_key h \<notin> set stuck)
      (\<lambda>h. h\<lparr>h_stuck_since := None\<rparr>) (tHosts ?d1)\<rparr>" by (simp add: UpdateStuckHosts_def Let_def)
  have "keeps_host_inv d ?d1" by (rule keeps_update_hosts) (simp_all add: host_wf_def uptime_ok_def)
  also have "keeps_host_inv ?d1 d'" unfolding d' by (rule keeps_update_hosts) (simp_all add: host_wf_def uptime_ok_def)
  finally show ?thesis .
qed

lemma PruneHosts_keeps:
  assumes eq: "PruneHosts t m d = Inr (n, d')"
  shows "keeps_host_inv d d'"
proof -
  let ?gone = "map h_id (filter (host_prunable d t m) (tHosts d))"
  from eq have fk: "\<forall>s \<in> set (tSectors d). \<forall>i \<in> set ?gone. sec_host_id s \<noteq> Some i"
    and d': "d' = d\<lparr>tHosts := filter (\<lambda>h. \<not> host_prunable d t m h) (tHosts d),
                tHostAddresses := filter (\<lambda>a. ha_host_id a \<notin> set ?gone) (tHostAddresses d),
                tAccountHosts := filter (\<lambda>r. ah_host_id r \<notin> set ?gone) (tAccountHosts d),
                tPoolHosts := filter (\<lambda>r. ph_host_id r \<notin> set ?gone) (tPoolHosts d),
                tPoolAttachments := filter (\<lambda>r. pa_host_id r \<notin> set ?gone) (tPoolAttachments d)\<rparr>"
    by (auto simp: PruneHosts_def Let_def split: if_splits)
  have kept: "i \<in> h_id ` set (tHosts d')" if "i \<in> h_id ` set (tHosts d)" "i \<notin> set ?gone" for i
    using that by (auto simp: d')
  have p: "pinned_on_host d' s = pinned_on_host d s" for s by (rule pinned_on_host_frame) (simp_all add: d')
  have "store_inv d'" if inv: "store_inv d"
  proof -
    have "\<forall>s \<in> set (tSectors d'). \<forall>h. sec_host_id s = Some h \<longrightarrow> h \<in> h_id ` set (tHosts d')"
      using inv fk kept by (fastforce simp: store_inv_def hosts_known_def d')
    moreover have "\<forall>c \<in> set (tContracts d'). ct_host_id c \<in> h_id ` set (tHosts d')"
    proof
      fix c assume "c \<in> set (tContracts d')"
      then have c: "c \<in> set (tContracts d)" by (simp add: d')
      with inv have "ct_host_id c \<in> h_id ` set (tHosts d)" by (simp add: store_inv_def keys_wf_def)
      moreover have "ct_host_id c \<notin> set ?gone" using c by (auto simp: host_prunable_def)
      ultimately show "ct_host_id c \<in> h_id ` set (tHosts d')" by (rule kept)
    qed
    ultimately show ?thesis using inv p
      by (simp add: store_inv_def sectors_wf_def keys_wf_def hosts_known_def pins_wf_def counters_wf_def sqlStatSelect_def)
         (simp add: d' distinct_map_filter)
  qed
  moreover have "contracts_wf d'" if "contracts_wf d" using that by (subst contracts_wf_frame[of _ d]) (simp_all add: d')
  moreover have "hosts_wf d'" if "hosts_wf d"
    using that kept unfolding hosts_wf_def by (simp add: d' host_wf_def)
  ultimately show ?thesis by (simp add: keeps_host_inv_def host_inv_def same_refs_def d')
qed

section \<open>Properties\<close>

text \<open>
  Claim C32: the two SQL fragments agree: the filter that selects usable hosts holds exactly for the
  hosts whose fourteen usability checks, as they are returned with a host, all pass.
\<close>

theorem usability_filter_agrees:
  "sqlUsabilityFilter g h \<longleftrightarrow> Usable (sqlUsabilityCheckColumns g h)"
  by (auto simp: sqlUsabilityFilter_def sqlUsabilityCheckColumns_def Usable_def GoodUsability_def Let_def)

lemma host_id_of_frame: "map h_id (tHosts d') = map h_id (tHosts d) \<Longrightarrow> map h_public_key (tHosts d') = map h_public_key (tHosts d) \<Longrightarrow>
    host_id_of d' hk = host_id_of d hk"
proof -
  have "map_option h_id (find (\<lambda>h. h_public_key h = hk) xs) = map_option h_id (find (\<lambda>h. h_public_key h = hk) ys)"
    if "map h_id xs = map h_id ys" "map h_public_key xs = map h_public_key ys" for xs ys
    using that
  proof (induction xs arbitrary: ys)
    case (Cons x xs)
    then show ?case by (cases ys) auto
  qed simp
  then show "map h_id (tHosts d') = map h_id (tHosts d) \<Longrightarrow> map h_public_key (tHosts d') = map h_public_key (tHosts d) \<Longrightarrow> ?thesis"
    by (simp add: host_id_of_def)
qed

text \<open>What blocking a host achieves.\<close>

definition blocked_out :: "db \<Rightarrow> public_key \<Rightarrow> string list \<Rightarrow> bool" where
  "blocked_out d hk rs \<longleftrightarrow>
     (\<exists>b \<in> set (tHostBlocklist d). hb_public_key b = hk \<and> set rs \<subseteq> set (hb_reasons b)) \<and>
     (\<forall>i. host_id_of d hk = Some i \<longrightarrow> (\<forall>c \<in> set (tContracts d). ct_host_id c = i \<longrightarrow> \<not> ct_good c) \<and>
        (\<forall>s \<in> set (tSectors d). \<not> unpinned_on i s))"

text \<open>The state after one iteration of the loop of \<open>BlockHosts\<close>.\<close>

lemma block_host_effect:
  assumes "block_host now rs hk d = Inr d'"
  defines "updated \<equiv> remdups_adj (sort (blocked_reasons d hk @ rs))"
  shows "tHostBlocklist d' = tHostBlocklist (upsert_blocked now hk updated d) \<and>
    map h_id (tHosts d') = map h_id (tHosts d) \<and> map h_public_key (tHosts d') = map h_public_key (tHosts d) \<and>
    (\<forall>c' \<in> set (tContracts d'). \<exists>c \<in> set (tContracts d). ct_host_id c' = ct_host_id c \<and>
        (ct_good c' \<longrightarrow> ct_good c \<and> host_id_of d hk \<noteq> Some (ct_host_id c))) \<and>
    (\<forall>s' \<in> set (tSectors d'). \<forall>i. unpinned_on i s' \<longrightarrow> s' \<in> set (tSectors d) \<and> host_id_of d hk \<noteq> Some i)"
proof -
  have h: "host_id_of (upsert_blocked now hk updated d) hk = host_id_of d hk" by (simp add: host_id_of_def upsert_blocked_def)
  show ?thesis
  proof (cases "host_id_of d hk")
    case None
    with assms h show ?thesis by (auto simp: block_host_def Let_def upsert_blocked_def split: if_splits)
  next
    case (Some i)
    let ?e = "(upsert_blocked now hk updated d)\<lparr>tContracts := update_rows (\<lambda>c. ct_host_id c = i) (\<lambda>c. c\<lparr>ct_good := False\<rparr>) (tContracts d)\<rparr>"
    have e: "tContracts (upsert_blocked now hk updated d) = tContracts d" by (simp add: upsert_blocked_def)
    from assms(1) Some h have "drop_unpinned i ?e = Inr d'" by (simp add: block_host_def Let_def updated_def[symmetric] e)
    note E = drop_unpinned_effect[OF this]
    have t: "tSectors ?e = tSectors d" "tHosts ?e = tHosts d" by (simp_all add: upsert_blocked_def)
    show ?thesis
      by (auto simp: E store_simps t Some map_update_rows set_update_rows class_defs)
         (auto simp: upsert_blocked_def t split: if_splits)
  qed
qed

lemma set_updated_reasons: "set (remdups_adj (sort (xs @ rs))) = set xs \<union> set rs"
  by simp

lemma upsert_blocked_entry:
  "\<exists>b \<in> set (tHostBlocklist (upsert_blocked now hk u d)). hb_public_key b = hk \<and> hb_reasons b = u"
proof (cases "hk \<in> hb_public_key ` set (tHostBlocklist d)")
  case True
  then obtain b where "b \<in> set (tHostBlocklist d)" "hb_public_key b = hk" by auto
  then have "b\<lparr>hb_reasons := u\<rparr> \<in> set (tHostBlocklist (upsert_blocked now hk u d))"
    by (auto simp: upsert_blocked_def set_update_rows)
  with \<open>hb_public_key b = hk\<close> show ?thesis by (intro bexI[of _ "b\<lparr>hb_reasons := u\<rparr>"]) simp_all
qed (simp add: upsert_blocked_def)

lemma upsert_blocked_other:
  "b \<in> set (tHostBlocklist d) \<Longrightarrow> hb_public_key b \<noteq> hk \<Longrightarrow> b \<in> set (tHostBlocklist (upsert_blocked now hk u d))"
  by (auto simp: upsert_blocked_def set_update_rows)

lemma block_host_blocks:
  assumes "block_host now rs hk d = Inr d'"
  shows "blocked_out d' hk rs \<and> (blocked_out d hk' rs \<longrightarrow> blocked_out d' hk' rs)"
proof -
  define up where "up = remdups_adj (sort (blocked_reasons d hk @ rs))"
  note E = block_host_effect[OF assms, folded up_def]
  have h: "host_id_of d' k = host_id_of d k" for k using E by (intro host_id_of_frame) blast+
  have u: "set rs \<subseteq> set up" unfolding up_def set_updated_reasons by blast
  have b: "tHostBlocklist d' = tHostBlocklist (upsert_blocked now hk up d)" using E by blast
  obtain e where e: "e \<in> set (tHostBlocklist d')" "hb_public_key e = hk" "hb_reasons e = up"
    unfolding b using upsert_blocked_entry[of now hk up d] by blast
  have other: "\<exists>b \<in> set (tHostBlocklist d'). hb_public_key b = hk' \<and> set rs \<subseteq> set (hb_reasons b)"
    if "b0 \<in> set (tHostBlocklist d)" "hb_public_key b0 = hk'" "set rs \<subseteq> set (hb_reasons b0)" for b0
  proof (cases "hk' = hk")
    case True
    with e u show ?thesis by (intro bexI[of _ e]) simp_all
  next
    case False
    with that have "b0 \<in> set (tHostBlocklist d')" unfolding b by (intro upsert_blocked_other) simp_all
    with that show ?thesis by blast
  qed
  have "\<exists>b \<in> set (tHostBlocklist d'). hb_public_key b = hk \<and> set rs \<subseteq> set (hb_reasons b)"
    using e u by (intro bexI[of _ e]) simp_all
  moreover have "\<not> ct_good c'" if "host_id_of d hk = Some (ct_host_id c')" "c' \<in> set (tContracts d')" for c'
    using E that by fastforce
  moreover have "\<not> ct_good c'" if "\<forall>c \<in> set (tContracts d). ct_host_id c = ct_host_id c' \<longrightarrow> \<not> ct_good c" "c' \<in> set (tContracts d')" for c'
    using E that by fastforce
  moreover have "\<not> unpinned_on i s'" if "s' \<in> set (tSectors d')" "host_id_of d hk = Some i \<or> (\<forall>s \<in> set (tSectors d). \<not> unpinned_on i s)" for s' i
    using E that by blast
  ultimately show ?thesis using other unfolding blocked_out_def h by blast
qed

lemma BlockHosts_keeps_blocked:
  "BlockHosts now hks rs d = Inr (x, d') \<Longrightarrow> blocked_out d hk rs \<Longrightarrow> blocked_out d' hk rs"
  by (induction hks arbitrary: d) (auto simp: rbind_eq_Inr dest!: block_host_blocks)

lemma BlockHosts_blocks:
  "BlockHosts now hks rs d = Inr (x, d') \<Longrightarrow> hk \<in> set hks \<Longrightarrow> blocked_out d' hk rs"
proof (induction hks arbitrary: d)
  case (Cons k hks)
  from Cons.prems(1) obtain d1 where 1: "block_host now rs k d = Inr d1" "BlockHosts now hks rs d1 = Inr (x, d')"
    by (auto simp: rbind_eq_Inr)
  show ?case
  proof (cases "hk = k")
    case True
    with block_host_blocks[OF 1(1)] have "blocked_out d1 hk rs" by simp
    with 1(2) show ?thesis by (rule BlockHosts_keeps_blocked)
  next
    case False
    with Cons 1(2) show ?thesis by simp
  qed
qed simp

lemma host_key_id:
  assumes "store_inv d" "h \<in> set (tHosts d)"
  shows "host_id_of d (h_public_key h) = Some (h_id h)"
proof -
  from assms obtain h' where "find (\<lambda>x. h_public_key x = h_public_key h) (tHosts d) = Some h'"
    by (cases "find (\<lambda>x. h_public_key x = h_public_key h) (tHosts d)") (auto simp: find_None_iff)
  moreover from this have "h' \<in> set (tHosts d)" "h_public_key h' = h_public_key h" by (auto dest: find_SomeD)
  ultimately show ?thesis using assms
    by (auto simp: host_id_of_def store_inv_def keys_wf_def distinct_map inj_on_def)
qed

lemma blocked_host_unused:
  assumes "BlockHosts now hks rs d = Inr (x, d')" and "host_inv d" and "\<And>ys. mset (scan ys) = mset ys" and "hk \<in> set hks"
  shows "(\<exists>b \<in> set (tHostBlocklist d'). hb_public_key b = hk \<and> set rs \<subseteq> set (hb_reasons b)) \<and>
    hk \<notin> InfoPublicKey ` set (UsableHosts P scan offset limit opts d') \<and> hk \<notin> set (HostsForFunding d') \<and> hk \<notin> set (HostsForPinning d') \<and>
    (\<forall>h \<in> set (tHosts d'). h_public_key h = hk \<longrightarrow> h_unpinned_sectors h = 0)"
proof -
  from assms(1,4) have b: "blocked_out d' hk rs" by (rule BlockHosts_blocks)
  from assms(1,2) have inv: "store_inv d'" using BlockHosts_keeps by (auto simp: keeps_host_inv_def host_inv_def)
  have none: "\<not> good_contract_on d' h c" if "h \<in> set (tHosts d')" "h_public_key h = hk" "c \<in> set (tContracts d')" for h c
    using host_key_id[OF inv that(1)] that b by (auto simp: blocked_out_def good_contract_on_def)
  have "set (scan ys) = set ys" for ys using assms(3) by (metis set_mset_mset)
  then have "hk \<notin> InfoPublicKey ` set (UsableHosts P scan offset limit opts d')"
    using none by (auto simp: UsableHosts_def page_of_def usable_matches_def dest!: in_set_takeD in_set_dropD)
  moreover have "hk \<notin> set (HostsForFunding d')" "hk \<notin> set (HostsForPinning d')"
    using none by (auto simp: HostsForFunding_def HostsForPinning_def)
  moreover have "h_unpinned_sectors h = 0" if "h \<in> set (tHosts d')" "h_public_key h = hk" for h
  proof -
    have "cnt (unpinned_on (h_id h)) (tSectors d') = 0"
      using host_key_id[OF inv that(1)] that b by (auto simp: blocked_out_def cnt_zero_iff)
    with inv that show ?thesis by (simp add: store_inv_def counters_wf_def)
  qed
  ultimately show ?thesis using b by (simp add: blocked_out_def)
qed

text \<open>What blocking hosts does to the tables.\<close>

definition reasons_for :: "db \<Rightarrow> public_key \<Rightarrow> string list option" where
  "reasons_for d hk = map_option hb_reasons (find (\<lambda>b. hb_public_key b = hk) (tHostBlocklist d))"

definition host_ids_of :: "db \<Rightarrow> public_key list \<Rightarrow> int set" where
  "host_ids_of d hks = {i. \<exists>hk \<in> set hks. host_id_of d hk = Some i}"

definition unmark_good :: "int set \<Rightarrow> contract_row list \<Rightarrow> contract_row list" where
  "unmark_good ids = update_rows (\<lambda>c. ct_host_id c \<in> ids) (\<lambda>c. c\<lparr>ct_good := False\<rparr>)"

definition detach_unpinned :: "int set \<Rightarrow> sector_row list \<Rightarrow> sector_row list" where
  "detach_unpinned ids = update_rows (\<lambda>s. \<exists>i \<in> ids. unpinned_on i s) (\<lambda>s. s\<lparr>sec_host_id := None, sec_failed_checks := 0\<rparr>)"

lemma update_rows_twice: "(\<And>x. f (f x) = f x) \<Longrightarrow> update_rows Q f (update_rows R f xs) = update_rows (\<lambda>x. R x \<or> Q x) f xs"
  by (induction xs) auto

lemma unmark_good_twice: "unmark_good J (unmark_good I cs) = unmark_good (I \<union> J) cs"
  unfolding unmark_good_def Un_iff by (subst update_rows_twice) (auto simp: update_rows_def)

lemma detach_unpinned_twice: "detach_unpinned J (detach_unpinned I ss) = detach_unpinned (I \<union> J) ss"
  unfolding detach_unpinned_def bex_Un by (rule update_rows_twice) simp

lemma none_blocked [simp]: "unmark_good {} cs = cs" "detach_unpinned {} ss = ss"
  by (simp_all add: unmark_good_def detach_unpinned_def update_rows_id)

lemma reasons_for_upsert: "reasons_for (upsert_blocked now hk u d) k = (if k = hk then Some u else reasons_for d k)"
proof (cases "hk \<in> hb_public_key ` set (tHostBlocklist d)")
  case True
  have "find (\<lambda>b. hb_public_key b = k) (update_rows (\<lambda>b. hb_public_key b = hk) (\<lambda>b. b\<lparr>hb_reasons := u\<rparr>) bs) =
      map_option (\<lambda>b. if hb_public_key b = hk then b\<lparr>hb_reasons := u\<rparr> else b) (find (\<lambda>b. hb_public_key b = k) bs)" for bs :: "blocklist_row list"
    by (induction bs) auto
  moreover have "find (\<lambda>b. hb_public_key b = hk) (tHostBlocklist d) \<noteq> None" using True by (auto simp: find_None_iff)
  ultimately show ?thesis using True
    by (cases "find (\<lambda>b. hb_public_key b = k) (tHostBlocklist d)") (auto simp: reasons_for_def upsert_blocked_def dest: find_SomeD)
next
  case False
  then have "find (\<lambda>b. hb_public_key b = hk) (tHostBlocklist d) = None" by (auto simp: find_None_iff)
  with False show ?thesis by (auto simp: reasons_for_def upsert_blocked_def find_append split: option.splits)
qed

lemma blocked_reasons_eq: "blocked_reasons d hk = (if host_id_of d hk = None then [] else case reasons_for d hk of None \<Rightarrow> [] | Some rs \<Rightarrow> rs)"
  by (auto simp: blocked_reasons_def reasons_for_def split: option.splits)

lemma block_host_tables:
  assumes "block_host now rs hk d = Inr d'"
  shows "tContracts d' = unmark_good (host_ids_of d [hk]) (tContracts d) \<and> tSectors d' = detach_unpinned (host_ids_of d [hk]) (tSectors d) \<and>
    (\<forall>k. host_id_of d' k = host_id_of d k) \<and>
    (\<forall>k. reasons_for d' k = (if k = hk then Some (remdups_adj (sort (blocked_reasons d hk @ rs))) else reasons_for d k))"
proof -
  define u where "u = remdups_adj (sort (blocked_reasons d hk @ rs))"
  note E = block_host_effect[OF assms, folded u_def]
  have ids: "host_id_of d' k = host_id_of d k" for k using E by (intro host_id_of_frame) blast+
  have "tHostBlocklist d' = tHostBlocklist (upsert_blocked now hk u d)" using E by blast
  then have reasons: "reasons_for d' k = (if k = hk then Some u else reasons_for d k)" for k
    using reasons_for_upsert[of now hk u d k] by (simp add: reasons_for_def)
  have h: "host_id_of (upsert_blocked now hk u d) hk = host_id_of d hk" by (simp add: host_id_of_def upsert_blocked_def)
  have t: "tContracts (upsert_blocked now hk u d) = tContracts d" "tSectors (upsert_blocked now hk u d) = tSectors d" by (simp_all add: upsert_blocked_def)
  have "tContracts d' = unmark_good (host_ids_of d [hk]) (tContracts d) \<and> tSectors d' = detach_unpinned (host_ids_of d [hk]) (tSectors d)"
  proof (cases "host_id_of d hk")
    case None
    with assms h t show ?thesis by (auto simp: block_host_def Let_def u_def[symmetric] host_ids_of_def)
  next
    case (Some i)
    let ?e = "(upsert_blocked now hk u d)\<lparr>tContracts := update_rows (\<lambda>c. ct_host_id c = i) (\<lambda>c. c\<lparr>ct_good := False\<rparr>) (tContracts d)\<rparr>"
    have "drop_unpinned i ?e = Inr d'" using assms Some h by (simp add: block_host_def Let_def u_def[symmetric] t)
    from drop_unpinned_effect[OF this] Some show ?thesis
      by (simp add: unmark_good_def detach_unpinned_def host_ids_of_def t store_simps)
  qed
  with ids reasons show ?thesis by (simp add: u_def)
qed

lemma distinct_remdups_adj_sorted: "sorted xs \<Longrightarrow> distinct (remdups_adj xs)"
  by (induction xs rule: induct_list012) (auto simp: order.antisym)

lemma BlockHosts_tables:
  "BlockHosts now hks rs d = Inr (x, d') \<Longrightarrow>
    tContracts d' = unmark_good (host_ids_of d hks) (tContracts d) \<and> tSectors d' = detach_unpinned (host_ids_of d hks) (tSectors d) \<and>
    (\<forall>k. reasons_for d' k = (if k \<in> set hks then Some (remdups_adj (sort (blocked_reasons d k @ rs))) else reasons_for d k))"
proof (induction hks arbitrary: d)
  case Nil
  then show ?case by (simp add: host_ids_of_def)
next
  case (Cons hk hks)
  then obtain d1 where 1: "block_host now rs hk d = Inr d1" "BlockHosts now hks rs d1 = Inr (x, d')" by (auto simp: rbind_eq_Inr)
  note A = block_host_tables[OF 1(1)] and B = Cons.IH[OF 1(2)]
  have ids: "host_ids_of d1 hks = host_ids_of d hks" "host_ids_of d (hk # hks) = host_ids_of d [hk] \<union> host_ids_of d hks"
    using A by (auto simp: host_ids_of_def)
  have u: "remdups_adj (sort (blocked_reasons d1 k @ rs)) = remdups_adj (sort (blocked_reasons d k @ rs))" for k
  proof (cases "k = hk")
    case True
    then show ?thesis using A
      by (intro sorted_distinct_set_unique) (auto simp: blocked_reasons_eq sorted_remdups_adj intro: distinct_remdups_adj_sorted)
  next
    case False
    with A show ?thesis by (simp add: blocked_reasons_eq)
  qed
  show ?case
    using A B unfolding ids by (simp add: unmark_good_twice detach_unpinned_twice u)
qed

text \<open>
  Claim C33: blocking works: \<open>BlockHosts\<close> succeeds, takes the good mark off all contracts of the given hosts, detaches their
  unpinned sectors and leaves all other contracts and sectors as they were, with all counters exact. Every given key is on the blocklist
  with the given reasons and, if its host is known, the ones it had, sorted and each once; other entries keep their reasons. The given hosts
  are not offered for uploads, funding or pinning any more: they are in
  none of the lists that the queries return and no unpinned sector is left on them.
\<close>

theorem BlockHosts_effective:
  assumes "host_inv d" and "\<And>ys. mset (scan ys) = mset ys"
  shows "\<exists>d'. BlockHosts now hks rs d = Inr ((), d') \<and> host_inv d' \<and>
    tContracts d' = map (\<lambda>c. if \<exists>hk \<in> set hks. host_id_of d hk = Some (ct_host_id c) then c\<lparr>ct_good := False\<rparr> else c) (tContracts d) \<and>
    tSectors d' = map (\<lambda>s. if sec_csm s = None \<and> (\<exists>hk \<in> set hks. host_id_of d hk \<noteq> None \<and> sec_host_id s = host_id_of d hk)
      then s\<lparr>sec_host_id := None, sec_failed_checks := 0\<rparr> else s) (tSectors d) \<and>
    (\<forall>hk. map_option hb_reasons (find (\<lambda>b. hb_public_key b = hk) (tHostBlocklist d')) =
      (if hk \<in> set hks then Some (remdups_adj (sort (blocked_reasons d hk @ rs)))
       else map_option hb_reasons (find (\<lambda>b. hb_public_key b = hk) (tHostBlocklist d)))) \<and>
    (\<forall>hk \<in> set hks. hk \<notin> InfoPublicKey ` set (UsableHosts P scan offset limit opts d') \<and> hk \<notin> set (HostsForFunding d') \<and> hk \<notin> set (HostsForPinning d') \<and>
       (\<forall>h \<in> set (tHosts d'). h_public_key h = hk \<longrightarrow> h_unpinned_sectors h = 0))"
proof -
  from BlockHosts_returns[OF assms(1)] obtain d' where eq: "BlockHosts now hks rs d = Inr ((), d')" by blast
  note T = BlockHosts_tables[OF eq]
  have "host_inv d'" using BlockHosts_keeps[OF eq] assms(1) by (simp add: keeps_host_inv_def)
  moreover have "hk \<notin> InfoPublicKey ` set (UsableHosts P scan offset limit opts d') \<and> hk \<notin> set (HostsForFunding d') \<and> hk \<notin> set (HostsForPinning d') \<and>
    (\<forall>h \<in> set (tHosts d'). h_public_key h = hk \<longrightarrow> h_unpinned_sectors h = 0)" if "hk \<in> set hks" for hk
    using blocked_host_unused[OF eq assms that] by blast
  moreover have "tContracts d' = map (\<lambda>c. if \<exists>hk \<in> set hks. host_id_of d hk = Some (ct_host_id c) then c\<lparr>ct_good := False\<rparr> else c) (tContracts d)"
    using T by (simp add: unmark_good_def host_ids_of_def update_rows_def)
  moreover have "tSectors d' = map (\<lambda>s. if sec_csm s = None \<and> (\<exists>hk \<in> set hks. host_id_of d hk \<noteq> None \<and> sec_host_id s = host_id_of d hk)
      then s\<lparr>sec_host_id := None, sec_failed_checks := 0\<rparr> else s) (tSectors d)"
  proof -
    have "(\<exists>i \<in> host_ids_of d hks. unpinned_on i s) \<longleftrightarrow> sec_csm s = None \<and> (\<exists>hk \<in> set hks. host_id_of d hk \<noteq> None \<and> sec_host_id s = host_id_of d hk)" for s
      by (auto simp: host_ids_of_def unpinned_on_def)
    with T show ?thesis by (simp add: detach_unpinned_def update_rows_def)
  qed
  ultimately show ?thesis using eq T by (auto simp: reasons_for_def)
qed

text \<open>The scan results of a host.\<close>

definition decay_ok :: "(duration \<Rightarrow> rat) \<Rightarrow> bool" where
  "decay_ok decay \<longleftrightarrow> (\<forall>t. 0 \<le> t \<longrightarrow> 0 < decay t \<and> decay t \<le> 1)"

definition scanned_before :: "gotime \<Rightarrow> host_row \<Rightarrow> bool" where
  "scanned_before now h \<longleftrightarrow> (\<forall>t. h_last_failed_scan h = Some t \<or> h_last_successful_scan h = Some t \<longrightarrow> t \<le> now)"

lemma scan_uptime:
  assumes "decay_ok decay" "uptime_ok h" "scanned_before now h"
  shows "uptime_ok (failed_scan decay now n h) \<and> h_recent_uptime (failed_scan decay now n h) \<le> h_recent_uptime h \<and>
    uptime_ok (successful_scan decay now hs loc n h) \<and> h_recent_uptime h \<le> h_recent_uptime (successful_scan decay now hs loc n h)"
proof -
  let ?f = "decay (elapsed_time now h)" and ?u = "h_recent_uptime h"
  have "0 \<le> elapsed_time now h" using assms(3) by (auto simp: elapsed_time_def scanned_before_def split: option.splits)
  with assms(1) have f: "0 < ?f" "?f \<le> 1" by (simp_all add: decay_ok_def)
  from assms(2) have u: "0 < ?u" "?u < 1" by (simp_all add: uptime_ok_def)
  from f u have "0 < ?u * ?f" "?u * ?f \<le> ?u" by (simp_all add: mult_left_le)
  moreover from f u have "0 < (1 - ?u) * ?f" "(1 - ?u) * ?f \<le> 1 - ?u" by (simp_all add: mult_left_le)
  moreover have "1 - ?f + ?u * ?f = 1 - (1 - ?u) * ?f" by (simp add: algebra_simps)
  ultimately have "?u \<le> 1 - ?f + ?u * ?f" "0 < 1 - ?f + ?u * ?f" "1 - ?f + ?u * ?f < 1" "0 < ?u * ?f" "?u * ?f \<le> ?u" "?u * ?f < 1"
    using u by linarith+
  then show ?thesis unfolding uptime_ok_def failed_scan_def successful_scan_def by simp
qed

text \<open>
  Recording a scan of a known host always succeeds, as long as the unsigned numbers of its
  settings fit the columns. The recent uptime stays strictly between zero and one, as the check
  constraint wants, and moves in the right direction: up after a successful scan and down after
  a failed one; other hosts keep theirs.
\<close>

theorem UpdateHostScan_uptime:
  assumes "decay_ok decay" and "hosts_wf d" and "\<forall>h \<in> set (tHosts d). scanned_before now h"
    and "hk \<in> h_public_key ` set (tHosts d)" and "success \<longrightarrow> settings_columns_ok hs"
  shows "\<exists>d'. UpdateHostScan decay now hk hs loc success next d = Inr ((), d') \<and>
    list_all2 (\<lambda>h h'. h_public_key h' = h_public_key h \<and> 0 < h_recent_uptime h' \<and> h_recent_uptime h' < 1 \<and>
       (h_public_key h \<noteq> hk \<longrightarrow> h' = h) \<and>
       (h_public_key h = hk \<longrightarrow> h_next_scan h' = next \<and>
         (if success then h_recent_uptime h \<le> h_recent_uptime h' \<and> h_consecutive_failed_scans h' = 0
          else h_recent_uptime h' \<le> h_recent_uptime h \<and> h_consecutive_failed_scans h' = h_consecutive_failed_scans h + 1)))
      (tHosts d) (tHosts d')"
proof -
  define upd where "upd = (if success then successful_scan decay now hs loc next else failed_scan decay now next)"
  let ?Q = "\<lambda>h. h_public_key h = hk"
  have ok: "uptime_ok h \<and> uptime_ok (upd h) \<and> (if success then h_recent_uptime h \<le> h_recent_uptime (upd h) else h_recent_uptime (upd h) \<le> h_recent_uptime h)"
    if "h \<in> set (tHosts d)" for h
    using that assms(2,3) scan_uptime[OF assms(1), of h now] by (auto simp: hosts_wf_def host_wf_def upd_def)
  then have "\<forall>h \<in> set (update_rows ?Q upd (tHosts d)). uptime_ok h" by (simp add: ball_update_rows)
  with assms(4,5) have eq: "UpdateHostScan decay now hk hs loc success next d =
      Inr ((), incrementNumScans success (d\<lparr>tHosts := update_rows ?Q upd (tHosts d)\<rparr>))"
    unfolding UpdateHostScan_def Let_def upd_def[symmetric] by auto
  moreover have "tHosts (incrementNumScans success (d\<lparr>tHosts := hs'\<rparr>)) = hs'" for hs'
    by (simp add: incrementNumScans_def Let_def store_simps)
  moreover have "h_public_key (upd h) = h_public_key h \<and> h_next_scan (upd h) = next \<and>
      h_consecutive_failed_scans (upd h) = (if success then 0 else h_consecutive_failed_scans h + 1)" for h
    by (simp add: upd_def successful_scan_def failed_scan_def)
  ultimately show ?thesis
    using ok by (auto simp: update_rows_def list_all2_map2 list_all2_same uptime_ok_def split: if_splits)
qed

text \<open>
  After \<open>UpdateStuckHosts\<close> exactly the given hosts are stuck; a host that was stuck before
  and still is keeps the time it became stuck.
\<close>

lemma UpdateStuckHosts_exact:
  "\<exists>d'. UpdateStuckHosts now stuck d = Inr ((), d') \<and>
     list_all2 (\<lambda>h h'. h_public_key h' = h_public_key h \<and>
       h_stuck_since h' = (if h_public_key h \<notin> set stuck then None
                           else if h_stuck_since h = None then Some now else h_stuck_since h)) (tHosts d) (tHosts d') \<and>
     fst ` set (StuckHosts d') = set stuck \<inter> h_public_key ` set (tHosts d)"
proof -
  let ?g = "\<lambda>h. if h_public_key h \<in> set stuck then h\<lparr>h_stuck_since := (case h_stuck_since h of None \<Rightarrow> Some now | Some t \<Rightarrow> Some t)\<rparr>
     else if h_stuck_since h \<noteq> None then h\<lparr>h_stuck_since := None\<rparr> else h"
  have "UpdateStuckHosts now stuck d = Inr ((), d\<lparr>tHosts := map ?g (tHosts d)\<rparr>)"
    by (auto simp: UpdateStuckHosts_def Let_def update_rows_def)
  moreover have "fst ` set (StuckHosts (d\<lparr>tHosts := map ?g (tHosts d)\<rparr>)) = h_public_key ` {h \<in> set (map ?g (tHosts d)). h_stuck_since h \<noteq> None}"
    by (simp add: StuckHosts_def image_image)
  moreover have "{h \<in> set (map ?g (tHosts d)). h_stuck_since h \<noteq> None} = ?g ` {h \<in> set (tHosts d). h_public_key h \<in> set stuck}"
    by (auto split: option.splits)
  moreover have "h_public_key ` ?g ` {h \<in> set (tHosts d). h_public_key h \<in> set stuck} = set stuck \<inter> h_public_key ` set (tHosts d)"
    unfolding image_image by auto
  ultimately show ?thesis by (auto simp: list_all2_map2 list_all2_same split: option.splits)
qed

text \<open>
  A host key that is not in the table \<open>hosts\<close> loses the reasons it was blocked for when it is
  blocked again.
\<close>

lemma BlockHosts_unknown_forgets:
  assumes "host_id_of d hk = None" "b \<in> set (tHostBlocklist d)" "hb_public_key b = hk" "BlockHosts now [hk] rs d = Inr (x, d')"
    "b' \<in> set (tHostBlocklist d')" "hb_public_key b' = hk"
  shows "hb_reasons b' = remdups_adj (sort rs)"
proof -
  define u where "u = remdups_adj (sort rs)"
  have h: "host_id_of (upsert_blocked now hk u d) hk = None" using assms(1) by (simp add: host_id_of_def upsert_blocked_def)
  have r: "blocked_reasons d hk = []" using assms(1) by (simp add: blocked_reasons_def)
  have "block_host now rs hk d = Inr (upsert_blocked now hk u d)" unfolding block_host_def r Let_def append_Nil u_def[symmetric] h by simp
  with assms(4) have d': "d' = upsert_blocked now hk u d" by simp
  have "hk \<in> hb_public_key ` set (tHostBlocklist d)" using assms(2,3) by blast
  then have "tHostBlocklist d' = update_rows (\<lambda>b. hb_public_key b = hk) (\<lambda>b. b\<lparr>hb_reasons := u\<rparr>) (tHostBlocklist d)"
    unfolding d' by (simp add: upsert_blocked_def)
  with assms(5) obtain b0 where "b' = (if hb_public_key b0 = hk then b0\<lparr>hb_reasons := u\<rparr> else b0)" by (auto simp: set_update_rows)
  with assms(6) show ?thesis unfolding u_def[symmetric] by (auto split: if_splits)
qed

section \<open>Witnesses\<close>

definition sample_hosts_db :: db where
  "sample_hosts_db = sample_db\<lparr>seqHosts := 3\<rparr>"

lemma sample_hosts_db_inv: "host_inv sample_hosts_db"
proof -
  have "store_inv sample_hosts_db"
    by (rule store_inv_same_sectors[OF _ sample_db_inv]) (simp add: sample_hosts_db_def same_sectors_def sqlStatSelect_def)
  moreover have "contracts_wf sample_hosts_db"
    using sample_db_contracts_wf contracts_wf_frame[of sample_hosts_db sample_db] by (simp add: sample_hosts_db_def)
  moreover have "hosts_wf sample_hosts_db"
    by (simp add: hosts_wf_def host_wf_def uptime_ok_def sample_hosts_db_def sample_defs)
  ultimately show ?thesis by (simp add: host_inv_def)
qed

lemma sample_host_ids: "host_id_of sample_hosts_db 11 = Some 1" "host_id_of sample_hosts_db 12 = Some 2"
  by (simp_all add: host_id_of_def sample_hosts_db_def sample_defs)

lemma BlockHosts_effective_witness:
  "\<exists>d'. BlockHosts 7 [11] [''prices''] sample_hosts_db = Inr ((), d') \<and> 11 \<notin> set (HostsForFunding d') \<and> 11 \<in> set (HostsForFunding sample_hosts_db) \<and>
     map ct_good (tContracts d') = [False] \<and> map sec_host_id (tSectors d') = [Some 1, Some 1, None, Some 2, None] \<and> host_inv d'"
proof -
  have "HostsForFunding sample_hosts_db = [11]"
    by (simp add: HostsForFunding_def good_contract_on_def revisable_def contract_active_def sample_hosts_db_def sample_defs)
  moreover obtain d' where d': "BlockHosts 7 [11] [''prices''] sample_hosts_db = Inr ((), d')" "host_inv d'" "11 \<notin> set (HostsForFunding d')"
      "tContracts d' = map (\<lambda>c. if \<exists>hk \<in> set [11]. host_id_of sample_hosts_db hk = Some (ct_host_id c) then c\<lparr>ct_good := False\<rparr> else c) (tContracts sample_hosts_db)"
      "tSectors d' = map (\<lambda>s. if sec_csm s = None \<and> (\<exists>hk \<in> set [11]. host_id_of sample_hosts_db hk \<noteq> None \<and> sec_host_id s = host_id_of sample_hosts_db hk)
        then s\<lparr>sec_host_id := None, sec_failed_checks := 0\<rparr> else s) (tSectors sample_hosts_db)"
    using BlockHosts_effective[OF sample_hosts_db_inv, of "\<lambda>ys. ys" 7 "[11]" "[''prices'']" "\<lparr>siamuxProtocol = ''siamux'', quicProtocol = ''quic''\<rparr>"
      0 10 "\<lparr>UOptCountry = None, UOptProtocol = None, UOptLocation = None\<rparr>"] by (auto simp del: BlockHosts.simps)
  moreover have "map ct_good (tContracts d') = [False]" "map sec_host_id (tSectors d') = [Some 1, Some 1, None, Some 2, None]"
    unfolding d'(4,5) by (simp_all add: sample_host_ids, simp_all add: sample_hosts_db_def sample_defs)
  ultimately show ?thesis by auto
qed

lemma UpdateHostScan_uptime_witness:
  "\<exists>d'. UpdateHostScan (\<lambda>_. 1 / 2) 7 11 unscanned_settings \<lparr>CountryCode = [], Latitude = 0, Longitude = 0\<rparr> False 9 sample_hosts_db = Inr ((), d') \<and>
     list_all2 (\<lambda>h h'. h_public_key h = 12 \<longrightarrow> h' = h) (tHosts sample_hosts_db) (tHosts d')"
proof -
  have "decay_ok (\<lambda>_. 1 / 2)" "hosts_wf sample_hosts_db" "\<forall>h \<in> set (tHosts sample_hosts_db). scanned_before 7 h" "11 \<in> h_public_key ` set (tHosts sample_hosts_db)"
    using sample_hosts_db_inv by (simp_all add: decay_ok_def host_inv_def scanned_before_def sample_hosts_db_def sample_defs)
  from UpdateHostScan_uptime[OF this, of False unscanned_settings "\<lparr>CountryCode = [], Latitude = 0, Longitude = 0\<rparr>" 9]
  show ?thesis by (auto elim!: list_all2_mono)
qed

end
