(* ===== verification/Account_Store.thy ===== *)
theory Account_Store
  imports Host_Store
begin

text \<open>
  Accounts, connect keys, pre-authorized keys, quotas and the object blocklist of the store:
  persist/postgres/accounts.go (the operations that are not in Slab_Store), apps.go, quotas.go
  and blocked.go. Random values (user secrets and pool keys) are parameters.
\<close>

section \<open>Requests and results\<close>

record app_meta =
  MetaID :: hash256
  MetaName :: string
  MetaDescription :: string
  MetaLogoURL :: string
  MetaServiceURL :: string

record account =
  AccountKey :: account_key
  AccConnectKey :: string
  AccMaxPinnedData :: int
  QuotaMaxPinnedData :: int
  ConnectKeyPinnedData :: int
  AccReady :: bool
  AccPinnedData :: int
  AccPinnedSize :: int
  App :: app_meta
  AccLastUsed :: gotime

record connect_key =
  KeyName :: string
  KeyDescription :: string
  KeyQuota :: string
  RemainingUses :: int
  KeyDateCreated :: gotime
  KeyLastUpdated :: gotime
  KeyLastUsed :: gotime
  KeyPinnedData :: int
  KeyPinnedSize :: int

record connect_key_request =
  ReqKey :: string
  ReqDescription :: string
  ReqQuota :: string

record preauthorized_key =
  PakPublicKey :: public_key
  PakConnectKey :: string
  PakExpiration :: gotime
  PakTotalUses :: int
  PakRemainingUses :: int
  PakAllowedAppID :: "hash256 option"
  PakDateCreated :: gotime
  PakLastUsed :: gotime

record preauthorized_key_request =
  PreqPublicKey :: public_key
  PreqConnectKey :: string
  PreqExpiration :: gotime
  PreqTotalUses :: int
  PreqAllowedAppID :: "hash256 option"

record put_quota_request =
  QuotaDescription :: string
  QuotaMaxData :: u64
  QuotaTotalUses :: int
  QuotaFundTargetBytes :: "u64 option"

definition int32_ok :: "int \<Rightarrow> bool" where
  "int32_ok i \<longleftrightarrow> - (2 ^ 31) \<le> i \<and> i < 2 ^ 31"

section \<open>Lookups\<close>

definition key_by_name :: "db \<Rightarrow> string \<Rightarrow> connect_key_row option" where
  "key_by_name d k = find (\<lambda>r. ck_app_key r = k) (tConnectKeys d)"

definition key_by_id :: "db \<Rightarrow> int \<Rightarrow> connect_key_row option" where
  "key_by_id d i = find (\<lambda>r. ck_id r = i) (tConnectKeys d)"

definition quota_by_name :: "db \<Rightarrow> string \<Rightarrow> quota_row option" where
  "quota_by_name d n = find (\<lambda>q. q_name q = n) (tQuotas d)"

definition account_by_key :: "db \<Rightarrow> account_key \<Rightarrow> account_row option" where
  "account_by_key d a = find (\<lambda>r. ac_public_key r = a) (tAccounts d)"

text \<open>The accounts that use a connect key, without the soft-deleted ones.\<close>

definition live_of :: "int \<Rightarrow> account_row \<Rightarrow> bool" where
  "live_of k a \<longleftrightarrow> ac_connect_key_id a = k \<and> ac_deleted_at a = None"

definition remaining_uses :: "db \<Rightarrow> quota_row \<Rightarrow> connect_key_row \<Rightarrow> int" where
  "remaining_uses d q k = max 0 (q_total_uses q - cnt (live_of (ck_id k)) (tAccounts d))"

section \<open>Accounts\<close>

definition ReadyHostThreshold :: nat where
  "ReadyHostThreshold = 30"

text \<open>The hosts on which the account is funded, through its pool or directly.\<close>

definition ready_hosts :: "db \<Rightarrow> account_row \<Rightarrow> int set" where
  "ready_hosts d a =
     set (map pa_host_id (filter (\<lambda>p. pa_account_id p = ac_id a \<and>
       (\<exists>ph \<in> set (tPoolHosts d). ph_pool_id ph = pa_pool_id p \<and> ph_host_id ph = pa_host_id p \<and> ph_failed_funds ph = 0)) (tPoolAttachments d))) \<union>
     set (map ah_host_id (filter (\<lambda>h. ah_account_id h = ac_id a \<and> ah_failed_funds h = 0) (tAccountHosts d)))"

definition scanAccount :: "db \<Rightarrow> account_row \<times> connect_key_row \<times> quota_row \<Rightarrow> account" where
  "scanAccount d row = (case row of (a, k, q) \<Rightarrow>
     \<lparr>AccountKey = ac_public_key a, AccConnectKey = ck_app_key k, AccMaxPinnedData = ac_max_pinned_data a,
      QuotaMaxPinnedData = q_max_pinned_data q, ConnectKeyPinnedData = ck_pinned_data k,
      AccReady = (card (ready_hosts d a) \<ge> ReadyHostThreshold), AccPinnedData = ac_pinned_data a, AccPinnedSize = ac_pinned_size a,
      App = \<lparr>MetaID = ac_app_id a, MetaName = ac_name a, MetaDescription = ac_description a, MetaLogoURL = ac_logo_url a,
             MetaServiceURL = ac_service_url a\<rparr>, AccLastUsed = ac_last_used a\<rparr>)"

text \<open>\<open>accounts a INNER JOIN app_connect_keys ak INNER JOIN quotas q\<close>\<close>

definition accounts_join :: "db \<Rightarrow> (account_row \<times> connect_key_row \<times> quota_row) list" where
  "accounts_join d = concat (map (\<lambda>a. concat (map (\<lambda>k. map (\<lambda>q. (a, k, q)) (filter (\<lambda>q. q_name q = ck_quota_name k) (tQuotas d)))
     (filter (\<lambda>k. ck_id k = ac_connect_key_id a) (tConnectKeys d)))) (tAccounts d))"

definition Accounts :: "nat \<Rightarrow> nat \<Rightarrow> string option \<Rightarrow> db \<Rightarrow> account list result" where
  "Accounts offset limit connectKey d =
     rbind (case connectKey of
              None \<Rightarrow> Inr None
            | Some k \<Rightarrow> (case key_by_name d k of None \<Rightarrow> Inl ErrKeyNotFound | Some r \<Rightarrow> Inr (Some (ck_id r))))
       (\<lambda>connectKeyID.
          let rows = filter (\<lambda>(a, k, q). ac_deleted_at a = None \<and> (connectKeyID = None \<or> connectKeyID = Some (ac_connect_key_id a))) (accounts_join d)
          in Inr (map (scanAccount d) (page_of (stable_sort (\<lambda>x y. ac_id (fst x) < ac_id (fst y)) rows) offset limit)))"

definition Account :: "account_key \<Rightarrow> db \<Rightarrow> account result" where
  "Account ak d =
     (case filter (\<lambda>(a, k, q). ac_public_key a = ak) (accounts_join d) of [] \<Rightarrow> Inl ErrNoRows | row # _ \<Rightarrow> Inr (scanAccount d row))"

definition HasAccount :: "gotime \<Rightarrow> account_key \<Rightarrow> bool tx" where
  "HasAccount now ak d =
     (let here = (\<lambda>a. ac_public_key a = ak \<and> ac_deleted_at a = None)
      in Inr (\<exists>a \<in> set (tAccounts d). here a, d\<lparr>tAccounts := update_rows here (\<lambda>a. a\<lparr>ac_last_used := now\<rparr>) (tAccounts d)\<rparr>))"

definition UpdateAccount :: "account_key \<Rightarrow> u64 option \<Rightarrow> unit tx" where
  "UpdateAccount ak maxPinnedData d =
     (case maxPinnedData of
        None \<Rightarrow> Inr ((), d)
      | Some m \<Rightarrow>
          if \<not> int8_ok m then Inl ErrOutOfRange
          else let here = (\<lambda>a. ac_public_key a = ak \<and> ac_deleted_at a = None)
               in if cnt here (tAccounts d) \<noteq> 1 then Inl ErrAccountNotFound
                  else Inr ((), d\<lparr>tAccounts := update_rows here (\<lambda>a. a\<lparr>ac_max_pinned_data := uint m\<rparr>) (tAccounts d)\<rparr>))"

text \<open>The default limit is the largest 64-bit integer, no limit.\<close>

definition new_account_row :: "gotime \<Rightarrow> int \<Rightarrow> account_key \<Rightarrow> int \<Rightarrow> int \<Rightarrow> app_meta \<Rightarrow> account_row" where
  "new_account_row now i account connectKeyID maxPinned meta =
     \<lparr>ac_id = i, ac_public_key = account, ac_connect_key_id = connectKeyID, ac_pinned_data = 0, ac_pinned_size = 0,
      ac_max_pinned_data = maxPinned, ac_app_id = MetaID meta, ac_name = MetaName meta, ac_description = MetaDescription meta,
      ac_logo_url = MetaLogoURL meta, ac_service_url = MetaServiceURL meta, ac_last_used = now, ac_deleted_at = None\<rparr>"

definition addAccount :: "gotime \<Rightarrow> string \<Rightarrow> account_key \<Rightarrow> app_meta \<Rightarrow> u64 option \<Rightarrow> unit tx" where
  "addAccount now connectKey account meta maxPinnedData d =
     (let m = (case maxPinnedData of None \<Rightarrow> 2 ^ 63 - 1 | Some m \<Rightarrow> m)
      in case key_by_name d connectKey of
           None \<Rightarrow> Inl ErrKeyNotFound
         | Some k \<Rightarrow>
             if \<not> int8_ok m then Inl ErrOutOfRange
             else if account_by_key d account \<noteq> None then Inl ErrAccountExists
             else Inr ((), incrementStat statAccountsRegistered 1
                    (d\<lparr>tAccounts := tAccounts d @ [new_account_row now (seqAccounts d) account (ck_id k) (uint m) meta],
                       seqAccounts := seqAccounts d + 1\<rparr>)))"

section \<open>Connect keys\<close>

definition scanConnectKey :: "connect_key_row \<Rightarrow> int \<Rightarrow> connect_key" where
  "scanConnectKey k uses =
     \<lparr>KeyName = ck_app_key k, KeyDescription = ck_description k, KeyQuota = ck_quota_name k, RemainingUses = uses,
      KeyDateCreated = ck_created_at k, KeyLastUpdated = ck_updated_at k, KeyLastUsed = time_of (ck_last_used k),
      KeyPinnedData = ck_pinned_data k, KeyPinnedSize = ck_pinned_size k\<rparr>"

definition AddAppConnectKey :: "gotime \<Rightarrow> hash256 \<Rightarrow> private_key \<Rightarrow> connect_key_request \<Rightarrow> connect_key tx" where
  "AddAppConnectKey now userSecret poolKey req d =
     (if key_by_name d (ReqKey req) \<noteq> None \<or> userSecret \<in> ck_user_secret ` set (tConnectKeys d) then Inl ErrKeyAlreadyExists
      else case quota_by_name d (ReqQuota req) of
        None \<Rightarrow> Inl ErrQuotaNotFound
      | Some q \<Rightarrow>
          if poolKey \<in> po_pool_key ` set (tPools d) then Inl ErrUniqueViolation
          else
            let k = \<lparr>ck_id = seqConnectKeys d, ck_user_secret = userSecret, ck_app_key = ReqKey req, ck_description = ReqDescription req,
                     ck_created_at = now, ck_updated_at = now, ck_last_used = None, ck_quota_name = ReqQuota req,
                     ck_pinned_data = 0, ck_pinned_size = 0\<rparr>
            in Inr (scanConnectKey k (q_total_uses q),
                 d\<lparr>tConnectKeys := tConnectKeys d @ [k], seqConnectKeys := seqConnectKeys d + 1,
                   tPools := tPools d @ [\<lparr>po_id = seqPools d, po_connect_key_id = ck_id k, po_pool_key = poolKey\<rparr>],
                   seqPools := seqPools d + 1\<rparr>))"

definition UpdateAppConnectKey :: "connect_key_request \<Rightarrow> connect_key tx" where
  "UpdateAppConnectKey req d =
     (case quota_by_name d (ReqQuota req) of
        None \<Rightarrow> Inl ErrQuotaNotFound
      | Some q \<Rightarrow>
          (case key_by_name d (ReqKey req) of
             None \<Rightarrow> Inl ErrKeyNotFound
           | Some k \<Rightarrow>
               let upd = (\<lambda>k. k\<lparr>ck_description := ReqDescription req, ck_quota_name := ReqQuota req\<rparr>)
               in Inr (scanConnectKey (upd k) (remaining_uses d q k),
                       d\<lparr>tConnectKeys := update_rows (\<lambda>k. ck_app_key k = ReqKey req) upd (tConnectKeys d)\<rparr>)))"

definition ValidAppConnectKey :: "string \<Rightarrow> db \<Rightarrow> unit result" where
  "ValidAppConnectKey key d = (case key_by_name d key of None \<Rightarrow> Inl ErrKeyNotFound | Some _ \<Rightarrow> Inr ())"

definition keys_join :: "db \<Rightarrow> (connect_key_row \<times> quota_row) list" where
  "keys_join d = concat (map (\<lambda>k. map (\<lambda>q. (k, q)) (filter (\<lambda>q. q_name q = ck_quota_name k) (tQuotas d))) (tConnectKeys d))"

definition AppConnectKey :: "string \<Rightarrow> db \<Rightarrow> connect_key result" where
  "AppConnectKey key d =
     (case filter (\<lambda>(k, q). ck_app_key k = key) (keys_join d) of
        [] \<Rightarrow> Inl ErrKeyNotFound
      | (k, q) # _ \<Rightarrow> Inr (scanConnectKey k (remaining_uses d q k)))"

definition AppConnectKeys ::
  "((connect_key_row \<times> quota_row) list \<Rightarrow> (connect_key_row \<times> quota_row) list) \<Rightarrow> nat \<Rightarrow> nat \<Rightarrow> db \<Rightarrow> connect_key list" where
  "AppConnectKeys scan offset limit d =
     map (\<lambda>(k, q). scanConnectKey k (remaining_uses d q k))
       (page_of (stable_sort (\<lambda>x y. ck_created_at (fst y) < ck_created_at (fst x)) (scan (keys_join d))) offset limit)"

text \<open>Deleting a connect key deletes its pre-authorized keys and its pool with all rows of the pool; the
  funding events of the pool lose their reference to it.\<close>

definition DeleteAppConnectKey :: "string \<Rightarrow> unit tx" where
  "DeleteAppConnectKey connectKey d =
     (case key_by_name d connectKey of
        None \<Rightarrow> Inl ErrKeyNotFound
      | Some k \<Rightarrow>
          if \<exists>a \<in> set (tAccounts d). ac_connect_key_id a = ck_id k then Inl ErrKeyInUse
          else
            let pools = map po_id (filter (\<lambda>p. po_connect_key_id p = ck_id k) (tPools d))
            in Inr ((), d\<lparr>tConnectKeys := filter (\<lambda>r. ck_app_key r \<noteq> connectKey) (tConnectKeys d),
                 tPreauthorizedKeys := filter (\<lambda>p. pk_connect_key_id p \<noteq> ck_id k) (tPreauthorizedKeys d),
                 tPools := filter (\<lambda>p. po_connect_key_id p \<noteq> ck_id k) (tPools d),
                 tPoolHosts := filter (\<lambda>r. ph_pool_id r \<notin> set pools) (tPoolHosts d),
                 tPoolAttachments := filter (\<lambda>r. pa_pool_id r \<notin> set pools) (tPoolAttachments d),
                 tFundingEvents := update_rows (\<lambda>e. \<exists>p \<in> set pools. fe_pool_id e = Some p) (\<lambda>e. e\<lparr>fe_pool_id := None\<rparr>) (tFundingEvents d)\<rparr>))"

definition RegisterAppKey :: "gotime \<Rightarrow> string \<Rightarrow> account_key \<Rightarrow> app_meta \<Rightarrow> unit tx" where
  "RegisterAppKey now connectKey appKey meta d =
     (case filter (\<lambda>(k, q). ck_app_key k = connectKey) (keys_join d) of
        [] \<Rightarrow> Inl ErrKeyNotFound
      | (k, q) # _ \<Rightarrow>
          let remainingUses = remaining_uses d q k;
              d = d\<lparr>tConnectKeys := update_rows (\<lambda>r. ck_app_key r = connectKey) (\<lambda>r. r\<lparr>ck_last_used := Some now\<rparr>) (tConnectKeys d)\<rparr>
          in rbind (addAccount now connectKey appKey meta None d) (\<lambda>(_, d).
               if remainingUses \<le> 0 then Inl ErrKeyExhausted else Inr ((), d)))"

section \<open>Pre-authorized keys\<close>

definition scanPreAuthorizedKey :: "string \<Rightarrow> preauthorized_key_row \<Rightarrow> preauthorized_key" where
  "scanPreAuthorizedKey connectKey r =
     \<lparr>PakPublicKey = pk_public_key r, PakConnectKey = connectKey, PakExpiration = pk_expires_at r, PakTotalUses = pk_total_uses r,
      PakRemainingUses = pk_remaining_uses r, PakAllowedAppID = pk_allowed_app_id r, PakDateCreated = pk_created_at r,
      PakLastUsed = time_of (pk_last_used r)\<rparr>"

definition AddPreAuthorizedKey :: "gotime \<Rightarrow> preauthorized_key_request \<Rightarrow> preauthorized_key tx" where
  "AddPreAuthorizedKey now req d =
     (case key_by_name d (PreqConnectKey req) of
        None \<Rightarrow> Inl ErrKeyNotFound
      | Some k \<Rightarrow>
          if \<not> int32_ok (PreqTotalUses req) then Inl ErrOutOfRange
          else if PreqTotalUses req \<le> 0 then Inl ErrCheckViolation
          else if PreqPublicKey req \<in> pk_public_key ` set (tPreauthorizedKeys d) then Inl ErrKeyAlreadyExists
          else
            let r = \<lparr>pk_public_key = PreqPublicKey req, pk_connect_key_id = ck_id k, pk_expires_at = PreqExpiration req,
                     pk_total_uses = PreqTotalUses req, pk_remaining_uses = PreqTotalUses req, pk_allowed_app_id = PreqAllowedAppID req,
                     pk_created_at = now, pk_last_used = None\<rparr>
            in Inr (scanPreAuthorizedKey (PreqConnectKey req) r, d\<lparr>tPreauthorizedKeys := tPreauthorizedKeys d @ [r]\<rparr>))"

definition preauthorized_join :: "db \<Rightarrow> (preauthorized_key_row \<times> connect_key_row) list" where
  "preauthorized_join d = concat (map (\<lambda>p. map (\<lambda>k. (p, k)) (filter (\<lambda>k. ck_id k = pk_connect_key_id p) (tConnectKeys d))) (tPreauthorizedKeys d))"

definition PreAuthorizedKey :: "public_key \<Rightarrow> db \<Rightarrow> preauthorized_key result" where
  "PreAuthorizedKey publicKey d =
     (case filter (\<lambda>(p, k). pk_public_key p = publicKey) (preauthorized_join d) of
        [] \<Rightarrow> Inl ErrKeyNotFound
      | (p, k) # _ \<Rightarrow> Inr (scanPreAuthorizedKey (ck_app_key k) p))"

definition PreAuthorizedKeys ::
  "((preauthorized_key_row \<times> connect_key_row) list \<Rightarrow> (preauthorized_key_row \<times> connect_key_row) list) \<Rightarrow> nat \<Rightarrow> nat \<Rightarrow> db \<Rightarrow> preauthorized_key list" where
  "PreAuthorizedKeys scan offset limit d =
     map (\<lambda>(p, k). scanPreAuthorizedKey (ck_app_key k) p)
       (page_of (stable_sort (\<lambda>x y. pk_created_at (fst y) < pk_created_at (fst x)) (scan (preauthorized_join d))) offset limit)"

definition DeletePreAuthorizedKey :: "public_key \<Rightarrow> unit tx" where
  "DeletePreAuthorizedKey publicKey d =
     (if publicKey \<notin> pk_public_key ` set (tPreauthorizedKeys d) then Inl ErrKeyNotFound
      else Inr ((), d\<lparr>tPreauthorizedKeys := filter (\<lambda>p. pk_public_key p \<noteq> publicKey) (tPreauthorizedKeys d)\<rparr>))"

definition PruneExpiredPreAuthorizedKeys :: "gotime \<Rightarrow> unit tx" where
  "PruneExpiredPreAuthorizedKeys cutoff d =
     Inr ((), d\<lparr>tPreauthorizedKeys := filter (\<lambda>p. \<not> pk_expires_at p \<le> cutoff) (tPreauthorizedKeys d)\<rparr>)"

definition appAuthorization :: "db \<Rightarrow> string \<Rightarrow> hash256 \<Rightarrow> (hash256 \<times> bool) result" where
  "appAuthorization d connectKey appID =
     (case key_by_name d connectKey of
        None \<Rightarrow> Inl ErrKeyNotFound
      | Some k \<Rightarrow> Inr (ck_user_secret k, \<exists>a \<in> set (tAccounts d). live_of (ck_id k) a \<and> ac_app_id a = appID))"

text \<open>The condition of the update that consumes one use.\<close>

definition consumable :: "gotime \<Rightarrow> public_key \<Rightarrow> hash256 \<Rightarrow> preauthorized_key_row \<Rightarrow> bool" where
  "consumable now publicKey appID p \<longleftrightarrow> pk_public_key p = publicKey \<and> pk_expires_at p > now \<and> pk_remaining_uses p > 0 \<and>
     (pk_allowed_app_id p = None \<or> pk_allowed_app_id p = Some appID)"

definition consume_use :: "gotime \<Rightarrow> preauthorized_key_row \<Rightarrow> preauthorized_key_row" where
  "consume_use now p = p\<lparr>pk_remaining_uses := pk_remaining_uses p - 1, pk_last_used := Some now\<rparr>"

text \<open>The error that explains why no row was updated.\<close>

definition consume_error :: "gotime \<Rightarrow> public_key \<Rightarrow> hash256 \<Rightarrow> db \<Rightarrow> err" where
  "consume_error now publicKey appID d =
     (case find (\<lambda>p. pk_public_key p = publicKey) (tPreauthorizedKeys d) of
        None \<Rightarrow> ErrKeyNotFound
      | Some p \<Rightarrow>
          if pk_expires_at p \<le> now then ErrPreAuthorizedKeyExpired
          else if pk_remaining_uses p \<le> 0 then ErrPreAuthorizedKeyExhausted
          else if pk_allowed_app_id p \<noteq> None \<and> pk_allowed_app_id p \<noteq> Some appID then ErrPreAuthorizedKeyAppMismatch
          else ErrKeyNotFound)"

definition ConsumePreAuthorizedKey :: "gotime \<Rightarrow> public_key \<Rightarrow> hash256 \<Rightarrow> (string \<times> hash256 \<times> bool) tx" where
  "ConsumePreAuthorizedKey now publicKey appID d =
     (case filter (\<lambda>(p, k). consumable now publicKey appID p) (preauthorized_join d) of
        [] \<Rightarrow> Inl (consume_error now publicKey appID d)
      | (p, k) # _ \<Rightarrow>
          let d' = d\<lparr>tPreauthorizedKeys := update_rows (\<lambda>r. pk_public_key r = publicKey) (consume_use now) (tPreauthorizedKeys d)\<rparr>
          in rbind (appAuthorization d' (ck_app_key k) appID) (\<lambda>(userSecret, reconnecting).
               Inr ((ck_app_key k, userSecret, reconnecting), d')))"

definition AppAuthorization :: "string \<Rightarrow> hash256 \<Rightarrow> db \<Rightarrow> (hash256 \<times> bool) result" where
  "AppAuthorization connectKey appID d = appAuthorization d connectKey appID"

section \<open>Quotas\<close>

definition quota_columns_ok :: "string \<Rightarrow> put_quota_request \<Rightarrow> err option" where
  "quota_columns_ok key req =
     (case QuotaFundTargetBytes req of
        None \<Rightarrow> Some (ErrPg ''23502'')
      | Some t \<Rightarrow>
          if \<not> int8_ok (QuotaMaxData req) \<or> \<not> int8_ok t \<or> \<not> int32_ok (QuotaTotalUses req) then Some ErrOutOfRange
          else if length key = 0 \<or> length key > 32 \<or> QuotaTotalUses req < 0 then Some ErrCheckViolation else None)"

definition PutQuota :: "string \<Rightarrow> put_quota_request \<Rightarrow> unit tx" where
  "PutQuota key req d =
     (case quota_columns_ok key req of
        Some e \<Rightarrow> Inl e
      | None \<Rightarrow>
          let q = \<lparr>q_name = key, q_description = QuotaDescription req, q_max_pinned_data = uint (QuotaMaxData req),
                   q_total_uses = QuotaTotalUses req, q_fund_target_bytes = uint (the (QuotaFundTargetBytes req))\<rparr>
          in if quota_by_name d key \<noteq> None
             then Inr ((), d\<lparr>tQuotas := update_rows (\<lambda>r. q_name r = key) (\<lambda>_. q) (tQuotas d)\<rparr>)
             else Inr ((), d\<lparr>tQuotas := tQuotas d @ [q]\<rparr>))"

definition DeleteQuota :: "string \<Rightarrow> unit tx" where
  "DeleteQuota key d =
     (if quota_by_name d key = None then Inl ErrQuotaNotFound
      else if \<exists>k \<in> set (tConnectKeys d). ck_quota_name k = key then Inl ErrQuotaInUse
      else Inr ((), d\<lparr>tQuotas := filter (\<lambda>q. q_name q \<noteq> key) (tQuotas d)\<rparr>))"

definition Quota :: "string \<Rightarrow> db \<Rightarrow> quota_row result" where
  "Quota key d = (case quota_by_name d key of None \<Rightarrow> Inl ErrQuotaNotFound | Some q \<Rightarrow> Inr q)"

definition Quotas :: "nat \<Rightarrow> nat \<Rightarrow> db \<Rightarrow> quota_row list" where
  "Quotas offset limit d = page_of (stable_sort (\<lambda>a b. q_name a < q_name b) (tQuotas d)) offset limit"

section \<open>Blocked objects\<close>

definition BlockObject :: "gotime \<Rightarrow> hash256 \<Rightarrow> string \<Rightarrow> unit tx" where
  "BlockObject now objectKey reason d =
     Inr ((), if objectKey \<in> bo_key ` set (tBlocked d)
              then d\<lparr>tBlocked := update_rows (\<lambda>b. bo_key b = objectKey) (\<lambda>b. b\<lparr>bo_reason := reason\<rparr>) (tBlocked d)\<rparr>
              else d\<lparr>tBlocked := tBlocked d @ [\<lparr>bo_key = objectKey, bo_reason = reason, bo_created_at = now\<rparr>]\<rparr>)"

definition UnblockObject :: "gotime \<Rightarrow> hash256 \<Rightarrow> unit tx" where
  "UnblockObject now objectKey d =
     (if objectKey \<notin> bo_key ` set (tBlocked d) then Inr ((), d)
      else Inr ((), d\<lparr>tBlocked := filter (\<lambda>b. bo_key b \<noteq> objectKey) (tBlocked d),
             tObjectEvents := update_rows (\<lambda>e. oe_key e = objectKey) (\<lambda>e. e\<lparr>oe_updated_at := trunc_second now\<rparr>) (tObjectEvents d)\<rparr>))"

definition BlockedObject :: "hash256 \<Rightarrow> db \<Rightarrow> blocked_row result" where
  "BlockedObject objectKey d = (case find (\<lambda>b. bo_key b = objectKey) (tBlocked d) of None \<Rightarrow> Inl ErrObjectNotBlocked | Some b \<Rightarrow> Inr b)"

definition BlockedObjects :: "nat \<Rightarrow> nat \<Rightarrow> db \<Rightarrow> blocked_row list" where
  "BlockedObjects offset limit d =
     page_of (stable_sort (\<lambda>a b. bo_created_at b < bo_created_at a \<or> (bo_created_at a = bo_created_at b \<and> bo_key a < bo_key b)) (tBlocked d)) offset limit"

section \<open>The invariant of accounts and keys\<close>

text \<open>The data that the live accounts of a connect key have pinned.\<close>

definition live_sum :: "(account_row \<Rightarrow> int) \<Rightarrow> int \<Rightarrow> account_row list \<Rightarrow> int" where
  "live_sum f k as = sum_list (map f (filter (live_of k) as))"

lemma live_sum_simps [simp]:
  "live_sum f k [] = 0" "live_sum f k (a # as) = (if live_of k a then f a else 0) + live_sum f k as"
  "live_sum f k (as @ bs) = live_sum f k as + live_sum f k bs"
  by (simp_all add: live_sum_def)

definition account_wf :: "db \<Rightarrow> account_row \<Rightarrow> bool" where
  "account_wf d a \<longleftrightarrow> ac_id a < seqAccounts d \<and> ac_connect_key_id a \<in> ck_id ` set (tConnectKeys d) \<and> 0 \<le> ac_pinned_data a \<and>
     0 \<le> ac_pinned_size a \<and> 0 \<le> ac_max_pinned_data a"

definition key_wf :: "db \<Rightarrow> connect_key_row \<Rightarrow> bool" where
  "key_wf d k \<longleftrightarrow> ck_id k < seqConnectKeys d \<and> ck_quota_name k \<in> q_name ` set (tQuotas d) \<and>
     live_sum ac_pinned_data (ck_id k) (tAccounts d) \<le> ck_pinned_data k \<and> live_sum ac_pinned_size (ck_id k) (tAccounts d) \<le> ck_pinned_size k"

definition pools_wf :: "db \<Rightarrow> bool" where
  "pools_wf d \<longleftrightarrow> distinct (map po_id (tPools d)) \<and> distinct (map po_connect_key_id (tPools d)) \<and> (\<forall>p \<in> set (tPools d). po_id p < seqPools d) \<and>
     po_connect_key_id ` set (tPools d) = ck_id ` set (tConnectKeys d)"

definition preauthorized_row_wf :: "db \<Rightarrow> preauthorized_key_row \<Rightarrow> bool" where
  "preauthorized_row_wf d p \<longleftrightarrow> pk_connect_key_id p \<in> ck_id ` set (tConnectKeys d) \<and> 0 \<le> pk_remaining_uses p \<and>
     pk_remaining_uses p \<le> pk_total_uses p"

definition preauthorized_wf :: "db \<Rightarrow> bool" where
  "preauthorized_wf d \<longleftrightarrow> distinct (map pk_public_key (tPreauthorizedKeys d)) \<and> (\<forall>p \<in> set (tPreauthorizedKeys d). preauthorized_row_wf d p)"

definition accounts_wf :: "db \<Rightarrow> bool" where
  "accounts_wf d \<longleftrightarrow> distinct (map ac_id (tAccounts d)) \<and> distinct (map ac_public_key (tAccounts d)) \<and>
     distinct (map ck_id (tConnectKeys d)) \<and> distinct (map ck_app_key (tConnectKeys d)) \<and> distinct (map q_name (tQuotas d)) \<and>
     (\<forall>a \<in> set (tAccounts d). account_wf d a) \<and> (\<forall>k \<in> set (tConnectKeys d). key_wf d k) \<and> pools_wf d \<and> preauthorized_wf d"

text \<open>The tables the invariant speaks about.\<close>

definition same_accounts :: "db \<Rightarrow> db \<Rightarrow> bool" where
  "same_accounts d d' \<longleftrightarrow> tAccounts d' = tAccounts d \<and> tConnectKeys d' = tConnectKeys d \<and> tQuotas d' = tQuotas d \<and> tPools d' = tPools d \<and>
     tPreauthorizedKeys d' = tPreauthorizedKeys d \<and> seqAccounts d' = seqAccounts d \<and> seqConnectKeys d' = seqConnectKeys d \<and> seqPools d' = seqPools d"

lemma same_accounts_refl [simp]: "same_accounts d d"
  by (simp add: same_accounts_def)

lemma same_accounts_trans [trans]: "same_accounts a b \<Longrightarrow> same_accounts b c \<Longrightarrow> same_accounts a c"
  by (simp add: same_accounts_def)

lemmas accounts_defs = accounts_wf_def account_wf_def key_wf_def pools_wf_def preauthorized_wf_def preauthorized_row_wf_def

lemma accounts_wf_frame: "same_accounts d d' \<Longrightarrow> accounts_wf d' = accounts_wf d"
  by (simp add: accounts_defs same_accounts_def)

lemma live_sum_update:
  assumes "distinct (map ac_id as)" "a \<in> set as" "ac_id (f a) = ac_id a"
  shows "live_sum g k (update_rows (\<lambda>x. ac_id x = ac_id a) f as) =
    live_sum g k as - (if live_of k a then g a else 0) + (if live_of k (f a) then g (f a) else 0)"
  using assms(1,2)
proof (induction as)
  case (Cons x xs)
  show ?case
  proof (cases "x = a")
    case True
    with Cons.prems(1) have "update_rows (\<lambda>x. ac_id x = ac_id a) f xs = xs"
      by (auto simp: update_rows_def intro!: map_idI) (metis image_eqI)
    with True show ?thesis by simp
  next
    case False
    with Cons.prems have "a \<in> set xs" by simp
    moreover from this Cons.prems(1) have "ac_id x \<noteq> ac_id a" by (metis distinct.simps(2) image_eqI list.set_map list.simps(9))
    ultimately show ?thesis using Cons by simp
  qed
qed simp

lemma live_sum_nonneg: "\<forall>a \<in> set as. 0 \<le> f a \<Longrightarrow> 0 \<le> live_sum f k as"
  by (induction as) auto

lemma live_sum_filter:
  assumes "\<forall>a \<in> set as. \<not> Q a \<longrightarrow> ac_deleted_at a \<noteq> None"
  shows "live_sum f k (filter Q as) = live_sum f k as"
  using assms by (induction as) (auto simp: live_of_def)

text \<open>One account and its connect key change; the key's totals change by what the live account changes.\<close>

definition live_part :: "(account_row \<Rightarrow> int) \<Rightarrow> account_row \<Rightarrow> int" where
  "live_part f a = (if ac_deleted_at a = None then f a else 0)"

lemma accounts_wf_change:
  assumes wf: "accounts_wf d" and a: "a \<in> set (tAccounts d)"
    and f: "ac_id (f a) = ac_id a" "ac_public_key (f a) = ac_public_key a" "ac_connect_key_id (f a) = ac_connect_key_id a" "account_wf d (f a)"
    and g: "\<And>k. ck_id (g k) = ck_id k \<and> ck_app_key (g k) = ck_app_key k \<and> ck_quota_name (g k) = ck_quota_name k"
    and sums: "\<And>k. ck_pinned_data k + live_part ac_pinned_data (f a) - live_part ac_pinned_data a \<le> ck_pinned_data (g k)"
      "\<And>k. ck_pinned_size k + live_part ac_pinned_size (f a) - live_part ac_pinned_size a \<le> ck_pinned_size (g k)"
    and d': "tAccounts d' = update_rows (\<lambda>x. ac_id x = ac_id a) f (tAccounts d)"
      "tConnectKeys d' = update_rows (\<lambda>k. ck_id k = ac_connect_key_id a) g (tConnectKeys d)"
      "tQuotas d' = tQuotas d" "tPools d' = tPools d" "tPreauthorizedKeys d' = tPreauthorizedKeys d"
      "seqAccounts d' = seqAccounts d" "seqConnectKeys d' = seqConnectKeys d" "seqPools d' = seqPools d"
  shows "accounts_wf d'"
proof -
  have uniq: "x = a" if "x \<in> set (tAccounts d)" "ac_id x = ac_id a" for x
    using that a wf by (auto simp: accounts_wf_def distinct_map inj_on_def)
  have maps: "map h (tAccounts d') = map h (tAccounts d)" if "h (f a) = h a" for h :: "account_row \<Rightarrow> 'x"
    unfolding d' using uniq that by (auto simp: update_rows_def)
  have keys: "map ck_id (tConnectKeys d') = map ck_id (tConnectKeys d)" "map ck_app_key (tConnectKeys d') = map ck_app_key (tConnectKeys d)"
    unfolding d' using g by (auto intro!: map_update_rows)
  then have ids: "ck_id ` set (tConnectKeys d') = ck_id ` set (tConnectKeys d)" by (metis set_map)
  have acc: "account_wf d' x = account_wf d x" for x unfolding account_wf_def ids d'(6) by (rule refl)
  have "\<forall>x \<in> set (tAccounts d'). account_wf d' x"
    using wf f(4) uniq unfolding acc by (auto simp: accounts_wf_def d'(1) ball_update_rows)
  moreover have "\<forall>k \<in> set (tConnectKeys d'). key_wf d' k"
  proof -
    have dist: "distinct (map ac_id (tAccounts d))" using wf by (simp add: accounts_wf_def)
    have s: "live_sum h k (tAccounts d') = live_sum h k (tAccounts d) + (if k = ac_connect_key_id a then live_part h (f a) - live_part h a else 0)" for h k
      unfolding d'(1) live_sum_update[of "tAccounts d" a f, OF dist a f(1)] by (auto simp: live_of_def live_part_def f(3))
    have "key_wf d' (if ck_id k = ac_connect_key_id a then g k else k)" if "k \<in> set (tConnectKeys d)" for k
    proof -
      have "key_wf d k" using wf that by (simp add: accounts_wf_def)
      then show ?thesis using g[of k] sums[of k] unfolding key_wf_def s by (auto simp: d')
    qed
    then show ?thesis unfolding d'(2) ball_update_rows by blast
  qed
  moreover have "pools_wf d'" "preauthorized_wf d'" using wf by (simp_all add: accounts_defs d' ids[unfolded d'])
  ultimately show ?thesis using wf f maps[of ac_id] maps[of ac_public_key] keys by (simp add: accounts_wf_def d'(3))
qed

lemma account_found: "find (\<lambda>a. ac_id a = i) as = Some a \<Longrightarrow> a \<in> set as \<and> ac_id a = i"
  by (auto dest: find_SomeD)

text \<open>Charging an account and its connect key.\<close>

lemma charge_accounts_wf:
  assumes wf: "accounts_wf d" and a: "a \<in> set (tAccounts d)" and n: "0 \<le> nd" "0 \<le> ns"
    and c: "charge_account (ac_id a) nd ns d = Inr d1" and k: "charge_connect_key (ac_connect_key_id a) nd ns d1 = Inr d'"
  shows "accounts_wf d'"
proof -
  let ?f = "\<lambda>a. a\<lparr>ac_pinned_data := ac_pinned_data a + nd, ac_pinned_size := ac_pinned_size a + ns\<rparr>"
  let ?g = "\<lambda>k. k\<lparr>ck_pinned_data := ck_pinned_data k + nd, ck_pinned_size := ck_pinned_size k + ns\<rparr>"
  have d1: "d1 = d\<lparr>tAccounts := update_rows (\<lambda>x. ac_id x = ac_id a) ?f (tAccounts d)\<rparr>"
    using c by (auto simp: charge_account_def Let_def split: option.splits if_splits)
  have d': "d' = d1\<lparr>tConnectKeys := update_rows (\<lambda>k. ck_id k = ac_connect_key_id a) ?g (tConnectKeys d1)\<rparr>"
    using k by (auto simp: charge_connect_key_def split: option.splits if_splits)
  have "account_wf d a" using wf a by (simp add: accounts_wf_def)
  with n show ?thesis
    by (intro accounts_wf_change[OF wf a, of ?f ?g]) (simp_all add: d' d1 account_wf_def live_part_def)
qed

lemma pin_slab_nonneg: "pin_slab C H good now nc acc slab d = Inr ((pd, ps), d') \<Longrightarrow> 0 \<le> pd \<and> 0 \<le> ps"
  by (erule pin_slabE) (auto split: if_splits)

lemma pin_slabs_loop_nonneg: "pin_slabs_loop C H good now nc acc slabs d = Inr ((pd, ps), d') \<Longrightarrow> 0 \<le> pd \<and> 0 \<le> ps"
proof (induction slabs arbitrary: d pd ps)
  case (Cons slab rest)
  from Cons.prems obtain pd1 ps1 d1 pd2 ps2 where 1: "pin_slab C H good now nc acc slab d = Inr ((pd1, ps1), d1)"
    and 2: "pin_slabs_loop C H good now nc acc rest d1 = Inr ((pd2, ps2), d')" and s: "pd = pd1 + pd2" "ps = ps1 + ps2"
    by (auto simp: rbind_eq_Inr split: prod.splits)
  from pin_slab_nonneg[OF 1] Cons.IH[OF 2] s show ?case by auto
qed simp

text \<open>Steps that leave the tables of the invariant alone.\<close>

lemma insert_slab_sectors_accounts: "insert_slab_sectors i n ids d = Inr d' \<Longrightarrow> same_accounts d d'"
  by (auto dest!: insert_slab_sectors_effect simp: same_accounts_def)

lemma upsert_sectors_accounts: "upsert_sectors good now nc ss d = Inr (x, d') \<Longrightarrow> same_accounts d d'"
  by (induction ss arbitrary: x d)
     (fastforce simp: rbind_eq_Inr upsert_sector_def Let_def same_accounts_def split: option.splits prod.splits)+

lemma incrementStat_account_tables [store_simps]:
  "tAccounts (incrementStat n v d) = tAccounts d" "tConnectKeys (incrementStat n v d) = tConnectKeys d" "tQuotas (incrementStat n v d) = tQuotas d"
  "tPools (incrementStat n v d) = tPools d" "tPreauthorizedKeys (incrementStat n v d) = tPreauthorizedKeys d"
  "seqAccounts (incrementStat n v d) = seqAccounts d" "seqConnectKeys (incrementStat n v d) = seqConnectKeys d" "seqPools (incrementStat n v d) = seqPools d"
  by (simp_all add: incrementStat_def)

lemma incrementStat_accounts [simp]: "same_accounts d (incrementStat n v d)"
  by (simp add: same_accounts_def store_simps)

lemma accounts_wf_stat: "accounts_wf (incrementStat n v d) = accounts_wf d"
  by (rule accounts_wf_frame) simp

lemma record_unpinned_accounts: "record_unpinned r d = Inr d' \<Longrightarrow> same_accounts d d'"
  by (auto simp: record_unpinned_def rbind_eq_Inr same_accounts_def store_simps split: if_splits
      dest!: incrementHostsUnpinnedSectors_effect)

lemma pin_slab_accounts:
  assumes "pin_slab C H good now nc acc slab d = Inr (x, d')"
  shows "same_accounts d d'"
  using assms
proof (rule pin_slabE)
  fix slabID existing d1 inserted d2 d3 r d4 d5
  assume s: "upsert_slab now (Digest H slab) slab d = Inr ((slabID, existing), d1)"
    "insert_account_slab acc slabID d1 = (inserted, d2)" "d3 = (if existing then d2 else incrementStat statSlabs 1 d2)"
    and u: "upsert_sectors good now nc (Sectors slab) d3 = Inr (r, d4)" and r: "record_unpinned r d4 = Inr d5"
    and i: "insert_slab_sectors slabID 0 (sectorIDs r) d5 = Inr d'"
  have "same_accounts d d1" using s(1) by (auto simp: upsert_slab_def same_accounts_def split: if_splits option.splits)
  also have "same_accounts d1 d2" using s(2) by (auto simp: insert_account_slab_def same_accounts_def split: if_splits)
  also have "same_accounts d2 d3" by (simp add: s(3))
  also note upsert_sectors_accounts[OF u]
  also note record_unpinned_accounts[OF r]
  also note insert_slab_sectors_accounts[OF i]
  finally show ?thesis .
qed

lemma pin_slabs_loop_accounts: "pin_slabs_loop C H good now nc acc slabs d = Inr (x, d') \<Longrightarrow> same_accounts d d'"
proof (induction slabs arbitrary: x d)
  case (Cons slab rest)
  from Cons.prems obtain y d1 z where "pin_slab C H good now nc acc slab d = Inr (y, d1)"
    "pin_slabs_loop C H good now nc acc rest d1 = Inr (z, d')"
    by (auto simp: rbind_eq_Inr split: prod.splits)
  with Cons.IH pin_slab_accounts same_accounts_trans show ?case by blast
qed simp

section \<open>Slab operations keep the invariant\<close>

lemma PinSlabs_accounts_wf:
  assumes wf: "accounts_wf d" and eq: "PinSlabs C H now account nc toPin d = Inr (x, d')"
  shows "accounts_wf d'"
  using eq
proof (rule PinSlabsE)
  fix a nd ns d1 d2
  assume a: "find (\<lambda>a. ac_public_key a = account) (tAccounts d) = Some a"
    and l: "pin_slabs_loop C H (good_host d) now nc (ac_id a) toPin d = Inr ((nd, ns), d1)"
    and c: "charge_account (ac_id a) nd ns d1 = Inr d2" "charge_connect_key (ac_connect_key_id a) nd ns d2 = Inr d'"
  from pin_slabs_loop_accounts[OF l] have same: "same_accounts d d1" .
  with wf have "accounts_wf d1" by (simp add: accounts_wf_frame)
  moreover from a same have "a \<in> set (tAccounts d1)" by (auto dest: find_SomeD simp: same_accounts_def)
  moreover from pin_slabs_loop_nonneg[OF l] have "0 \<le> nd" "0 \<le> ns" by simp_all
  ultimately show ?thesis using c by (rule charge_accounts_wf)
qed

lemma unpinSlabs_accounts_wf:
  assumes wf: "accounts_wf d" and eq: "unpinSlabs C acc ids d = Inr d'"
  shows "accounts_wf d'"
proof (cases "map snd (filter (\<lambda>(x, s). x = acc \<and> s \<in> set ids) (tAccountSlabs d)) = []")
  case True
  with eq have "same_accounts d d'" by (auto simp: unpinSlabs_def Let_def same_accounts_def)
  with wf show ?thesis by (simp add: accounts_wf_frame)
next
  case False
  define un where "un = map snd (filter (\<lambda>(x, s). x = acc \<and> s \<in> set ids) (tAccountSlabs d))"
  define e where "e = d\<lparr>tAccountSlabs := filter (\<lambda>(x, s). \<not> (x = acc \<and> s \<in> set ids)) (tAccountSlabs d)\<rparr>"
  define dd where "dd = slab_data C e un"
  define sd where "sd = slab_size C e un"
  define f where "f = (\<lambda>a :: account_row. a\<lparr>ac_pinned_data := ac_pinned_data a - dd, ac_pinned_size := ac_pinned_size a - sd\<rparr>)"
  from False have un: "un \<noteq> []" by (simp add: un_def)
  have fid: "ac_id (f a) = ac_id a" for a by (simp add: f_def)
  have find_upd: "find (\<lambda>a. ac_id a = acc) (update_rows (\<lambda>a. ac_id a = acc) f xs) = map_option f (find (\<lambda>a. ac_id a = acc) xs)" for xs
    by (induction xs) (auto simp: fid)
  have U: "unpinSlabs C acc ids d =
      (case map_option f (find (\<lambda>a. ac_id a = acc) (tAccounts d)) of
         None \<Rightarrow> Inl ErrNoRows
       | Some a \<Rightarrow>
           if ac_pinned_data a < 0 \<or> ac_pinned_size a < 0 then Inl ErrCheckViolation
           else
             let keys = (if ac_deleted_at a = None
                 then update_rows (\<lambda>k. ck_id k = ac_connect_key_id a)
                   (\<lambda>k. k\<lparr>ck_pinned_data := ck_pinned_data k - dd, ck_pinned_size := ck_pinned_size k - sd\<rparr>) (tConnectKeys d)
                 else tConnectKeys d)
             in if \<exists>k \<in> set keys. ck_pinned_data k < 0 \<or> ck_pinned_size k < 0 then Inl ErrCheckViolation
                else Inr (queue_slabs un (e\<lparr>tAccounts := update_rows (\<lambda>a. ac_id a = acc) f (tAccounts d), tConnectKeys := keys\<rparr>)))"
    unfolding find_upd[symmetric] using False
    unfolding unpinSlabs_def Let_def un_def e_def dd_def sd_def f_def by (simp split: option.split) blast
  from eq U obtain a where a: "find (\<lambda>a. ac_id a = acc) (tAccounts d) = Some a"
    by (cases "find (\<lambda>a. ac_id a = acc) (tAccounts d)") simp_all
  define g where "g = (\<lambda>k :: connect_key_row. if ac_deleted_at a = None then k\<lparr>ck_pinned_data := ck_pinned_data k - dd, ck_pinned_size := ck_pinned_size k - sd\<rparr> else k)"
  from a have mem: "a \<in> set (tAccounts d)" "ac_id a = acc" by (auto dest: find_SomeD)
  have ok: "0 \<le> ac_pinned_data (f a) \<and> 0 \<le> ac_pinned_size (f a) \<and>
      d' = queue_slabs un (e\<lparr>tAccounts := update_rows (\<lambda>x. ac_id x = ac_id a) f (tAccounts d),
        tConnectKeys := update_rows (\<lambda>k. ck_id k = ac_connect_key_id a) g (tConnectKeys d)\<rparr>)"
  proof -
    have keys: "(if ac_deleted_at a = None then update_rows (\<lambda>k. ck_id k = ac_connect_key_id a)
        (\<lambda>k. k\<lparr>ck_pinned_data := ck_pinned_data k - dd, ck_pinned_size := ck_pinned_size k - sd\<rparr>) (tConnectKeys d)
       else tConnectKeys d) = update_rows (\<lambda>k. ck_id k = ac_connect_key_id a) g (tConnectKeys d)"
      by (cases "ac_deleted_at a") (simp_all add: g_def update_rows_id)
    have [simp]: "ac_deleted_at (f a) = ac_deleted_at a" "ac_connect_key_id (f a) = ac_connect_key_id a" by (simp_all add: f_def)
    from eq have "0 \<le> ac_pinned_data (f a)" "0 \<le> ac_pinned_size (f a)" unfolding U by (simp_all add: a split: if_splits)
    with eq show ?thesis unfolding U a option.map option.case Let_def \<open>ac_deleted_at (f a) = _\<close> \<open>ac_connect_key_id (f a) = _\<close> keys
      by (simp add: mem(2) split: if_splits)
  qed
  have "account_wf d a" using wf mem by (simp add: accounts_wf_def)
  with ok have "account_wf d (f a)" by (simp add: account_wf_def f_def)
  then show ?thesis
    by (intro accounts_wf_change[OF wf mem(1), of f g])
       (use ok in \<open>simp_all add: f_def g_def live_part_def queue_slabs_def e_def\<close>)
qed

lemma unpinUnreferencedSlabs_accounts_wf:
  "accounts_wf d \<Longrightarrow> unpinUnreferencedSlabs C acc ids cutoff d = Inr d' \<Longrightarrow> accounts_wf d'"
  by (auto simp: unpinUnreferencedSlabs_def Let_def split: if_splits intro: unpinSlabs_accounts_wf)

lemma UnpinSlab_accounts_wf: "accounts_wf d \<Longrightarrow> UnpinSlab C account slabID d = Inr (x, d') \<Longrightarrow> accounts_wf d'"
  by (auto simp: UnpinSlab_def rbind_eq_Inr split: if_splits option.splits prod.splits intro: unpinSlabs_accounts_wf)

lemma accounts_wf_objects [simp]:
  "accounts_wf (d\<lparr>tObjectSlabs := x, tObjects := y, tObjectEvents := z\<rparr>) = accounts_wf d"
  by (rule accounts_wf_frame) (simp add: same_accounts_def)

lemma DeleteObject_accounts_wf: "accounts_wf d \<Longrightarrow> DeleteObject C now account key d = Inr (x, d') \<Longrightarrow> accounts_wf d'"
  by (auto simp: DeleteObject_def rbind_eq_Inr Let_def split: option.splits prod.splits dest!: unpinUnreferencedSlabs_accounts_wf[rotated])

lemma prune_slabs_batch_accounts_wf:
  "accounts_wf d \<Longrightarrow> prune_slabs_batch C acc cutoff cursor d = Inr (x, d') \<Longrightarrow> accounts_wf d'"
  by (auto simp: prune_slabs_batch_def rbind_eq_Inr Let_def split: if_splits intro: unpinUnreferencedSlabs_accounts_wf)

lemma PinObject_accounts: "PinObject now account obj d = Inr (x, d') \<Longrightarrow> same_accounts d d'"
  by (auto simp: PinObject_def upsert_object_def upsert_event_def rbind_eq_Inr Let_def same_accounts_def split: if_splits option.splits prod.splits)

lemma MarkSlabRepaired_accounts: "MarkSlabRepaired now slabID ok d = Inr (x, d') \<Longrightarrow> same_accounts d d'"
  by (auto simp: MarkSlabRepaired_def same_accounts_def split: if_splits option.splits)

lemma PruneDeletedSlabs_accounts: "PruneDeletedSlabs limit d = Inr (x, d') \<Longrightarrow> same_accounts d d'"
  by (auto simp: PruneDeletedSlabs_def Let_def rbind_eq_Inr same_accounts_def store_simps remove_slabs_def split: if_splits
      dest!: deleteOrphanedSlabs_effect)

lemma accounts_uniqueD:
  assumes "accounts_wf d" "a \<in> set (tAccounts d)" "b \<in> set (tAccounts d)"
  shows "ac_id a = ac_id b \<longleftrightarrow> a = b" "ac_public_key a = ac_public_key b \<longleftrightarrow> a = b"
  using assms by (auto simp: accounts_wf_def distinct_map inj_on_def)

lemma update_rows_cong: "(\<And>x. x \<in> set xs \<Longrightarrow> Q x = R x) \<Longrightarrow> update_rows Q f xs = update_rows R f xs"
  by (simp add: update_rows_def)

lemma DeleteAccount_accounts_wf:
  assumes wf: "accounts_wf d" and eq: "DeleteAccount now account d = Inr (x, d')"
  shows "accounts_wf d'"
proof -
  from eq obtain a k where fa: "find (\<lambda>a. ac_public_key a = account \<and> ac_deleted_at a = None) (tAccounts d) = Some a"
    and fk: "find (\<lambda>k. ck_id k = ac_connect_key_id a) (tConnectKeys d) = Some k"
    by (auto simp: DeleteAccount_def split: option.splits)
  from fa have a: "a \<in> set (tAccounts d)" "ac_public_key a = account" "ac_deleted_at a = None" by (auto dest: find_SomeD)
  from fk have k: "ck_id k = ac_connect_key_id a" by (auto dest: find_SomeD)
  from eq fa fk have d': "d' = d\<lparr>tAccounts := update_rows (\<lambda>x. ac_public_key x = account \<and> ac_deleted_at x = None) (\<lambda>x. x\<lparr>ac_deleted_at := Some now\<rparr>) (tAccounts d),
      tConnectKeys := update_rows (\<lambda>x. ck_id x = ck_id k) (\<lambda>x. x\<lparr>ck_pinned_data := ck_pinned_data x - ac_pinned_data a,
        ck_pinned_size := ck_pinned_size x - ac_pinned_size a\<rparr>) (tConnectKeys d)\<rparr>"
    by (simp add: DeleteAccount_def split: if_splits)
  have rows: "update_rows (\<lambda>x. ac_public_key x = account \<and> ac_deleted_at x = None) f (tAccounts d) = update_rows (\<lambda>x. ac_id x = ac_id a) f (tAccounts d)" for f
    using accounts_uniqueD[OF wf _ a(1)] a(2,3) by (intro update_rows_cong) auto
  have "account_wf d a" using wf a(1) by (simp add: accounts_wf_def)
  then show ?thesis
    by (intro accounts_wf_change[OF wf a(1), of "\<lambda>x. x\<lparr>ac_deleted_at := Some now\<rparr>" "\<lambda>x. x\<lparr>ck_pinned_data := ck_pinned_data x - ac_pinned_data a,
        ck_pinned_size := ck_pinned_size x - ac_pinned_size a\<rparr>"])
       (simp_all add: d' rows k a(3) live_part_def account_wf_def)
qed

lemma PruneAccounts_accounts_wf:
  assumes wf: "accounts_wf d" and eq: "PruneAccounts limit d = Inr (x, d')"
  shows "accounts_wf d'"
proof -
  from eq obtain a where a: "next_deleted_account d = Some a"
    and d': "same_accounts d d' \<or> same_accounts (d\<lparr>tAccounts := filter (\<lambda>x. ac_id x \<noteq> ac_id a) (tAccounts d)\<rparr>) d'"
    by (auto simp: PruneAccounts_def Let_def same_accounts_def queue_slabs_def store_simps split: if_splits option.splits)
  from a have "a \<in> set (filter (\<lambda>a. ac_deleted_at a \<noteq> None) (tAccounts d))"
    unfolding next_deleted_account_def
    by (metis (no_types, lifting) list.case(1) list.case(2) list.exhaust list.set_intros(1) mset_stable_sort option.distinct(1) option.inject set_mset_mset)
  then have del: "\<forall>x \<in> set (tAccounts d). \<not> ac_id x \<noteq> ac_id a \<longrightarrow> ac_deleted_at x \<noteq> None"
    using accounts_uniqueD[OF wf] by auto
  have "accounts_wf (d\<lparr>tAccounts := filter (\<lambda>x. ac_id x \<noteq> ac_id a) (tAccounts d)\<rparr>)"
    using wf live_sum_filter[OF del] by (auto simp: accounts_defs distinct_map_filter)
  with d' wf show ?thesis by (auto simp: accounts_wf_frame)
qed

section \<open>Account operations keep the invariant\<close>

lemma update_accounts_wf:
  assumes wf: "accounts_wf d"
    and f: "\<And>a. ac_id (f a) = ac_id a \<and> ac_public_key (f a) = ac_public_key a \<and> ac_connect_key_id (f a) = ac_connect_key_id a \<and>
      ac_pinned_data (f a) = ac_pinned_data a \<and> ac_pinned_size (f a) = ac_pinned_size a \<and> ac_deleted_at (f a) = ac_deleted_at a"
    and max: "\<And>a. 0 \<le> ac_max_pinned_data a \<Longrightarrow> 0 \<le> ac_max_pinned_data (f a)"
  shows "accounts_wf (d\<lparr>tAccounts := update_rows Q f (tAccounts d)\<rparr>)"
proof -
  have "live_sum g k (update_rows Q f as) = live_sum g k as" if "\<And>a. g (f a) = g a" for g k as
    using that by (induction as) (auto simp: live_of_def f)
  then show ?thesis using wf f max
    by (simp add: accounts_wf_def pools_wf_def preauthorized_wf_def preauthorized_row_wf_def key_wf_def map_update_rows ball_update_rows) (simp add: account_wf_def)
qed

lemma update_keys_wf:
  assumes wf: "accounts_wf d"
    and f: "\<And>k. ck_id (f k) = ck_id k \<and> ck_app_key (f k) = ck_app_key k \<and> ck_pinned_data (f k) = ck_pinned_data k \<and> ck_pinned_size (f k) = ck_pinned_size k"
    and q: "\<And>k. ck_quota_name k \<in> q_name ` set (tQuotas d) \<Longrightarrow> ck_quota_name (f k) \<in> q_name ` set (tQuotas d)"
  shows "accounts_wf (d\<lparr>tConnectKeys := update_rows Q f (tConnectKeys d)\<rparr>)" (is "accounts_wf ?d'")
proof -
  have "map ck_id (update_rows Q f (tConnectKeys d)) = map ck_id (tConnectKeys d)" using f by (simp add: map_update_rows)
  then have ids: "ck_id ` set (update_rows Q f (tConnectKeys d)) = ck_id ` set (tConnectKeys d)" by (metis set_map)
  then have "account_wf ?d' a = account_wf d a" for a by (simp add: account_wf_def)
  then show ?thesis using wf f q ids
    by (simp add: accounts_wf_def pools_wf_def preauthorized_wf_def preauthorized_row_wf_def map_update_rows ball_update_rows) (simp add: key_wf_def)
qed

lemma HasAccount_accounts_wf: "accounts_wf d \<Longrightarrow> HasAccount now ak d = Inr (x, d') \<Longrightarrow> accounts_wf d'"
  by (auto simp: HasAccount_def Let_def intro!: update_accounts_wf)

lemma UpdateAccount_accounts_wf: "accounts_wf d \<Longrightarrow> UpdateAccount ak m d = Inr (x, d') \<Longrightarrow> accounts_wf d'"
  by (auto simp: UpdateAccount_def Let_def split: option.splits if_splits intro!: update_accounts_wf)

lemma key_by_nameD: "key_by_name d n = Some k \<Longrightarrow> k \<in> set (tConnectKeys d) \<and> ck_app_key k = n"
  by (auto simp: key_by_name_def dest: find_SomeD)

lemma quota_by_nameD: "quota_by_name d n = Some q \<Longrightarrow> q \<in> set (tQuotas d) \<and> q_name q = n \<and> n \<in> q_name ` set (tQuotas d)"
  by (auto simp: quota_by_name_def dest: find_SomeD)

lemma addAccount_accounts_wf:
  assumes wf: "accounts_wf d" and eq: "addAccount now ck account meta m d = Inr (x, d')"
  shows "accounts_wf d'"
proof -
  from eq obtain k where k: "key_by_name d ck = Some k" by (auto simp: addAccount_def Let_def split: option.splits)
  define u where "u = uint (case m of None \<Rightarrow> 2 ^ 63 - 1 | Some m \<Rightarrow> m)"
  from eq k have new: "account_by_key d account = None" and u: "0 \<le> u"
    and d': "d' = incrementStat statAccountsRegistered 1
      (d\<lparr>tAccounts := tAccounts d @ [new_account_row now (seqAccounts d) account (ck_id k) u meta], seqAccounts := seqAccounts d + 1\<rparr>)"
    unfolding u_def by (auto simp: addAccount_def Let_def split: if_splits)
  let ?e = "d\<lparr>tAccounts := tAccounts d @ [new_account_row now (seqAccounts d) account (ck_id k) u meta], seqAccounts := seqAccounts d + 1\<rparr>"
  have "account \<notin> ac_public_key ` set (tAccounts d)" using new by (auto simp: account_by_key_def find_None_iff)
  moreover have "\<forall>a \<in> set (tAccounts d). account_wf ?e a"
    using wf by (auto simp: accounts_wf_def account_wf_def intro: less_trans[OF _ zless_add1_eq[THEN iffD2]])
  moreover have "account_wf ?e (new_account_row now (seqAccounts d) account (ck_id k) u meta)"
    using key_by_nameD[OF k] u by (auto simp: account_wf_def new_account_row_def)
  moreover have "seqAccounts d \<notin> ac_id ` set (tAccounts d)" using wf by (auto simp: accounts_wf_def account_wf_def)
  moreover have "key_wf ?e r = key_wf d r" for r by (simp add: key_wf_def new_account_row_def)
  ultimately have "accounts_wf ?e" using wf
    by (simp add: accounts_wf_def pools_wf_def preauthorized_wf_def preauthorized_row_wf_def) (simp add: new_account_row_def)
  then show ?thesis by (simp add: d' accounts_wf_stat)
qed

lemma AddAppConnectKey_accounts_wf:
  assumes wf: "accounts_wf d" and eq: "AddAppConnectKey now us pk req d = Inr (x, d')"
  shows "accounts_wf d'"
proof -
  define k where "k = \<lparr>ck_id = seqConnectKeys d, ck_user_secret = us, ck_app_key = ReqKey req, ck_description = ReqDescription req,
     ck_created_at = now, ck_updated_at = now, ck_last_used = None, ck_quota_name = ReqQuota req, ck_pinned_data = 0, ck_pinned_size = 0\<rparr>"
  from eq obtain q where q: "quota_by_name d (ReqQuota req) = Some q" and new: "key_by_name d (ReqKey req) = None"
    by (auto simp: AddAppConnectKey_def split: option.splits if_splits)
  with eq have d': "d' = d\<lparr>tConnectKeys := tConnectKeys d @ [k], seqConnectKeys := seqConnectKeys d + 1,
      tPools := tPools d @ [\<lparr>po_id = seqPools d, po_connect_key_id = ck_id k, po_pool_key = pk\<rparr>], seqPools := seqPools d + 1\<rparr>"
    by (auto simp: AddAppConnectKey_def k_def Let_def split: if_splits)
  have fresh: "seqConnectKeys d \<notin> ck_id ` set (tConnectKeys d)" "seqPools d \<notin> po_id ` set (tPools d)"
    "ReqKey req \<notin> ck_app_key ` set (tConnectKeys d)"
    using wf new by (auto simp: accounts_defs key_by_name_def find_None_iff)
  have "live_sum f (seqConnectKeys d) (tAccounts d) = 0" for f
  proof -
    have "filter (live_of (seqConnectKeys d)) (tAccounts d) = []"
      using wf fresh(1) unfolding filter_empty_conv accounts_wf_def account_wf_def live_of_def by metis
    then show ?thesis by (simp add: live_sum_def)
  qed
  with quota_by_nameD[OF q] have kwf: "key_wf d' k" by (auto simp: d' key_wf_def k_def)
  have acc: "\<forall>a \<in> set (tAccounts d). account_wf d' a" using wf by (auto simp: d' accounts_wf_def account_wf_def)
  have keys: "\<forall>r \<in> set (tConnectKeys d). key_wf d' r" using wf by (auto simp: d' accounts_wf_def key_wf_def)
  have "pools_wf d'" using wf fresh by (auto simp: d' accounts_defs k_def)
  moreover have "preauthorized_wf d'" using wf by (auto simp: d' accounts_defs)
  ultimately show ?thesis using wf fresh acc keys kwf unfolding accounts_wf_def by (simp add: d' k_def)
qed

lemma UpdateAppConnectKey_accounts_wf: "accounts_wf d \<Longrightarrow> UpdateAppConnectKey req d = Inr (x, d') \<Longrightarrow> accounts_wf d'"
  by (auto simp: UpdateAppConnectKey_def Let_def split: option.splits if_splits intro!: update_keys_wf dest!: quota_by_nameD)

lemma RegisterAppKey_accounts_wf:
  assumes wf: "accounts_wf d" and eq: "RegisterAppKey now ck appKey meta d = Inr (x, d')"
  shows "accounts_wf d'"
proof -
  let ?e = "d\<lparr>tConnectKeys := update_rows (\<lambda>r. ck_app_key r = ck) (\<lambda>r. r\<lparr>ck_last_used := Some now\<rparr>) (tConnectKeys d)\<rparr>"
  from eq have "\<exists>y. addAccount now ck appKey meta None ?e = Inr (y, d')"
    by (auto simp: RegisterAppKey_def Let_def rbind_eq_Inr split: list.splits prod.splits if_splits)
  moreover have "accounts_wf ?e" using wf by (intro update_keys_wf) auto
  ultimately show ?thesis by (blast intro: addAccount_accounts_wf)
qed

lemma DeleteAppConnectKey_accounts_wf:
  assumes wf: "accounts_wf d" and eq: "DeleteAppConnectKey ck d = Inr (x, d')"
  shows "accounts_wf d'"
proof -
  from eq obtain k where k: "key_by_name d ck = Some k" by (auto simp: DeleteAppConnectKey_def split: option.splits)
  from k have mem: "k \<in> set (tConnectKeys d)" "ck_app_key k = ck" by (auto dest: key_by_nameD)
  have same: "ck_app_key r \<noteq> ck \<longleftrightarrow> ck_id r \<noteq> ck_id k" if "r \<in> set (tConnectKeys d)" for r
    using wf mem that by (auto simp: accounts_wf_def distinct_map inj_on_def)
  then have rows: "filter (\<lambda>r. ck_app_key r \<noteq> ck) (tConnectKeys d) = filter (\<lambda>r. ck_id r \<noteq> ck_id k) (tConnectKeys d)"
    by (auto intro: filter_cong)
  from eq k have used: "\<forall>a \<in> set (tAccounts d). ac_connect_key_id a \<noteq> ck_id k"
    and d': "tConnectKeys d' = filter (\<lambda>r. ck_id r \<noteq> ck_id k) (tConnectKeys d)"
      "tPreauthorizedKeys d' = filter (\<lambda>p. pk_connect_key_id p \<noteq> ck_id k) (tPreauthorizedKeys d)"
      "tPools d' = filter (\<lambda>p. po_connect_key_id p \<noteq> ck_id k) (tPools d)"
      "tAccounts d' = tAccounts d" "tQuotas d' = tQuotas d" "seqAccounts d' = seqAccounts d" "seqConnectKeys d' = seqConnectKeys d" "seqPools d' = seqPools d"
    by (auto simp: DeleteAppConnectKey_def Let_def rows split: if_splits)
  have ids: "ck_id ` set (tConnectKeys d') = ck_id ` set (tConnectKeys d) - {ck_id k}" by (auto simp: d')
  have "\<forall>a \<in> set (tAccounts d'). account_wf d' a" using wf used unfolding account_wf_def ids unfolding d' by (auto simp: accounts_wf_def account_wf_def)
  moreover have "\<forall>r \<in> set (tConnectKeys d'). key_wf d' r" using wf by (auto simp: d' accounts_wf_def key_wf_def)
  moreover have "po_connect_key_id ` set (tPools d') = po_connect_key_id ` set (tPools d) - {ck_id k}" by (auto simp: d')
  then have "pools_wf d'" using wf unfolding pools_wf_def ids by (auto simp: accounts_defs distinct_map_filter d')
  moreover have "preauthorized_wf d'" using wf unfolding preauthorized_wf_def preauthorized_row_wf_def ids unfolding d' by (auto simp: accounts_defs distinct_map_filter)
  ultimately show ?thesis using wf unfolding accounts_wf_def by (simp add: d' distinct_map_filter)
qed

lemma update_preauthorized_wf:
  assumes "accounts_wf d" "distinct (map pk_public_key ps)" "\<forall>p \<in> set ps. preauthorized_row_wf d p"
  shows "accounts_wf (d\<lparr>tPreauthorizedKeys := ps\<rparr>)"
  using assms by (simp add: accounts_defs)

lemma preauthorizedD:
  assumes "accounts_wf d"
  shows "distinct (map pk_public_key (tPreauthorizedKeys d))" "\<forall>p \<in> set (tPreauthorizedKeys d). preauthorized_row_wf d p"
  using assms by (simp_all add: accounts_wf_def preauthorized_wf_def)

lemma AddPreAuthorizedKey_accounts_wf: "accounts_wf d \<Longrightarrow> AddPreAuthorizedKey now req d = Inr (x, d') \<Longrightarrow> accounts_wf d'"
  by (auto simp: AddPreAuthorizedKey_def Let_def preauthorizedD split: option.splits if_splits intro!: update_preauthorized_wf
      dest!: key_by_nameD) (simp add: preauthorized_row_wf_def)

lemma DeletePreAuthorizedKey_accounts_wf: "accounts_wf d \<Longrightarrow> DeletePreAuthorizedKey pk d = Inr (x, d') \<Longrightarrow> accounts_wf d'"
  by (auto simp: DeletePreAuthorizedKey_def distinct_map_filter preauthorizedD split: if_splits intro!: update_preauthorized_wf)

lemma PruneExpired_accounts_wf: "accounts_wf d \<Longrightarrow> PruneExpiredPreAuthorizedKeys cutoff d = Inr (x, d') \<Longrightarrow> accounts_wf d'"
  by (auto simp: PruneExpiredPreAuthorizedKeys_def distinct_map_filter preauthorizedD intro!: update_preauthorized_wf)

lemma update_quotas_wf:
  assumes "accounts_wf d" "distinct (map q_name qs)" "\<forall>k \<in> set (tConnectKeys d). ck_quota_name k \<in> q_name ` set qs"
  shows "accounts_wf (d\<lparr>tQuotas := qs\<rparr>)"
  using assms by (simp add: accounts_defs)

lemma quota_known: "accounts_wf d \<Longrightarrow> k \<in> set (tConnectKeys d) \<Longrightarrow> ck_quota_name k \<in> q_name ` set (tQuotas d)"
  by (simp add: accounts_wf_def key_wf_def)

lemma PutQuota_accounts_wf:
  assumes wf: "accounts_wf d" and eq: "PutQuota key req d = Inr (x, d')"
  shows "accounts_wf d'"
proof -
  have mono: "accounts_wf (d\<lparr>tQuotas := qs\<rparr>)" if "distinct (map q_name qs)" "q_name ` set (tQuotas d) \<subseteq> q_name ` set qs" for qs
    using wf that(1) that(2) quota_known[OF wf] by (intro update_quotas_wf) auto
  define q where "q = \<lparr>q_name = key, q_description = QuotaDescription req, q_max_pinned_data = uint (QuotaMaxData req),
    q_total_uses = QuotaTotalUses req, q_fund_target_bytes = uint (the (QuotaFundTargetBytes req))\<rparr>"
  have d': "d' = (if quota_by_name d key \<noteq> None then d\<lparr>tQuotas := update_rows (\<lambda>r. q_name r = key) (\<lambda>_. q) (tQuotas d)\<rparr>
      else d\<lparr>tQuotas := tQuotas d @ [q]\<rparr>)"
    using eq by (auto simp: PutQuota_def Let_def q_def split: option.splits if_splits)
  show ?thesis
  proof (cases "quota_by_name d key")
    case None
    then have "key \<notin> q_name ` set (tQuotas d)" by (auto simp: quota_by_name_def find_None_iff)
    then have "distinct (map q_name (tQuotas d @ [q]))" using wf by (simp add: q_def accounts_wf_def)
    from mono[OF this] show ?thesis by (auto simp: d' None)
  next
    case (Some r)
    have m: "map q_name (update_rows (\<lambda>r. q_name r = key) (\<lambda>_. q) (tQuotas d)) = map q_name (tQuotas d)"
      by (rule map_update_rows) (simp add: q_def)
    then have "distinct (map q_name (update_rows (\<lambda>r. q_name r = key) (\<lambda>_. q) (tQuotas d)))" using wf by (simp add: accounts_wf_def)
    moreover from arg_cong[OF m, of set] have "q_name ` set (update_rows (\<lambda>r. q_name r = key) (\<lambda>_. q) (tQuotas d)) = q_name ` set (tQuotas d)" by simp
    ultimately show ?thesis by (simp add: d' Some mono)
  qed
qed

lemma DeleteQuota_accounts_wf: "accounts_wf d \<Longrightarrow> DeleteQuota key d = Inr (x, d') \<Longrightarrow> accounts_wf d'"
  using quota_known[of d]
  by (auto simp: DeleteQuota_def distinct_map_filter image_iff accounts_wf_def[of d] split: if_splits intro!: update_quotas_wf) metis

lemma BlockObject_accounts: "BlockObject now key reason d = Inr (x, d') \<Longrightarrow> same_accounts d d'"
  by (auto simp: BlockObject_def same_accounts_def)

lemma UnblockObject_accounts: "UnblockObject now key d = Inr (x, d') \<Longrightarrow> same_accounts d d'"
  by (auto simp: UnblockObject_def same_accounts_def split: if_splits)

section \<open>Consuming pre-authorized keys\<close>

lemma filter_find:
  assumes "distinct (map f xs)"
  shows "filter (\<lambda>x. f x = v \<and> Q x) xs = (case find (\<lambda>x. f x = v) xs of None \<Rightarrow> [] | Some x \<Rightarrow> if Q x then [x] else [])"
  using assms
proof (induction xs)
  case (Cons x xs)
  show ?case
  proof (cases "f x = v")
    case True
    with Cons.prems have "filter (\<lambda>x. f x = v \<and> Q x) xs = []" by (auto simp: filter_empty_conv image_iff)
    with True show ?thesis by simp
  next
    case False
    with Cons show ?thesis by simp
  qed
qed simp

lemma filter_find_eq:
  "distinct (map f xs) \<Longrightarrow> filter (\<lambda>x. f x = v) xs = (case find (\<lambda>x. f x = v) xs of None \<Rightarrow> [] | Some x \<Rightarrow> [x])"
  using filter_find[of f xs v "\<lambda>_. True"] by (simp split: option.splits)

lemma key_by_id_known:
  assumes "accounts_wf d" "i \<in> ck_id ` set (tConnectKeys d)"
  shows "\<exists>k. key_by_id d i = Some k \<and> k \<in> set (tConnectKeys d) \<and> ck_id k = i"
proof (cases "key_by_id d i")
  case None
  with assms(2) show ?thesis by (auto simp: key_by_id_def find_None_iff)
next
  case (Some k)
  then show ?thesis by (auto simp: key_by_id_def dest: find_SomeD)
qed

text \<open>A join along a foreign key pairs every row with the row it refers to.\<close>

lemma join_eq:
  assumes dist: "distinct (map g ys)" and known: "\<forall>x \<in> set xs. f x \<in> g ` set ys"
  shows "concat (map (\<lambda>x. map (\<lambda>y. (x, y)) (filter (\<lambda>y. g y = f x) ys)) xs) = map (\<lambda>x. (x, the (find (\<lambda>y. g y = f x) ys))) xs"
proof -
  have "map (\<lambda>y. (x, y)) (filter (\<lambda>y. g y = f x) ys) = [(x, the (find (\<lambda>y. g y = f x) ys))]" if "x \<in> set xs" for x
  proof -
    from known that obtain z where "z \<in> set ys" "g z = f x" by (metis imageE)
    then obtain y where "find (\<lambda>y. g y = f x) ys = Some y"
      by (cases "find (\<lambda>y. g y = f x) ys") (auto simp: find_None_iff)
    then show ?thesis by (simp add: filter_find_eq[OF dist])
  qed
  then have "map (\<lambda>x. map (\<lambda>y. (x, y)) (filter (\<lambda>y. g y = f x) ys)) xs = map (\<lambda>x. [(x, the (find (\<lambda>y. g y = f x) ys))]) xs" by simp
  then show ?thesis by (simp only: concat_map_singleton)
qed

lemma preauthorized_join_eq:
  "accounts_wf d \<Longrightarrow> preauthorized_join d = map (\<lambda>p. (p, the (key_by_id d (pk_connect_key_id p)))) (tPreauthorizedKeys d)"
  unfolding preauthorized_join_def key_by_id_def by (rule join_eq) (auto simp: accounts_wf_def preauthorized_wf_def preauthorized_row_wf_def)

lemma keys_join_eq: "accounts_wf d \<Longrightarrow> keys_join d = map (\<lambda>k. (k, the (quota_by_name d (ck_quota_name k)))) (tConnectKeys d)"
  unfolding keys_join_def quota_by_name_def by (rule join_eq) (auto simp: accounts_wf_def key_wf_def)

lemma key_by_name_unique:
  assumes "accounts_wf d" "k \<in> set (tConnectKeys d)"
  shows "key_by_name d (ck_app_key k) = Some k"
  using assms find_key_Some[of ck_app_key "tConnectKeys d" k] by (simp add: accounts_wf_def key_by_name_def)

text \<open>The row the update touches.\<close>

lemma consumable_rows:
  assumes wf: "accounts_wf d"
  shows "filter (\<lambda>(p, k). consumable now pk app p) (preauthorized_join d) =
    (case find (\<lambda>p. pk_public_key p = pk) (tPreauthorizedKeys d) of
       None \<Rightarrow> []
     | Some p \<Rightarrow> if consumable now pk app p then [(p, the (key_by_id d (pk_connect_key_id p)))] else [])"
proof -
  have "filter (\<lambda>p. consumable now pk app p) (tPreauthorizedKeys d) = filter (\<lambda>p. pk_public_key p = pk \<and> consumable now pk app p) (tPreauthorizedKeys d)"
    by (rule filter_cong) (auto simp: consumable_def)
  then show ?thesis unfolding preauthorized_join_eq[OF wf] filter_map
    using filter_find[OF preauthorizedD(1)[OF wf], of pk "consumable now pk app"] by (simp add: o_def split: option.splits)
qed

lemma Consume_spec:
  assumes wf: "accounts_wf d"
  shows "ConsumePreAuthorizedKey now pk app d =
    (case find (\<lambda>p. pk_public_key p = pk) (tPreauthorizedKeys d) of
       None \<Rightarrow> Inl ErrKeyNotFound
     | Some p \<Rightarrow>
         if pk_expires_at p \<le> now then Inl ErrPreAuthorizedKeyExpired
         else if pk_remaining_uses p \<le> 0 then Inl ErrPreAuthorizedKeyExhausted
         else if pk_allowed_app_id p \<notin> {None, Some app} then Inl ErrPreAuthorizedKeyAppMismatch
         else let k = the (key_by_id d (pk_connect_key_id p))
              in Inr ((ck_app_key k, ck_user_secret k, \<exists>a \<in> set (tAccounts d). live_of (ck_id k) a \<and> ac_app_id a = app),
                      d\<lparr>tPreauthorizedKeys := update_rows (\<lambda>r. pk_public_key r = pk) (consume_use now) (tPreauthorizedKeys d)\<rparr>))"
proof (cases "find (\<lambda>p. pk_public_key p = pk) (tPreauthorizedKeys d)")
  case None
  then show ?thesis by (simp add: ConsumePreAuthorizedKey_def consumable_rows[OF wf] consume_error_def)
next
  case (Some p)
  then have p: "p \<in> set (tPreauthorizedKeys d)" "pk_public_key p = pk" by (auto dest: find_SomeD)
  with preauthorizedD(2)[OF wf] have "pk_connect_key_id p \<in> ck_id ` set (tConnectKeys d)" by (auto simp: preauthorized_row_wf_def)
  from key_by_id_known[OF wf this] obtain k where k: "key_by_id d (pk_connect_key_id p) = Some k" "k \<in> set (tConnectKeys d)" by blast
  have name: "key_by_name (d\<lparr>tPreauthorizedKeys := u\<rparr>) (ck_app_key k) = Some k" for u
    using key_by_name_unique[OF wf k(2)] by (simp add: key_by_name_def)
  have rows: "consumable now pk app p \<longleftrightarrow> \<not> pk_expires_at p \<le> now \<and> \<not> pk_remaining_uses p \<le> 0 \<and> pk_allowed_app_id p \<in> {None, Some app}"
    by (auto simp: consumable_def p(2))
  show ?thesis
    by (simp add: ConsumePreAuthorizedKey_def consumable_rows[OF wf] Some consume_error_def rows k(1) appAuthorization_def name Let_def)
qed

text \<open>
  Claim C15: what \<open>ConsumePreAuthorizedKey\<close> returns, on every path. A key that is unknown, expired, used
  up or bound to another application is refused with the error for that reason, in this order, and
  nothing is changed; any other key is accepted, one of its uses is taken and the connect key's
  secret is returned with whether the application has registered with that connect key before.
\<close>

theorem ConsumePreAuthorizedKey_outcomes:
  assumes "accounts_wf d"
  shows "ConsumePreAuthorizedKey now pk app d =
    (case find (\<lambda>p. pk_public_key p = pk) (tPreauthorizedKeys d) of
       None \<Rightarrow> Inl ErrKeyNotFound
     | Some p \<Rightarrow>
         if pk_expires_at p \<le> now then Inl ErrPreAuthorizedKeyExpired
         else if pk_remaining_uses p \<le> 0 then Inl ErrPreAuthorizedKeyExhausted
         else if pk_allowed_app_id p \<notin> {None, Some app} then Inl ErrPreAuthorizedKeyAppMismatch
         else let k = the (key_by_id d (pk_connect_key_id p))
              in Inr ((ck_app_key k, ck_user_secret k, \<exists>a \<in> set (tAccounts d). live_of (ck_id k) a \<and> ac_app_id a = app),
                      d\<lparr>tPreauthorizedKeys := update_rows (\<lambda>r. pk_public_key r = pk) (consume_use now) (tPreauthorizedKeys d)\<rparr>))"
  using assms by (rule Consume_spec)

text \<open>A sequence of calls, with the number of those that consumed a use of the key.\<close>

fun consume_run :: "public_key \<Rightarrow> (gotime \<times> public_key \<times> hash256) list \<Rightarrow> db \<Rightarrow> int \<times> db" where
  "consume_run pk [] d = (0, d)"
| "consume_run pk ((now, k, app) # cs) d =
     (case ConsumePreAuthorizedKey now k app d of
        Inl _ \<Rightarrow> consume_run pk cs d
      | Inr (_, d') \<Rightarrow> (let (n, e) = consume_run pk cs d' in ((if k = pk then 1 else 0) + n, e)))"

lemma Consume_effect:
  assumes wf: "accounts_wf d" and eq: "ConsumePreAuthorizedKey now k app d = Inr (x, d')"
  obtains p where "find (\<lambda>p. pk_public_key p = k) (tPreauthorizedKeys d) = Some p" "0 < pk_remaining_uses p"
    "d' = d\<lparr>tPreauthorizedKeys := update_rows (\<lambda>r. pk_public_key r = k) (consume_use now) (tPreauthorizedKeys d)\<rparr>"
  using eq unfolding Consume_spec[OF wf] by (auto simp: Let_def split: option.splits if_splits)

lemma Consume_accounts_wf:
  assumes wf: "accounts_wf d" and eq: "ConsumePreAuthorizedKey now k app d = Inr (x, d')"
  shows "accounts_wf d'"
proof -
  from Consume_effect[OF assms] obtain p where f: "find (\<lambda>p. pk_public_key p = k) (tPreauthorizedKeys d) = Some p" and pos: "0 < pk_remaining_uses p"
    and d': "d' = d\<lparr>tPreauthorizedKeys := update_rows (\<lambda>r. pk_public_key r = k) (consume_use now) (tPreauthorizedKeys d)\<rparr>" .
  have "r = p" if "r \<in> set (tPreauthorizedKeys d)" "pk_public_key r = k" for r
    using that find_SomeD[OF f] preauthorizedD(1)[OF wf] by (auto simp: distinct_map inj_on_def)
  then show ?thesis unfolding d' using pos preauthorizedD[OF wf]
    by (intro update_preauthorized_wf[OF wf]) (auto simp: map_update_rows consume_use_def ball_update_rows preauthorized_row_wf_def)
qed

lemma consume_use_key [simp]: "pk_public_key (consume_use now p) = pk_public_key p"
  by (simp add: consume_use_def)

lemma find_consume:
  "find (\<lambda>p. pk_public_key p = pk) (update_rows (\<lambda>r. pk_public_key r = k) (consume_use now) ps) =
     (if k = pk then map_option (consume_use now) (find (\<lambda>p. pk_public_key p = pk) ps) else find (\<lambda>p. pk_public_key p = pk) ps)"
  by (induction ps) auto

text \<open>
  Claim C14: however often and in whatever order keys are presented, the uses of a pre-authorized
  key are counted exactly: what is left is what there was, less one for every call that the key
  let through, and never negative. So a key lets through at most its number of uses.
\<close>

theorem preauthorized_uses_exact:
  assumes "accounts_wf d" "find (\<lambda>p. pk_public_key p = pk) (tPreauthorizedKeys d) = Some p"
  shows "\<exists>p'. find (\<lambda>p. pk_public_key p = pk) (tPreauthorizedKeys (snd (consume_run pk cs d))) = Some p' \<and>
    pk_remaining_uses p' = pk_remaining_uses p - fst (consume_run pk cs d) \<and> 0 \<le> pk_remaining_uses p' \<and> 0 \<le> fst (consume_run pk cs d)"
  using assms
proof (induction pk cs d arbitrary: p rule: consume_run.induct)
  case (1 pk d)
  then show ?case using preauthorizedD(2)[of d] by (auto simp: preauthorized_row_wf_def dest: find_SomeD)
next
  case (2 pk now k app cs d)
  show ?case
  proof (cases "ConsumePreAuthorizedKey now k app d")
    case (Inl e)
    with 2 show ?thesis by simp
  next
    case (Inr r)
    obtain y d' where r: "ConsumePreAuthorizedKey now k app d = Inr (y, d')" using Inr by (cases r) simp
    obtain q where f: "find (\<lambda>p. pk_public_key p = k) (tPreauthorizedKeys d) = Some q"
      and d': "d' = d\<lparr>tPreauthorizedKeys := update_rows (\<lambda>r. pk_public_key r = k) (consume_use now) (tPreauthorizedKeys d)\<rparr>"
      using Consume_effect[OF "2.prems"(1) r] by metis
    have step: "find (\<lambda>p. pk_public_key p = pk) (tPreauthorizedKeys d') = Some (if k = pk then consume_use now p else p)"
      using "2.prems"(2) by (simp add: d' find_consume)
    from "2.IH"(2)[OF r refl Consume_accounts_wf[OF "2.prems"(1) r] step] r show ?thesis
      by (auto simp: split_beta consume_use_def split: if_splits)
  qed
qed

section \<open>Registering applications\<close>

lemma find_row: "(\<And>x. Q (f x) = Q x) \<Longrightarrow> find Q (update_rows Q f xs) = map_option f (find Q xs)"
  by (induction xs) auto

text \<open>
  Claim C16: what \<open>RegisterAppKey\<close> returns, on every path. It refuses an unknown connect key, an
  account that exists already and a connect key whose quota's uses are all taken by live accounts, and
  changes nothing then; otherwise it adds exactly one account, live and with no pinned data, and
  records the use of the connect key.
\<close>

theorem RegisterAppKey_outcomes:
  assumes wf: "accounts_wf d"
  shows "RegisterAppKey now ck appKey meta d =
    (case key_by_name d ck of
       None \<Rightarrow> Inl ErrKeyNotFound
     | Some k \<Rightarrow>
         if account_by_key d appKey \<noteq> None then Inl ErrAccountExists
         else if q_total_uses (the (quota_by_name d (ck_quota_name k))) \<le> cnt (live_of (ck_id k)) (tAccounts d) then Inl ErrKeyExhausted
         else Inr ((), incrementStat statAccountsRegistered 1
           (d\<lparr>tConnectKeys := update_rows (\<lambda>r. ck_app_key r = ck) (\<lambda>r. r\<lparr>ck_last_used := Some now\<rparr>) (tConnectKeys d),
              tAccounts := tAccounts d @ [new_account_row now (seqAccounts d) appKey (ck_id k) (2 ^ 63 - 1) meta],
              seqAccounts := seqAccounts d + 1\<rparr>)))"
proof -
  let ?e = "d\<lparr>tConnectKeys := update_rows (\<lambda>r. ck_app_key r = ck) (\<lambda>r. r\<lparr>ck_last_used := Some now\<rparr>) (tConnectKeys d)\<rparr>"
  have dist: "distinct (map ck_app_key (tConnectKeys d))" using wf by (simp add: accounts_wf_def)
  have rows: "filter (\<lambda>(k, q). ck_app_key k = ck) (keys_join d) =
      (case key_by_name d ck of None \<Rightarrow> [] | Some k \<Rightarrow> [(k, the (quota_by_name d (ck_quota_name k)))])"
    unfolding keys_join_eq[OF wf] filter_map using filter_find_eq[OF dist] by (simp add: o_def key_by_name_def split: option.splits)
  have name: "key_by_name ?e ck = map_option (\<lambda>r. r\<lparr>ck_last_used := Some now\<rparr>) (key_by_name d ck)"
    using find_row[of "\<lambda>r. ck_app_key r = ck" "\<lambda>r. r\<lparr>ck_last_used := Some now\<rparr>" "tConnectKeys d"] by (simp add: key_by_name_def)
  have acc: "account_by_key ?e appKey = account_by_key d appKey" by (simp add: account_by_key_def)
  have "uint (2 ^ 63 - 1 :: u64) = 2 ^ 63 - 1" "int8_ok (2 ^ 63 - 1)" by (simp_all add: int8_ok_def)
  then show ?thesis unfolding RegisterAppKey_def rows addAccount_def Let_def
    by (cases "key_by_name d ck") (simp_all add: name acc remaining_uses_def max_def)
qed

section \<open>Storage limits\<close>

text \<open>
  Claim C7: a successful \<open>PinSlabs\<close> leaves the account within its own limit, and the live accounts
  that share its connect key within the limit of the key's quota together.
\<close>

theorem PinSlabs_within_limits:
  assumes wf: "accounts_wf d" and eq: "PinSlabs C H now account nc toPin d = Inr (x, d')"
  shows "\<exists>a \<in> set (tAccounts d'). ac_public_key a = account \<and> ac_pinned_data a \<le> ac_max_pinned_data a \<and>
    (\<exists>k \<in> set (tConnectKeys d'). ck_id k = ac_connect_key_id a \<and>
      (\<exists>q \<in> set (tQuotas d'). q_name q = ck_quota_name k \<and> live_sum ac_pinned_data (ck_id k) (tAccounts d') \<le> q_max_pinned_data q))"
  using eq
proof (rule PinSlabsE)
  fix a nd ns d1 d2
  assume a: "find (\<lambda>a. ac_public_key a = account) (tAccounts d) = Some a"
    and l: "pin_slabs_loop C H (good_host d) now nc (ac_id a) toPin d = Inr ((nd, ns), d1)"
    and c: "charge_account (ac_id a) nd ns d1 = Inr d2" "charge_connect_key (ac_connect_key_id a) nd ns d2 = Inr d'"
  let ?f = "\<lambda>a. a\<lparr>ac_pinned_data := ac_pinned_data a + nd, ac_pinned_size := ac_pinned_size a + ns\<rparr>"
  let ?g = "\<lambda>k. k\<lparr>ck_pinned_data := ck_pinned_data k + nd, ck_pinned_size := ck_pinned_size k + ns\<rparr>"
  have same: "same_accounts d d1" using l by (rule pin_slabs_loop_accounts)
  then have wf1: "accounts_wf d1" using wf by (simp add: accounts_wf_frame)
  have a1: "a \<in> set (tAccounts d1)" "ac_public_key a = account" using a same by (auto simp: same_accounts_def dest: find_SomeD)
  have found: "find (\<lambda>x. ac_id x = ac_id a) (tAccounts d1) = Some a"
    using find_key_Some[of ac_id "tAccounts d1" a] wf1 a1 by (simp add: accounts_wf_def)
  from c(1) found have d2: "d2 = d1\<lparr>tAccounts := update_rows (\<lambda>x. ac_id x = ac_id a) ?f (tAccounts d1)\<rparr>"
    and lim: "ac_pinned_data (?f a) \<le> ac_max_pinned_data (?f a)"
    by (auto simp: charge_account_def Let_def find_row split: if_splits)
  from c(2) obtain k q where k: "find (\<lambda>k. ck_id k = ac_connect_key_id a) (tConnectKeys d2) = Some k"
    and q: "find (\<lambda>q. q_name q = ck_quota_name k) (tQuotas d2) = Some q"
    by (auto simp: charge_connect_key_def split: option.splits)
  with c(2) have d': "d' = d2\<lparr>tConnectKeys := update_rows (\<lambda>k. ck_id k = ac_connect_key_id a) ?g (tConnectKeys d2)\<rparr>"
    and quota: "ck_pinned_data (?g k) \<le> q_max_pinned_data q" by (simp_all add: charge_connect_key_def split: if_splits)
  have ina: "?f a \<in> set (tAccounts d')" using a1(1) by (auto simp: d' d2 set_update_rows intro!: bexI[of _ a])
  have ink: "?g k \<in> set (tConnectKeys d')" "ck_id k = ac_connect_key_id a"
    using k by (auto simp: d' set_update_rows dest!: find_SomeD intro!: bexI[of _ k])
  have "live_sum ac_pinned_data (ck_id k) (tAccounts d') \<le> ck_pinned_data (?g k)"
    using PinSlabs_accounts_wf[OF wf eq] ink by (auto simp: accounts_wf_def key_wf_def)
  with quota have "live_sum ac_pinned_data (ck_id k) (tAccounts d') \<le> q_max_pinned_data q" by linarith
  moreover have "q \<in> set (tQuotas d')" "q_name q = ck_quota_name k" using q by (auto simp: d' dest: find_SomeD)
  ultimately show ?thesis using ina ink lim a1(2) by (intro bexI[OF _ ina] conjI bexI[OF _ ink(1)] bexI[of _ q]) simp_all
qed

section \<open>Witnesses\<close>

definition sample_accounts_db :: db where
  "sample_accounts_db = sample_hosts_db\<lparr>
     tQuotas := [\<lparr>q_name = ''default'', q_description = [], q_max_pinned_data = 10 ^ 12, q_total_uses = 2, q_fund_target_bytes = 10 ^ 9\<rparr>],
     tConnectKeys := [\<lparr>ck_id = 1, ck_user_secret = 5, ck_app_key = ''key'', ck_description = [], ck_created_at = 1, ck_updated_at = 1,
       ck_last_used = None, ck_quota_name = ''default'', ck_pinned_data = 0, ck_pinned_size = 0\<rparr>],
     tPools := [\<lparr>po_id = 1, po_connect_key_id = 1, po_pool_key = 9\<rparr>],
     tAccounts := [new_account_row 1 1 41 1 (10 ^ 9) \<lparr>MetaID = 8, MetaName = [], MetaDescription = [], MetaLogoURL = [], MetaServiceURL = []\<rparr>],
     tPreauthorizedKeys := [\<lparr>pk_public_key = 71, pk_connect_key_id = 1, pk_expires_at = 100, pk_total_uses = 1, pk_remaining_uses = 1,
       pk_allowed_app_id = Some 8, pk_created_at = 1, pk_last_used = None\<rparr>],
     seqAccounts := 2, seqConnectKeys := 2, seqPools := 2\<rparr>"

lemma sample_accounts_wf: "accounts_wf sample_accounts_db"
  by (simp add: accounts_defs sample_accounts_db_def sample_hosts_db_def sample_defs new_account_row_def live_of_def)

lemma ConsumePreAuthorizedKey_outcomes_witness:
  "accounts_wf sample_accounts_db \<and> ConsumePreAuthorizedKey 100 71 8 sample_accounts_db = Inl ErrPreAuthorizedKeyExpired \<and>
   ConsumePreAuthorizedKey 50 71 9 sample_accounts_db = Inl ErrPreAuthorizedKeyAppMismatch \<and>
   (\<exists>d'. ConsumePreAuthorizedKey 50 71 8 sample_accounts_db = Inr ((''key'', 5, True), d'))"
  unfolding ConsumePreAuthorizedKey_outcomes[OF sample_accounts_wf]
  by (simp add: sample_accounts_wf) (simp add: sample_accounts_db_def sample_hosts_db_def sample_defs key_by_id_def live_of_def new_account_row_def)

lemma preauthorized_uses_exact_witness:
  "\<exists>p'. find (\<lambda>p. pk_public_key p = 71) (tPreauthorizedKeys (snd (consume_run 71 [(50, 71, 8), (51, 71, 8)] sample_accounts_db))) = Some p' \<and>
     pk_remaining_uses p' = 1 - fst (consume_run 71 [(50, 71, 8), (51, 71, 8)] sample_accounts_db)"
proof -
  obtain p where "find (\<lambda>p. pk_public_key p = 71) (tPreauthorizedKeys sample_accounts_db) = Some p" "pk_remaining_uses p = 1"
    by (simp add: sample_accounts_db_def)
  with preauthorized_uses_exact[OF sample_accounts_wf this(1), of "[(50, 71, 8), (51, 71, 8)]"] show ?thesis by (auto simp del: consume_run.simps)
qed

lemma RegisterAppKey_outcomes_witness:
  "\<exists>d'. RegisterAppKey 7 ''key'' 42 \<lparr>MetaID = 8, MetaName = [], MetaDescription = [], MetaLogoURL = [], MetaServiceURL = []\<rparr> sample_accounts_db
     = Inr ((), d') \<and> map ac_public_key (tAccounts d') = [41, 42]"
  unfolding RegisterAppKey_outcomes[OF sample_accounts_wf]
  by (simp add: sample_accounts_db_def sample_hosts_db_def sample_defs key_by_name_def account_by_key_def quota_by_name_def live_of_def new_account_row_def store_simps)

definition small_slab :: slab_pin_params where
  "small_slab = \<lparr>Version = 0, EncryptionKey = 1, MinShards = 1,
     Sectors = [\<lparr>Root = 41, SectorHostKey = 11, UploadedAt = None\<rparr>, \<lparr>Root = 42, SectorHostKey = 11, UploadedAt = None\<rparr>]\<rparr>"

lemma PinSlabs_within_limits_witness:
  "\<exists>x d'. PinSlabs sample_core plain_hasher 7 41 9 [small_slab] sample_accounts_db = Inr (x, d') \<and>
     (\<exists>a \<in> set (tAccounts d'). ac_public_key a = 41 \<and> ac_pinned_data a \<le> ac_max_pinned_data a)"
proof -
  obtain x d' where "PinSlabs sample_core plain_hasher 7 41 9 [small_slab] sample_accounts_db = Inr (x, d')"
    by (simp add: PinSlabs_def valid_min_shards_def small_slab_def pin_slab_def upsert_slab_def smallint_ok_def insert_account_slab_def
        upsert_sector_def host_id_of_def good_host_def contract_active_def record_unpinned_def incrementHostsUnpinnedSectors_def
        incrementHostUnpinnedSectors_def store_simps sample_core_def Let_def
        charge_account_def charge_connect_key_def sample_accounts_db_def sample_hosts_db_def sample_defs new_account_row_def)
  with PinSlabs_within_limits[OF sample_accounts_wf this] show ?thesis by blast
qed

end
