(* ===== verification/Connect_Keys.thy ===== *)
theory Connect_Keys
  imports Account_Store
begin

text \<open>
  Connect keys at the level of the account manager: accounts/connect.go (requests, the signed
  policy of a pre-authorized key, authorization of applications) and keys/keys.go (derivation of
  keys). HKDF, ed25519 and the binary encoder are parameters.
\<close>

section \<open>Bytes\<close>

definition bytes_of_string :: "string \<Rightarrow> u8 list" where
  "bytes_of_string s = map (\<lambda>c. word_of_nat (of_char c)) s"

text \<open>The bytes of an array, most significant first, and back.\<close>

definition word_bytes :: "nat \<Rightarrow> 'a::len word \<Rightarrow> u8 list" where
  "word_bytes n w = map (\<lambda>i. ucast (drop_bit (8 * (n - 1 - i)) w)) [0..<n]"

definition hash_of_bytes :: "u8 list \<Rightarrow> hash256" where
  "hash_of_bytes bs = fold (\<lambda>b h. push_bit 8 h + ucast b) bs 0"

lemma inj_bytes_of_string: "bytes_of_string s = bytes_of_string t \<Longrightarrow> s = t"
proof -
  have "inj (\<lambda>c. word_of_nat (of_char c) :: u8)"
  proof (rule injI)
    fix c d :: char
    assume "(word_of_nat (of_char c) :: u8) = word_of_nat (of_char d)"
    then have "unat (word_of_nat (of_char c) :: u8) = unat (word_of_nat (of_char d) :: u8)" by simp
    moreover have "of_char e < (256 :: nat)" for e :: char by simp
    ultimately have "(of_char c :: nat) = of_char d" by (simp add: unat_of_nat take_bit_eq_mod)
    then show "c = d" by simp
  qed
  then have "inj (map (\<lambda>c. word_of_nat (of_char c) :: u8))" by simp
  then show "bytes_of_string s = bytes_of_string t \<Longrightarrow> s = t" unfolding bytes_of_string_def by (auto dest: injD)
qed

section \<open>Derivation of keys\<close>

text \<open>\<open>hkdf key salt info n\<close> is the first \<open>n\<close> bytes of HKDF over BLAKE2b-256.\<close>

record crypto =
  hkdf :: "u8 list \<Rightarrow> u8 list \<Rightarrow> u8 list \<Rightarrow> nat \<Rightarrow> u8 list"
  NewPrivateKeyFromSeed :: "u8 list \<Rightarrow> private_key"
  PublicKeyOf :: "private_key \<Rightarrow> public_key"
  SignHash :: "private_key \<Rightarrow> hash256 \<Rightarrow> signature"
  VerifyHash :: "public_key \<Rightarrow> hash256 \<Rightarrow> signature \<Rightarrow> bool"

definition Derive :: "crypto \<Rightarrow> u8 list \<Rightarrow> u8 list \<Rightarrow> u8 list \<Rightarrow> nat \<Rightarrow> u8 list" where
  "Derive K key salt domain n = hkdf K key salt domain n"

definition DerivePrivateKey :: "crypto \<Rightarrow> private_key \<Rightarrow> string \<Rightarrow> private_key" where
  "DerivePrivateKey K key purpose = NewPrivateKeyFromSeed K (Derive K (word_bytes 64 key) (bytes_of_string purpose) [] 32)"

definition DeriveSharingAccountKey :: "crypto \<Rightarrow> hash256 \<Rightarrow> private_key" where
  "DeriveSharingAccountKey K userSecret = NewPrivateKeyFromSeed K (Derive K (word_bytes 32 userSecret) (bytes_of_string ''sharing'') [] 32)"

section \<open>The signed policy of a pre-authorized key\<close>

text \<open>\<open>types.Hasher\<close> with its encoder; times are written as seconds since the Unix epoch.\<close>

record policy_encoder =
  EncString :: "string \<Rightarrow> u8 list"
  EncUint64 :: "u64 \<Rightarrow> u8 list"
  EncBool :: "bool \<Rightarrow> u8 list"
  EncSum :: "u8 list \<Rightarrow> hash256"

definition unix_epoch :: gotime where
  "unix_epoch = 62135596800 * 10 ^ 9"

definition Unix :: "gotime \<Rightarrow> int" where
  "Unix t = (t - unix_epoch) div 10 ^ 9"

definition EncTime :: "policy_encoder \<Rightarrow> gotime \<Rightarrow> u8 list" where
  "EncTime E t = EncUint64 E (word_of_int (Unix t))"

text \<open>
  Documented behaviour of the encoder: integers take eight bytes and differ when the values do, a
  boolean is one byte, a string is its length followed by its bytes.
\<close>

definition policy_encoder_ok :: "policy_encoder \<Rightarrow> bool" where
  "policy_encoder_ok E \<longleftrightarrow> inj (EncUint64 E) \<and> (\<forall>v. length (EncUint64 E v) = 8) \<and> inj (EncBool E) \<and> (\<forall>b. length (EncBool E b) = 1) \<and>
     (\<forall>s. EncString E s = EncUint64 E (of_nat (length s)) @ bytes_of_string s)"

record signed_key_request = preauthorized_key_request +
  PreqSignature :: signature

definition sig_preimage :: "policy_encoder \<Rightarrow> 'a preauthorized_key_request_scheme \<Rightarrow> u8 list" where
  "sig_preimage E req =
     EncString E ''indexd/preauthorized-key/create/v1'' @ word_bytes 32 (PreqPublicKey req) @ EncString E (PreqConnectKey req) @
     EncTime E (PreqExpiration req) @ EncUint64 E (word_of_int (PreqTotalUses req)) @ EncBool E (PreqAllowedAppID req \<noteq> None) @
     (case PreqAllowedAppID req of None \<Rightarrow> [] | Some i \<Rightarrow> word_bytes 32 i)"

definition SigHash :: "policy_encoder \<Rightarrow> 'a preauthorized_key_request_scheme \<Rightarrow> hash256" where
  "SigHash E req = EncSum E (sig_preimage E req)"

definition Sign :: "crypto \<Rightarrow> policy_encoder \<Rightarrow> private_key \<Rightarrow> signed_key_request \<Rightarrow> signed_key_request" where
  "Sign K E privateKey req =
     (let req = req\<lparr>PreqPublicKey := PublicKeyOf K privateKey\<rparr>
      in req\<lparr>PreqSignature := SignHash K privateKey (SigHash E req)\<rparr>)"

section \<open>Operations of the manager\<close>

text \<open>\<open>randomKey\<close> is the hexadecimal form of 32 random bytes.\<close>

definition AccountManager_AddAppConnectKey ::
  "string \<Rightarrow> gotime \<Rightarrow> hash256 \<Rightarrow> private_key \<Rightarrow> connect_key_request \<Rightarrow> connect_key tx" where
  "AccountManager_AddAppConnectKey randomKey now userSecret poolKey req d =
     (if ReqQuota req = [] then Inl ErrNoQuota
      else let req = (if ReqKey req = [] then req\<lparr>ReqKey := randomKey\<rparr> else req)
           in AddAppConnectKey now userSecret poolKey req d)"

definition AccountManager_UpdateAppConnectKey :: "connect_key_request \<Rightarrow> connect_key tx" where
  "AccountManager_UpdateAppConnectKey req d =
     (if ReqQuota req = [] then Inl ErrNoQuota else UpdateAppConnectKey req d)"

definition AccountManager_AddPreAuthorizedKey ::
  "crypto \<Rightarrow> policy_encoder \<Rightarrow> gotime \<Rightarrow> signed_key_request \<Rightarrow> preauthorized_key tx" where
  "AccountManager_AddPreAuthorizedKey K E now req d =
     (if PreqPublicKey req = 0 \<or> PreqConnectKey req = [] \<or> PreqTotalUses req \<le> 0 \<or> \<not> now < PreqExpiration req \<or>
         \<not> VerifyHash K (PreqPublicKey req) (SigHash E req) (PreqSignature req)
      then Inl ErrInvalidPreAuthorizedKey
      else AddPreAuthorizedKey now (preauthorized_key_request.truncate req) d)"

record app_authorization =
  AuthConnectKey :: string
  AuthUserSecret :: hash256
  AuthReconnecting :: bool

definition authorizeApp :: "crypto \<Rightarrow> string \<Rightarrow> hash256 \<Rightarrow> hash256 \<Rightarrow> bool \<Rightarrow> app_authorization" where
  "authorizeApp K connectKey userSecret appID reconnecting =
     \<lparr>AuthConnectKey = connectKey,
      AuthUserSecret = hash_of_bytes (Derive K (word_bytes 32 userSecret) (word_bytes 32 appID) (bytes_of_string ''server app secret'') 32),
      AuthReconnecting = reconnecting\<rparr>"

definition AuthorizePreAuthorizedKey :: "crypto \<Rightarrow> gotime \<Rightarrow> public_key \<Rightarrow> hash256 \<Rightarrow> app_authorization tx" where
  "AuthorizePreAuthorizedKey K now publicKey appID d =
     rbind (ConsumePreAuthorizedKey now publicKey appID d) (\<lambda>((connectKey, userSecret, reconnecting), d).
       Inr (authorizeApp K connectKey userSecret appID reconnecting, d))"

definition AuthorizeAppConnectKey :: "crypto \<Rightarrow> string \<Rightarrow> hash256 \<Rightarrow> db \<Rightarrow> app_authorization result" where
  "AuthorizeAppConnectKey K connectKey appID d =
     rbind (AppAuthorization connectKey appID d) (\<lambda>(userSecret, reconnecting).
       Inr (authorizeApp K connectKey userSecret appID reconnecting))"

section \<open>The signature binds the policy\<close>

lemma length_word_bytes [simp]: "length (word_bytes n w) = n"
  by (simp add: word_bytes_def)

lemma word_bytes_inj:
  fixes v w :: "'a::len word"
  assumes "word_bytes n v = word_bytes n w" "LENGTH('a) = 8 * n"
  shows "v = w"
proof (rule bit_word_eqI)
  fix k assume k: "k < LENGTH('a)"
  define i where "i = n - 1 - k div 8"
  have i: "i < n" "n - 1 - i = k div 8" using k assms(2) by (auto simp: i_def)
  have "word_bytes n v ! i = word_bytes n w ! i" using assms(1) by simp
  then have "(ucast (drop_bit (8 * (k div 8)) v) :: u8) = ucast (drop_bit (8 * (k div 8)) w)" using i by (simp add: word_bytes_def)
  then have "bit (ucast (drop_bit (8 * (k div 8)) v) :: u8) (k mod 8) = bit (ucast (drop_bit (8 * (k div 8)) w) :: u8) (k mod 8)" by simp
  then show "bit v k = bit w k" by (simp add: bit_ucast_iff bit_drop_bit_eq)
qed

lemma policy_encoder_okD:
  assumes "policy_encoder_ok E"
  shows "EncUint64 E v = EncUint64 E w \<longleftrightarrow> v = w" "length (EncUint64 E v) = 8" "EncBool E b = EncBool E c \<longleftrightarrow> b = c" "length (EncBool E b) = 1"
    and "EncString E s = EncUint64 E (of_nat (length s)) @ bytes_of_string s"
  using assms by (auto simp: policy_encoder_ok_def inj_def)

lemma encoded_string_prefix:
  assumes E: "policy_encoder_ok E" and eq: "EncString E s @ xs = EncString E t @ ys" and len: "length s < 2 ^ 64" "length t < 2 ^ 64"
  shows "s = t \<and> xs = ys"
proof -
  from eq have "EncUint64 E (of_nat (length s)) = EncUint64 E (of_nat (length t))" "bytes_of_string s @ xs = bytes_of_string t @ ys"
    by (auto simp: policy_encoder_okD[OF E] append_eq_append_conv)
  moreover from this(1) have "unat (of_nat (length s) :: u64) = unat (of_nat (length t) :: u64)" by (simp add: policy_encoder_okD[OF E])
  then have "length s = length t" using len by (simp add: unat_of_nat take_bit_eq_mod)
  ultimately show ?thesis by (auto simp: append_eq_append_conv bytes_of_string_def dest: inj_bytes_of_string[unfolded bytes_of_string_def])
qed

lemma word_of_int64_inj:
  fixes a b :: int
  assumes "(word_of_int a :: u64) = word_of_int b" "- (2 ^ 63) \<le> a" "a < 2 ^ 63" "- (2 ^ 63) \<le> b" "b < 2 ^ 63"
  shows "a = b"
proof -
  from assms(1) have "sint (word_of_int a :: u64) = sint (word_of_int b :: u64)" by simp
  then show ?thesis using assms(2-) by (simp add: sint_sbintrunc' signed_take_bit_int_eq_self)
qed

text \<open>The values that a request holds in Go: a 64-bit number of uses and a time whose seconds fit 64 bits.\<close>

definition request_in_range :: "'a preauthorized_key_request_scheme \<Rightarrow> bool" where
  "request_in_range req \<longleftrightarrow> length (PreqConnectKey req) < 2 ^ 64 \<and> - (2 ^ 63) \<le> PreqTotalUses req \<and> PreqTotalUses req < 2 ^ 63 \<and>
     - (2 ^ 63) \<le> Unix (PreqExpiration req) \<and> Unix (PreqExpiration req) < 2 ^ 63"

text \<open>
  Claim C34: the bytes that are hashed and signed determine the policy of a pre-authorized key: the
  public key, the connect key, the number of uses, the allowed application and the expiration up
  to its second. Only the fraction of the second of the expiration is not signed.
\<close>

theorem sig_preimage_binds:
  fixes r s :: signed_key_request
  assumes "policy_encoder_ok E" "request_in_range r" "request_in_range s" "sig_preimage E r = sig_preimage E s"
  shows "(PreqPublicKey r, PreqConnectKey r, Unix (PreqExpiration r), PreqTotalUses r, PreqAllowedAppID r) =
    (PreqPublicKey s, PreqConnectKey s, Unix (PreqExpiration s), PreqTotalUses s, PreqAllowedAppID s)"
proof -
  note [simp] = policy_encoder_okD[OF assms(1)]
  define rest where "rest = (\<lambda>q :: signed_key_request. EncTime E (PreqExpiration q) @ EncUint64 E (word_of_int (PreqTotalUses q)) @
    EncBool E (PreqAllowedAppID q \<noteq> None) @ (case PreqAllowedAppID q of None \<Rightarrow> [] | Some i \<Rightarrow> word_bytes 32 i))"
  from assms(4) have "word_bytes 32 (PreqPublicKey r) @ EncString E (PreqConnectKey r) @ rest r =
      word_bytes 32 (PreqPublicKey s) @ EncString E (PreqConnectKey s) @ rest s"
    by (simp add: sig_preimage_def rest_def)
  then have key: "word_bytes 32 (PreqPublicKey r) = word_bytes 32 (PreqPublicKey s)"
    and tail: "EncString E (PreqConnectKey r) @ rest r = EncString E (PreqConnectKey s) @ rest s"
    using append_eq_append_conv[of "word_bytes 32 (PreqPublicKey r)" "word_bytes 32 (PreqPublicKey s)"] by (blast intro: length_word_bytes[THEN trans] length_word_bytes[symmetric])+
  from key have pk: "PreqPublicKey r = PreqPublicKey s" by (rule word_bytes_inj) simp
  from encoded_string_prefix[OF assms(1) tail] assms(2,3) have ck: "PreqConnectKey r = PreqConnectKey s" and "rest r = rest s"
    by (auto simp: request_in_range_def)
  then have "(word_of_int (Unix (PreqExpiration r)) :: u64) = word_of_int (Unix (PreqExpiration s))"
      "(word_of_int (PreqTotalUses r) :: u64) = word_of_int (PreqTotalUses s)"
      and app: "EncBool E (PreqAllowedAppID r \<noteq> None) @ (case PreqAllowedAppID r of None \<Rightarrow> [] | Some i \<Rightarrow> word_bytes 32 i) =
        EncBool E (PreqAllowedAppID s \<noteq> None) @ (case PreqAllowedAppID s of None \<Rightarrow> [] | Some i \<Rightarrow> word_bytes 32 i)"
    by (auto simp: rest_def EncTime_def append_eq_append_conv)
  then have "Unix (PreqExpiration r) = Unix (PreqExpiration s)" "PreqTotalUses r = PreqTotalUses s"
    using assms(2,3) by (auto simp: request_in_range_def intro: word_of_int64_inj)
  moreover from app have "PreqAllowedAppID r = PreqAllowedAppID s"
    by (auto simp: append_eq_append_conv split: option.splits dest: word_bytes_inj)
  ultimately show ?thesis using pk ck by simp
qed

text \<open>
  An application that connects with a pre-authorized key gets the authorization, and so
  the secret, that the connect key behind it gives when it is used directly.
\<close>

theorem authorizations_agree:
  assumes "AuthorizePreAuthorizedKey K now publicKey appID d = Inr (auth, d')"
  shows "AuthorizeAppConnectKey K (AuthConnectKey auth) appID d = Inr auth"
  using assms
  by (auto simp: AuthorizePreAuthorizedKey_def AuthorizeAppConnectKey_def ConsumePreAuthorizedKey_def AppAuthorization_def appAuthorization_def
      key_by_name_def live_of_def Let_def authorizeApp_def rbind_eq_Inr split: list.splits prod.splits option.splits)

section \<open>Examples\<close>

definition plain_encoder :: policy_encoder where
  "plain_encoder = \<lparr>EncString = (\<lambda>s. word_bytes 8 (of_nat (length s) :: u64) @ bytes_of_string s), EncUint64 = word_bytes 8,
     EncBool = (\<lambda>b. [of_bool b]), EncSum = hash_of_bytes\<rparr>"

lemma plain_encoder_ok: "policy_encoder_ok plain_encoder"
  by (auto simp: policy_encoder_ok_def plain_encoder_def inj_def intro: word_bytes_inj)

definition plain_crypto :: crypto where
  "plain_crypto = \<lparr>hkdf = (\<lambda>key salt info n. take n (key @ salt @ info @ replicate n 0)), NewPrivateKeyFromSeed = (\<lambda>seed. ucast (hash_of_bytes seed)),
     PublicKeyOf = ucast, SignHash = (\<lambda>k h. ucast (h + ucast k)), VerifyHash = (\<lambda>p h sig. ucast sig = h + p)\<rparr>"

definition sample_request :: "gotime \<Rightarrow> signed_key_request" where
  "sample_request t = \<lparr>PreqPublicKey = 71, PreqConnectKey = ''key'', PreqExpiration = t, PreqTotalUses = 3, PreqAllowedAppID = Some 8, PreqSignature = 5\<rparr>"

lemma sig_preimage_binds_witness:
  "sig_preimage plain_encoder (sample_request (unix_epoch + 1000000001)) = sig_preimage plain_encoder (sample_request (unix_epoch + 1000000002)) \<and>
   Unix (PreqExpiration (sample_request (unix_epoch + 1000000001))) = Unix (PreqExpiration (sample_request (unix_epoch + 1000000002)))"
proof -
  have eq: "sig_preimage plain_encoder (sample_request (unix_epoch + 1000000001)) = sig_preimage plain_encoder (sample_request (unix_epoch + 1000000002))"
    by (simp add: sig_preimage_def sample_request_def EncTime_def Unix_def)
  have "request_in_range (sample_request (unix_epoch + 1000000001))" "request_in_range (sample_request (unix_epoch + 1000000002))"
    by (simp_all add: request_in_range_def sample_request_def Unix_def)
  from sig_preimage_binds[OF plain_encoder_ok this eq] eq show ?thesis by simp
qed

lemma authorizations_agree_witness:
  "\<exists>auth d'. AuthorizePreAuthorizedKey plain_crypto 50 71 8 sample_accounts_db = Inr (auth, d') \<and>
     AuthorizeAppConnectKey plain_crypto (AuthConnectKey auth) 8 sample_accounts_db = Inr auth"
proof -
  obtain auth d' where "AuthorizePreAuthorizedKey plain_crypto 50 71 8 sample_accounts_db = Inr (auth, d')"
    by (simp add: AuthorizePreAuthorizedKey_def ConsumePreAuthorizedKey_def preauthorized_join_def consumable_def appAuthorization_def
        key_by_name_def sample_accounts_db_def)
  with authorizations_agree[OF this] show ?thesis by blast
qed

end
