(* ===== verification/Funding_Store.thy ===== *)
theory Funding_Store
  imports Connect_Keys
begin

text \<open>
  Funding of accounts and pools in the store: persist/postgres/funding.go and the funding events of
  persist/postgres/accounts.go. \<open>scan\<close> is the order in which the database visits rows where the
  query leaves it open; \<open>now\<close> stands for \<open>NOW()\<close> and \<open>time.Now()\<close>.
\<close>

section \<open>Values\<close>

record host_account =
  haAccountKey :: account_key
  haHostKey :: public_key
  haConsecutiveFailedFunds :: int
  haNextFund :: gotime
  haFullStorage :: bool

record host_pool =
  hpID :: int
  hpHostKey :: public_key
  hpPoolKey :: private_key
  hpConsecutiveFailedFunds :: int
  hpNextFund :: gotime
  hpFullStorage :: bool

record pending_attachment =
  attAccountKey :: account_key
  attPoolKey :: private_key

record quota_fund_info =
  qfQuotaName :: string
  qfFundTargetBytes :: u64
  qfActive :: u64
  qfFullStorage :: u64

record funding_event =
  feID :: int
  feAccountKey :: account_key
  feHostKey :: public_key
  feContractID :: contract_id
  feAmountSC :: currency
  feEstimatedUploadBytes :: u64
  feEstimatedDownloadBytes :: u64
  feFundType :: string
  fePoolID :: "int option"
  feQuotaName :: "string option"
  feCreatedAt :: gotime

record funding_cursor =
  After :: gotime
  CursorID :: int

section \<open>Funding information per quota\<close>

text \<open>\<open>(a.pinned_data >= a.max_pinned_data) OR (ack.pinned_data >= q.max_pinned_data)\<close>\<close>

definition account_full :: "account_row \<times> connect_key_row \<times> quota_row \<Rightarrow> bool" where
  "account_full row = (case row of (a, k, q) \<Rightarrow> ac_pinned_data a \<ge> ac_max_pinned_data a \<or> ck_pinned_data k \<ge> q_max_pinned_data q)"

definition account_active :: "gotime \<Rightarrow> account_row \<Rightarrow> bool" where
  "account_active threshold a \<longleftrightarrow> ac_last_used a \<ge> threshold \<and> ac_deleted_at a = None"

text \<open>\<open>GROUP BY q.name, q.fund_target_bytes\<close> with the two counts of each group.\<close>

definition quota_group :: "quota_row \<Rightarrow> string \<times> int" where
  "quota_group q = (q_name q, q_fund_target_bytes q)"

definition fund_infos :: "((string \<times> int) list \<Rightarrow> (string \<times> int) list) \<Rightarrow> ('r \<Rightarrow> quota_row) \<Rightarrow> ('r \<Rightarrow> bool) \<Rightarrow> 'r list \<Rightarrow> quota_fund_info list" where
  "fund_infos scan quota full rows =
     map (\<lambda>g. \<lparr>qfQuotaName = fst g, qfFundTargetBytes = word_of_int (snd g),
               qfActive = word_of_int (cnt (\<lambda>r. quota_group (quota r) = g) rows),
               qfFullStorage = word_of_int (cnt (\<lambda>r. quota_group (quota r) = g \<and> full r) rows)\<rparr>)
       (scan (remdups (map (quota_group \<circ> quota) rows)))"

definition AccountFundingInfo :: "((string \<times> int) list \<Rightarrow> (string \<times> int) list) \<Rightarrow> gotime \<Rightarrow> db \<Rightarrow> quota_fund_info list" where
  "AccountFundingInfo scan threshold d =
     fund_infos scan (\<lambda>(a, k, q). q) account_full (filter (\<lambda>(a, k, q). account_active threshold a) (accounts_join d))"

text \<open>\<open>pools p INNER JOIN app_connect_keys ack INNER JOIN quotas q\<close>\<close>

definition pools_join :: "db \<Rightarrow> (pool_row \<times> connect_key_row \<times> quota_row) list" where
  "pools_join d = concat (map (\<lambda>p. concat (map (\<lambda>k. map (\<lambda>q. (p, k, q)) (filter (\<lambda>q. q_name q = ck_quota_name k) (tQuotas d)))
     (filter (\<lambda>k. ck_id k = po_connect_key_id p) (tConnectKeys d)))) (tPools d))"

definition pool_full :: "pool_row \<times> connect_key_row \<times> quota_row \<Rightarrow> bool" where
  "pool_full row = (case row of (p, k, q) \<Rightarrow> ck_pinned_data k \<ge> q_max_pinned_data q)"

definition pool_active :: "gotime \<Rightarrow> db \<Rightarrow> connect_key_row \<Rightarrow> bool" where
  "pool_active threshold d k \<longleftrightarrow> (\<exists>a \<in> set (tAccounts d). ac_connect_key_id a = ck_id k \<and> account_active threshold a)"

definition PoolFundingInfo :: "((string \<times> int) list \<Rightarrow> (string \<times> int) list) \<Rightarrow> gotime \<Rightarrow> db \<Rightarrow> quota_fund_info list" where
  "PoolFundingInfo scan threshold d =
     fund_infos scan (\<lambda>(p, k, q). q) pool_full (filter (\<lambda>(p, k, q). pool_active threshold d k) (pools_join d))"

section \<open>Accounts due for funding\<close>

type_synonym account_scan = "(account_row \<times> connect_key_row \<times> quota_row) list \<Rightarrow> (account_row \<times> connect_key_row \<times> quota_row) list"

definition account_host_of :: "db \<Rightarrow> int \<Rightarrow> int \<Rightarrow> account_host_row option" where
  "account_host_of d accID hostID = find (\<lambda>r. ah_account_id r = accID \<and> ah_host_id r = hostID) (tAccountHosts d)"

definition newHostAccountsForFunding ::
  "gotime \<Rightarrow> account_scan \<Rightarrow> public_key \<Rightarrow> int \<Rightarrow> string \<Rightarrow> gotime \<Rightarrow> nat \<Rightarrow> db \<Rightarrow> host_account list" where
  "newHostAccountsForFunding now scan hk hostID quotaName threshold limit d =
     map (\<lambda>(a, k, q). \<lparr>haAccountKey = ac_public_key a, haHostKey = hk, haConsecutiveFailedFunds = 0, haNextFund = now, haFullStorage = account_full (a, k, q)\<rparr>)
       (take limit (scan (filter (\<lambda>(a, k, q). account_host_of d (ac_id a) hostID = None \<and> account_active threshold a \<and> ck_quota_name k = quotaName) (accounts_join d))))"

type_synonym funded_account = "account_host_row \<times> account_row \<times> connect_key_row \<times> quota_row"

text \<open>\<open>account_hosts ha INNER JOIN accounts a ... INNER JOIN quotas q\<close>\<close>

definition account_hosts_join :: "db \<Rightarrow> funded_account list" where
  "account_hosts_join d = concat (map (\<lambda>r. map (\<lambda>row. (r, row)) (filter (\<lambda>(a, k, q). ac_id a = ah_account_id r) (accounts_join d))) (tAccountHosts d))"

definition existingHostAccountsForFunding ::
  "gotime \<Rightarrow> (funded_account list \<Rightarrow> funded_account list) \<Rightarrow> public_key \<Rightarrow> int \<Rightarrow> string \<Rightarrow> gotime \<Rightarrow> nat \<Rightarrow> db \<Rightarrow> host_account list" where
  "existingHostAccountsForFunding now scan hk hostID quotaName threshold limit d =
     map (\<lambda>(r, a, k, q). \<lparr>haAccountKey = ac_public_key a, haHostKey = hk, haConsecutiveFailedFunds = ah_failed_funds r, haNextFund = ah_next_fund r,
                          haFullStorage = account_full (a, k, q)\<rparr>)
       (take limit (stable_sort (\<lambda>x y. ah_next_fund (fst x) < ah_next_fund (fst y)) (scan
          (filter (\<lambda>(r, a, k, q). ah_host_id r = hostID \<and> ah_next_fund r \<le> now \<and> account_active threshold a \<and> ck_quota_name k = quotaName)
             (account_hosts_join d)))))"

definition HostAccountsForFunding ::
  "gotime \<Rightarrow> account_scan \<Rightarrow> (funded_account list \<Rightarrow> funded_account list) \<Rightarrow> public_key \<Rightarrow> string \<Rightarrow> gotime \<Rightarrow> int \<Rightarrow> db \<Rightarrow> host_account list result" where
  "HostAccountsForFunding now scan scan' hk quotaName threshold limit d =
     (if limit < 0 then Inl (ErrMsg ''limit can not be negative'')
      else if limit = 0 then Inr []
      else case host_id_of d hk of
             None \<Rightarrow> Inl ErrHostNotFound
           | Some hostID \<Rightarrow>
               let remaining = nat limit;
                   newAccs = newHostAccountsForFunding now scan hk hostID quotaName threshold remaining d
               in if length newAccs \<ge> remaining then Inr newAccs
                  else Inr (newAccs @ existingHostAccountsForFunding now scan' hk hostID quotaName threshold (remaining - length newAccs) d))"

section \<open>Pools due for funding\<close>

type_synonym pool_scan = "(pool_row \<times> connect_key_row \<times> quota_row) list \<Rightarrow> (pool_row \<times> connect_key_row \<times> quota_row) list"

definition pool_host_of :: "db \<Rightarrow> int \<Rightarrow> int \<Rightarrow> pool_host_row option" where
  "pool_host_of d poolID hostID = find (\<lambda>r. ph_pool_id r = poolID \<and> ph_host_id r = hostID) (tPoolHosts d)"

definition newHostPoolsForFunding ::
  "gotime \<Rightarrow> pool_scan \<Rightarrow> public_key \<Rightarrow> int \<Rightarrow> string \<Rightarrow> gotime \<Rightarrow> nat \<Rightarrow> db \<Rightarrow> host_pool list" where
  "newHostPoolsForFunding now scan hk hostID quotaName threshold limit d =
     map (\<lambda>(p, k, q). \<lparr>hpID = po_id p, hpHostKey = hk, hpPoolKey = po_pool_key p, hpConsecutiveFailedFunds = 0, hpNextFund = now, hpFullStorage = pool_full (p, k, q)\<rparr>)
       (take limit (scan (filter (\<lambda>(p, k, q). pool_host_of d (po_id p) hostID = None \<and> ck_quota_name k = quotaName \<and> pool_active threshold d k) (pools_join d))))"

type_synonym funded_pool = "pool_host_row \<times> pool_row \<times> connect_key_row \<times> quota_row"

definition pool_hosts_join :: "db \<Rightarrow> funded_pool list" where
  "pool_hosts_join d = concat (map (\<lambda>r. map (\<lambda>row. (r, row)) (filter (\<lambda>(p, k, q). po_id p = ph_pool_id r) (pools_join d))) (tPoolHosts d))"

definition existingHostPoolsForFunding ::
  "gotime \<Rightarrow> (funded_pool list \<Rightarrow> funded_pool list) \<Rightarrow> public_key \<Rightarrow> int \<Rightarrow> string \<Rightarrow> gotime \<Rightarrow> nat \<Rightarrow> db \<Rightarrow> host_pool list" where
  "existingHostPoolsForFunding now scan hk hostID quotaName threshold limit d =
     map (\<lambda>(r, p, k, q). \<lparr>hpID = po_id p, hpHostKey = hk, hpPoolKey = po_pool_key p, hpConsecutiveFailedFunds = ph_failed_funds r, hpNextFund = ph_next_fund r,
                          hpFullStorage = pool_full (p, k, q)\<rparr>)
       (take limit (stable_sort (\<lambda>x y. ph_next_fund (fst x) < ph_next_fund (fst y)) (scan
          (filter (\<lambda>(r, p, k, q). ph_host_id r = hostID \<and> ph_next_fund r \<le> now \<and> ck_quota_name k = quotaName \<and> pool_active threshold d k)
             (pool_hosts_join d)))))"

definition HostPoolsForFunding ::
  "gotime \<Rightarrow> pool_scan \<Rightarrow> (funded_pool list \<Rightarrow> funded_pool list) \<Rightarrow> public_key \<Rightarrow> string \<Rightarrow> gotime \<Rightarrow> int \<Rightarrow> db \<Rightarrow> host_pool list result" where
  "HostPoolsForFunding now scan scan' hk quotaName threshold limit d =
     (if limit < 0 then Inl (ErrMsg ''limit can not be negative'')
      else if limit = 0 then Inr []
      else case host_id_of d hk of
             None \<Rightarrow> Inl ErrHostNotFound
           | Some hostID \<Rightarrow>
               let remaining = nat limit;
                   newPools = newHostPoolsForFunding now scan hk hostID quotaName threshold remaining d
               in if length newPools \<ge> remaining then Inr newPools
                  else Inr (newPools @ existingHostPoolsForFunding now scan' hk hostID quotaName threshold (remaining - length newPools) d))"

section \<open>Attachments\<close>

text \<open>The rows that the join of \<open>InsertPoolAttachments\<close> selects.\<close>

definition attachment_rows :: "public_key \<Rightarrow> pending_attachment list \<Rightarrow> db \<Rightarrow> pool_attachment_row list" where
  "attachment_rows hk attachments d =
     concat (map (\<lambda>v. concat (map (\<lambda>a. concat (map (\<lambda>p. map (\<lambda>h. \<lparr>pa_pool_id = po_id p, pa_host_id = h_id h, pa_account_id = ac_id a\<rparr>)
         (filter (\<lambda>h. h_public_key h = hk) (tHosts d)))
       (filter (\<lambda>p. po_connect_key_id p = ac_connect_key_id a) (tPools d))))
     (filter (\<lambda>a. ac_public_key a = attAccountKey v) (tAccounts d)))) attachments)"

text \<open>\<open>ON CONFLICT DO NOTHING\<close> for one row.\<close>

definition add_attachment :: "pool_attachment_row \<Rightarrow> pool_attachment_row list \<Rightarrow> pool_attachment_row list" where
  "add_attachment r rows = (if r \<in> set rows then rows else rows @ [r])"

definition InsertPoolAttachments :: "core_ops \<Rightarrow> public_key \<Rightarrow> pending_attachment list \<Rightarrow> unit tx" where
  "InsertPoolAttachments C hk attachments d =
     (if length attachments > MaxAccountBatchSize C then Inl (ErrMsg ''too many attachments to insert'')
      else if attachments = [] then Inr ((), d)
      else let rows = attachment_rows hk attachments d
           in if \<exists>r \<in> set rows. pool_host_of d (pa_pool_id r) (pa_host_id r) = None then Inl ErrForeignKeyViolation
              else Inr ((), d\<lparr>tPoolAttachments := fold add_attachment rows (tPoolAttachments d)\<rparr>))"

definition SharingPoolAttachments ::
  "crypto \<Rightarrow> ((pool_host_row \<times> pool_row \<times> connect_key_row) list \<Rightarrow> (pool_host_row \<times> pool_row \<times> connect_key_row) list) \<Rightarrow> public_key \<Rightarrow> int \<Rightarrow> db
     \<Rightarrow> pending_attachment list" where
  "SharingPoolAttachments K scan hk limit d =
     (if limit \<le> 0 then []
      else map (\<lambda>(r, p, k). \<lparr>attAccountKey = PublicKeyOf K (DeriveSharingAccountKey K (ck_user_secret k)), attPoolKey = po_pool_key p\<rparr>)
        (take (nat limit) (stable_sort (\<lambda>x y. po_id (fst (snd x)) < po_id (fst (snd y))) (scan
           (concat (map (\<lambda>r. concat (map (\<lambda>p. map (\<lambda>k. (r, p, k)) (filter (\<lambda>k. ck_id k = po_connect_key_id p) (tConnectKeys d)))
              (filter (\<lambda>p. po_id p = ph_pool_id r) (tPools d))))
            (filter (\<lambda>r. (\<exists>h \<in> set (tHosts d). h_id h = ph_host_id r \<and> h_public_key h = hk) \<and> ph_failed_funds r = 0 \<and> \<not> ph_sharing_attached r) (tPoolHosts d))))))))"

definition MarkSharingPoolsAttached :: "core_ops \<Rightarrow> public_key \<Rightarrow> pending_attachment list \<Rightarrow> unit tx" where
  "MarkSharingPoolsAttached C hk attachments d =
     (if attachments = [] then Inr ((), d)
      else if length attachments > MaxAccountBatchSize C then Inl (ErrMsg ''too many attachments to mark'')
      else let poolKeys = map attPoolKey attachments;
               poolIDs = map po_id (filter (\<lambda>p. po_pool_key p \<in> set poolKeys) (tPools d))
           in Inr ((), d\<lparr>tPoolHosts := update_rows (\<lambda>r. host_id_of d hk = Some (ph_host_id r) \<and> ph_pool_id r \<in> set poolIDs)
                (\<lambda>r. r\<lparr>ph_sharing_attached := True\<rparr>) (tPoolHosts d)\<rparr>))"

text \<open>
  The rows of \<open>PendingPoolAttachments\<close>: a pool funded on the host, an account of its connect key
  that is not deleted, and no attachment yet.
\<close>

definition pending_rows :: "public_key \<Rightarrow> db \<Rightarrow> (account_row \<times> pool_row) list" where
  "pending_rows hk d =
     concat (map (\<lambda>r. concat (map (\<lambda>p. concat (map (\<lambda>k. map (\<lambda>a. (a, p))
         (filter (\<lambda>a. ac_connect_key_id a = ck_id k \<and> ac_deleted_at a = None \<and>
            \<lparr>pa_pool_id = po_id p, pa_host_id = ph_host_id r, pa_account_id = ac_id a\<rparr> \<notin> set (tPoolAttachments d)) (tAccounts d)))
       (filter (\<lambda>k. ck_id k = po_connect_key_id p) (tConnectKeys d))))
     (filter (\<lambda>p. po_id p = ph_pool_id r) (tPools d))))
   (filter (\<lambda>r. (\<exists>h \<in> set (tHosts d). h_id h = ph_host_id r \<and> h_public_key h = hk) \<and> ph_failed_funds r = 0) (tPoolHosts d)))"

definition PendingPoolAttachments ::
  "((account_row \<times> pool_row) list \<Rightarrow> (account_row \<times> pool_row) list) \<Rightarrow> public_key \<Rightarrow> int \<Rightarrow> db \<Rightarrow> pending_attachment list" where
  "PendingPoolAttachments scan hk limit d =
     (if limit \<le> 0 then []
      else map (\<lambda>(a, p). \<lparr>attAccountKey = ac_public_key a, attPoolKey = po_pool_key p\<rparr>)
        (take (nat limit) (stable_sort (\<lambda>x y. ac_id (fst x) < ac_id (fst y)) (scan (pending_rows hk d)))))"

section \<open>Updates after funding\<close>

definition ScheduleAccountForFunding :: "public_key \<Rightarrow> account_key \<Rightarrow> unit tx" where
  "ScheduleAccountForFunding hostKey account d =
     Inr ((), d\<lparr>tAccountHosts := update_rows
       (\<lambda>r. map_option ac_id (account_by_key d account) = Some (ah_account_id r) \<and> host_id_of d hostKey = Some (ah_host_id r))
       (\<lambda>r. r\<lparr>ah_next_fund := unix_epoch\<rparr>) (tAccountHosts d)\<rparr>)"

text \<open>
  \<open>INSERT ... ON CONFLICT DO UPDATE\<close>: a row with the key is updated, otherwise the row is inserted; the
  statement fails when it would touch one row twice (error 21000).
\<close>

definition upsert :: "('r \<Rightarrow> 'k) \<Rightarrow> ('r \<Rightarrow> 'r \<Rightarrow> 'r) \<Rightarrow> 'r \<Rightarrow> 'r list \<Rightarrow> 'r list" where
  "upsert key upd r rows =
     (if key r \<in> key ` set rows then update_rows (\<lambda>x. key x = key r) (upd r) rows else rows @ [r])"

definition upsert_all :: "('r \<Rightarrow> 'k) \<Rightarrow> ('r \<Rightarrow> 'r \<Rightarrow> 'r) \<Rightarrow> 'r list \<Rightarrow> 'r list \<Rightarrow> 'r list result" where
  "upsert_all key upd new rows =
     (if \<not> distinct (map key new) then Inl (ErrPg ''21000'') else Inr (fold (upsert key upd) new rows))"

definition ah_key :: "account_host_row \<Rightarrow> int \<times> int" where
  "ah_key r = (ah_account_id r, ah_host_id r)"

definition account_host_rows :: "host_account list \<Rightarrow> db \<Rightarrow> account_host_row list" where
  "account_host_rows accs d =
     concat (map (\<lambda>v. concat (map (\<lambda>a. map (\<lambda>h. \<lparr>ah_account_id = ac_id a, ah_host_id = h_id h, ah_next_fund = haNextFund v, ah_failed_funds = haConsecutiveFailedFunds v\<rparr>)
       (filter (\<lambda>h. h_public_key h = haHostKey v) (tHosts d))) (filter (\<lambda>a. ac_public_key a = haAccountKey v) (tAccounts d)))) accs)"

definition UpdateHostAccounts :: "core_ops \<Rightarrow> host_account list \<Rightarrow> unit tx" where
  "UpdateHostAccounts C accs d =
     (if accs = [] then Inr ((), d)
      else if length accs > MaxAccountBatchSize C then Inl (ErrMsg ''too many accounts to update'')
      else if \<exists>v \<in> set accs. \<not> int32_ok (haConsecutiveFailedFunds v) then Inl ErrOutOfRange
      else rbind (upsert_all ah_key (\<lambda>new old. old\<lparr>ah_failed_funds := ah_failed_funds new, ah_next_fund := ah_next_fund new\<rparr>)
                    (account_host_rows accs d) (tAccountHosts d))
             (\<lambda>rows. Inr ((), d\<lparr>tAccountHosts := rows\<rparr>)))"

definition ph_key :: "pool_host_row \<Rightarrow> int \<times> int" where
  "ph_key r = (ph_pool_id r, ph_host_id r)"

definition pool_host_rows :: "host_pool list \<Rightarrow> db \<Rightarrow> pool_host_row list" where
  "pool_host_rows pools d =
     concat (map (\<lambda>v. concat (map (\<lambda>p. map (\<lambda>h. \<lparr>ph_pool_id = po_id p, ph_host_id = h_id h, ph_next_fund = hpNextFund v, ph_failed_funds = hpConsecutiveFailedFunds v,
         ph_sharing_attached = False\<rparr>)
       (filter (\<lambda>h. h_public_key h = hpHostKey v) (tHosts d))) (filter (\<lambda>p. po_pool_key p = hpPoolKey v) (tPools d)))) pools)"

definition UpdateHostPools :: "core_ops \<Rightarrow> host_pool list \<Rightarrow> unit tx" where
  "UpdateHostPools C pools d =
     (if pools = [] then Inr ((), d)
      else if length pools > MaxAccountBatchSize C then Inl (ErrMsg ''too many pools to update'')
      else if \<exists>v \<in> set pools. \<not> int32_ok (hpConsecutiveFailedFunds v) then Inl ErrOutOfRange
      else rbind (upsert_all ph_key (\<lambda>new old. old\<lparr>ph_failed_funds := ph_failed_funds new, ph_next_fund := ph_next_fund new\<rparr>)
                    (pool_host_rows pools d) (tPoolHosts d))
             (\<lambda>rows. Inr ((), d\<lparr>tPoolHosts := rows\<rparr>)))"

section \<open>Funding events\<close>

definition event_row :: "gotime \<Rightarrow> int \<Rightarrow> funding_event \<Rightarrow> funding_event_row" where
  "event_row now i ev =
     \<lparr>fe_id = i, fe_account_key = feAccountKey ev, fe_host_key = feHostKey ev, fe_contract_id = feContractID ev, fe_amount_sc = feAmountSC ev,
      fe_estimated_upload_bytes = uint (feEstimatedUploadBytes ev), fe_estimated_download_bytes = uint (feEstimatedDownloadBytes ev),
      fe_fund_type = feFundType ev, fe_pool_id = fePoolID ev, fe_created_at = now\<rparr>"

definition RecordFundingEvents :: "gotime \<Rightarrow> funding_event list \<Rightarrow> unit tx" where
  "RecordFundingEvents now events d =
     (if events = [] then Inr ((), d)
      else if \<exists>ev \<in> set events. \<not> int8_ok (feEstimatedUploadBytes ev) \<or> \<not> int8_ok (feEstimatedDownloadBytes ev) \<or>
           (\<exists>i. fePoolID ev = Some i \<and> \<not> int32_ok i) then Inl ErrOutOfRange
      else if \<exists>ev \<in> set events. feFundType ev \<notin> {''account'', ''pool''} then Inl ErrCheckViolation
      else if \<exists>ev \<in> set events. \<exists>i. fePoolID ev = Some i \<and> i \<notin> po_id ` set (tPools d) then Inl ErrForeignKeyViolation
      else Inr ((), d\<lparr>tFundingEvents := tFundingEvents d @ map (\<lambda>(i, ev). event_row now (seqFundingEvents d + int i) ev) (zip [0..<length events] events),
                      seqFundingEvents := seqFundingEvents d + int (length events)\<rparr>))"

text \<open>\<open>WHERE created_at > $1 OR (created_at = $1 AND id > $2)\<close> and the order of the rows.\<close>

definition after_cursor :: "funding_cursor \<Rightarrow> funding_event_row \<Rightarrow> bool" where
  "after_cursor c r \<longleftrightarrow> fe_created_at r > After c \<or> fe_created_at r = After c \<and> fe_id r > CursorID c"

definition event_before :: "funding_event_row \<Rightarrow> funding_event_row \<Rightarrow> bool" where
  "event_before r s \<longleftrightarrow> fe_created_at r < fe_created_at s \<or> fe_created_at r = fe_created_at s \<and> fe_id r < fe_id s"

text \<open>The quota behind the two left joins.\<close>

definition event_quota :: "db \<Rightarrow> funding_event_row \<Rightarrow> string option" where
  "event_quota d r =
     (case fe_pool_id r of
        None \<Rightarrow> None
      | Some i \<Rightarrow> (case find (\<lambda>p. po_id p = i) (tPools d) of
           None \<Rightarrow> None
         | Some p \<Rightarrow> map_option ck_quota_name (key_by_id d (po_connect_key_id p))))"

definition scan_event :: "db \<Rightarrow> funding_event_row \<Rightarrow> funding_event" where
  "scan_event d r =
     \<lparr>feID = fe_id r, feAccountKey = fe_account_key r, feHostKey = fe_host_key r, feContractID = fe_contract_id r, feAmountSC = fe_amount_sc r,
      feEstimatedUploadBytes = word_of_int (fe_estimated_upload_bytes r), feEstimatedDownloadBytes = word_of_int (fe_estimated_download_bytes r),
      feFundType = fe_fund_type r, fePoolID = fe_pool_id r, feQuotaName = event_quota d r, feCreatedAt = fe_created_at r\<rparr>"

definition funding_events_page :: "funding_cursor \<Rightarrow> int \<Rightarrow> db \<Rightarrow> funding_event list" where
  "funding_events_page cursor limit d =
     map (scan_event d) (take (nat limit) (stable_sort event_before (filter (after_cursor cursor) (tFundingEvents d))))"

text \<open>
  The slice of the result is captured by the function of the transaction and is not emptied when an attempt is retried:
  \<open>retried\<close> are the attempts that failed with a retryable error before the one that is committed, each with the database it read
  and the number of rows it had appended before it failed.
\<close>

definition FundingEvents :: "(db \<times> nat) list \<Rightarrow> funding_cursor \<Rightarrow> int \<Rightarrow> db \<Rightarrow> funding_event list result" where
  "FundingEvents retried cursor limit d =
     (if limit < 0 then Inl (ErrMsg ''limit can not be negative'')
      else if length retried \<ge> maxRetryAttempts then Inl (ErrPg ''40001'')
      else Inr (concat (map (\<lambda>(d', n). take n (funding_events_page cursor limit d')) retried) @ funding_events_page cursor limit d))"

section \<open>The invariant of the funding tables\<close>

definition account_hosts_wf :: "db \<Rightarrow> bool" where
  "account_hosts_wf d \<longleftrightarrow> distinct (map ah_key (tAccountHosts d)) \<and>
     (\<forall>r \<in> set (tAccountHosts d). ah_account_id r \<in> ac_id ` set (tAccounts d) \<and> ah_host_id r \<in> h_id ` set (tHosts d))"

definition pool_hosts_wf :: "db \<Rightarrow> bool" where
  "pool_hosts_wf d \<longleftrightarrow> distinct (map ph_key (tPoolHosts d)) \<and>
     (\<forall>r \<in> set (tPoolHosts d). ph_pool_id r \<in> po_id ` set (tPools d) \<and> ph_host_id r \<in> h_id ` set (tHosts d))"

definition attachments_wf :: "db \<Rightarrow> bool" where
  "attachments_wf d \<longleftrightarrow> distinct (tPoolAttachments d) \<and>
     (\<forall>r \<in> set (tPoolAttachments d). (pa_pool_id r, pa_host_id r) \<in> ph_key ` set (tPoolHosts d) \<and> pa_account_id r \<in> ac_id ` set (tAccounts d))"

definition events_wf :: "db \<Rightarrow> bool" where
  "events_wf d \<longleftrightarrow> distinct (map fe_id (tFundingEvents d)) \<and>
     (\<forall>e \<in> set (tFundingEvents d). fe_id e < seqFundingEvents d \<and> (\<forall>i. fe_pool_id e = Some i \<longrightarrow> i \<in> po_id ` set (tPools d)))"

definition funding_wf :: "db \<Rightarrow> bool" where
  "funding_wf d \<longleftrightarrow> account_hosts_wf d \<and> pool_hosts_wf d \<and> attachments_wf d \<and> events_wf d \<and> distinct (map po_pool_key (tPools d))"

lemmas funding_defs = funding_wf_def account_hosts_wf_def pool_hosts_wf_def attachments_wf_def events_wf_def

section \<open>Joins\<close>

text \<open>A join along two foreign keys.\<close>

lemma find_known:
  assumes "v \<in> g ` set ys"
  obtains y where "find (\<lambda>y. g y = v) ys = Some y" "y \<in> set ys" "g y = v"
proof (cases "find (\<lambda>y. g y = v) ys")
  case None
  with assms show ?thesis by (auto simp: find_None_iff)
next
  case (Some y)
  then show ?thesis using that by (auto dest: find_SomeD)
qed

lemma join2_eq:
  assumes dist: "distinct (map g ys)" "distinct (map h zs)" and known: "\<forall>x \<in> set xs. f x \<in> g ` set ys" "\<forall>y \<in> set ys. r y \<in> h ` set zs"
  shows "concat (map (\<lambda>x. concat (map (\<lambda>y. map (\<lambda>z. (x, y, z)) (filter (\<lambda>z. h z = r y) zs)) (filter (\<lambda>y. g y = f x) ys))) xs) =
    map (\<lambda>x. (x, the (find (\<lambda>y. g y = f x) ys), the (find (\<lambda>z. h z = r (the (find (\<lambda>y. g y = f x) ys))) zs))) xs"
proof -
  have one: "concat (map (\<lambda>y. map (\<lambda>z. (x, y, z)) (filter (\<lambda>z. h z = r y) zs)) (filter (\<lambda>y. g y = f x) ys)) =
      [(x, the (find (\<lambda>y. g y = f x) ys), the (find (\<lambda>z. h z = r (the (find (\<lambda>y. g y = f x) ys))) zs))]" if x: "x \<in> set xs" for x
  proof -
    obtain y where y: "find (\<lambda>y. g y = f x) ys = Some y" "y \<in> set ys"
      using known(1)[rule_format, OF x] by (rule find_known)
    obtain z where "find (\<lambda>z. h z = r y) zs = Some z"
      using known(2)[rule_format, OF y(2)] by (rule find_known)
    with y show ?thesis by (simp add: filter_find_eq[OF dist(1)] filter_find_eq[OF dist(2)])
  qed
  have "map (\<lambda>x. concat (map (\<lambda>y. map (\<lambda>z. (x, y, z)) (filter (\<lambda>z. h z = r y) zs)) (filter (\<lambda>y. g y = f x) ys))) xs =
      map (\<lambda>x. [(x, the (find (\<lambda>y. g y = f x) ys), the (find (\<lambda>z. h z = r (the (find (\<lambda>y. g y = f x) ys))) zs))]) xs"
    by (rule map_cong[OF refl]) (rule one)
  then show ?thesis by (simp only: concat_map_singleton)
qed

definition key_of_id :: "db \<Rightarrow> int \<Rightarrow> connect_key_row" where
  "key_of_id d i = the (key_by_id d i)"

definition quota_of_id :: "db \<Rightarrow> int \<Rightarrow> quota_row" where
  "quota_of_id d i = the (quota_by_name d (ck_quota_name (key_of_id d i)))"

lemma accounts_join_eq:
  "accounts_wf d \<Longrightarrow> accounts_join d = map (\<lambda>a. (a, key_of_id d (ac_connect_key_id a), quota_of_id d (ac_connect_key_id a))) (tAccounts d)"
  unfolding accounts_join_def key_of_id_def quota_of_id_def key_by_id_def quota_by_name_def
  by (rule join2_eq) (auto simp: accounts_wf_def key_wf_def account_wf_def)

lemma pools_join_eq:
  "accounts_wf d \<Longrightarrow> pools_join d = map (\<lambda>p. (p, key_of_id d (po_connect_key_id p), quota_of_id d (po_connect_key_id p))) (tPools d)"
  unfolding pools_join_def key_of_id_def quota_of_id_def key_by_id_def quota_by_name_def
  by (rule join2_eq) (auto simp: accounts_wf_def key_wf_def pools_wf_def)

section \<open>Batches of due rows\<close>

text \<open>
  Both queries for work ask for rows that were never funded first and fill the rest of the batch
  with rows whose time has come. The batch holds distinct rows that are due, and all of them when
  there are at most \<open>n\<close>.
\<close>

definition batch_of :: "'k set \<Rightarrow> nat \<Rightarrow> 'k list \<Rightarrow> bool" where
  "batch_of due n ks \<longleftrightarrow> distinct ks \<and> set ks \<subseteq> due \<and> length ks = min n (card due)"

lemma batch_of_all: "batch_of due n ks \<Longrightarrow> finite due \<Longrightarrow> length ks < n \<Longrightarrow> set ks = due"
  by (metis batch_of_def card_subset_eq distinct_card linorder_neqE_nat min.strict_order_iff min_def order_less_irrefl)

lemma take_perm_distinct:
  assumes "mset ys = mset xs" "distinct (map f xs)"
  shows "distinct (map f (take n ys)) \<and> f ` set (take n ys) \<subseteq> f ` set xs"
proof -
  have "mset (map f ys) = mset (map f xs)" using assms(1) by (metis mset_map)
  then have "distinct (map f ys)" using assms(2) by (metis mset_eq_imp_distinct_iff)
  then have "distinct (map f (take n ys))" by (metis distinct_take take_map)
  moreover have "set (take n ys) \<subseteq> set xs" using assms(1) by (metis mset_eq_setD set_take_subset)
  ultimately show ?thesis by auto
qed

lemma batch_of_two:
  assumes perm: "mset (scan N) = mset N" "mset ys = mset X" and dist: "distinct (map f N @ map g X)"
    and due: "set (map f N) \<union> set (map g X) = due"
    and res: "ks = (if length (take n (scan N)) \<ge> n then map f (take n (scan N)) else map f (take n (scan N)) @ map g (take (n - length (take n (scan N))) ys))"
  shows "batch_of due n ks"
proof -
  have len: "length (scan N) = length N" "length ys = length X" using perm by (metis size_mset)+
  have card: "card due = length N + length X" using dist due by (metis distinct_card length_append length_map set_append)
  have D: "distinct (map f N)" "distinct (map g X)" and disj: "f ` set N \<inter> g ` set X = {}" using dist by auto
  note A = take_perm_distinct[OF perm(1) D(1), of n] and B = take_perm_distinct[OF perm(2) D(2), of "n - length (take n (scan N))"]
  show ?thesis
  proof (cases "length (take n (scan N)) \<ge> n")
    case True
    with A due card len show ?thesis by (auto simp: batch_of_def res)
  next
    case False
    then have all: "take n (scan N) = scan N" "length N < n" using len by auto
    have "f ` set (take n (scan N)) \<inter> g ` set (take (n - length (take n (scan N))) ys) = {}" using A B disj by blast
    then have "distinct ks" using A B False by (simp add: res)
    moreover have "set ks \<subseteq> due" using A B due False by (auto simp: res)
    moreover have "length ks = min n (card due)" using False all len card by (auto simp: res)
    ultimately show ?thesis by (simp add: batch_of_def)
  qed
qed

lemma find_key_unique:
  assumes "distinct (map key xs)" "x \<in> set xs"
  shows "find (\<lambda>y. key y = key x) xs = Some x"
  using assms by (induction xs) (auto simp: image_iff)

lemma find_pair_unique:
  assumes "distinct (map (\<lambda>r. (f r, g r)) xs)" "x \<in> set xs"
  shows "find (\<lambda>r. f r = f x \<and> g r = g x) xs = Some x"
  using find_key_unique[OF assms] by simp

text \<open>
  Subjects (accounts or pools) with one row per host on which they were funded: the subjects without
  a row on the host and the rows on the host whose time has come are disjoint, and together they are
  the subjects that are due.
\<close>

lemma queue_split:
  fixes sid :: "'s \<Rightarrow> int" and rid :: "'r \<Rightarrow> int" and rhost :: "'r \<Rightarrow> int" and rnext :: "'r \<Rightarrow> gotime"
    and h :: int and elig :: "'s \<Rightarrow> bool" and now :: gotime
  assumes ids: "distinct (map sid subjects)" and keys: "distinct (map skey subjects)" and rows: "distinct (map (\<lambda>r. (rid r, rhost r)) rows)"
    and known: "\<forall>r \<in> set rows. rid r \<in> sid ` set subjects"
  defines "row_of \<equiv> \<lambda>s. find (\<lambda>r. rid r = sid s \<and> rhost r = h) rows" and "subj \<equiv> \<lambda>r. the (find (\<lambda>s. sid s = rid r) subjects)"
  defines "N \<equiv> filter (\<lambda>s. row_of s = None \<and> elig s) subjects" and "X \<equiv> filter (\<lambda>r. rhost r = h \<and> rnext r \<le> now \<and> elig (subj r)) rows"
  shows "distinct (map skey N @ map (skey \<circ> subj) X)"
    and "set (map skey N) \<union> set (map (skey \<circ> subj) X) = skey ` {s \<in> set subjects. elig s \<and> (case row_of s of None \<Rightarrow> True | Some r \<Rightarrow> rnext r \<le> now)}"
proof -
  have subj: "subj r \<in> set subjects \<and> sid (subj r) = rid r" if "r \<in> set rows" for r
    using find_known[OF known[rule_format, OF that]] by (metis option.sel subj_def)
  have row_of_subj: "row_of (subj r) = Some r" if "r \<in> set X" for r
    using find_pair_unique[OF rows, of r] that subj[of r] by (auto simp: X_def row_of_def)
  have subj_of: "subj r = s" if "row_of s = Some r" "s \<in> set subjects" for r s
    using that find_key_unique[OF ids that(2)] by (auto simp: row_of_def subj_def dest: find_SomeD)
  have inj: "inj_on skey (set subjects)" using keys by (simp add: distinct_map)
  have "inj_on subj (set X)" using row_of_subj by (metis inj_onI option.inject)
  moreover have "distinct X" using rows by (simp add: X_def distinct_map)
  moreover have "subj ` set X \<subseteq> set subjects" using subj by (auto simp: X_def)
  ultimately have "distinct (map (skey \<circ> subj) X)" by (simp add: distinct_map comp_inj_on inj_on_subset[OF inj])
  moreover have "distinct (map skey N)" unfolding N_def using keys by (rule distinct_map_filter)
  moreover have "skey s \<noteq> skey (subj r)" if "s \<in> set N" "r \<in> set X" for s r
    using that inj subj[of r] row_of_subj[OF that(2)] by (auto simp: N_def X_def inj_on_def)
  ultimately show "distinct (map skey N @ map (skey \<circ> subj) X)" by auto
  have "s \<in> set N \<union> subj ` set X" if "s \<in> set subjects" "elig s" "case row_of s of None \<Rightarrow> True | Some r \<Rightarrow> rnext r \<le> now" for s
  proof (cases "row_of s")
    case None
    with that show ?thesis by (simp add: N_def)
  next
    case (Some r)
    with that subj_of[OF Some] have "r \<in> set X" by (auto simp: X_def row_of_def dest: find_SomeD)
    with subj_of[OF Some that(1)] show ?thesis by auto
  qed
  moreover have "subj r \<in> {s \<in> set subjects. elig s \<and> (case row_of s of None \<Rightarrow> True | Some r \<Rightarrow> rnext r \<le> now)}" if "r \<in> set X" for r
    using that subj[of r] row_of_subj[OF that] by (auto simp: X_def)
  ultimately have "set N \<union> subj ` set X = {s \<in> set subjects. elig s \<and> (case row_of s of None \<Rightarrow> True | Some r \<Rightarrow> rnext r \<le> now)}"
    by (auto simp: N_def)
  then show "set (map skey N) \<union> set (map (skey \<circ> subj) X) = skey ` {s \<in> set subjects. elig s \<and> (case row_of s of None \<Rightarrow> True | Some r \<Rightarrow> rnext r \<le> now)}"
    by (metis image_Un image_comp list.set_map)
qed

text \<open>The join of the rows per host with their subjects.\<close>

lemma join_subjects:
  assumes join: "joined = map row subjects" and fst: "\<And>s. fst (row s) = s" and ids: "distinct (map sid subjects)" and known: "\<forall>r \<in> set rows. rid r \<in> sid ` set subjects"
  shows "concat (map (\<lambda>r. map (\<lambda>y. (r, y)) (filter (\<lambda>y. sid (fst y) = rid r) joined)) rows) =
    map (\<lambda>r. (r, row (the (find (\<lambda>s. sid s = rid r) subjects)))) rows"
proof -
  have "map (\<lambda>y. (r, y)) (filter (\<lambda>y. sid (fst y) = rid r) joined) = [(r, row (the (find (\<lambda>s. sid s = rid r) subjects)))]" if "r \<in> set rows" for r
  proof -
    from known that have "rid r \<in> sid ` set subjects" by blast
    then obtain s where "find (\<lambda>s. sid s = rid r) subjects = Some s" by (rule find_known)
    then show ?thesis using filter_find_eq[OF ids, of "rid r"] by (simp add: join fst filter_map o_def)
  qed
  then have "map (\<lambda>r. map (\<lambda>y. (r, y)) (filter (\<lambda>y. sid (fst y) = rid r) joined)) rows =
      map (\<lambda>r. [(r, row (the (find (\<lambda>s. sid s = rid r) subjects)))]) rows" by simp
  then show ?thesis by (simp only: concat_map_singleton)
qed

text \<open>An account is due on a host when it is active, uses the quota, and was never funded there or its time has come.\<close>

definition due_account :: "gotime \<Rightarrow> int \<Rightarrow> string \<Rightarrow> gotime \<Rightarrow> db \<Rightarrow> account_row \<Rightarrow> bool" where
  "due_account now hostID quotaName threshold d a \<longleftrightarrow>
     (account_active threshold a \<and> ck_quota_name (key_of_id d (ac_connect_key_id a)) = quotaName) \<and>
     (case account_host_of d (ac_id a) hostID of None \<Rightarrow> True | Some r \<Rightarrow> ah_next_fund r \<le> now)"

definition due_accounts :: "gotime \<Rightarrow> int \<Rightarrow> string \<Rightarrow> gotime \<Rightarrow> db \<Rightarrow> account_key set" where
  "due_accounts now hostID quotaName threshold d = ac_public_key ` {a \<in> set (tAccounts d). due_account now hostID quotaName threshold d a}"

lemma account_hosts_join_eq:
  assumes "accounts_wf d" "account_hosts_wf d"
  shows "account_hosts_join d = map (\<lambda>r. (r, (\<lambda>a. (a, key_of_id d (ac_connect_key_id a), quota_of_id d (ac_connect_key_id a)))
    (the (find (\<lambda>a. ac_id a = ah_account_id r) (tAccounts d))))) (tAccountHosts d)"
  unfolding account_hosts_join_def case_prod_beta
  by (rule join_subjects[OF accounts_join_eq[OF assms(1)]]) (use assms in \<open>auto simp: accounts_wf_def account_hosts_wf_def\<close>)

lemma HostAccountsForFunding_batch:
  assumes wf: "accounts_wf d" "account_hosts_wf d" and perm: "\<And>xs. mset (scan xs) = mset xs" "\<And>xs. mset (scan' xs) = mset xs"
    and host: "host_id_of d hk = Some hostID" and limit: "0 < limit"
  shows "\<exists>accs. HostAccountsForFunding now scan scan' hk quotaName threshold limit d = Inr accs \<and>
    batch_of (due_accounts now hostID quotaName threshold d) (nat limit) (map haAccountKey accs)"
proof -
  define elig where "elig = (\<lambda>a :: account_row. account_active threshold a \<and> ck_quota_name (key_of_id d (ac_connect_key_id a)) = quotaName)"
  define subj where "subj = (\<lambda>r :: account_host_row. the (find (\<lambda>a. ac_id a = ah_account_id r) (tAccounts d)))"
  define N where "N = filter (\<lambda>(a, k, q). account_host_of d (ac_id a) hostID = None \<and> account_active threshold a \<and> ck_quota_name k = quotaName) (accounts_join d)"
  define X where "X = filter (\<lambda>(r, a, k, q). ah_host_id r = hostID \<and> ah_next_fund r \<le> now \<and> account_active threshold a \<and> ck_quota_name k = quotaName) (account_hosts_join d)"
  define f g where "f = (\<lambda>(a :: account_row, k :: connect_key_row, q :: quota_row). ac_public_key a)"
    and "g = (\<lambda>(r :: account_host_row, a :: account_row, k :: connect_key_row, q :: quota_row). ac_public_key a)"
  define srt where "srt = stable_sort (\<lambda>x y. ah_next_fund (fst x) < ah_next_fund (fst y)) (scan' X)"
  have N: "map f N = map ac_public_key (filter (\<lambda>a. account_host_of d (ac_id a) hostID = None \<and> elig a) (tAccounts d))"
    by (simp add: N_def f_def accounts_join_eq[OF wf(1)] filter_map o_def elig_def)
  have X: "map g X = map (ac_public_key \<circ> subj) (filter (\<lambda>r. ah_host_id r = hostID \<and> ah_next_fund r \<le> now \<and> elig (subj r)) (tAccountHosts d))"
    by (simp add: X_def g_def account_hosts_join_eq[OF wf] filter_map o_def elig_def subj_def)
  have ids: "distinct (map ac_id (tAccounts d))" "distinct (map ac_public_key (tAccounts d))"
      "distinct (map (\<lambda>r. (ah_account_id r, ah_host_id r)) (tAccountHosts d))" "\<forall>r \<in> set (tAccountHosts d). ah_account_id r \<in> ac_id ` set (tAccounts d)"
    using wf by (auto simp: accounts_wf_def account_hosts_wf_def ah_key_def[abs_def])
  note split = queue_split[OF ids, where h = hostID and elig = elig and now = now and rnext = ah_next_fund, folded account_host_of_def, folded subj_def]
  have new: "map haAccountKey (newHostAccountsForFunding now scan hk hostID quotaName threshold n d) = map f (take n (scan N))"
    and len: "length (newHostAccountsForFunding now scan hk hostID quotaName threshold n d) = length (take n (scan N))" for n
    by (simp_all add: newHostAccountsForFunding_def N_def f_def o_def case_prod_beta)
  have ex: "map haAccountKey (existingHostAccountsForFunding now scan' hk hostID quotaName threshold n d) = map g (take n srt)" for n
    by (simp add: existingHostAccountsForFunding_def X_def g_def srt_def o_def case_prod_beta)
  define new' where "new' = newHostAccountsForFunding now scan hk hostID quotaName threshold (nat limit) d"
  define accs where "accs = (if length new' \<ge> nat limit then new'
    else new' @ existingHostAccountsForFunding now scan' hk hostID quotaName threshold (nat limit - length new') d)"
  have eq: "HostAccountsForFunding now scan scan' hk quotaName threshold limit d = Inr accs"
    using limit host by (simp add: HostAccountsForFunding_def accs_def new'_def Let_def)
  have accs: "map haAccountKey accs = (if length (take (nat limit) (scan N)) \<ge> nat limit then map f (take (nat limit) (scan N))
        else map f (take (nat limit) (scan N)) @ map g (take (nat limit - length (take (nat limit) (scan N))) srt))"
    by (simp only: accs_def new'_def len new ex map_append if_distrib[of "map haAccountKey"])
  have "batch_of (due_accounts now hostID quotaName threshold d) (nat limit) (map haAccountKey accs)"
    by (rule batch_of_two[where scan = scan and N = N and X = X and ys = srt and f = f and g = g, OF _ _ _ _ accs])
      (use split in \<open>simp_all add: N X srt_def perm due_accounts_def due_account_def elig_def subj_def o_def\<close>)
  with eq show ?thesis by blast
qed

text \<open>
  Claim C35: a batch of accounts for funding holds distinct accounts that are due on the host, and as
  many as the limit allows: all of them when the batch is not full.
\<close>

theorem HostAccountsForFunding_exact:
  assumes "accounts_wf d" "account_hosts_wf d" "\<And>xs. mset (scan xs) = mset xs" "\<And>xs. mset (scan' xs) = mset xs"
    and "host_id_of d hk = Some hostID" "0 < limit"
  shows "\<exists>accs. HostAccountsForFunding now scan scan' hk quotaName threshold limit d = Inr accs \<and>
    batch_of (due_accounts now hostID quotaName threshold d) (nat limit) (map haAccountKey accs)"
  using assms by (rule HostAccountsForFunding_batch)

section \<open>Updates after funding\<close>

lemma upsert_keys:
  assumes "\<And>r x. key (upd r x) = key x"
  shows "map key (upsert key upd r rows) = (if key r \<in> key ` set rows then map key rows else map key rows @ [key r])"
  by (simp add: upsert_def map_update_rows assms)

lemma upsert_distinct:
  assumes "\<And>r x. key (upd r x) = key x"
  shows "distinct (map key (upsert key upd r rows)) = distinct (map key rows)" "key ` set (upsert key upd r rows) = insert (key r) (key ` set rows)"
proof -
  note keys = upsert_keys[of key upd r rows, OF assms]
  show "distinct (map key (upsert key upd r rows)) = distinct (map key rows)" unfolding keys by simp
  have "key ` set (upsert key upd r rows) = set (map key (upsert key upd r rows))" by simp
  also have "\<dots> = insert (key r) (key ` set rows)" unfolding keys by auto
  finally show "key ` set (upsert key upd r rows) = insert (key r) (key ` set rows)" .
qed

lemma upsert_find:
  assumes "\<And>r x. key (upd r x) = key x"
  shows "find (\<lambda>x. key x = k) (upsert key upd r rows) =
    (if k = key r then Some (case find (\<lambda>x. key x = k) rows of None \<Rightarrow> r | Some x \<Rightarrow> upd r x) else find (\<lambda>x. key x = k) rows)"
proof (cases "key r \<in> key ` set rows")
  case True
  have "find (\<lambda>x. key x = k) (update_rows (\<lambda>x. key x = key r) (upd r) rows) =
      map_option (\<lambda>x. if k = key r then upd r x else x) (find (\<lambda>x. key x = k) rows)"
    by (induction rows) (auto simp: assms)
  moreover have "k = key r \<Longrightarrow> find (\<lambda>x. key x = k) rows \<noteq> None" using True by (auto simp: find_None_iff)
  ultimately show ?thesis using True by (auto simp: upsert_def option.map_id0[unfolded id_def])
next
  case False
  then have "find (\<lambda>x. key x = key r) rows = None" by (auto simp: find_None_iff) (metis imageI)
  moreover have "find P (xs @ [y]) = (case find P xs of None \<Rightarrow> if P y then Some y else None | Some x \<Rightarrow> Some x)" for P :: "'a \<Rightarrow> bool" and xs y
    by (induction xs) auto
  ultimately show ?thesis using False by (auto simp: upsert_def split: option.splits)
qed

lemma upsert_fold_keys:
  assumes "\<And>r x. key (upd r x) = key x"
  shows "distinct (map key (fold (upsert key upd) new rows)) = distinct (map key rows)"
    and "key ` set (fold (upsert key upd) new rows) = key ` set new \<union> key ` set rows"
  by (induction new arbitrary: rows) (auto simp: upsert_distinct[of key upd, OF assms])

lemma upsert_fold_other:
  assumes "\<And>r x. key (upd r x) = key x" "k \<notin> key ` set new"
  shows "find (\<lambda>x. key x = k) (fold (upsert key upd) new rows) = find (\<lambda>x. key x = k) rows"
  using assms(2) by (induction new arbitrary: rows) (auto simp: upsert_find[of key upd, OF assms(1)])

lemma upsert_fold_find:
  assumes "\<And>r x. key (upd r x) = key x" "distinct (map key new)" "r \<in> set new"
  shows "find (\<lambda>x. key x = key r) (fold (upsert key upd) new rows) = Some (case find (\<lambda>x. key x = key r) rows of None \<Rightarrow> r | Some x \<Rightarrow> upd r x)"
  using assms(2,3)
proof (induction new arbitrary: rows)
  case (Cons n ns)
  show ?case
  proof (cases "r = n")
    case True
    with Cons.prems(1) show ?thesis unfolding True
      by (simp add: upsert_fold_other[of key upd, OF assms(1)] upsert_find[of key upd, OF assms(1)])
  next
    case False
    with Cons have "r \<in> set ns" "key n \<noteq> key r" by (auto simp: image_iff)
    with Cons show ?thesis by (simp add: upsert_find[of key upd, OF assms(1)])
  qed
qed simp

lemma account_host_of_key: "account_host_of d i h = find (\<lambda>r. ah_key r = (i, h)) (tAccountHosts d)"
  by (simp add: account_host_of_def ah_key_def)

lemma pool_host_of_key: "pool_host_of d i h = find (\<lambda>r. ph_key r = (i, h)) (tPoolHosts d)"
  by (simp add: pool_host_of_def ph_key_def)

text \<open>What a successful update does to the table.\<close>

lemma UpdateHostAccounts_rows:
  assumes "UpdateHostAccounts C accs d = Inr (x, d')" "accs \<noteq> []"
  obtains upd where "\<And>r x. ah_key (upd r x) = ah_key x" "\<And>r x. ah_next_fund (upd r x) = ah_next_fund r" "\<And>r x. ah_failed_funds (upd r x) = ah_failed_funds r"
    and "distinct (map ah_key (account_host_rows accs d))" "d' = d\<lparr>tAccountHosts := fold (upsert ah_key upd) (account_host_rows accs d) (tAccountHosts d)\<rparr>"
  using assms by (intro that[of "\<lambda>new old. old\<lparr>ah_failed_funds := ah_failed_funds new, ah_next_fund := ah_next_fund new\<rparr>"])
    (auto simp: UpdateHostAccounts_def upsert_all_def rbind_eq_Inr ah_key_def split: if_splits)

lemma UpdateHostPools_rows:
  assumes "UpdateHostPools C pools d = Inr (x, d')" "pools \<noteq> []"
  obtains upd where "\<And>r x. ph_key (upd r x) = ph_key x" "\<And>r x. ph_next_fund (upd r x) = ph_next_fund r" "\<And>r x. ph_failed_funds (upd r x) = ph_failed_funds r"
    and "distinct (map ph_key (pool_host_rows pools d))" "d' = d\<lparr>tPoolHosts := fold (upsert ph_key upd) (pool_host_rows pools d) (tPoolHosts d)\<rparr>"
  using assms by (intro that[of "\<lambda>new old. old\<lparr>ph_failed_funds := ph_failed_funds new, ph_next_fund := ph_next_fund new\<rparr>"])
    (auto simp: UpdateHostPools_def upsert_all_def rbind_eq_Inr ph_key_def split: if_splits)

lemma account_host_rows_known: "ah_key ` set (account_host_rows accs d) \<subseteq> ac_id ` set (tAccounts d) \<times> h_id ` set (tHosts d)"
  by (auto simp: account_host_rows_def ah_key_def)

lemma pool_host_rows_known: "ph_key ` set (pool_host_rows pools d) \<subseteq> po_id ` set (tPools d) \<times> h_id ` set (tHosts d)"
  by (auto simp: pool_host_rows_def ph_key_def)

text \<open>The invariants in terms of the keys of the tables.\<close>

lemma account_hosts_wf_keys:
  "account_hosts_wf d \<longleftrightarrow> distinct (map ah_key (tAccountHosts d)) \<and> ah_key ` set (tAccountHosts d) \<subseteq> ac_id ` set (tAccounts d) \<times> h_id ` set (tHosts d)"
  by (auto simp: account_hosts_wf_def ah_key_def)

lemma pool_hosts_wf_keys:
  "pool_hosts_wf d \<longleftrightarrow> distinct (map ph_key (tPoolHosts d)) \<and> ph_key ` set (tPoolHosts d) \<subseteq> po_id ` set (tPools d) \<times> h_id ` set (tHosts d)"
  by (auto simp: pool_hosts_wf_def ph_key_def)

lemma UpdateHostAccounts_wf:
  assumes "account_hosts_wf d" "UpdateHostAccounts C accs d = Inr (x, d')"
  shows "account_hosts_wf d'"
proof (cases "accs = []")
  case True
  with assms show ?thesis by (simp add: UpdateHostAccounts_def)
next
  case False
  with assms(2) obtain upd where upd: "\<And>r x. ah_key (upd r x) = ah_key x"
    and d': "d' = d\<lparr>tAccountHosts := fold (upsert ah_key upd) (account_host_rows accs d) (tAccountHosts d)\<rparr>"
    by (rule UpdateHostAccounts_rows) blast
  show ?thesis using assms(1) account_host_rows_known[of accs d]
    by (simp add: account_hosts_wf_keys d' upsert_fold_keys[of ah_key upd, OF upd])
qed

lemma UpdateHostPools_wf:
  assumes "pool_hosts_wf d" "UpdateHostPools C pools d = Inr (x, d')"
  shows "pool_hosts_wf d' \<and> ph_key ` set (tPoolHosts d) \<subseteq> ph_key ` set (tPoolHosts d')"
proof (cases "pools = []")
  case True
  with assms show ?thesis by (simp add: UpdateHostPools_def)
next
  case False
  with assms(2) obtain upd where upd: "\<And>r x. ph_key (upd r x) = ph_key x"
    and d': "d' = d\<lparr>tPoolHosts := fold (upsert ph_key upd) (pool_host_rows pools d) (tPoolHosts d)\<rparr>"
    by (rule UpdateHostPools_rows) blast
  show ?thesis using assms(1) pool_host_rows_known[of pools d]
    by (simp add: pool_hosts_wf_keys d' upsert_fold_keys[of ph_key upd, OF upd])
qed

text \<open>
  Claim C36: an account whose funding was recorded is not returned for funding on that host before its
  next funding time.
\<close>

theorem funded_accounts_wait:
  assumes wf: "accounts_wf d" "account_hosts_wf d"
    and upd: "UpdateHostAccounts C accs d = Inr (x, d')" and v: "v \<in> set accs" "now < haNextFund v"
    and perm: "\<And>xs. mset (scan xs) = mset xs" "\<And>xs. mset (scan' xs) = mset xs"
    and res: "HostAccountsForFunding now scan scan' (haHostKey v) quotaName threshold limit d' = Inr res"
  shows "haAccountKey v \<notin> haAccountKey ` set res"
proof
  assume ret: "haAccountKey v \<in> haAccountKey ` set res"
  then have pos: "0 < limit" using res by (auto simp: HostAccountsForFunding_def split: if_splits)
  with res obtain hostID where host: "host_id_of d' (haHostKey v) = Some hostID" by (auto simp: HostAccountsForFunding_def split: option.splits)
  from v(1) have "accs \<noteq> []" by auto
  with upd obtain f where f: "\<And>r x. ah_key (f r x) = ah_key x" "\<And>r x. ah_next_fund (f r x) = ah_next_fund r"
    and dist: "distinct (map ah_key (account_host_rows accs d))"
    and d': "d' = d\<lparr>tAccountHosts := fold (upsert ah_key f) (account_host_rows accs d) (tAccountHosts d)\<rparr>"
    by (rule UpdateHostAccounts_rows) blast
  have "accounts_wf d'" using wf(1) accounts_wf_frame[of d d'] by (simp add: d' same_accounts_def)
  from HostAccountsForFunding_batch[OF this UpdateHostAccounts_wf[OF wf(2) upd] perm host pos, of now quotaName threshold] res
  have "haAccountKey ` set res \<subseteq> due_accounts now hostID quotaName threshold d'" by (auto simp: batch_of_def)
  with ret obtain a where a: "a \<in> set (tAccounts d)" "ac_public_key a = haAccountKey v" "due_account now hostID quotaName threshold d' a"
    by (force simp: due_accounts_def d')
  from host obtain h where h: "h \<in> set (tHosts d)" "h_public_key h = haHostKey v" "h_id h = hostID"
    by (auto simp: d' host_id_of_def dest: find_SomeD)
  define r where "r = \<lparr>ah_account_id = ac_id a, ah_host_id = hostID, ah_next_fund = haNextFund v, ah_failed_funds = haConsecutiveFailedFunds v\<rparr>"
  have "r \<in> set (account_host_rows accs d)" using v(1) a(1,2) h by (auto simp: account_host_rows_def r_def)
  from upsert_fold_find[of ah_key f, OF f(1) dist this, of "tAccountHosts d"]
  obtain r' where "account_host_of d' (ac_id a) hostID = Some r'" "ah_next_fund r' = haNextFund v"
    by (simp add: d' account_host_of_key r_def ah_key_def f(2) split: option.splits)
  with a(3) v(2) show False by (simp add: due_account_def)
qed

section \<open>Attaching pools\<close>

lemma distinct_concat_map:
  assumes "distinct xs" "\<And>x. x \<in> set xs \<Longrightarrow> distinct (f x)" "\<And>x y. x \<in> set xs \<Longrightarrow> y \<in> set xs \<Longrightarrow> x \<noteq> y \<Longrightarrow> set (f x) \<inter> set (f y) = {}"
  shows "distinct (concat (map f xs))"
  using assms
proof (induction xs)
  case (Cons x xs)
  then have "set (f x) \<inter> set (f y) = {}" if "y \<in> set xs" for y using that by (metis distinct.simps(2) list.set_intros)
  with Cons show ?case by auto
qed simp

lemma length_filter_notin:
  assumes "distinct xs" "distinct ys" "set ys \<subseteq> set xs"
  shows "length (filter (\<lambda>x. x \<notin> set ys) xs) = length xs - length ys"
proof -
  have "length (filter (\<lambda>x. x \<notin> set ys) xs) = card (set xs - set ys)"
    using assms(1) by (metis distinct_card distinct_filter set_filter set_diff_eq)
  then show ?thesis using assms by (simp add: card_Diff_subset distinct_card)
qed

lemma fold_add_attachment:
  "set (fold add_attachment rows xs) = set rows \<union> set xs" "distinct (fold add_attachment rows xs) = distinct xs"
  by (induction rows arbitrary: xs) (auto simp: add_attachment_def)

definition attachment :: "int \<Rightarrow> account_row \<times> pool_row \<Rightarrow> pool_attachment_row" where
  "attachment hostID x = \<lparr>pa_pool_id = po_id (snd x), pa_host_id = hostID, pa_account_id = ac_id (fst x)\<rparr>"

definition pool_of_id :: "db \<Rightarrow> int \<Rightarrow> pool_row" where
  "pool_of_id d i = the (find (\<lambda>p. po_id p = i) (tPools d))"

lemma pool_of_id:
  assumes "pools_wf d" "i \<in> po_id ` set (tPools d)"
  shows "pool_of_id d i \<in> set (tPools d)" "po_id (pool_of_id d i) = i" "filter (\<lambda>p. po_id p = i) (tPools d) = [pool_of_id d i]"
proof -
  from assms(2) obtain p where p: "find (\<lambda>p. po_id p = i) (tPools d) = Some p" "p \<in> set (tPools d)" "po_id p = i" by (rule find_known)
  then show "pool_of_id d i \<in> set (tPools d)" "po_id (pool_of_id d i) = i" by (auto simp: pool_of_id_def)
  from assms(1) p(1) show "filter (\<lambda>p. po_id p = i) (tPools d) = [pool_of_id d i]"
    using filter_find_eq[of po_id "tPools d" i] by (simp add: pools_wf_def pool_of_id_def)
qed

lemma host_row_of_key:
  assumes "distinct (map h_id (tHosts d))" "distinct (map h_public_key (tHosts d))" "host_id_of d hk = Some hostID"
  obtains h where "h \<in> set (tHosts d)" "h_id h = hostID" "filter (\<lambda>h. h_public_key h = hk) (tHosts d) = [h]"
    and "\<And>i. (\<exists>h \<in> set (tHosts d). h_id h = i \<and> h_public_key h = hk) \<longleftrightarrow> i = hostID"
proof -
  from assms(3) obtain h where h: "find (\<lambda>h. h_public_key h = hk) (tHosts d) = Some h" "h_id h = hostID" by (auto simp: host_id_of_def)
  then have "h \<in> set (tHosts d)" "h_public_key h = hk" by (auto dest: find_SomeD)
  with h assms(1,2) show ?thesis
    by (intro that[of h]) (auto simp: filter_find_eq distinct_map inj_on_def)
qed

text \<open>The live accounts of the pool that are not attached on the host.\<close>

definition unattached :: "db \<Rightarrow> int \<Rightarrow> int \<Rightarrow> (account_row \<times> pool_row) list" where
  "unattached d hostID poolID =
     map (\<lambda>a. (a, pool_of_id d poolID)) (filter (\<lambda>a. live_of (po_connect_key_id (pool_of_id d poolID)) a \<and>
       attachment hostID (a, pool_of_id d poolID) \<notin> set (tPoolAttachments d)) (tAccounts d))"

lemma pending_rows_eq:
  assumes wf: "accounts_wf d" "pool_hosts_wf d" "distinct (map h_id (tHosts d))" "distinct (map h_public_key (tHosts d))" and host: "host_id_of d hk = Some hostID"
  shows "pending_rows hk d = concat (map (\<lambda>r. unattached d hostID (ph_pool_id r)) (filter (\<lambda>r. ph_host_id r = hostID \<and> ph_failed_funds r = 0) (tPoolHosts d)))"
proof -
  from host_row_of_key[OF wf(3,4) host] have iff: "(\<exists>h \<in> set (tHosts d). h_id h = i \<and> h_public_key h = hk) \<longleftrightarrow> i = hostID" for i by metis
  have pools: "pools_wf d" using wf(1) by (simp add: accounts_wf_def)
  have keys: "\<exists>k. filter (\<lambda>k. ck_id k = po_connect_key_id p) (tConnectKeys d) = [k] \<and> ck_id k = po_connect_key_id p" if "p \<in> set (tPools d)" for p
  proof -
    have "po_connect_key_id p \<in> ck_id ` set (tConnectKeys d)" using pools that by (auto simp: pools_wf_def)
    then obtain k where "find (\<lambda>k. ck_id k = po_connect_key_id p) (tConnectKeys d) = Some k" "ck_id k = po_connect_key_id p" by (rule find_known)
    with wf(1) show ?thesis using filter_find_eq[of ck_id "tConnectKeys d"] by (auto simp: accounts_wf_def)
  qed
  have one: "concat (map (\<lambda>p. concat (map (\<lambda>k. map (\<lambda>a. (a, p)) (filter (\<lambda>a. ac_connect_key_id a = ck_id k \<and> ac_deleted_at a = None \<and>
        \<lparr>pa_pool_id = po_id p, pa_host_id = ph_host_id r, pa_account_id = ac_id a\<rparr> \<notin> set (tPoolAttachments d)) (tAccounts d)))
       (filter (\<lambda>k. ck_id k = po_connect_key_id p) (tConnectKeys d)))) (filter (\<lambda>p. po_id p = ph_pool_id r) (tPools d))) = unattached d hostID (ph_pool_id r)"
    if "r \<in> set (tPoolHosts d)" "ph_host_id r = hostID" for r
  proof -
    have "ph_pool_id r \<in> po_id ` set (tPools d)" using wf(2) that by (auto simp: pool_hosts_wf_def)
    note p = pool_of_id[OF pools this]
    obtain k where "filter (\<lambda>k. ck_id k = po_connect_key_id (pool_of_id d (ph_pool_id r))) (tConnectKeys d) = [k]"
        "ck_id k = po_connect_key_id (pool_of_id d (ph_pool_id r))" using keys[OF p(1)] by auto
    then show ?thesis using that(2) by (simp add: p(3) unattached_def live_of_def attachment_def conj_assoc)
  qed
  show ?thesis unfolding pending_rows_def iff by (intro arg_cong[where f = concat] map_cong[OF refl] one) auto
qed

text \<open>What the tables of hosts, accounts and pools have to satisfy.\<close>

definition pooled_wf :: "db \<Rightarrow> bool" where
  "pooled_wf d \<longleftrightarrow> accounts_wf d \<and> funding_wf d \<and> distinct (map h_id (tHosts d)) \<and> distinct (map h_public_key (tHosts d))"

lemma pooled_wfD:
  assumes "pooled_wf d"
  shows "accounts_wf d" "funding_wf d" "pool_hosts_wf d" "account_hosts_wf d" "attachments_wf d" "events_wf d" "pools_wf d"
    "distinct (map h_id (tHosts d))" "distinct (map h_public_key (tHosts d))" "distinct (map po_pool_key (tPools d))"
    "distinct (map ac_id (tAccounts d))" "distinct (map ac_public_key (tAccounts d))"
  using assms by (auto simp: pooled_wf_def funding_wf_def accounts_wf_def)

lemma unattached_distinct: "distinct (map ac_id (tAccounts d)) \<Longrightarrow> distinct (unattached d hostID i)"
  unfolding unattached_def by (subst distinct_map) (auto simp: inj_on_def distinct_map)

lemma pending_rows_props:
  assumes wf: "pooled_wf d" and host: "host_id_of d hk = Some hostID"
  shows "distinct (pending_rows hk d)"
    and "(a, p) \<in> set (pending_rows hk d) \<longleftrightarrow> a \<in> set (tAccounts d) \<and> p \<in> set (tPools d) \<and> live_of (po_connect_key_id p) a \<and>
      attachment hostID (a, p) \<notin> set (tPoolAttachments d) \<and> (\<exists>r \<in> set (tPoolHosts d). ph_key r = (po_id p, hostID) \<and> ph_failed_funds r = 0)"
proof -
  note w = pooled_wfD[OF wf] and eq = pending_rows_eq[OF pooled_wfD(1,3,8,9)[OF wf] host]
  have ids: "ph_pool_id r \<in> po_id ` set (tPools d)" if "r \<in> set (tPoolHosts d)" for r using w(3) that by (auto simp: pool_hosts_wf_def)
  have "inj_on ph_key (set (tPoolHosts d))" "distinct (tPoolHosts d)" using w(3) by (auto simp: pool_hosts_wf_def distinct_map)
  then show "distinct (pending_rows hk d)" unfolding eq
  proof (intro distinct_concat_map)
    fix r s
    assume *: "r \<in> set (filter (\<lambda>r. ph_host_id r = hostID \<and> ph_failed_funds r = 0) (tPoolHosts d))"
      "s \<in> set (filter (\<lambda>r. ph_host_id r = hostID \<and> ph_failed_funds r = 0) (tPoolHosts d))" "r \<noteq> s" and "inj_on ph_key (set (tPoolHosts d))"
    then have "ph_pool_id r \<noteq> ph_pool_id s" by (auto simp: inj_on_def ph_key_def)
    then have "pool_of_id d (ph_pool_id r) \<noteq> pool_of_id d (ph_pool_id s)" using * ids[of r] ids[of s] pool_of_id(2)[OF w(7)] by (metis (no_types, lifting) mem_Collect_eq set_filter)
    then show "set (unattached d hostID (ph_pool_id r)) \<inter> set (unattached d hostID (ph_pool_id s)) = {}" by (auto simp: unattached_def)
  qed (auto intro: unattached_distinct[OF w(11)])
  have "(\<exists>r \<in> set (tPoolHosts d). ph_host_id r = hostID \<and> ph_failed_funds r = 0 \<and> p = pool_of_id d (ph_pool_id r)) \<longleftrightarrow>
      p \<in> set (tPools d) \<and> (\<exists>r \<in> set (tPoolHosts d). ph_key r = (po_id p, hostID) \<and> ph_failed_funds r = 0)"
    using ids pool_of_id[OF w(7)] w(7) find_key_unique[of po_id "tPools d" p]
    by (auto simp: ph_key_def pools_wf_def pool_of_id_def)
  then show "(a, p) \<in> set (pending_rows hk d) \<longleftrightarrow> a \<in> set (tAccounts d) \<and> p \<in> set (tPools d) \<and> live_of (po_connect_key_id p) a \<and>
      attachment hostID (a, p) \<notin> set (tPoolAttachments d) \<and> (\<exists>r \<in> set (tPoolHosts d). ph_key r = (po_id p, hostID) \<and> ph_failed_funds r = 0)"
    unfolding eq by (auto simp: unattached_def)
qed

lemma attachment_inj:
  assumes "pooled_wf d" "host_id_of d hk = Some hostID" "x \<in> set (pending_rows hk d)" "y \<in> set (pending_rows hk d)" "attachment hostID x = attachment hostID y"
  shows "x = y"
proof -
  obtain a p b q where xy: "x = (a, p)" "y = (b, q)" by fastforce
  from assms(3,4) have "a \<in> set (tAccounts d)" "b \<in> set (tAccounts d)" "p \<in> set (tPools d)" "q \<in> set (tPools d)"
    unfolding xy pending_rows_props(2)[OF assms(1,2)] by auto
  moreover from assms(5) have "ac_id a = ac_id b" "po_id p = po_id q" by (auto simp: xy attachment_def)
  ultimately show ?thesis using pooled_wfD(7,11)[OF assms(1)] by (auto simp: xy pools_wf_def distinct_map inj_on_def)
qed

text \<open>The rows that recording pending attachments inserts.\<close>

lemma attachment_rows_pending:
  assumes wf: "pooled_wf d" and host: "host_id_of d hk = Some hostID" and sub: "set xs \<subseteq> set (pending_rows hk d)"
  shows "attachment_rows hk (map (\<lambda>(a, p). \<lparr>attAccountKey = ac_public_key a, attPoolKey = po_pool_key p\<rparr>) xs) d = map (attachment hostID) xs"
proof -
  note w = pooled_wfD[OF wf]
  obtain h where h: "h_id h = hostID" "filter (\<lambda>h. h_public_key h = hk) (tHosts d) = [h]" using host_row_of_key[OF w(8,9) host] by metis
  have one: "concat (map (\<lambda>a. concat (map (\<lambda>p. map (\<lambda>h. \<lparr>pa_pool_id = po_id p, pa_host_id = h_id h, pa_account_id = ac_id a\<rparr>) [h])
        (filter (\<lambda>p. po_connect_key_id p = ac_connect_key_id a) (tPools d)))) (filter (\<lambda>a'. ac_public_key a' = ac_public_key a) (tAccounts d))) = [attachment hostID (a, p)]"
    if "(a, p) \<in> set xs" for a p
  proof -
    from that sub have "(a, p) \<in> set (pending_rows hk d)" by auto
    then have a: "a \<in> set (tAccounts d)" "p \<in> set (tPools d)" "ac_connect_key_id a = po_connect_key_id p"
      unfolding pending_rows_props(2)[OF wf host] by (auto simp: live_of_def)
    have "filter (\<lambda>a'. ac_public_key a' = ac_public_key a) (tAccounts d) = [a]"
      using find_key_unique[OF w(12) a(1)] by (simp add: filter_find_eq[OF w(12)])
    moreover have "filter (\<lambda>p'. po_connect_key_id p' = ac_connect_key_id a) (tPools d) = [p]"
      using find_key_unique[of po_connect_key_id "tPools d" p] filter_find_eq[of po_connect_key_id "tPools d"] w(7) a by (simp add: pools_wf_def)
    ultimately show ?thesis by (simp add: attachment_def h(1))
  qed
  have "map (\<lambda>v. concat (map (\<lambda>a. concat (map (\<lambda>p. map (\<lambda>h. \<lparr>pa_pool_id = po_id p, pa_host_id = h_id h, pa_account_id = ac_id a\<rparr>) [h])
        (filter (\<lambda>p. po_connect_key_id p = ac_connect_key_id a) (tPools d)))) (filter (\<lambda>a. ac_public_key a = attAccountKey v) (tAccounts d))))
        (map (\<lambda>(a, p). \<lparr>attAccountKey = ac_public_key a, attPoolKey = po_pool_key p\<rparr>) xs) = map (\<lambda>x. [attachment hostID x]) xs"
    unfolding map_map by (rule map_cong[OF refl]) (use one in \<open>force simp: o_def\<close>)
  then show ?thesis unfolding attachment_rows_def h(2) by (simp only: concat_map_singleton)
qed

text \<open>Recording a batch of pending attachments succeeds and takes exactly this batch off the pending ones.\<close>

lemma attach_progress:
  assumes wf: "pooled_wf d" and perm: "\<And>xs. mset (scan xs) = mset xs" and limit: "0 < limit" "nat limit \<le> MaxAccountBatchSize C"
    and batch: "batch = PendingPoolAttachments scan hk limit d"
  shows "\<exists>T. InsertPoolAttachments C hk batch d = Inr ((), d\<lparr>tPoolAttachments := T\<rparr>) \<and> pooled_wf (d\<lparr>tPoolAttachments := T\<rparr>) \<and>
    set (tPoolAttachments d) \<subseteq> set T \<and> length (pending_rows hk (d\<lparr>tPoolAttachments := T\<rparr>)) = length (pending_rows hk d) - length batch"
proof (cases "host_id_of d hk")
  case None
  then have "pending_rows hk d = []" by (auto simp: pending_rows_def host_id_of_def find_None_iff)
  then have "batch = []" using perm[of "[]"] by (simp add: batch PendingPoolAttachments_def)
  then show ?thesis using wf by (intro exI[of _ "tPoolAttachments d"]) (simp add: InsertPoolAttachments_def)
next
  case (Some hostID)
  note w = pooled_wfD[OF wf] and pend = pending_rows_props[OF wf Some]
  define taken where "taken = take (nat limit) (stable_sort (\<lambda>x y. ac_id (fst x) < ac_id (fst y)) (scan (pending_rows hk d)))"
  have batch': "batch = map (\<lambda>(a, p). \<lparr>attAccountKey = ac_public_key a, attPoolKey = po_pool_key p\<rparr>) taken"
    using limit by (simp add: batch PendingPoolAttachments_def taken_def)
  have taken: "distinct taken" "set taken \<subseteq> set (pending_rows hk d)" "length taken \<le> nat limit"
    using take_perm_distinct[of "stable_sort (\<lambda>x y. ac_id (fst x) < ac_id (fst y)) (scan (pending_rows hk d))" "pending_rows hk d" id] pend(1) perm
    by (auto simp: taken_def)
  have rows: "attachment_rows hk batch d = map (attachment hostID) taken" unfolding batch' by (rule attachment_rows_pending[OF wf Some taken(2)])
  define T where "T = fold add_attachment (map (attachment hostID) taken) (tPoolAttachments d)"
  define d' where "d' = d\<lparr>tPoolAttachments := T\<rparr>"
  have T: "set T = attachment hostID ` set taken \<union> set (tPoolAttachments d)" "distinct T"
    using w(5) by (auto simp: T_def fold_add_attachment attachments_wf_def)
  have known: "(po_id p, hostID) \<in> ph_key ` set (tPoolHosts d) \<and> a \<in> set (tAccounts d)" if "(a, p) \<in> set taken" for a p
    using subsetD[OF taken(2) that] unfolding pend(2) by (metis image_eqI)
  have fk: "pool_host_of d (pa_pool_id r) (pa_host_id r) \<noteq> None" if r: "r \<in> set (attachment_rows hk batch d)" for r
  proof -
    from r rows obtain a p where "(a, p) \<in> set taken" "r = attachment hostID (a, p)" by auto
    with known[of a p] show ?thesis by (auto simp: attachment_def pool_host_of_key find_None_iff)
  qed
  have ok: "InsertPoolAttachments C hk batch d = Inr ((), d')"
  proof (cases "batch = []")
    case True
    then show ?thesis by (simp add: InsertPoolAttachments_def d'_def T_def batch')
  next
    case False
    moreover have "\<not> MaxAccountBatchSize C < length batch" using taken(3) limit by (simp add: batch')
    ultimately show ?thesis using fk by (auto simp: InsertPoolAttachments_def Let_def rows d'_def T_def)
  qed
  have "attachments_wf d'" using w(5) T known by (force simp: attachments_wf_def d'_def attachment_def)
  then have wf': "pooled_wf d'" using wf accounts_wf_frame[of d d']
    by (simp add: pooled_wf_def funding_defs d'_def same_accounts_def)
  have host': "host_id_of d' hk = Some hostID" using Some by (simp add: d'_def host_id_of_def)
  have "x \<in> set (pending_rows hk d') \<longleftrightarrow> x \<in> set (pending_rows hk d) - set taken" for x
  proof -
    obtain a p where x: "x = (a, p)" by fastforce
    have "x \<in> set (pending_rows hk d') \<longleftrightarrow> x \<in> set (pending_rows hk d) \<and> attachment hostID x \<notin> attachment hostID ` set taken"
      unfolding x pend(2) pending_rows_props(2)[OF wf' host'] by (auto simp: d'_def T)
    moreover have "attachment hostID x \<in> attachment hostID ` set taken \<longleftrightarrow> x \<in> set taken" if "x \<in> set (pending_rows hk d)"
      using attachment_inj[OF wf Some that] taken(2) by blast
    ultimately show ?thesis by blast
  qed
  then have "set (pending_rows hk d') = set (pending_rows hk d) - set taken" by blast
  then have "length (pending_rows hk d') = length (pending_rows hk d) - length taken"
    using taken pend(1) pending_rows_props(1)[OF wf' host'] by (metis card_Diff_subset distinct_card finite_set)
  with ok wf' T(1) show ?thesis unfolding d'_def by (intro exI[of _ T]) (auto simp: batch')
qed

text \<open>The pools funded on a host whose sharing account is not attached there.\<close>

definition unshared :: "db \<Rightarrow> int \<Rightarrow> pool_host_row list" where
  "unshared d hostID = filter (\<lambda>r. ph_host_id r = hostID \<and> ph_failed_funds r = 0 \<and> \<not> ph_sharing_attached r) (tPoolHosts d)"

lemma sharing_join_eq:
  assumes wf: "pooled_wf d" and host: "host_id_of d hk = Some hostID"
  shows "concat (map (\<lambda>r. concat (map (\<lambda>p. map (\<lambda>k. (r, p, k)) (filter (\<lambda>k. ck_id k = po_connect_key_id p) (tConnectKeys d)))
      (filter (\<lambda>p. po_id p = ph_pool_id r) (tPools d))))
     (filter (\<lambda>r. (\<exists>h \<in> set (tHosts d). h_id h = ph_host_id r \<and> h_public_key h = hk) \<and> ph_failed_funds r = 0 \<and> \<not> ph_sharing_attached r) (tPoolHosts d))) =
    map (\<lambda>r. (r, pool_of_id d (ph_pool_id r), key_of_id d (po_connect_key_id (pool_of_id d (ph_pool_id r))))) (unshared d hostID)"
proof -
  note w = pooled_wfD[OF wf]
  from host_row_of_key[OF w(8,9) host] have iff: "(\<exists>h \<in> set (tHosts d). h_id h = i \<and> h_public_key h = hk) \<longleftrightarrow> i = hostID" for i by metis
  show ?thesis unfolding iff unshared_def pool_of_id_def key_of_id_def key_by_id_def
    by (rule join2_eq) (use w(1,3,7) in \<open>auto simp: accounts_wf_def pools_wf_def pool_hosts_wf_def\<close>)
qed

definition pool_key_of :: "db \<Rightarrow> pool_host_row \<Rightarrow> private_key" where
  "pool_key_of d r = po_pool_key (pool_of_id d (ph_pool_id r))"

lemma pool_key_of_inj:
  assumes wf: "pooled_wf d" and "r \<in> set (tPoolHosts d)" "s \<in> set (tPoolHosts d)" "pool_key_of d r = pool_key_of d s" "ph_host_id r = ph_host_id s"
  shows "r = s"
proof -
  note w = pooled_wfD[OF wf]
  have "pool_of_id d (ph_pool_id r) \<in> set (tPools d)" "pool_of_id d (ph_pool_id s) \<in> set (tPools d)"
      "po_id (pool_of_id d (ph_pool_id r)) = ph_pool_id r" "po_id (pool_of_id d (ph_pool_id s)) = ph_pool_id s"
    using pool_of_id[OF w(7)] w(3) assms(2,3) by (auto simp: pool_hosts_wf_def)
  with assms(4) w(10) have "ph_pool_id r = ph_pool_id s" by (metis pool_key_of_def distinct_map inj_onD)
  with assms(2,3,5) w(3) show ?thesis by (auto simp: pool_hosts_wf_def distinct_map ph_key_def inj_on_def)
qed

lemma pool_key_marked:
  assumes wf: "pooled_wf d" and "r \<in> set (tPoolHosts d)"
  shows "ph_pool_id r \<in> set (map po_id (filter (\<lambda>p. po_pool_key p \<in> ks) (tPools d))) \<longleftrightarrow> pool_key_of d r \<in> ks"
proof -
  note w = pooled_wfD[OF wf]
  have "pool_of_id d (ph_pool_id r) \<in> set (tPools d)" "po_id (pool_of_id d (ph_pool_id r)) = ph_pool_id r"
    using pool_of_id[OF w(7)] w(3) assms(2) by (auto simp: pool_hosts_wf_def)
  with w(7) show ?thesis by (auto simp: pool_key_of_def pools_wf_def distinct_map inj_on_def image_iff)
qed

text \<open>The columns that attaching a sharing account leaves alone.\<close>

definition fund_columns :: "pool_host_row \<Rightarrow> int \<times> int \<times> int" where
  "fund_columns r = (ph_pool_id r, ph_host_id r, ph_failed_funds r)"

lemma sharing_progress:
  assumes wf: "pooled_wf d" and perm: "\<And>xs. mset (scan xs) = mset xs" and limit: "0 < limit" "nat limit \<le> MaxAccountBatchSize C"
    and host: "host_id_of d hk = Some hostID" and batch: "batch = SharingPoolAttachments K scan hk limit d"
  shows "\<exists>P. MarkSharingPoolsAttached C hk batch d = Inr ((), d\<lparr>tPoolHosts := P\<rparr>) \<and> pooled_wf (d\<lparr>tPoolHosts := P\<rparr>) \<and> map fund_columns P = map fund_columns (tPoolHosts d) \<and>
    length (unshared (d\<lparr>tPoolHosts := P\<rparr>) hostID) = length (unshared d hostID) - length batch"
proof -
  note w = pooled_wfD[OF wf]
  define row where "row = (\<lambda>r :: pool_host_row. (r, pool_of_id d (ph_pool_id r), key_of_id d (po_connect_key_id (pool_of_id d (ph_pool_id r)))))"
  define key where "key = (\<lambda>x :: pool_host_row \<times> pool_row \<times> connect_key_row. po_pool_key (fst (snd x)))"
  define srt where "srt = stable_sort (\<lambda>x y. po_id (fst (snd x)) < po_id (fst (snd y))) (scan (map row (unshared d hostID)))"
  have ks: "map attPoolKey batch = map key (take (nat limit) srt)"
    using limit by (simp add: batch SharingPoolAttachments_def sharing_join_eq[OF wf host] srt_def row_def key_def o_def case_prod_beta)
  have key_row: "key \<circ> row = pool_key_of d" by (simp add: fun_eq_iff key_def row_def pool_key_of_def)
  have dist: "distinct (map (pool_key_of d) (unshared d hostID))"
    using w(3) pool_key_of_inj[OF wf] by (auto simp: distinct_map inj_on_def unshared_def pool_hosts_wf_def)
  have taken: "distinct (map attPoolKey batch)" "set (map attPoolKey batch) \<subseteq> set (map (pool_key_of d) (unshared d hostID))"
    using take_perm_distinct[of srt "map row (unshared d hostID)" key "nat limit"] perm dist
    unfolding ks by (simp_all add: srt_def key_row) (auto simp: key_row[symmetric] image_comp)
  define mark where "mark = (\<lambda>r :: pool_host_row. host_id_of d hk = Some (ph_host_id r) \<and> ph_pool_id r \<in> set (map po_id (filter (\<lambda>p. po_pool_key p \<in> set (map attPoolKey batch)) (tPools d))))"
  define P where "P = update_rows mark (\<lambda>r. r\<lparr>ph_sharing_attached := True\<rparr>) (tPoolHosts d)"
  have "length batch \<le> nat limit" using arg_cong[OF ks, of length] by simp
  moreover have "P = tPoolHosts d" if "batch = []" using that by (simp add: P_def mark_def update_rows_id)
  ultimately have ok: "MarkSharingPoolsAttached C hk batch d = Inr ((), d\<lparr>tPoolHosts := P\<rparr>)"
    using limit by (auto simp: MarkSharingPoolsAttached_def Let_def P_def mark_def)
  have cols: "map fund_columns P = map fund_columns (tPoolHosts d)" unfolding P_def by (rule map_update_rows) (simp add: fund_columns_def)
  have keys: "map ph_key P = map ph_key (tPoolHosts d)" unfolding P_def by (rule map_update_rows) (simp add: ph_key_def)
  then have keys': "ph_key ` set P = ph_key ` set (tPoolHosts d)" by (metis list.set_map)
  have wf': "pooled_wf (d\<lparr>tPoolHosts := P\<rparr>)"
    using wf accounts_wf_frame[of d "d\<lparr>tPoolHosts := P\<rparr>"] keys keys'
    by (simp add: pooled_wf_def same_accounts_def funding_wf_def pool_hosts_wf_keys attachments_wf_def account_hosts_wf_def events_wf_def)
  have "unshared (d\<lparr>tPoolHosts := P\<rparr>) hostID = filter (\<lambda>r. pool_key_of d r \<notin> set (map attPoolKey batch)) (unshared d hostID)"
  proof -
    have "filter Q (update_rows mark (\<lambda>r. r\<lparr>ph_sharing_attached := True\<rparr>) rs) = filter (\<lambda>r. pool_key_of d r \<notin> set (map attPoolKey batch)) (filter Q rs)"
      if "Q = (\<lambda>r. ph_host_id r = hostID \<and> ph_failed_funds r = 0 \<and> \<not> ph_sharing_attached r)" "set rs \<subseteq> set (tPoolHosts d)" for Q rs
      using that(2) pool_key_marked[OF wf] host by (induction rs) (auto simp: that(1) mark_def simp del: set_map)
    then show ?thesis by (simp add: unshared_def P_def)
  qed
  then have "length (unshared (d\<lparr>tPoolHosts := P\<rparr>) hostID) = length (filter (\<lambda>k. k \<notin> set (map attPoolKey batch)) (map (pool_key_of d) (unshared d hostID)))"
    by (simp add: filter_map o_def)
  also have "\<dots> = length (unshared d hostID) - length batch" by (subst length_filter_notin[OF dist taken]) simp
  finally show ?thesis using ok wf' cols by blast
qed

section \<open>Reading funding events page by page\<close>

lemma stable_insert_head: "\<forall>y \<in> set ys. \<not> lt y x \<Longrightarrow> stable_insert lt x ys = x # ys"
  by (cases ys) auto

lemma filter_stable_insert:
  assumes lt: "strict_weak lt" and "sorted_wrt (\<lambda>a b. \<not> lt b a) ys"
  shows "filter P (stable_insert lt x ys) = (if P x then stable_insert lt x (filter P ys) else filter P ys)"
  using assms(2)
proof (induction ys)
  case (Cons y ys)
  show ?case
  proof (cases "lt y x")
    case True
    with Cons show ?thesis by auto
  next
    case False
    then have "\<not> lt z x" if "z \<in> set ys" for z using that Cons.prems lt unfolding strict_weak_def by (metis sorted_wrt.simps(2))
    with False show ?thesis by (auto simp: stable_insert_head)
  qed
qed simp

lemma filter_stable_sort: "strict_weak lt \<Longrightarrow> filter P (stable_sort lt xs) = stable_sort lt (filter P xs)"
  by (induction xs) (auto simp: filter_stable_insert sorted_stable_sort)

lemma event_before_weak: "strict_weak event_before"
  by (auto simp: strict_weak_def event_before_def)

lemma event_before_asym: "event_before r s \<Longrightarrow> \<not> event_before s r"
  by (auto simp: event_before_def)

lemma events_strictly_sorted:
  assumes "distinct (map fe_id xs)"
  shows "sorted_wrt event_before (stable_sort event_before xs)"
proof -
  let ?L = "stable_sort event_before xs"
  have "inj_on fe_id (set xs)" "distinct ?L" using assms by (auto simp: distinct_map)
  moreover have "sorted_wrt (\<lambda>a b. \<not> event_before b a) ?L" by (rule sorted_stable_sort[OF event_before_weak])
  moreover have "event_before x y" if "\<not> event_before y x" "fe_id x \<noteq> fe_id y" for x y using that by (auto simp: event_before_def)
  ultimately have "event_before (?L ! i) (?L ! j)" if "i < j" "j < length ?L" for i j
  proof -
    have "?L ! i \<noteq> ?L ! j" "?L ! i \<in> set xs" "?L ! j \<in> set xs"
      using that \<open>distinct ?L\<close> nth_mem[of i ?L] nth_mem[of j ?L] by (auto simp: nth_eq_iff_index_eq)
    with \<open>inj_on fe_id (set xs)\<close> have "fe_id (?L ! i) \<noteq> fe_id (?L ! j)" by (auto dest: inj_onD)
    moreover have "\<not> event_before (?L ! j) (?L ! i)"
      using that \<open>sorted_wrt (\<lambda>a b. \<not> event_before b a) ?L\<close> by (auto simp: sorted_wrt_iff_nth_less)
    ultimately show ?thesis using \<open>\<And>y x. \<not> event_before y x \<Longrightarrow> fe_id x \<noteq> fe_id y \<Longrightarrow> event_before x y\<close> by blast
  qed
  then show ?thesis by (simp add: sorted_wrt_iff_nth_less)
qed

definition cursor_of :: "funding_event \<Rightarrow> funding_cursor" where
  "cursor_of e = \<lparr>After = feCreatedAt e, CursorID = feID e\<rparr>"

lemma after_cursor_of: "after_cursor (cursor_of (scan_event d r)) s \<longleftrightarrow> event_before r s"
  by (auto simp: after_cursor_def cursor_of_def scan_event_def event_before_def)

lemma after_cursor_trans: "after_cursor c r \<Longrightarrow> event_before r s \<Longrightarrow> after_cursor c s"
  by (auto simp: after_cursor_def event_before_def)

lemma filter_sorted_after:
  assumes "sorted_wrt R xs" "\<And>a b. R a b \<Longrightarrow> \<not> R b a" "n < length xs"
  shows "filter (R (xs ! n)) xs = drop (Suc n) xs"
proof -
  have "xs = take n xs @ xs ! n # drop (Suc n) xs" using assms(3) by (rule id_take_nth_drop)
  moreover have "filter (R (xs ! n)) (take n xs) = []"
    using assms by (auto simp: filter_empty_conv in_set_conv_nth sorted_wrt_iff_nth_less)
  moreover have "filter (R (xs ! n)) (drop (Suc n) xs) = drop (Suc n) xs"
    using assms by (auto simp: filter_id_conv in_set_conv_nth sorted_wrt_iff_nth_less)
  ultimately show ?thesis using assms(2) by (metis append_Nil filter.simps(2) filter_append)
qed

lemma funding_events_page_resume:
  assumes wf: "events_wf d" and full: "int (length (funding_events_page c n d)) = n" "0 < n" and "0 \<le> m"
  defines "page \<equiv> funding_events_page c n d"
  shows "funding_events_page c (n + m) d = page @ funding_events_page (cursor_of (last page)) m d"
proof -
  define L where "L = stable_sort event_before (filter (after_cursor c) (tFundingEvents d))"
  have page: "page = map (scan_event d) (take (nat n) L)" by (simp add: page_def funding_events_page_def L_def)
  with full have len: "nat n \<le> length L" by (simp add: page_def[symmetric] min_def split: if_splits)
  let ?r = "L ! (nat n - 1)"
  have "page \<noteq> []" using full by (auto simp: page_def)
  then have last: "last page = scan_event d ?r" using page full(2) len by (simp add: last_map last_conv_nth)
  have r: "after_cursor c ?r" using len full(2) nth_mem[of "nat n - 1" L] by (simp add: L_def)
  have ev: "filter (event_before ?r) (tFundingEvents d) = filter (event_before ?r) (filter (after_cursor c) (tFundingEvents d))"
    using r by (auto intro: filter_cong after_cursor_trans)
  have "sorted_wrt event_before L" unfolding L_def
    by (rule events_strictly_sorted) (use wf in \<open>simp add: events_wf_def distinct_map_filter\<close>)
  then have "filter (event_before ?r) L = drop (Suc (nat n - 1)) L"
    by (rule filter_sorted_after) (use len full(2) in \<open>simp_all add: event_before_asym\<close>)
  moreover have "stable_sort event_before (filter (event_before ?r) (tFundingEvents d)) = filter (event_before ?r) L"
    using filter_stable_sort[OF event_before_weak, of "event_before ?r" "filter (after_cursor c) (tFundingEvents d)"] unfolding ev L_def[symmetric] by simp
  ultimately have "stable_sort event_before (filter (event_before ?r) (tFundingEvents d)) = drop (nat n) L"
    using full(2) by simp
  then have "funding_events_page (cursor_of (last page)) m d = map (scan_event d) (take (nat m) (drop (nat n) L))"
    by (simp add: funding_events_page_def last after_cursor_of[abs_def])
  moreover have "funding_events_page c (n + m) d = page @ map (scan_event d) (take (nat m) (drop (nat n) L))"
    using full(2) assms(4) unfolding page by (simp add: funding_events_page_def L_def[symmetric] nat_add_distrib take_add)
  ultimately show ?thesis by simp
qed

lemma funding_events_page_distinct:
  assumes "events_wf d"
  shows "distinct (map feID (funding_events_page c n d))"
proof -
  let ?L = "stable_sort event_before (filter (after_cursor c) (tFundingEvents d))"
  have "mset (map fe_id ?L) = mset (map fe_id (filter (after_cursor c) (tFundingEvents d)))" by simp
  moreover have "distinct (map fe_id (filter (after_cursor c) (tFundingEvents d)))" using assms by (simp add: events_wf_def distinct_map_filter)
  ultimately have "distinct (map fe_id ?L)" using mset_eq_imp_distinct_iff by blast
  then show ?thesis by (simp add: funding_events_page_def comp_def scan_event_def take_map[symmetric] distinct_take)
qed

text \<open>
  Claim C37: continuing after the cursor of the last event of a full page skips no event: the rows the committed attempt read
  and the continuation are what one larger page returns, in order and each event once. When no attempt was
  retried, the rows the committed attempt read are all that is returned, so no event is returned twice. Otherwise they come last, and
  before them, once more, rows that the retried attempts had appended.
\<close>

theorem FundingEvents_resume:
  assumes "events_wf d" and "FundingEvents retried c n d = Inr events" and "int (length (funding_events_page c n d)) = n" "0 < n" "0 \<le> m"
  shows "\<exists>repeated page rest. events = repeated @ page \<and> (retried = [] \<longrightarrow> repeated = []) \<and>
    repeated = concat (map (\<lambda>(d', k). take k (funding_events_page c n d')) retried) \<and>
    FundingEvents [] (cursor_of (last events)) m d = Inr rest \<and> FundingEvents [] c (n + m) d = Inr (page @ rest) \<and>
    distinct (map feID (page @ rest))"
proof -
  let ?page = "funding_events_page c n d"
  let ?rest = "funding_events_page (cursor_of (last ?page)) m d"
  have ev: "events = concat (map (\<lambda>(d', k). take k (funding_events_page c n d')) retried) @ ?page"
    using assms(2) by (auto simp: FundingEvents_def split: if_splits)
  have "?page \<noteq> []" using assms(3,4) by auto
  then have "last events = last ?page" using ev by simp
  then have "FundingEvents [] (cursor_of (last events)) m d = Inr ?rest" "FundingEvents [] c (n + m) d = Inr (?page @ ?rest)"
    using funding_events_page_resume[OF assms(1,3-5)] assms(4,5) by (simp_all add: FundingEvents_def maxRetryAttempts_def)
  moreover have "distinct (map feID (?page @ ?rest))"
    using funding_events_page_resume[OF assms(1,3-5)] funding_events_page_distinct[OF assms(1)] by metis
  ultimately show ?thesis using ev by auto
qed

section \<open>Example\<close>

text \<open>One account on host 11 that was never funded, and one of the same pool whose next funding is at 90.\<close>

definition sample_event :: "int \<Rightarrow> gotime \<Rightarrow> funding_event_row" where
  "sample_event i t = \<lparr>fe_id = i, fe_account_key = 41, fe_host_key = 11, fe_contract_id = 21, fe_amount_sc = 5, fe_estimated_upload_bytes = 1,
     fe_estimated_download_bytes = 2, fe_fund_type = ''account'', fe_pool_id = None, fe_created_at = t\<rparr>"

definition sample_funding_db :: db where
  "sample_funding_db = sample_accounts_db\<lparr>
     tAccounts := [new_account_row 50 1 41 1 (10 ^ 9) \<lparr>MetaID = 8, MetaName = [], MetaDescription = [], MetaLogoURL = [], MetaServiceURL = []\<rparr>,
       new_account_row 50 2 42 1 (10 ^ 9) \<lparr>MetaID = 8, MetaName = [], MetaDescription = [], MetaLogoURL = [], MetaServiceURL = []\<rparr>],
     seqAccounts := 3,
     tAccountHosts := [\<lparr>ah_account_id = 2, ah_host_id = 1, ah_next_fund = 90, ah_failed_funds = 0\<rparr>],
     tPoolHosts := [\<lparr>ph_pool_id = 1, ph_host_id = 1, ph_next_fund = 90, ph_failed_funds = 0, ph_sharing_attached = False\<rparr>],
     tPoolAttachments := [],
     tFundingEvents := [sample_event 2 7, sample_event 1 7, sample_event 3 6], seqFundingEvents := 4\<rparr>"

lemma sample_pooled_wf: "pooled_wf sample_funding_db"
  by (simp add: pooled_wf_def funding_defs accounts_defs sample_funding_db_def sample_accounts_db_def sample_hosts_db_def sample_defs new_account_row_def
      live_of_def ah_key_def ph_key_def sample_event_def)

lemma sample_host_id: "host_id_of sample_funding_db 11 = Some 1"
  by (simp add: host_id_of_def sample_funding_db_def sample_accounts_db_def sample_hosts_db_def sample_defs)

lemma due_accounts_list: "due_accounts now i q t d = set (map ac_public_key (filter (due_account now i q t d) (tAccounts d)))"
  by (auto simp: due_accounts_def)

lemma HostAccountsForFunding_exact_witness:
  "\<exists>accs. HostAccountsForFunding 100 id id 11 ''default'' 10 5 sample_funding_db = Inr accs \<and> set (map haAccountKey accs) \<subseteq> {41, 42} \<and> length accs = 2"
proof -
  have due: "due_accounts 100 1 ''default'' 10 sample_funding_db = {41, 42}"
    by (simp add: due_accounts_list due_account_def account_active_def key_of_id_def key_by_id_def account_host_of_def new_account_row_def
        sample_funding_db_def sample_accounts_db_def)
  have "\<And>xs. mset (id xs) = mset xs" "\<And>xs. mset (id xs) = mset xs" by simp_all
  from HostAccountsForFunding_exact[OF pooled_wfD(1,4)[OF sample_pooled_wf] this sample_host_id, of 5 100 "''default''" 10]
  obtain accs where "HostAccountsForFunding 100 id id 11 ''default'' 10 5 sample_funding_db = Inr accs" "batch_of {41, 42} 5 (map haAccountKey accs)"
    unfolding due by (auto simp: id_def)
  then show ?thesis by (intro exI[of _ accs]) (auto simp: batch_of_def)
qed

lemma funded_accounts_wait_witness:
  "\<exists>d' res. UpdateHostAccounts sample_core [\<lparr>haAccountKey = 41, haHostKey = 11, haConsecutiveFailedFunds = 0, haNextFund = 400, haFullStorage = False\<rparr>] sample_funding_db
       = Inr ((), d') \<and> HostAccountsForFunding 100 id id 11 ''default'' 10 5 d' = Inr res \<and> 41 \<notin> haAccountKey ` set res"
proof -
  let ?v = "\<lparr>haAccountKey = 41, haHostKey = 11, haConsecutiveFailedFunds = 0, haNextFund = 400, haFullStorage = False\<rparr>"
  obtain d' where upd: "UpdateHostAccounts sample_core [?v] sample_funding_db = Inr ((), d')" "host_id_of d' 11 = Some 1"
    by (simp add: UpdateHostAccounts_def upsert_all_def account_host_rows_def int32_ok_def host_id_of_def upsert_def ah_key_def sample_core_def
        sample_funding_db_def sample_accounts_db_def sample_hosts_db_def sample_defs new_account_row_def)
  from upd(2) obtain res where res: "HostAccountsForFunding 100 id id 11 ''default'' 10 5 d' = Inr res"
    by (cases "HostAccountsForFunding 100 id id 11 ''default'' 10 5 d'") (auto simp: HostAccountsForFunding_def Let_def split: if_splits)
  have perm: "\<And>xs. mset (id xs) = mset xs" "\<And>xs. mset (id xs) = mset xs" by simp_all
  have "41 \<notin> haAccountKey ` set res"
    by (rule funded_accounts_wait[OF pooled_wfD(1,4)[OF sample_pooled_wf] upd(1) _ _ perm, of ?v 100, simplified, OF res[unfolded id_def]])
  with upd res show ?thesis by blast
qed

lemma sample_events_page:
  "map feID (funding_events_page \<lparr>After = 0, CursorID = 0\<rparr> 2 sample_funding_db) = [3, 1]"
  by (simp add: funding_events_page_def sample_funding_db_def sample_event_def after_cursor_def event_before_def scan_event_def)

text \<open>The first attempt was retried after it had appended one row.\<close>

lemma FundingEvents_resume_witness:
  "\<exists>events rest. FundingEvents [(sample_funding_db, 1)] \<lparr>After = 0, CursorID = 0\<rparr> 2 sample_funding_db = Inr events \<and> map feID events = [3, 3, 1] \<and>
     FundingEvents [] (cursor_of (last events)) 5 sample_funding_db = Inr rest \<and> distinct (map feID rest) \<and> 1 \<notin> set (map feID rest)"
proof -
  let ?c = "\<lparr>After = 0, CursorID = 0\<rparr>" and ?d = sample_funding_db
  note page = sample_events_page
  obtain events where ev: "FundingEvents [(?d, 1)] ?c 2 ?d = Inr events" by (simp add: FundingEvents_def maxRetryAttempts_def)
  then have ids: "map feID events = [3, 3, 1]" using page by (auto simp: FundingEvents_def maxRetryAttempts_def take_map split: if_splits)
  have "int (length (funding_events_page ?c 2 ?d)) = 2" using page by (auto dest: arg_cong[of _ _ length])
  from FundingEvents_resume[OF pooled_wfD(6)[OF sample_pooled_wf] ev this, of 5]
  obtain repeated pg rest where r: "events = repeated @ pg" "repeated = take 1 (funding_events_page ?c 2 ?d)"
    "FundingEvents [] (cursor_of (last events)) 5 ?d = Inr rest" "distinct (map feID (pg @ rest))" by auto
  have "map feID repeated = [3]" using r(2) page by (simp add: take_map[symmetric])
  with r(1) ids have "map feID pg = [3, 1]" by simp
  with r(4) have "distinct (map feID rest)" "1 \<notin> set (map feID rest)" by auto
  with ev ids r(3) show ?thesis by (intro exI[of _ events] exI[of _ rest]) simp
qed

end
