(* ===== verification/Store.thy ===== *)
theory Store
  imports Chain_Update Revisions Funding_Store
begin

text \<open>
  The database of the whole program as a state machine: every transaction of the modelled
  part of persist/postgres is a step, taken in any order and with any arguments. The
  invariants of the components hold in every reachable database.
\<close>

section \<open>Tables an operation leaves alone\<close>

text \<open>The columns of a host that the invariant of hosts is about, and the tables around them.\<close>

definition host_ident :: "host_row \<Rightarrow> int \<times> rat \<times> gotime option \<times> gotime option" where
  "host_ident h = (h_id h, h_recent_uptime h, h_last_successful_scan h, h_settings_valid_until h)"

definition same_hosts :: "db \<Rightarrow> db \<Rightarrow> bool" where
  "same_hosts d d' \<longleftrightarrow> map host_ident (tHosts d') = map host_ident (tHosts d) \<and> tHostAddresses d' = tHostAddresses d \<and>
     tHostBlocklist d' = tHostBlocklist d \<and> seqHosts d' = seqHosts d"

definition same_contracts :: "db \<Rightarrow> db \<Rightarrow> bool" where
  "same_contracts d d' \<longleftrightarrow> tContracts d' = tContracts d \<and> tElements d' = tElements d \<and> same_hosts d d'"

definition sector_step :: "db \<Rightarrow> db \<Rightarrow> bool" where
  "sector_step d d' \<longleftrightarrow> same_refs d d' \<and> same_contracts d d' \<and> same_accounts d d'"

lemmas contract_frame_defs = same_contracts_def same_hosts_def

lemmas frame_defs = sector_step_def same_refs_def contract_frame_defs same_accounts_def

definition side_step :: "db \<Rightarrow> db \<Rightarrow> bool" where
  "side_step d d' \<longleftrightarrow> same_hosts d d' \<and> same_accounts d d'"

lemmas side_defs = side_step_def same_hosts_def same_accounts_def

lemma host_ident_counters [simp]:
  "host_ident (h\<lparr>h_unpinned_sectors := n\<rparr>) = host_ident h" "host_ident (h\<lparr>h_lost_sectors := n\<rparr>) = host_ident h"
  by (simp_all add: host_ident_def)

lemma map_host_ident_update [simp]:
  "(\<And>h. host_ident (f h) = host_ident h) \<Longrightarrow> map host_ident (update_rows Q f hs) = map host_ident hs"
  by (simp add: map_update_rows)

lemma hosts_wf_same:
  assumes "same_hosts d d'"
  shows "hosts_wf d' = hosts_wf d"
proof -
  let ?P = "\<lambda>(i, u, s, v). i < seqHosts d \<and> 0 < u \<and> u < 1 \<and> (s \<noteq> None \<longrightarrow> v \<noteq> None)"
  have rows: "(\<forall>h \<in> set (tHosts e). host_wf e h) \<longleftrightarrow> list_all ?P (map host_ident (tHosts e))" if "seqHosts e = seqHosts d" for e
    using that by (auto simp: list_all_iff host_wf_def uptime_ok_def host_ident_def)
  have "map h_id hs = map fst (map host_ident hs)" for hs by (simp add: host_ident_def)
  then have "h_id ` set (tHosts d') = h_id ` set (tHosts d)" using assms by (metis same_hosts_def set_map)
  then show ?thesis using assms rows[of d] rows[of d'] by (simp add: hosts_wf_def same_hosts_def)
qed

lemma incrementStat_other_tables [store_simps]:
  "tElements (incrementStat n v d) = tElements d" "tHostAddresses (incrementStat n v d) = tHostAddresses d"
  "tHostBlocklist (incrementStat n v d) = tHostBlocklist d" "seqHosts (incrementStat n v d) = seqHosts d"
  by (simp_all add: incrementStat_def)

lemma same_contracts_trans [trans]: "same_contracts a b \<Longrightarrow> same_contracts b c \<Longrightarrow> same_contracts a c"
  by (simp add: contract_frame_defs)

lemma sector_step_trans [trans]: "sector_step a b \<Longrightarrow> sector_step b c \<Longrightarrow> sector_step a c"
  by (simp add: frame_defs)

lemma contracts_wf_same: "same_contracts d d' \<Longrightarrow> contracts_wf d \<Longrightarrow> contracts_wf d'"
  by (simp add: contract_frame_defs contracts_wf_frame[of d' d])

lemma incrementStat_step: "sector_step d (incrementStat n v d)"
  by (simp add: frame_defs store_simps)

lemma sector_step_refl [simp]: "sector_step d d"
  by (simp add: frame_defs)

lemma incrementHost_step: "incrementHostUnpinnedSectors h v d = Inr d' \<Longrightarrow> sector_step d d'"
  by (auto simp: incrementHostUnpinnedSectors_eq frame_defs)

lemma sector_step_sectors [simp]:
  "sector_step d (d\<lparr>tSectors := ss\<rparr>)" "sector_step d (d\<lparr>tCSM := ms\<rparr>)"
  "map host_ident hs = map host_ident (tHosts d) \<Longrightarrow> sector_step d (d\<lparr>tHosts := hs\<rparr>)"
  by (simp_all add: frame_defs)

lemma updateSectorStats_refs [store_simps]:
  "same_refs d' (updateSectorStats p u n l d) = same_refs d' d" "tElements (updateSectorStats p u n l d) = tElements d"
  by (simp_all add: updateSectorStats_def same_refs_def store_simps)

lemma detach_sectors_step: "detach_sectors h rows d = Inr d' \<Longrightarrow> sector_step d d'"
  by (auto simp: detach_sectors_def scanLostSectorIDs_def Let_def store_simps frame_defs dest!: incrementHost_step)
     (simp_all add: updateSectorStats_def store_simps)

lemma MarkSectorsLost_step: "MarkSectorsLost hk roots d = Inr (x, d') \<Longrightarrow> sector_step d d'"
  by (auto simp: MarkSectorsLost_def Let_def rbind_eq_Inr split: if_splits option.splits dest: detach_sectors_step)

lemma markFailingSectorsLostBatch_step: "markFailingSectorsLostBatch scan hk m b d = Inr (x, d') \<Longrightarrow> sector_step d d'"
  by (auto simp: markFailingSectorsLostBatch_def Let_def rbind_eq_Inr split: if_splits option.splits dest: detach_sectors_step)

lemma recordIntegrityCheck_step: "recordIntegrityCheck ok nc hk roots d = Inr (x, d') \<Longrightarrow> sector_step d d'"
  by (auto simp: recordIntegrityCheck_def Let_def frame_defs store_simps)

lemma SectorsForIntegrityCheck_step: "SectorsForIntegrityCheck now locked scan hk limit d = Inr (x, d') \<Longrightarrow> sector_step d d'"
  by (auto simp: SectorsForIntegrityCheck_def Let_def frame_defs)

lemma record_pinned_step: "record_pinned h u n d = Inr d' \<Longrightarrow> sector_step d d'"
  by (auto simp: record_pinned_def Let_def rbind_eq_Inr frame_defs incrementHostUnpinnedSectors_eq store_simps split: if_splits)

lemma PinSectors_step: "PinSectors i roots d = Inr (x, d') \<Longrightarrow> sector_step d d'"
  by (auto simp: PinSectors_def Let_def rbind_eq_Inr scanSectorIDs_def frame_defs split: if_splits option.splits dest!: record_pinned_step)

lemma markSectorsUnpinnableBatch_step: "markSectorsUnpinnableBatch scan t l d = Inr (x, d') \<Longrightarrow> sector_step d d'"
  by (auto simp: markSectorsUnpinnableBatch_def Let_def rbind_eq_Inr frame_defs store_simps split: if_splits
      dest!: incrementHostsUnpinnedSectors_effect)

lemma MigrateSector_step: "MigrateSector now r hk d = Inr (x, d') \<Longrightarrow> sector_step d d'"
  by (auto simp: MigrateSector_def Let_def rbind_eq_Inr frame_defs store_simps incrementHostUnpinnedSectors_eq split: if_splits option.splits)

lemma delete_csms_step: "delete_csms ms d = Inr d' \<Longrightarrow> sector_step d d'"
  by (induction ms arbitrary: d) (fastforce simp: rbind_eq_Inr delete_csm_def frame_defs split: if_splits)+

lemma PruneContractSectorsMap_step: "PruneContractSectorsMap n d = Inr (x, d') \<Longrightarrow> sector_step d d'"
  by (auto simp: PruneContractSectorsMap_def Let_def rbind_eq_Inr frame_defs store_simps split: if_splits dest!: delete_csms_step)

lemma FlushStatsDelta_step:
  assumes "FlushStatsDelta n d = Inr (x, d')"
  shows "sector_step d d' \<and> same_sectors d d'"
proof -
  have "sqlStatSelect d' m = sqlStatSelect d m" for m using assms by (rule FlushStatsDelta_stats)
  with assms show ?thesis by (auto simp: FlushStatsDelta_def Let_def frame_defs same_sectors_def split: if_splits)
qed

section \<open>Slab operations leave the contracts alone\<close>

lemma same_contracts_refl [simp]: "same_contracts d d"
  by (simp add: contract_frame_defs)

lemma upsert_sectors_contracts: "upsert_sectors good now nc ss d = Inr (x, d') \<Longrightarrow> same_contracts d d'"
  by (induction ss arbitrary: x d)
     (fastforce simp: rbind_eq_Inr upsert_sector_def Let_def contract_frame_defs split: option.splits prod.splits)+

lemma insert_slab_sectors_contracts: "insert_slab_sectors i n ids d = Inr d' \<Longrightarrow> same_contracts d d'"
  by (auto dest!: insert_slab_sectors_effect simp: contract_frame_defs)

lemma record_unpinned_contracts: "record_unpinned r d = Inr d' \<Longrightarrow> same_contracts d d'"
  by (auto simp: record_unpinned_def rbind_eq_Inr contract_frame_defs store_simps split: if_splits
      dest!: incrementHostsUnpinnedSectors_effect)

lemma pin_slab_contracts:
  assumes "pin_slab C H good now nc acc slab d = Inr (x, d')"
  shows "same_contracts d d'"
  using assms
proof (rule pin_slabE)
  fix slabID existing d1 inserted d2 d3 r d4 d5
  assume s: "upsert_slab now (Digest H slab) slab d = Inr ((slabID, existing), d1)"
    "insert_account_slab acc slabID d1 = (inserted, d2)" "d3 = (if existing then d2 else incrementStat statSlabs 1 d2)"
    and u: "upsert_sectors good now nc (Sectors slab) d3 = Inr (r, d4)" and r: "record_unpinned r d4 = Inr d5"
    and i: "insert_slab_sectors slabID 0 (sectorIDs r) d5 = Inr d'"
  have "same_contracts d d1" using s(1) by (auto simp: upsert_slab_def contract_frame_defs split: if_splits option.splits)
  also have "same_contracts d1 d2" using s(2) by (auto simp: insert_account_slab_def contract_frame_defs split: if_splits)
  also have "same_contracts d2 d3" by (simp add: s(3) contract_frame_defs store_simps)
  also note upsert_sectors_contracts[OF u]
  also note record_unpinned_contracts[OF r]
  also note insert_slab_sectors_contracts[OF i]
  finally show ?thesis .
qed

lemma pin_slabs_loop_contracts: "pin_slabs_loop C H good now nc acc slabs d = Inr (x, d') \<Longrightarrow> same_contracts d d'"
proof (induction slabs arbitrary: x d)
  case (Cons slab rest)
  from Cons.prems obtain y d1 z where "pin_slab C H good now nc acc slab d = Inr (y, d1)"
    "pin_slabs_loop C H good now nc acc rest d1 = Inr (z, d')"
    by (auto simp: rbind_eq_Inr split: prod.splits)
  with Cons.IH pin_slab_contracts same_contracts_trans show ?case by blast
qed simp

lemma charge_contracts:
  "charge_account acc a b d = Inr d' \<Longrightarrow> same_contracts d d'" "charge_connect_key k a b d = Inr d' \<Longrightarrow> same_contracts d d'"
  by (auto simp: charge_account_def charge_connect_key_def Let_def contract_frame_defs split: option.splits if_splits)

lemma PinSlabs_contracts: "PinSlabs C H now account nc toPin d = Inr (x, d') \<Longrightarrow> same_contracts d d'"
  by (erule PinSlabsE) (blast dest: pin_slabs_loop_contracts charge_contracts intro: same_contracts_trans)

lemma unpinSlabs_contracts: "unpinSlabs C acc ids d = Inr d' \<Longrightarrow> same_contracts d d'"
  by (auto simp: unpinSlabs_def Let_def queue_slabs_def contract_frame_defs split: if_splits option.splits)

lemma unpinUnreferencedSlabs_contracts: "unpinUnreferencedSlabs C acc ids cutoff d = Inr d' \<Longrightarrow> same_contracts d d'"
  by (auto simp: unpinUnreferencedSlabs_def Let_def split: if_splits dest: unpinSlabs_contracts)

lemma UnpinSlab_contracts: "UnpinSlab C account slabID d = Inr (x, d') \<Longrightarrow> same_contracts d d'"
  by (auto simp: UnpinSlab_def rbind_eq_Inr split: if_splits option.splits prod.splits dest: unpinSlabs_contracts)

lemma DeleteObject_contracts: "DeleteObject C now account key d = Inr (x, d') \<Longrightarrow> same_contracts d d'"
  by (auto simp: DeleteObject_def rbind_eq_Inr Let_def contract_frame_defs split: option.splits prod.splits
      dest!: unpinUnreferencedSlabs_contracts)

lemma prune_slabs_batch_contracts: "prune_slabs_batch C acc cutoff cursor d = Inr (x, d') \<Longrightarrow> same_contracts d d'"
  by (auto simp: prune_slabs_batch_def rbind_eq_Inr Let_def split: if_splits dest: unpinUnreferencedSlabs_contracts)

lemma PinObject_contracts: "PinObject now account obj d = Inr (x, d') \<Longrightarrow> same_contracts d d'"
  by (auto simp: PinObject_def upsert_object_def upsert_event_def rbind_eq_Inr Let_def contract_frame_defs split: if_splits option.splits prod.splits)

lemma MarkSlabRepaired_contracts: "MarkSlabRepaired now slabID ok d = Inr (x, d') \<Longrightarrow> same_contracts d d' \<and> same_sectors d d'"
  by (auto simp: MarkSlabRepaired_def contract_frame_defs same_sectors_def sqlStatSelect_def split: if_splits option.splits)

lemma DeleteAccount_contracts: "DeleteAccount now account d = Inr (x, d') \<Longrightarrow> same_contracts d d' \<and> same_sectors d d'"
  by (auto simp: DeleteAccount_def contract_frame_defs same_sectors_def sqlStatSelect_def split: if_splits option.splits)

lemma PruneAccounts_contracts: "PruneAccounts limit d = Inr (x, d') \<Longrightarrow> same_contracts d d'"
  by (auto simp: PruneAccounts_def Let_def queue_slabs_def contract_frame_defs store_simps split: if_splits option.splits)

lemma PruneDeletedSlabs_contracts: "PruneDeletedSlabs limit d = Inr (x, d') \<Longrightarrow> same_contracts d d'"
  by (auto simp: PruneDeletedSlabs_def Let_def rbind_eq_Inr contract_frame_defs store_simps remove_slabs_def split: if_splits
      dest!: deleteOrphanedSlabs_effect)

section \<open>Contract operations leave slabs and objects alone\<close>

lemma updateHostUsage_refs: "updateHostUsage C hk usage d = Some (Inr (x, d')) \<Longrightarrow> same_refs d d'"
  by (drule updateHostUsage_frame) (auto simp: same_refs_def)

lemma UpdateContractRevision_refs: "UpdateContractRevision C r u d = Some (Inr (x, d')) \<Longrightarrow> same_refs d d'"
  by (erule UpdateContractRevision_effect) (drule updateHostUsage_refs, simp add: same_refs_def)

lemma AddFormedContract_refs: "AddFormedContract C now hk i r cp al mf u d = Some (Inr (x, d')) \<Longrightarrow> same_refs d d'"
  by (erule AddFormedContract_effect) (drule updateHostUsage_refs, simp add: same_refs_def)

lemma AddRenewedContract_refs: "AddRenewedContract C now rf rt r cp mf u d = Some (Inr (x, d')) \<Longrightarrow> same_refs d d'"
  by (erule AddRenewedContract_effect) (drule updateHostUsage_refs, simp add: same_refs_def renew_db_def)

lemma keeps_update_id:
  assumes "\<And>c. ct_contract_id (g c) = ct_contract_id c \<and> ct_host_id (g c) = ct_host_id c \<and> ct_revision_number (g c) = ct_revision_number c \<and>
             (contract_row_wf d c \<longrightarrow> contract_row_wf d (g c))"
  shows "keeps_invs d (d\<lparr>tContracts := update_rows Q g (tContracts d)\<rparr>)"
  using assms by (intro keeps_invs_update_contract) auto

lemma contract_flags_keep:
  "MarkBroadcastAttempt now i d = Inr (x, d') \<Longrightarrow> keeps_invs d d'"
  "UpdateNextPrune i t d = Inr (x, d') \<Longrightarrow> keeps_invs d d'"
  "MarkUnrenewableContractsBad n d = Inr (x, d') \<Longrightarrow> keeps_invs d d'"
  "MarkContractBad i d = Inr (x, d') \<Longrightarrow> keeps_invs d d'"
  "RejectPendingContracts now d = Inr (x, d') \<Longrightarrow> keeps_invs d d'"
  by (auto simp: MarkBroadcastAttempt_def UpdateNextPrune_def MarkUnrenewableContractsBad_def MarkContractBad_def markContractBad_def
      RejectPendingContracts_def row_wf_defs Let_def split: if_splits intro!: keeps_update_id)

lemma DeleteContract_contracts_wf:
  assumes wf: "contracts_wf d" and eq: "DeleteContract now i d = Inr (x, d')"
  shows "contracts_wf d' \<and> same_refs d d' \<and> side_step d d' \<and> contract_versions (tContracts d') = contract_versions (tContracts d)"
proof -
  from eq obtain m d1 d2 where m: "delete_csm m (d\<lparr>tSectors := d1\<rparr>) = Inr d2"
    and d': "\<exists>d3. sector_step d2 d3 \<and> markContractBad i d3 = Inr (x, d')"
    by (auto simp: DeleteContract_def Let_def rbind_eq_Inr split: option.splits if_splits dest!: incrementHost_step)
       (fastforce simp: frame_defs store_simps)+
  then obtain d3 where "sector_step d2 d3" and b: "markContractBad i d3 = Inr (x, d')" by blast
  moreover from m have "sector_step d d2" by (auto simp: delete_csm_def frame_defs split: if_splits)
  ultimately have s: "sector_step d d3" by (blast intro: sector_step_trans)
  then have "contracts_wf d3" using wf by (auto simp: sector_step_def intro: contracts_wf_same)
  then have "contracts_wf d'" using b
    by (auto simp: markContractBad_def Let_def row_wf_defs split: if_splits intro!: contracts_wf_update_contracts)
  moreover from b have "same_refs d3 d'" "side_step d3 d'" "contract_versions (tContracts d') = contract_versions (tContracts d3)"
    by (auto simp: markContractBad_def Let_def same_refs_def side_defs split: if_splits intro!: versions_update_rows)
  ultimately show ?thesis using s same_refs_trans by (auto simp: sector_step_def same_contracts_def side_defs)
qed

section \<open>Contract and host operations leave the accounts alone\<close>

lemma only_contracts_side: "only_contracts d d' \<Longrightarrow> side_step d d'"
  by (auto simp: only_contracts_def side_defs)

lemma updateHostUsage_side: "updateHostUsage C hk usage d = Some (Inr (x, d')) \<Longrightarrow> side_step d d'"
  by (auto simp: updateHostUsage_def bind_eq_Some_conv side_defs host_ident_def split: if_splits)

lemma UpdateContractRevision_side: "UpdateContractRevision C r u d = Some (Inr (x, d')) \<Longrightarrow> side_step d d'"
  by (erule UpdateContractRevision_effect) (drule updateHostUsage_side, simp add: side_defs)

lemma AddFormedContract_side: "AddFormedContract C now hk i r cp al mf u d = Some (Inr (x, d')) \<Longrightarrow> side_step d d'"
  by (erule AddFormedContract_effect) (drule updateHostUsage_side, simp add: side_defs)

lemma AddRenewedContract_side: "AddRenewedContract C now rf rt r cp mf u d = Some (Inr (x, d')) \<Longrightarrow> side_step d d'"
  by (erule AddRenewedContract_effect) (drule updateHostUsage_side, simp add: side_defs renew_db_def)

lemma upsert_host_accounts: "upsert_host new upd d = Inr (i, d') \<Longrightarrow> same_accounts d d'"
  by (auto simp: upsert_host_def same_accounts_def split: option.splits)

lemma replace_addresses_accounts: "replace_addresses P i as d = Inr (x, d') \<Longrightarrow> same_accounts d d'"
  by (auto simp: replace_addresses_def same_accounts_def split: if_splits)

lemma announce_accounts:
  "AddHostAnnouncement P now hk ha ts d = Inr (x, d') \<Longrightarrow> same_accounts d d'"
  "ImportHost P now hk as d = Inr (x, d') \<Longrightarrow> same_accounts d d'"
  by (auto simp: AddHostAnnouncement_def ImportHost_def Let_def rbind_eq_Inr dest!: upsert_host_accounts replace_addresses_accounts
      intro: same_accounts_trans)

lemma block_host_accounts: "block_host now rs hk d = Inr d' \<Longrightarrow> same_accounts d d'"
  by (auto simp: block_host_def upsert_blocked_def drop_unpinned_def incrementHostUnpinnedSectors_eq Let_def same_accounts_def store_simps
      split: option.splits if_splits)

lemma BlockHosts_accounts: "BlockHosts now hks rs d = Inr (x, d') \<Longrightarrow> same_accounts d d'"
  by (induction hks arbitrary: d) (auto simp: rbind_eq_Inr dest!: block_host_accounts intro: same_accounts_trans)

lemma unblock_accounts:
  "UnblockHost hk d = Inr (x, d') \<Longrightarrow> same_accounts d d'" "RemoveBlocklistReasons hks rs d = Inr (n, d') \<Longrightarrow> same_accounts d d'"
  by (auto simp: UnblockHost_def RemoveBlocklistReasons_def mark_good_def Let_def same_accounts_def split: if_splits)

lemma host_updates_accounts:
  "UpdateHostScan decay now hk hs loc ok next d = Inr (x, d') \<Longrightarrow> same_accounts d d'"
  "UpdateHostPrices hk p d = Inr (x, d') \<Longrightarrow> same_accounts d d'"
  "ResetLostSectors hk d = Inr (x, d') \<Longrightarrow> same_accounts d d'"
  "HostsForIntegrityChecks now scan t l d = Inr (ks, d') \<Longrightarrow> same_accounts d d'"
  "UpdateStuckHosts now stuck d = Inr (x, d') \<Longrightarrow> same_accounts d d'"
  "PruneHosts t m d = Inr (n, d') \<Longrightarrow> same_accounts d d'"
  by (auto simp: UpdateHostScan_def UpdateHostPrices_def ResetLostSectors_def HostsForIntegrityChecks_def UpdateStuckHosts_def PruneHosts_def
      incrementNumScans_def Let_def same_accounts_def store_simps split: if_splits)

section \<open>Account operations leave everything else alone\<close>

definition account_step :: "db \<Rightarrow> db \<Rightarrow> bool" where
  "account_step d d' \<longleftrightarrow> same_sectors d d' \<and> tElements d' = tElements d \<and> same_refs d d' \<and> same_hosts d d'"

lemmas account_step_defs = account_step_def same_sectors_def same_refs_def same_hosts_def

lemma stat_registered: "n \<in> {statPinnedSectors, statUnpinnedSectors, statUnpinnableSectors} \<Longrightarrow>
    sqlStatSelect (incrementStat statAccountsRegistered v d) n = sqlStatSelect d n"
  by (auto simp: store_simps)

lemma stat_select_cong: "tStats d' = tStats d \<Longrightarrow> tStatsDeltas d' = tStatsDeltas d \<Longrightarrow> sqlStatSelect d' n = sqlStatSelect d n"
  by (simp add: sqlStatSelect_def)

lemma account_ops_step:
  "HasAccount now ak d = Inr (b, d') \<Longrightarrow> account_step d d'" "UpdateAccount ak m d = Inr (x, d') \<Longrightarrow> account_step d d'"
  "AddAppConnectKey now us pk req d = Inr (k, d') \<Longrightarrow> account_step d d'" "UpdateAppConnectKey req d = Inr (k, d') \<Longrightarrow> account_step d d'"
  "DeleteAppConnectKey ck d = Inr (x, d') \<Longrightarrow> account_step d d'" "AddPreAuthorizedKey now preq d = Inr (pak, d') \<Longrightarrow> account_step d d'"
  "DeletePreAuthorizedKey pub d = Inr (x, d') \<Longrightarrow> account_step d d'" "PruneExpiredPreAuthorizedKeys t d = Inr (x, d') \<Longrightarrow> account_step d d'"
  "ConsumePreAuthorizedKey now pub app d = Inr (r, d') \<Longrightarrow> account_step d d'"
  "PutQuota qk qreq d = Inr (x, d') \<Longrightarrow> account_step d d'" "DeleteQuota qk d = Inr (x, d') \<Longrightarrow> account_step d d'"
  "BlockObject now key reason d = Inr (x, d') \<Longrightarrow> account_step d d'" "UnblockObject now key d = Inr (x, d') \<Longrightarrow> account_step d d'"
  by (auto simp: account_step_defs sqlStatSelect_def Let_def HasAccount_def UpdateAccount_def AddAppConnectKey_def UpdateAppConnectKey_def
      DeleteAppConnectKey_def AddPreAuthorizedKey_def DeletePreAuthorizedKey_def PruneExpiredPreAuthorizedKeys_def ConsumePreAuthorizedKey_def
      PutQuota_def DeleteQuota_def BlockObject_def UnblockObject_def rbind_eq_Inr split: option.splits if_splits list.splits prod.splits)

lemma RegisterAppKey_step: "RegisterAppKey now ck appKey meta d = Inr (x, d') \<Longrightarrow> account_step d d'"
  by (auto simp: RegisterAppKey_def addAccount_def Let_def rbind_eq_Inr account_step_defs stat_registered store_simps
      split: option.splits if_splits list.splits prod.splits) (simp_all add: sqlStatSelect_def)

section \<open>The transitions of the database\<close>

text \<open>
  One relation per group of tables, and any change of the table of global settings. A transaction that fails is rolled back and takes no step;
  \<open>scan\<close> is the order in which the database visits rows where a query leaves it open.
\<close>

inductive sector_tx :: "db \<Rightarrow> db \<Rightarrow> bool" where
  MarkSectorsLost: "MarkSectorsLost hk roots d = Inr (x, d') \<Longrightarrow> sector_tx d d'"
| MarkFailing: "(\<And>ys. mset (scan ys) = mset ys) \<Longrightarrow> markFailingSectorsLostBatch scan hk m b d = Inr (n, d') \<Longrightarrow> sector_tx d d'"
| RecordIntegrity: "recordIntegrityCheck ok nextCheck hk roots d = Inr (x, d') \<Longrightarrow> sector_tx d d'"
| LeaseIntegrity: "SectorsForIntegrityCheck now locked scan hk limit d = Inr (rs, d') \<Longrightarrow> sector_tx d d'"
| PinSectors: "PinSectors i roots d = Inr (x, d') \<Longrightarrow> sector_tx d d'"
| MarkUnpinnable: "(\<And>ys. mset (scan ys) = mset ys) \<Longrightarrow> markSectorsUnpinnableBatch scan threshold limit d = Inr (b, d') \<Longrightarrow> sector_tx d d'"
| MigrateSector: "MigrateSector now r hk d = Inr (b, d') \<Longrightarrow> sector_tx d d'"
| PruneMap: "PruneContractSectorsMap n d = Inr (x, d') \<Longrightarrow> sector_tx d d'"
| FlushStats: "FlushStatsDelta n d = Inr (b, d') \<Longrightarrow> sector_tx d d'"

inductive slab_tx :: "core_ops \<Rightarrow> hasher \<Rightarrow> db \<Rightarrow> db \<Rightarrow> bool" for C H where
  PinSlabs: "PinSlabs C H now account nextCheck toPin d = Inr (ds, d') \<Longrightarrow> slab_tx C H d d'"
| UnpinSlab: "UnpinSlab C account slabID d = Inr (x, d') \<Longrightarrow> slab_tx C H d d'"
| PruneDeletedSlabs: "PruneDeletedSlabs limit d = Inr (n, d') \<Longrightarrow> slab_tx C H d d'"
| PinObject: "PinObject now account obj d = Inr (x, d') \<Longrightarrow> slab_tx C H d d'"
| DeleteObject: "DeleteObject C now account key d = Inr (x, d') \<Longrightarrow> slab_tx C H d d'"
| PruneSlabs: "prune_slabs_batch C acc cutoff cursor d = Inr (y, d') \<Longrightarrow> slab_tx C H d d'"
| MarkSlabRepaired: "MarkSlabRepaired now slabID ok d = Inr (x, d') \<Longrightarrow> slab_tx C H d d'"
| DeleteAccount: "DeleteAccount now account d = Inr (x, d') \<Longrightarrow> slab_tx C H d d'"
| PruneAccounts: "PruneAccounts n d = Inr (x, d') \<Longrightarrow> slab_tx C H d d'"

inductive contract_tx :: "core_ops \<Rightarrow> db \<Rightarrow> db \<Rightarrow> bool" for C where
  UpdateContractRevision: "UpdateContractRevision C r usage d = Some (Inr (x, d')) \<Longrightarrow> contract_tx C d d'"
| AddFormedContract: "AddFormedContract C now hk i r cp al mf usage d = Some (Inr (x, d')) \<Longrightarrow> contract_tx C d d'"
| AddRenewedContract: "AddRenewedContract C now rf rt r cp mf usage d = Some (Inr (x, d')) \<Longrightarrow> contract_tx C d d'"
| MarkBroadcastAttempt: "MarkBroadcastAttempt now i d = Inr (x, d') \<Longrightarrow> contract_tx C d d'"
| UpdateNextPrune: "UpdateNextPrune i t d = Inr (x, d') \<Longrightarrow> contract_tx C d d'"
| MarkUnrenewable: "MarkUnrenewableContractsBad n d = Inr (x, d') \<Longrightarrow> contract_tx C d d'"
| MarkContractBad: "MarkContractBad i d = Inr (x, d') \<Longrightarrow> contract_tx C d d'"
| RejectPending: "RejectPendingContracts now d = Inr (x, d') \<Longrightarrow> contract_tx C d d'"
| PruneElements: "PruneExpiredContractElements n d = Inr (x, d') \<Longrightarrow> contract_tx C d d'"
| DeleteContract: "DeleteContract now i d = Inr (x, d') \<Longrightarrow> contract_tx C d d'"
| ChainState: "UpdateChainState C reverted applied d = Inr (x, d') \<Longrightarrow> contract_tx C d d'"

inductive host_tx :: "protocols \<Rightarrow> db \<Rightarrow> db \<Rightarrow> bool" for P where
  AddHostAnnouncement: "AddHostAnnouncement P now hk ha ts d = Inr (x, d') \<Longrightarrow> host_tx P d d'"
| ImportHost: "ImportHost P now hk as d = Inr (x, d') \<Longrightarrow> host_tx P d d'"
| BlockHosts: "BlockHosts now hks rs d = Inr (x, d') \<Longrightarrow> host_tx P d d'"
| UnblockHost: "UnblockHost hk d = Inr (x, d') \<Longrightarrow> host_tx P d d'"
| RemoveBlocklistReasons: "RemoveBlocklistReasons hks rs d = Inr (n, d') \<Longrightarrow> host_tx P d d'"
| UpdateHostScan: "UpdateHostScan decay now hk hs loc ok next d = Inr (x, d') \<Longrightarrow> host_tx P d d'"
| UpdateHostPrices: "UpdateHostPrices hk p d = Inr (x, d') \<Longrightarrow> host_tx P d d'"
| ResetLostSectors: "ResetLostSectors hk d = Inr (x, d') \<Longrightarrow> host_tx P d d'"
| HostsForIntegrityChecks: "HostsForIntegrityChecks now scan t l d = Inr (ks, d') \<Longrightarrow> host_tx P d d'"
| UpdateStuckHosts: "UpdateStuckHosts now stuck d = Inr (x, d') \<Longrightarrow> host_tx P d d'"
| PruneHosts: "PruneHosts t m d = Inr (n', d') \<Longrightarrow> host_tx P d d'"

inductive account_tx :: "db \<Rightarrow> db \<Rightarrow> bool" where
  HasAccount: "HasAccount now ak d = Inr (b, d') \<Longrightarrow> account_tx d d'"
| UpdateAccount: "UpdateAccount ak m d = Inr (x, d') \<Longrightarrow> account_tx d d'"
| AddAppConnectKey: "AddAppConnectKey now us pk req d = Inr (k, d') \<Longrightarrow> account_tx d d'"
| UpdateAppConnectKey: "UpdateAppConnectKey req d = Inr (k, d') \<Longrightarrow> account_tx d d'"
| DeleteAppConnectKey: "DeleteAppConnectKey ck d = Inr (x, d') \<Longrightarrow> account_tx d d'"
| RegisterAppKey: "RegisterAppKey now ck appKey meta d = Inr (x, d') \<Longrightarrow> account_tx d d'"
| AddPreAuthorizedKey: "AddPreAuthorizedKey now preq d = Inr (pak, d') \<Longrightarrow> account_tx d d'"
| DeletePreAuthorizedKey: "DeletePreAuthorizedKey pub d = Inr (x, d') \<Longrightarrow> account_tx d d'"
| PruneExpired: "PruneExpiredPreAuthorizedKeys t d = Inr (x, d') \<Longrightarrow> account_tx d d'"
| Consume: "ConsumePreAuthorizedKey now pub app d = Inr (r, d') \<Longrightarrow> account_tx d d'"
| PutQuota: "PutQuota qk qreq d = Inr (x, d') \<Longrightarrow> account_tx d d'"
| DeleteQuota: "DeleteQuota qk d = Inr (x, d') \<Longrightarrow> account_tx d d'"
| BlockObject: "BlockObject now key reason d = Inr (x, d') \<Longrightarrow> account_tx d d'"
| UnblockObject: "UnblockObject now key d = Inr (x, d') \<Longrightarrow> account_tx d d'"

inductive funding_tx :: "core_ops \<Rightarrow> db \<Rightarrow> db \<Rightarrow> bool" for C where
  UpdateHostAccounts: "UpdateHostAccounts C accs d = Inr (x, d') \<Longrightarrow> funding_tx C d d'"
| UpdateHostPools: "UpdateHostPools C pools d = Inr (x, d') \<Longrightarrow> funding_tx C d d'"
| ScheduleAccount: "ScheduleAccountForFunding hk account d = Inr (x, d') \<Longrightarrow> funding_tx C d d'"
| InsertAttachments: "InsertPoolAttachments C hk attachments d = Inr (x, d') \<Longrightarrow> funding_tx C d d'"
| MarkAttached: "MarkSharingPoolsAttached C hk attachments d = Inr (x, d') \<Longrightarrow> funding_tx C d d'"
| RecordEvents: "RecordFundingEvents now events d = Inr (x, d') \<Longrightarrow> funding_tx C d d'"

inductive store_step :: "core_ops \<Rightarrow> hasher \<Rightarrow> protocols \<Rightarrow> db \<Rightarrow> db \<Rightarrow> bool" for C H P where
  sectors: "sector_tx d d' \<Longrightarrow> store_step C H P d d'"
| slabs: "slab_tx C H d d' \<Longrightarrow> store_step C H P d d'"
| contracts: "contract_tx C d d' \<Longrightarrow> store_step C H P d d'"
| hosts: "host_tx P d d' \<Longrightarrow> store_step C H P d d'"
| accounts: "account_tx d d' \<Longrightarrow> store_step C H P d d'"
| funding: "funding_tx C d d' \<Longrightarrow> store_step C H P d d'"
| settings: "store_step C H P d (d\<lparr>tGlobals := g\<rparr>)"

inductive_simps store_step_iff: "store_step C H P d d'"

section \<open>Every transition keeps the invariants\<close>

definition sound :: "db \<Rightarrow> bool" where
  "sound d \<longleftrightarrow> store_inv d \<and> contracts_wf d \<and> ref_inv d \<and> hosts_wf d \<and> accounts_wf d"

lemma soundD: "sound d \<Longrightarrow> store_inv d \<and> contracts_wf d \<and> ref_inv d \<and> hosts_wf d \<and> accounts_wf d"
  by (simp add: sound_def)

lemma sound_side: "sound d \<Longrightarrow> side_step d d' \<Longrightarrow> store_inv d' \<Longrightarrow> contracts_wf d' \<Longrightarrow> same_refs d d' \<Longrightarrow> sound d'"
  by (auto simp: sound_def side_step_def hosts_wf_same accounts_wf_frame intro: ref_inv_same_refs)

lemma sound_sector_step: "sound d \<Longrightarrow> sector_step d d' \<Longrightarrow> store_inv d' \<Longrightarrow> sound d'"
  by (rule sound_side) (auto simp: sector_step_def same_contracts_def side_step_def contracts_wf_frame[of d' d] dest: soundD)

lemma sound_keeps: "sound d \<Longrightarrow> keeps_invs d d' \<Longrightarrow> sound d'"
  by (auto simp: keeps_invs_def intro: sound_side only_contracts_refs only_contracts_side dest: soundD)

lemma sound_slabs: "sound d \<Longrightarrow> same_contracts d d' \<Longrightarrow> store_inv d' \<Longrightarrow> ref_inv d' \<Longrightarrow> accounts_wf d' \<Longrightarrow> sound d'"
  by (auto simp: sound_def same_contracts_def hosts_wf_same intro: contracts_wf_same)

lemma sound_hosts: "sound d \<Longrightarrow> keeps_host_inv d d' \<Longrightarrow> same_accounts d d' \<Longrightarrow> sound d'"
  by (auto simp: sound_def keeps_host_inv_def host_inv_def accounts_wf_frame intro: ref_inv_same_refs)

lemma sound_account_step: "sound d \<Longrightarrow> account_step d d' \<Longrightarrow> accounts_wf d' \<Longrightarrow> sound d'"
  using store_inv_same_sectors[of d d']
  by (auto simp: sound_def account_step_def hosts_wf_same contracts_wf_frame[of d' d] same_sectors_def intro: ref_inv_same_refs)

lemma sector_tx_sound:
  assumes "sector_tx d d'" and "sound d"
  shows "sound d'"
proof -
  from assms(2) have inv: "store_inv d" by (simp add: sound_def)
  from assms(1) have "sector_step d d' \<and> store_inv d'"
  proof cases
    case MarkSectorsLost then show ?thesis using inv by (blast intro: MarkSectorsLost_step MarkSectorsLost_inv)
  next
    case MarkFailing then show ?thesis using inv by (blast intro: markFailingSectorsLostBatch_step markFailingSectorsLostBatch_inv)
  next
    case RecordIntegrity then show ?thesis using inv by (blast intro: recordIntegrityCheck_step recordIntegrityCheck_inv)
  next
    case LeaseIntegrity then show ?thesis using inv by (blast intro: SectorsForIntegrityCheck_step SectorsForIntegrityCheck_inv)
  next
    case PinSectors then show ?thesis using inv by (blast intro: PinSectors_step PinSectors_inv)
  next
    case MarkUnpinnable then show ?thesis using inv by (blast intro: markSectorsUnpinnableBatch_step markSectorsUnpinnableBatch_effect(3))
  next
    case MigrateSector then show ?thesis using inv by (blast intro: MigrateSector_step MigrateSector_inv)
  next
    case PruneMap then show ?thesis using inv by (blast intro: PruneContractSectorsMap_step PruneContractSectorsMap_inv)
  next
    case FlushStats then show ?thesis using inv by (blast dest: FlushStatsDelta_step intro: store_inv_same_sectors)
  qed
  with assms(2) show ?thesis by (blast intro: sound_sector_step)
qed

lemma slab_tx_sound:
  assumes "slab_tx C H d d'" and "sound d"
  shows "sound d'"
proof -
  from assms(2) have inv: "store_inv d" "ref_inv d" "accounts_wf d" by (simp_all add: sound_def)
  have frame: "accounts_wf d'" if "same_accounts d d'" using that inv(3) by (simp add: accounts_wf_frame)
  have same: "store_inv d'" if "same_sectors d d'" using that inv(1) by (rule store_inv_same_sectors)
  from assms(1) have "same_contracts d d' \<and> store_inv d' \<and> ref_inv d' \<and> accounts_wf d'"
  proof cases
    case PinSlabs then show ?thesis using inv by (blast intro: PinSlabs_contracts PinSlabs_inv PinSlabs_refs PinSlabs_accounts_wf)
  next
    case UnpinSlab then show ?thesis using inv same by (blast intro: UnpinSlab_contracts UnpinSlab_same UnpinSlab_refs UnpinSlab_accounts_wf)
  next
    case PruneDeletedSlabs then show ?thesis using inv by (blast intro: PruneDeletedSlabs_contracts PruneDeletedSlabs_inv PruneDeletedSlabs_refs frame PruneDeletedSlabs_accounts)
  next
    case PinObject then show ?thesis using inv same by (blast intro: PinObject_contracts PinObject_same PinObject_refs frame PinObject_accounts)
  next
    case DeleteObject then show ?thesis using inv same by (blast intro: DeleteObject_contracts DeleteObject_same DeleteObject_refs DeleteObject_accounts_wf)
  next
    case PruneSlabs then show ?thesis using inv same by (blast intro: prune_slabs_batch_contracts prune_slabs_batch_same prune_slabs_batch_refs prune_slabs_batch_accounts_wf)
  next
    case MarkSlabRepaired then show ?thesis using inv same by (blast dest: MarkSlabRepaired_contracts intro: MarkSlabRepaired_refs frame MarkSlabRepaired_accounts)
  next
    case DeleteAccount then show ?thesis using inv same by (blast dest: DeleteAccount_contracts intro: DeleteAccount_refs DeleteAccount_accounts_wf)
  next
    case PruneAccounts then show ?thesis using inv same by (blast intro: PruneAccounts_contracts PruneAccounts_same PruneAccounts_refs PruneAccounts_accounts_wf)
  qed
  with assms(2) show ?thesis by (blast intro: sound_slabs)
qed

lemma contract_tx_sound:
  assumes "contract_tx C d d'" and "sound d"
  shows "sound d'"
proof -
  from assms(2) have inv: "store_inv d" "contracts_wf d" "ref_inv d" by (simp_all add: sound_def)
  have all: "sound d'" if "store_inv d'" "contracts_wf d'" "same_refs d d'" "side_step d d'"
    using sound_side[OF assms(2) that(4) that(1-3)] .
  note keep = sound_keeps[OF assms(2)]
  from assms(1) show ?thesis
  proof cases
    case UpdateContractRevision
    then show ?thesis using inv by (blast intro: all UpdateContractRevision_inv UpdateContractRevision_contracts_wf UpdateContractRevision_refs UpdateContractRevision_side)
  next
    case AddFormedContract
    then show ?thesis using inv by (blast intro: all AddFormedContract_inv AddFormedContract_contracts_wf AddFormedContract_refs AddFormedContract_side)
  next
    case AddRenewedContract
    then show ?thesis using inv by (blast intro: all AddRenewedContract_inv AddRenewedContract_contracts_wf AddRenewedContract_refs AddRenewedContract_side)
  next
    case DeleteContract
    then show ?thesis using inv DeleteContract_inv DeleteContract_contracts_wf all by blast
  qed (blast intro: keep contract_flags_keep PruneExpiredContractElements_keeps UpdateChainState_keeps)+
qed

lemma host_tx_sound:
  assumes "host_tx P d d'" and "sound d"
  shows "sound d'"
  using assms(1)
proof cases
  case AddHostAnnouncement then show ?thesis using assms(2) by (blast intro: sound_hosts AddHostAnnouncement_keeps announce_accounts)
next
  case ImportHost then show ?thesis using assms(2) by (blast intro: sound_hosts ImportHost_keeps announce_accounts)
next
  case BlockHosts then show ?thesis using assms(2) by (blast intro: sound_hosts BlockHosts_keeps BlockHosts_accounts)
next
  case UnblockHost then show ?thesis using assms(2) by (blast intro: sound_hosts UnblockHost_keeps unblock_accounts)
next
  case RemoveBlocklistReasons then show ?thesis using assms(2) by (blast intro: sound_hosts RemoveBlocklistReasons_keeps unblock_accounts)
next
  case UpdateHostScan then show ?thesis using assms(2) by (blast intro: sound_hosts UpdateHostScan_keeps host_updates_accounts(1))
next
  case UpdateStuckHosts then show ?thesis using assms(2) by (blast intro: sound_hosts UpdateStuckHosts_keeps host_updates_accounts(5))
next
  case PruneHosts then show ?thesis using assms(2) by (blast intro: sound_hosts PruneHosts_keeps host_updates_accounts(6))
qed (use assms(2) in \<open>blast intro: sound_hosts host_updates_keep host_updates_accounts\<close>)+

lemma account_tx_sound:
  assumes "account_tx d d'" and "sound d"
  shows "sound d'"
proof -
  from assms(2) have wf: "accounts_wf d" by (simp add: sound_def)
  have frame: "accounts_wf d'" if "same_accounts d d'" using that wf by (simp add: accounts_wf_frame)
  note keep = sound_account_step[OF assms(2)]
  from assms(1) show ?thesis
  proof cases
    case RegisterAppKey then show ?thesis using wf by (blast intro: keep RegisterAppKey_step RegisterAppKey_accounts_wf)
  next
    case BlockObject then show ?thesis by (blast intro: keep account_ops_step frame BlockObject_accounts)
  next
    case UnblockObject then show ?thesis by (blast intro: keep account_ops_step frame UnblockObject_accounts)
  qed (use wf in \<open>blast intro: keep account_ops_step HasAccount_accounts_wf UpdateAccount_accounts_wf AddAppConnectKey_accounts_wf
      UpdateAppConnectKey_accounts_wf DeleteAppConnectKey_accounts_wf AddPreAuthorizedKey_accounts_wf DeletePreAuthorizedKey_accounts_wf
      PruneExpired_accounts_wf Consume_accounts_wf PutQuota_accounts_wf DeleteQuota_accounts_wf\<close>)+
qed

text \<open>The funding transactions only write the tables of funded accounts and pools, of attachments and of events.\<close>

definition only_funding :: "db \<Rightarrow> db \<Rightarrow> bool" where
  "only_funding d d' \<longleftrightarrow> (\<exists>ah ph pa fe n. d' = d\<lparr>tAccountHosts := ah, tPoolHosts := ph, tPoolAttachments := pa, tFundingEvents := fe, seqFundingEvents := n\<rparr>)"

lemma only_funding_intros [intro]:
  "only_funding d d" "only_funding d (d\<lparr>tAccountHosts := ah\<rparr>)" "only_funding d (d\<lparr>tPoolHosts := ph\<rparr>)"
  "only_funding d (d\<lparr>tPoolAttachments := pa\<rparr>)" "only_funding d (d\<lparr>tFundingEvents := fe, seqFundingEvents := n\<rparr>)"
  unfolding only_funding_def
  by (rule exI[of _ "tAccountHosts d"] exI[of _ ah], rule exI[of _ "tPoolHosts d"] exI[of _ ph], rule exI[of _ "tPoolAttachments d"] exI[of _ pa],
      rule exI[of _ "tFundingEvents d"] exI[of _ fe], rule exI[of _ "seqFundingEvents d"] exI[of _ n], simp)+

lemma funding_tx_only: "funding_tx C d d' \<Longrightarrow> only_funding d d'"
  by (erule funding_tx.cases)
     (auto simp: UpdateHostAccounts_def UpdateHostPools_def ScheduleAccountForFunding_def InsertPoolAttachments_def MarkSharingPoolsAttached_def
        RecordFundingEvents_def rbind_eq_Inr Let_def split: if_splits)

lemma only_funding_frames: "only_funding d d' \<Longrightarrow> account_step d d' \<and> same_accounts d d'"
  by (auto simp: only_funding_def account_step_defs same_accounts_def sqlStatSelect_def)

lemma funding_tx_sound: "funding_tx C d d' \<Longrightarrow> sound d \<Longrightarrow> sound d'"
  using funding_tx_only only_funding_frames sound_account_step accounts_wf_frame soundD by metis

lemma settings_sound:
  assumes "sound d"
  shows "sound (d\<lparr>tGlobals := g\<rparr>)"
proof (rule sound_account_step[OF assms])
  show "account_step d (d\<lparr>tGlobals := g\<rparr>)" by (simp add: account_step_defs sqlStatSelect_def)
  have "same_accounts d (d\<lparr>tGlobals := g\<rparr>)" by (simp add: same_accounts_def)
  from accounts_wf_frame[OF this] assms show "accounts_wf (d\<lparr>tGlobals := g\<rparr>)" by (simp add: sound_def)
qed

lemma store_step_sound: "store_step C H P d d' \<Longrightarrow> sound d \<Longrightarrow> sound d'"
  by (auto simp: store_step_iff intro: sector_tx_sound slab_tx_sound contract_tx_sound host_tx_sound account_tx_sound funding_tx_sound settings_sound)

end
