(* ===== verification/Store_Runs.thy ===== *)
theory Store_Runs
  imports Store
begin

text \<open>
  Runs of the database: what holds after any sequence of transactions that starts with the
  empty database, and the abstract contract of the table of contracts that every run implements,
  a registry of versioned entries that are never dropped and never go back to an earlier version.
\<close>

section \<open>Simulations\<close>

text \<open>
  A transition system with an invariant whose steps are steps of a more abstract system, seen
  through \<open>view\<close>. The abstract relation is a preorder, so whole runs are abstract steps.
\<close>

locale simulation =
  fixes step :: "'s \<Rightarrow> 's \<Rightarrow> bool" and inv :: "'s \<Rightarrow> bool" and view :: "'s \<Rightarrow> 'a" and spec :: "'a \<Rightarrow> 'a \<Rightarrow> bool"
  assumes inv_step: "step s t \<Longrightarrow> inv s \<Longrightarrow> inv t"
    and spec_step: "step s t \<Longrightarrow> inv s \<Longrightarrow> spec (view s) (view t)"
    and spec_refl: "spec a a"
    and spec_trans: "spec a b \<Longrightarrow> spec b c \<Longrightarrow> spec a c"
begin

lemma run_inv: "step\<^sup>*\<^sup>* s t \<Longrightarrow> inv s \<Longrightarrow> inv t"
  by (induction rule: rtranclp_induct) (auto intro: inv_step)

lemma run_spec: "step\<^sup>*\<^sup>* s t \<Longrightarrow> inv s \<Longrightarrow> spec (view s) (view t)"
proof (induction rule: rtranclp_induct)
  case (step t u)
  have "inv t" using run_inv[OF step.hyps(1) step.prems] .
  with step show ?case by (blast intro: spec_trans spec_step)
qed (rule spec_refl)

end

section \<open>Versions of contracts\<close>

text \<open>The revision number the database holds for each contract.\<close>

definition revisions_of :: "db \<Rightarrow> contract_id \<rightharpoonup> u64" where
  "revisions_of d = map_of (contract_versions (tContracts d))"

text \<open>The abstract registry: entries may be added and may advance.\<close>

definition advances :: "(contract_id \<rightharpoonup> u64) \<Rightarrow> (contract_id \<rightharpoonup> u64) \<Rightarrow> bool" where
  "advances m m' \<longleftrightarrow> (\<forall>i n. m i = Some n \<longrightarrow> (\<exists>n'. m' i = Some n' \<and> n \<le> n'))"

lemma advances_refl [simp]: "advances m m"
  by (simp add: advances_def)

lemma advances_trans: "advances a b \<Longrightarrow> advances b c \<Longrightarrow> advances a c"
  unfolding advances_def by (meson order_trans)

lemma advances_same: "contract_versions (tContracts d') = contract_versions (tContracts d) \<Longrightarrow> advances (revisions_of d) (revisions_of d')"
  by (simp add: revisions_of_def)

lemma advances_contracts: "tContracts d' = tContracts d \<Longrightarrow> advances (revisions_of d) (revisions_of d')"
  by (simp add: revisions_of_def)

lemma advances_append: "contract_versions (tContracts d') = contract_versions (tContracts d) @ xs \<Longrightarrow> advances (revisions_of d) (revisions_of d')"
  by (auto simp: revisions_of_def advances_def map_of_append map_add_def)

lemma map_of_versions: "map_of (contract_versions cs) i = map_option ct_revision_number (find (\<lambda>c. ct_contract_id c = i) cs)"
  by (induction cs) (auto simp: contract_versions_def)

lemma versions_revise:
  assumes "\<And>c. ct_contract_id (g c) = ct_contract_id c"
  shows "map_of (contract_versions (update_rows (\<lambda>c. ct_contract_id c = i) g cs)) j =
    (if j = i then map_option (\<lambda>c. ct_revision_number (g c)) (find (\<lambda>c. ct_contract_id c = i) cs) else map_of (contract_versions cs) j)"
  using assms by (induction cs) (auto simp: contract_versions_def)

lemma updateHostUsage_contracts: "updateHostUsage C hk u d = Some (Inr (x, d')) \<Longrightarrow> tContracts d' = tContracts d"
  by (drule updateHostUsage_frame) auto

lemma UpdateContractRevision_advances:
  assumes "UpdateContractRevision C r u d = Some (Inr (x, d'))"
  shows "advances (revisions_of d) (revisions_of d')"
  using assms
proof (rule UpdateContractRevision_effect)
  fix c risked
  let ?g = "revise_row (Revision r) risked"
  assume c: "contract_by_id d (RevID r) = Some c" and lt: "ct_revision_number c < RevisionNumber (Revision r)"
    and u: "updateHostUsage C (HostPublicKey (Revision r)) u
      (d\<lparr>tContracts := update_rows (\<lambda>c. ct_contract_id c = RevID r) ?g (tContracts d)\<rparr>) = Some (Inr (x, d'))"
  have d': "tContracts d' = update_rows (\<lambda>c. ct_contract_id c = RevID r) ?g (tContracts d)" using updateHostUsage_contracts[OF u] by simp
  have f: "find (\<lambda>c. ct_contract_id c = RevID r) (tContracts d) = Some c" using c by (simp add: contract_by_id_def)
  have id: "ct_contract_id (?g c) = ct_contract_id c" for c by (simp add: revise_row_def)
  have "revisions_of d' j = (if j = RevID r then Some (RevisionNumber (Revision r)) else revisions_of d j)" for j
    unfolding revisions_of_def d' versions_revise[of ?g, OF id] f by (simp add: revise_row_def)
  moreover have "revisions_of d (RevID r) = Some (ct_revision_number c)" by (simp add: revisions_of_def map_of_versions f)
  ultimately show ?thesis using lt by (auto simp: advances_def less_imp_le)
qed

lemma AddFormedContract_advances:
  "AddFormedContract C now hk i r cp al mf u d = Some (Inr (x, d')) \<Longrightarrow> advances (revisions_of d) (revisions_of d')"
  by (erule AddFormedContract_effect) (drule updateHostUsage_contracts, rule advances_append, simp add: contract_versions_def)

lemma AddRenewedContract_advances:
  "AddRenewedContract C now rf rt r cp mf u d = Some (Inr (x, d')) \<Longrightarrow> advances (revisions_of d) (revisions_of d')"
  by (erule AddRenewedContract_effect)
     (drule updateHostUsage_contracts, rule advances_append, simp add: renew_db_def versions_update_rows, simp add: contract_versions_def)

lemma keeps_advances: "keeps_invs d d' \<Longrightarrow> advances (revisions_of d) (revisions_of d')"
  by (auto simp: keeps_invs_def only_contracts_def intro: advances_same)

lemma block_host_versions: "block_host now rs hk d = Inr d' \<Longrightarrow> contract_versions (tContracts d') = contract_versions (tContracts d)"
  by (auto simp: block_host_def upsert_blocked_def drop_unpinned_def incrementHostUnpinnedSectors_eq Let_def store_simps versions_update_rows
      split: option.splits if_splits)

lemma BlockHosts_versions: "BlockHosts now hks rs d = Inr (x, d') \<Longrightarrow> contract_versions (tContracts d') = contract_versions (tContracts d)"
  by (induction hks arbitrary: d) (auto simp: rbind_eq_Inr dest!: block_host_versions)

lemma host_tx_versions:
  assumes "host_tx P d d'"
  shows "contract_versions (tContracts d') = contract_versions (tContracts d)"
  using assms
proof cases
  case BlockHosts then show ?thesis by (rule BlockHosts_versions)
qed (auto simp: AddHostAnnouncement_def ImportHost_def upsert_host_def replace_addresses_def UnblockHost_def RemoveBlocklistReasons_def
    mark_good_def UpdateHostScan_def UpdateHostPrices_def ResetLostSectors_def HostsForIntegrityChecks_def UpdateStuckHosts_def PruneHosts_def
    incrementNumScans_def Let_def rbind_eq_Inr store_simps versions_update_rows split: option.splits if_splits)

lemma contract_tx_advances:
  assumes "contract_tx C d d'" and "sound d"
  shows "advances (revisions_of d) (revisions_of d')"
  using assms(1)
proof cases
  case UpdateContractRevision then show ?thesis by (rule UpdateContractRevision_advances)
next
  case AddFormedContract then show ?thesis by (rule AddFormedContract_advances)
next
  case AddRenewedContract then show ?thesis by (rule AddRenewedContract_advances)
next
  case DeleteContract then show ?thesis using DeleteContract_contracts_wf soundD[OF assms(2)] by (blast intro: advances_same)
qed (blast intro: keeps_advances contract_flags_keep PruneExpiredContractElements_keeps UpdateChainState_keeps)+

lemma sector_tx_contracts: "sector_tx d d' \<Longrightarrow> tContracts d' = tContracts d"
  by (erule sector_tx.cases)
     (auto simp: sector_step_def same_contracts_def dest!: MarkSectorsLost_step markFailingSectorsLostBatch_step recordIntegrityCheck_step
      SectorsForIntegrityCheck_step PinSectors_step markSectorsUnpinnableBatch_step MigrateSector_step PruneContractSectorsMap_step FlushStatsDelta_step)

lemma slab_tx_contracts: "slab_tx C H d d' \<Longrightarrow> tContracts d' = tContracts d"
  by (erule slab_tx.cases)
     (auto simp: same_contracts_def dest!: PinSlabs_contracts UnpinSlab_contracts PruneDeletedSlabs_contracts PinObject_contracts DeleteObject_contracts
      prune_slabs_batch_contracts MarkSlabRepaired_contracts DeleteAccount_contracts PruneAccounts_contracts)

lemma account_tx_contracts: "account_tx d d' \<Longrightarrow> tContracts d' = tContracts d"
  by (erule account_tx.cases) (auto simp: account_step_def same_sectors_def dest!: account_ops_step RegisterAppKey_step)

lemma funding_tx_contracts: "funding_tx C d d' \<Longrightarrow> tContracts d' = tContracts d"
  by (auto simp: only_funding_def dest!: funding_tx_only)

lemma store_step_advances: "store_step C H P d d' \<Longrightarrow> sound d \<Longrightarrow> advances (revisions_of d) (revisions_of d')"
  by (auto simp: store_step_iff intro: contract_tx_advances advances_same[OF host_tx_versions] advances_contracts
      sector_tx_contracts slab_tx_contracts account_tx_contracts funding_tx_contracts)

interpretation store: simulation "store_step C H P" sound revisions_of advances for C H P
  by unfold_locales (auto intro: store_step_sound store_step_advances advances_trans)

section \<open>What every run keeps\<close>

lemma empty_db_sound: "sound empty_db"
  by (simp add: sound_def store_inv_def sectors_wf_def keys_wf_def hosts_known_def pins_wf_def counters_wf_def contracts_wf_def elements_wf_def
      ref_inv_def slabs_wf_def objects_wf_def objects_pinned_def hosts_wf_def accounts_defs sqlStatSelect_def empty_db_def)

lemma reachable_sound: "(store_step C H P)\<^sup>*\<^sup>* empty_db d \<Longrightarrow> sound d"
  by (rule store.run_inv[OF _ empty_db_sound])

text \<open>
  Claim C1: whatever transactions of sectors, slabs, contracts, hosts and accounts run, in whatever
  order and with whatever arguments, the statistics of pinned, unpinned and unpinnable sectors and the
  number of unpinned sectors of every host are the true numbers.
\<close>

theorem reachable_counters_exact:
  assumes "(store_step C H P)\<^sup>*\<^sup>* empty_db d"
  shows "sqlStatSelect d statPinnedSectors = cnt is_pinned (tSectors d) \<and> sqlStatSelect d statUnpinnedSectors = cnt is_unpinned (tSectors d) \<and>
    sqlStatSelect d statUnpinnableSectors = cnt is_unpinnable (tSectors d) \<and>
    (\<forall>h \<in> set (tHosts d). h_unpinned_sectors h = cnt (unpinned_on (h_id h)) (tSectors d))"
  using reachable_sound[OF assms] by (simp add: sound_def store_inv_def counters_wf_def)

text \<open>
  Claim C3: in every reachable database a sector that is pinned to a contract is stored on the host of
  that contract, and the contract is in the database.
\<close>

theorem reachable_pins_on_host:
  assumes "(store_step C H P)\<^sup>*\<^sup>* empty_db d" "s \<in> set (tSectors d)" "sec_csm s = Some m"
  shows "\<exists>c \<in> set (tContracts d). contract_of_csm d m = Some c \<and> sec_host_id s = Some (ct_host_id c)"
proof -
  have "pinned_on_host d s" using reachable_sound[OF assms(1)] assms(2) by (simp add: sound_def store_inv_def pins_wf_def)
  with assms(3) obtain c where c: "contract_of_csm d m = Some c" "sec_host_id s = Some (ct_host_id c)" by (auto simp: pinned_on_host_def)
  then have "c \<in> set (tContracts d)" by (auto simp: contract_of_csm_def contract_by_id_def split: option.splits dest: find_SomeD)
  with c show ?thesis by blast
qed

text \<open>
  Claim C2: in every reachable database the slabs of an object are there and pinned by the
  account that owns the object: neither unpinning, pruning, deleting accounts nor the deletion of
  orphaned slabs takes a slab away that an object still needs.
\<close>

theorem reachable_objects_complete:
  assumes "(store_step C H P)\<^sup>*\<^sup>* empty_db d" "ob \<in> set (tObjects d)" "os \<in> set (tObjectSlabs d)" "os_object_id os = ob_id ob"
  shows "\<exists>r \<in> set (tSlabs d). sl_digest r = os_slab_digest os \<and> (ob_account_id ob, sl_id r) \<in> set (tAccountSlabs d)"
  using reachable_sound[OF assms(1)] assms(2-4) by (auto simp: sound_def ref_inv_def objects_pinned_def slab_pinned_by_def)

text \<open>
  Claim C17: every reachable database has the types of the model: contract rows that fit their
  columns and agree with their raw revision, hosts with an uptime strictly between 0 and 1, accounts,
  connect keys, pools, quotas and pre-authorized keys with valid references and non-negative amounts,
  and connect keys whose totals cover what their live accounts have pinned.
\<close>

theorem reachable_well_typed:
  assumes "(store_step C H P)\<^sup>*\<^sup>* empty_db d"
  shows "contracts_wf d \<and> hosts_wf d \<and> accounts_wf d"
  using reachable_sound[OF assms] by (simp add: sound_def)

text \<open>
  Claim C4: the table of contracts refines a registry of versions. Seen through the revision
  numbers, any run from a consistent database only adds contracts and advances revision numbers: no
  transaction drops a contract or stores an older revision over a newer one.
\<close>

theorem runs_advance_revisions:
  assumes "(store_step C H P)\<^sup>*\<^sup>* d d'" "sound d"
  shows "advances (revisions_of d) (revisions_of d')"
  using assms by (rule store.run_spec)

section \<open>A run\<close>

text \<open>
  A host is imported and given a contract, a quota, a connect key and an account are made, a slab is
  pinned, one of its sectors is pinned to the contract and an object is stored in the slab.
\<close>

definition sample_protocols :: protocols where
  "sample_protocols = \<lparr>siamuxProtocol = ''siamux'', quicProtocol = ''quic''\<rparr>"

definition sample_object :: pin_object_request where
  "sample_object = \<lparr>ObjectID = 3, EncryptedDataKey = replicate 72 1, EncryptedMetadataKey = [], EncryptedMetadata = [],
     DataSignature = replicate 64 2, MetadataSignature = replicate 64 3,
     ObjSlabs = [\<lparr>ObjSlabID = Digest plain_hasher small_slab, ObjOffset = 0, ObjLength = 10\<rparr>]\<rparr>"

definition sample_meta :: app_meta where
  "sample_meta = \<lparr>MetaID = 8, MetaName = [], MetaDescription = [], MetaLogoURL = [], MetaServiceURL = []\<rparr>"

definition sample_run :: "db result" where
  "sample_run =
     rbind (ImportHost sample_protocols 1 11 [] empty_db) (\<lambda>(_, d).
     rbind (PutQuota ''default'' \<lparr>QuotaDescription = [], QuotaMaxData = 100000000000, QuotaTotalUses = 2, QuotaFundTargetBytes = Some 1\<rparr> d) (\<lambda>(_, d).
     rbind (AddAppConnectKey 2 5 9 \<lparr>ReqKey = ''key'', ReqDescription = [], ReqQuota = ''default''\<rparr> d) (\<lambda>(_, d).
     rbind (RegisterAppKey 3 ''key'' 41 sample_meta d) (\<lambda>(_, d).
     case AddFormedContract sample_core 4 11 21 sample_fc 0 0 0 (plain_usage 5 0) d of None \<Rightarrow> Inl ErrNoRows | Some r \<Rightarrow>
     rbind r (\<lambda>(_, d).
     rbind (PinSlabs sample_core plain_hasher 5 41 9 [small_slab] d) (\<lambda>(_, d).
     rbind (PinSectors 21 [41] d) (\<lambda>(_, d).
     rbind (PinObject 6 41 sample_object d) (\<lambda>(_, d). Inr d))))))))"

lemma run_rbind:
  assumes "rbind r f = Inr d" "\<And>x d1. r = Inr (x, d1) \<Longrightarrow> step d0 d1" "\<And>x d1. f (x, d1) = Inr d \<Longrightarrow> step\<^sup>*\<^sup>* d1 d"
  shows "step\<^sup>*\<^sup>* d0 d"
  using assms by (cases r) (auto intro: converse_rtranclp_into_rtranclp)

lemma run_outcome:
  assumes "(case u of None \<Rightarrow> Inl e | Some r \<Rightarrow> rbind r f) = Inr d" "\<And>x d1. u = Some (Inr (x, d1)) \<Longrightarrow> step d0 d1"
    "\<And>x d1. f (x, d1) = Inr d \<Longrightarrow> step\<^sup>*\<^sup>* d1 d"
  shows "step\<^sup>*\<^sup>* d0 d"
  using assms by (cases u) (auto intro: run_rbind)

lemma sample_run_reachable:
  "sample_run = Inr d \<Longrightarrow> (store_step sample_core plain_hasher sample_protocols)\<^sup>*\<^sup>* empty_db d"
  unfolding sample_run_def
  by ((erule run_rbind | erule run_outcome),
      blast intro: store_step.intros host_tx.intros account_tx.intros contract_tx.intros slab_tx.intros sector_tx.intros, unfold prod.case)+ simp

lemma sample_run_result:
  "\<exists>d. sample_run = Inr d \<and> (\<exists>s \<in> set (tSectors d). sec_csm s = Some 1) \<and>
     (\<exists>ob \<in> set (tObjects d). \<exists>os \<in> set (tObjectSlabs d). os_object_id os = ob_id ob)"
  unfolding sample_run_def sample_protocols_def sample_meta_def
  by (simp add: ImportHost_def upsert_host_def new_host_row_def replace_addresses_def PutQuota_def quota_columns_ok_def quota_by_name_def
      int8_ok_def int32_ok_def AddAppConnectKey_def key_by_name_def empty_db_def RegisterAppKey_def keys_join_def addAccount_def account_by_key_def
      remaining_uses_def live_of_def store_simps AddFormedContract_def host_id_of_def insert_contract_def
      Let_def formed_row_def insert_csm_def csm_by_contract_def contract_defs updateHostUsage_def sample_core_usage sample_fc_def incrementStat_def
      PinSlabs_def valid_min_shards_def small_slab_def pin_slab_def upsert_slab_def smallint_ok_def insert_account_slab_def upsert_sector_def
      good_host_def contract_active_def record_unpinned_def incrementHostsUnpinnedSectors_def incrementHostUnpinnedSectors_def sample_core_def
      charge_account_def charge_connect_key_def new_account_row_def PinSectors_def scanSectorIDs_def record_pinned_def
      PinObject_def accountID_def assertObjectNotBlocked_def upsert_object_def object_row_ok_def nullable_def upsert_event_def sample_object_def)

lemma reachable_counters_exact_witness:
  "\<exists>d. sample_run = Inr d \<and> sqlStatSelect d statPinnedSectors = cnt is_pinned (tSectors d) \<and> tSectors d \<noteq> []"
  using sample_run_result reachable_counters_exact[OF sample_run_reachable] by fastforce

lemma reachable_pins_on_host_witness:
  "\<exists>d s c. sample_run = Inr d \<and> s \<in> set (tSectors d) \<and> c \<in> set (tContracts d) \<and> sec_host_id s = Some (ct_host_id c)"
  using sample_run_result reachable_pins_on_host[OF sample_run_reachable] by blast

lemma reachable_objects_complete_witness:
  "\<exists>d ob r. sample_run = Inr d \<and> ob \<in> set (tObjects d) \<and> r \<in> set (tSlabs d) \<and> (ob_account_id ob, sl_id r) \<in> set (tAccountSlabs d)"
  using sample_run_result reachable_objects_complete[OF sample_run_reachable] by blast

lemma reachable_well_typed_witness: "\<exists>d. sample_run = Inr d \<and> tSectors d \<noteq> [] \<and> contracts_wf d \<and> accounts_wf d"
  using sample_run_result reachable_well_typed[OF sample_run_reachable] by fastforce

lemma sample_accounts_sound: "sound sample_accounts_db"
proof -
  have "store_inv sample_accounts_db" "contracts_wf sample_accounts_db" "hosts_wf sample_accounts_db"
    using sample_hosts_db_inv store_inv_same_sectors[of sample_hosts_db sample_accounts_db] contracts_wf_frame[of sample_accounts_db sample_hosts_db]
      hosts_wf_same[of sample_hosts_db sample_accounts_db]
    by (simp_all add: host_inv_def sample_accounts_db_def same_sectors_def same_hosts_def sqlStatSelect_def)
  moreover have "ref_inv sample_accounts_db"
    by (simp add: ref_inv_def slabs_wf_def objects_wf_def objects_pinned_def sample_accounts_db_def sample_hosts_db_def sample_defs)
  ultimately show ?thesis using sample_accounts_wf by (simp add: sound_def)
qed

lemma runs_advance_revisions_witness:
  "\<exists>d' n. UpdateContractRevision sample_core sample_revision (plain_usage 5 0) sample_accounts_db = Some (Inr ((), d')) \<and>
     revisions_of sample_accounts_db 21 = Some 1 \<and> revisions_of d' 21 = Some n \<and> 1 \<le> n"
proof -
  obtain d' where u: "UpdateContractRevision sample_core sample_revision (plain_usage 5 0) sample_accounts_db = Some (Inr ((), d'))"
    by (simp add: UpdateContractRevision_def Let_def word_le_nat_alt contract_defs sample_core_usage sample_accounts_db_def sample_hosts_db_def sample_defs
        sample_revision_def sample_fc_def revise_row_def updateHostUsage_def)
  then have "(store_step sample_core plain_hasher sample_protocols)\<^sup>*\<^sup>* sample_accounts_db d'"
    by (blast intro: store_step.intros contract_tx.intros)
  from runs_advance_revisions[OF this sample_accounts_sound]
  have "advances (revisions_of sample_accounts_db) (revisions_of d')" .
  moreover have "revisions_of sample_accounts_db 21 = Some 1"
    by (simp add: revisions_of_def contract_versions_def sample_accounts_db_def sample_hosts_db_def sample_defs)
  ultimately show ?thesis using u by (auto simp: advances_def)
qed

end
