(* ===== verification/Loops.thy ===== *)
theory Loops
  imports Main
begin

text \<open>
  Loops that drain a backlog: many loops of the managers fetch a batch of work, do it, and go on until
  a fetched batch is not full. The interface of such a loop is that an iteration either gives the result or leaves
  less work and passes on; then fuel beyond the work is enough for the result.
\<close>

text \<open>A loop with fuel: it ran out of fuel, it panicked, or it returned.\<close>

datatype 'a run = OutOfFuel | Panic | Done 'a

locale draining_loop =
  fixes run :: "nat \<Rightarrow> 's \<Rightarrow> 'r" and good :: "'s \<Rightarrow> bool" and work :: "'s \<Rightarrow> nat" and result :: "'s \<Rightarrow> 'r \<Rightarrow> bool"
  assumes iteration: "good s \<Longrightarrow> result s (run (Suc fuel) s) \<or>
    (\<exists>s'. good s' \<and> work s' < work s \<and> run (Suc fuel) s = run fuel s' \<and> (\<forall>r. result s' r \<longrightarrow> result s r))"
begin

lemma drains: "good s \<Longrightarrow> work s < fuel \<Longrightarrow> result s (run fuel s)"
proof (induction fuel arbitrary: s)
  case (Suc fuel)
  from iteration[OF Suc.prems(1), of fuel] show ?case
  proof
    assume "\<exists>s'. good s' \<and> work s' < work s \<and> run (Suc fuel) s = run fuel s' \<and> (\<forall>r. result s' r \<longrightarrow> result s r)"
    then obtain s' where s': "good s'" "work s' < work s" "run (Suc fuel) s = run fuel s'" "\<And>r. result s' r \<Longrightarrow> result s r" by blast
    have "result s' (run fuel s')" using s'(2) Suc.prems(2) by (intro Suc.IH[OF s'(1)]) simp
    with s' show ?thesis by simp
  qed
qed simp

end

end
