(* ===== verification/Chain_Actions.thy ===== *)
theory Chain_Actions
  imports Chain_Update Loops "HOL-Library.Sublist"
begin

text \<open>
  What the contract manager does with the wallet: after a sync it rejects old pending contracts, broadcasts
  resolutions of expired contracts and prunes them (contracts/chain.go), and from time to time it broadcasts the
  latest revisions of the contracts (contracts/broadcast.go).

  The wallet and the chain manager belong to go.sia.tech/coreutils. They are functions over a state \<open>'w\<close>; an input of
  a transaction is an \<open>'i\<close>, and \<open>'b\<close> is the basis of a transaction set.
\<close>

section \<open>The wallet\<close>

record 'i v2_transaction =
  MinerFee :: currency
  FileContractResolutions :: "(contract_element_row \<times> resolution) list"
  FileContractRevisions :: "(contract_element_row \<times> v2_contract) list"
  SiacoinInputs :: "'i list"

record ('w, 'b, 'i) contract_wallet =
  RecommendedFee :: "'w \<Rightarrow> currency"
  FundV2Transaction :: "'i v2_transaction \<Rightarrow> currency \<Rightarrow> 'w \<Rightarrow> ('b \<times> nat list \<times> 'i v2_transaction) result \<times> 'w"
  SignV2Inputs :: "'i v2_transaction \<Rightarrow> nat list \<Rightarrow> 'i v2_transaction"
  V2TransactionSet :: "'b \<Rightarrow> 'i v2_transaction \<Rightarrow> 'w \<Rightarrow> ('b \<times> 'i v2_transaction list) result"
  BroadcastV2TransactionSet :: "'b \<Rightarrow> 'i v2_transaction list \<Rightarrow> 'w \<Rightarrow> unit result \<times> 'w"
  ReleaseInputs :: "'i v2_transaction list \<Rightarrow> 'w \<Rightarrow> 'w"

section \<open>Actions after a sync\<close>

definition contractResolutionTxnWeight :: u64 where
  "contractResolutionTxnWeight = 1000"

definition broadcast_expired :: "('w, 'b, 'i) contract_wallet \<Rightarrow> currency \<Rightarrow> contract_element_row \<Rightarrow> 'w \<Rightarrow> 'w" where
  "broadcast_expired W fee fce w =
     (case FundV2Transaction W \<lparr>MinerFee = fee, FileContractResolutions = [(fce, V2FileContractExpiration)], FileContractRevisions = [],
             SiacoinInputs = []\<rparr> fee w of
        (Inl _, w) \<Rightarrow> w
      | (Inr (basis, toSign, txn), w) \<Rightarrow>
          let txn = SignV2Inputs W txn toSign in
          (case V2TransactionSet W basis txn w of
             Inl _ \<Rightarrow> ReleaseInputs W [txn] w
           | Inr (basis, txnSet) \<Rightarrow>
               (case BroadcastV2TransactionSet W basis txnSet w of
                  (Inl _, w) \<Rightarrow> ReleaseInputs W [txn] w
                | (Inr _, w) \<Rightarrow> w)))"

fun broadcastExpired_loop :: "core_ops \<Rightarrow> ('w, 'b, 'i) contract_wallet \<Rightarrow> contract_element_row list \<Rightarrow> 'w \<Rightarrow> 'w option" where
  "broadcastExpired_loop C W [] w = Some w"
| "broadcastExpired_loop C W (fce # fces) w =
     Option.bind (cMul64 C (RecommendedFee W w) contractResolutionTxnWeight) (\<lambda>fee.
       broadcastExpired_loop C W fces (broadcast_expired W fee fce w))"

text \<open>The scan is the order in which the database returns the elements.\<close>

definition broadcastExpiredContracts ::
  "core_ops \<Rightarrow> ('w, 'b, 'i) contract_wallet \<Rightarrow> (contract_element_row list \<Rightarrow> contract_element_row list) \<Rightarrow> u64 \<Rightarrow> db \<Rightarrow> 'w \<Rightarrow> 'w option" where
  "broadcastExpiredContracts C W scan expiredContractBroadcastBuffer d w =
     broadcastExpired_loop C W (ContractElementsForBroadcast scan expiredContractBroadcastBuffer d) w"

record chain_action_settings =
  contractRejectBuffer :: duration
  expiredContractBroadcastBuffer :: u64
  expiredContractPruneBuffer :: u64
  expiredContractSectorsPruneBuffer :: u64

text \<open>Each store call is a transaction of its own: when one fails, those before it stay.\<close>

definition ProcessActions ::
  "core_ops \<Rightarrow> ('w, 'b, 'i) contract_wallet \<Rightarrow> (contract_element_row list \<Rightarrow> contract_element_row list) \<Rightarrow> chain_action_settings \<Rightarrow> gotime \<Rightarrow>
     db \<Rightarrow> 'w \<Rightarrow> (unit result \<times> db \<times> 'w) option" where
  "ProcessActions C W scan m now d w =
     (case RejectPendingContracts (now - contractRejectBuffer m) d of
        Inl e \<Rightarrow> Some (Inl e, d, w)
      | Inr (_, d) \<Rightarrow>
          Option.bind (broadcastExpiredContracts C W scan (expiredContractBroadcastBuffer m) d w) (\<lambda>w.
            case PruneExpiredContractElements (expiredContractBroadcastBuffer m + expiredContractPruneBuffer m) d of
              Inl e \<Rightarrow> Some (Inl e, d, w)
            | Inr (_, d) \<Rightarrow>
                (case PruneContractSectorsMap (expiredContractSectorsPruneBuffer m) d of
                   Inl e \<Rightarrow> Some (Inl e, d, w)
                 | Inr (_, d) \<Rightarrow> Some (Inr (), d, w))))"

section \<open>Broadcasting revisions\<close>

definition stdTxnSize :: u64 where
  "stdTxnSize = 1000"

definition broadcast_revision :: "('w, 'b, 'i) contract_wallet \<Rightarrow> currency \<Rightarrow> contract_element_row \<Rightarrow> v2_contract \<Rightarrow> 'w \<Rightarrow> 'w" where
  "broadcast_revision W fee fce revision w =
     (case FundV2Transaction W \<lparr>MinerFee = fee, FileContractResolutions = [], FileContractRevisions = [(fce, revision)], SiacoinInputs = []\<rparr> fee w of
        (Inl _, w) \<Rightarrow> w
      | (Inr (basis, toSign, txn), w) \<Rightarrow>
          let txnSet = [SignV2Inputs W txn toSign] in
          (case BroadcastV2TransactionSet W basis txnSet w of
             (Inl _, w) \<Rightarrow> ReleaseInputs W txnSet w
           | (Inr _, w) \<Rightarrow> w))"

definition broadcastContractRevision :: "core_ops \<Rightarrow> ('w, 'b, 'i) contract_wallet \<Rightarrow> contract_id \<Rightarrow> db \<Rightarrow> 'w \<Rightarrow> (unit result \<times> 'w) option" where
  "broadcastContractRevision C W contractID d w =
     (case ContractElement contractID d of
        Inl e \<Rightarrow> Some (Inl e, w)
      | Inr fce \<Rightarrow>
          (case ContractRevision contractID d of
             Inl e \<Rightarrow> Some (Inl e, w)
           | Inr (contract, _) \<Rightarrow>
               Option.bind (cMul64 C (RecommendedFee W w) stdTxnSize) (\<lambda>fee. Some (Inr (), broadcast_revision W fee fce (Revision contract) w))))"

text \<open>Errors are only logged.\<close>

fun broadcast_batch :: "core_ops \<Rightarrow> ('w, 'b, 'i) contract_wallet \<Rightarrow> gotime \<Rightarrow> contract_id list \<Rightarrow> db \<Rightarrow> 'w \<Rightarrow> (db \<times> 'w) option" where
  "broadcast_batch C W now [] d w = Some (d, w)"
| "broadcast_batch C W now (contractID # contractIDs) d w =
     Option.bind (broadcastContractRevision C W contractID d w) (\<lambda>(_, w).
       broadcast_batch C W now contractIDs (case MarkBroadcastAttempt now contractID d of Inl _ \<Rightarrow> d | Inr (_, d) \<Rightarrow> d) w)"

fun broadcast_batches ::
  "nat \<Rightarrow> core_ops \<Rightarrow> ('w, 'b, 'i) contract_wallet \<Rightarrow> (contract_row list \<Rightarrow> contract_row list) \<Rightarrow> gotime \<Rightarrow> gotime \<Rightarrow> db \<Rightarrow> 'w \<Rightarrow> (db \<times> 'w) run" where
  "broadcast_batches 0 C W scan now minBroadcast d w = OutOfFuel"
| "broadcast_batches (Suc fuel) C W scan now minBroadcast d w =
     (let contracts = ContractsForBroadcasting scan minBroadcast 10 d
      in case broadcast_batch C W now contracts d w of
           None \<Rightarrow> Panic
         | Some (d, w) \<Rightarrow> if length contracts < 10 then Done (d, w) else broadcast_batches fuel C W scan now minBroadcast d w)"

definition performBroadcastContractRevisions ::
  "nat \<Rightarrow> core_ops \<Rightarrow> ('w, 'b, 'i) contract_wallet \<Rightarrow> (contract_row list \<Rightarrow> contract_row list) \<Rightarrow> duration \<Rightarrow> gotime \<Rightarrow> db \<Rightarrow> 'w \<Rightarrow> (db \<times> 'w) run" where
  "performBroadcastContractRevisions fuel C W scan revisionBroadcastInterval now d w =
     broadcast_batches fuel C W scan now (now - revisionBroadcastInterval) d w"

section \<open>What the wallet promises\<close>

text \<open>What a transaction does with contracts; proofs of the elements may be updated on the way.\<close>

definition contract_actions :: "'i v2_transaction \<Rightarrow> (contract_id \<times> resolution) list \<times> (contract_id \<times> v2_contract) list" where
  "contract_actions t = (map (\<lambda>(fce, r). (ce_contract_id fce, r)) (FileContractResolutions t),
     map (\<lambda>(fce, r). (ce_contract_id fce, r)) (FileContractRevisions t))"

text \<open>
  \<open>spends t\<close> are the outputs that a transaction spends, \<open>locked w\<close> the outputs the wallet has set aside and \<open>pool w\<close> the
  transaction sets it has broadcast. Funding sets unlocked outputs aside, signing only adds signatures, the last
  transaction of a set is the one the set was made for, a failed call changes nothing, and releasing
  gives back exactly the outputs of the released transactions.
\<close>

definition wallet_ok :: "('w, 'b, 'i) contract_wallet \<Rightarrow> ('i v2_transaction \<Rightarrow> 'c set) \<Rightarrow> ('w \<Rightarrow> 'c set) \<Rightarrow> ('w \<Rightarrow> 'i v2_transaction list list) \<Rightarrow> bool" where
  "wallet_ok W spends locked pool \<longleftrightarrow>
     (\<forall>t fee w r w'. FundV2Transaction W t fee w = (r, w') \<longrightarrow> pool w' = pool w \<and>
        (case r of Inl _ \<Rightarrow> locked w' = locked w
         | Inr (_, _, t') \<Rightarrow> contract_actions t' = contract_actions t \<and> spends t' \<inter> locked w = {} \<and> locked w' = locked w \<union> spends t')) \<and>
     (\<forall>t toSign. contract_actions (SignV2Inputs W t toSign) = contract_actions t \<and> spends (SignV2Inputs W t toSign) = spends t) \<and>
     (\<forall>b t w b' ts. V2TransactionSet W b t w = Inr (b', ts) \<longrightarrow>
        ts \<noteq> [] \<and> contract_actions (last ts) = contract_actions t \<and> spends (last ts) = spends t) \<and>
     (\<forall>b ts w r w'. BroadcastV2TransactionSet W b ts w = (r, w') \<longrightarrow> locked w' = locked w \<and>
        pool w' = (case r of Inl _ \<Rightarrow> pool w | Inr _ \<Rightarrow> pool w @ [ts])) \<and>
     (\<forall>ts w. pool (ReleaseInputs W ts w) = pool w \<and> locked (ReleaseInputs W ts w) = locked w - (\<Union>t \<in> set ts. spends t))"

definition wallet_never_fails :: "('w, 'b, 'i) contract_wallet \<Rightarrow> bool" where
  "wallet_never_fails W \<longleftrightarrow> (\<forall>t fee w. is_ok (fst (FundV2Transaction W t fee w))) \<and> (\<forall>b t w. is_ok (V2TransactionSet W b t w)) \<and>
     (\<forall>b ts w. is_ok (fst (BroadcastV2TransactionSet W b ts w)))"

text \<open>Between two states of the wallet the given sets were broadcast, and only their outputs were set aside.\<close>

definition broadcasts :: "('i v2_transaction \<Rightarrow> 'c set) \<Rightarrow> ('w \<Rightarrow> 'c set) \<Rightarrow> ('w \<Rightarrow> 'i v2_transaction list list) \<Rightarrow> 'w \<Rightarrow> 'i v2_transaction list list \<Rightarrow> 'w \<Rightarrow> bool" where
  "broadcasts spends locked pool w sets w' \<longleftrightarrow> pool w' = pool w @ sets \<and> locked w' = locked w \<union> (\<Union>ts \<in> set sets. spends (last ts))"

lemma broadcasts_Nil [simp]: "broadcasts spends locked pool w [] w' \<longleftrightarrow> pool w' = pool w \<and> locked w' = locked w"
  by (simp add: broadcasts_def)

lemma broadcasts_append: "broadcasts spends locked pool w xs w1 \<Longrightarrow> broadcasts spends locked pool w1 ys w2 \<Longrightarrow> broadcasts spends locked pool w (xs @ ys) w2"
  by (auto simp: broadcasts_def)

lemma wallet_okD:
  assumes "wallet_ok W spends locked pool"
  shows "FundV2Transaction W t fee w = (Inl e, w') \<Longrightarrow> locked w' = locked w \<and> pool w' = pool w"
    and "FundV2Transaction W t fee w = (Inr (b, toSign, t'), w') \<Longrightarrow>
      contract_actions t' = contract_actions t \<and> spends t' \<inter> locked w = {} \<and> locked w' = locked w \<union> spends t' \<and> pool w' = pool w"
    and "contract_actions (SignV2Inputs W t toSign) = contract_actions t \<and> spends (SignV2Inputs W t toSign) = spends t"
    and "V2TransactionSet W b t w = Inr (b', ts) \<Longrightarrow> contract_actions (last ts) = contract_actions t \<and> spends (last ts) = spends t"
    and "BroadcastV2TransactionSet W b ts w = (Inl e, w') \<Longrightarrow> locked w' = locked w \<and> pool w' = pool w"
    and "BroadcastV2TransactionSet W b ts w = (Inr u, w') \<Longrightarrow> locked w' = locked w \<and> pool w' = pool w @ [ts]"
    and "pool (ReleaseInputs W ts w) = pool w \<and> locked (ReleaseInputs W ts w) = locked w - (\<Union>t \<in> set ts. spends t)"
  using assms unfolding wallet_ok_def by (fastforce split: sum.splits)+

lemma wallet_never_failsD:
  assumes "wallet_never_fails W"
  shows "FundV2Transaction W t fee w \<noteq> (Inl e, w')" "V2TransactionSet W b t w \<noteq> Inl e" "BroadcastV2TransactionSet W b ts w \<noteq> (Inl e, w')"
  using assms unfolding wallet_never_fails_def by (metis fst_conv is_ok_simps(1))+

lemma broadcast_expired_sends:
  assumes ok: "wallet_ok W spends locked pool"
  obtains sets where "broadcasts spends locked pool w sets (broadcast_expired W fee fce w)"
    "sets = [] \<or> (\<exists>ts. sets = [ts] \<and> contract_actions (last ts) = ([(ce_contract_id fce, V2FileContractExpiration)], []))"
    "wallet_never_fails W \<longrightarrow> sets \<noteq> []"
proof -
  let ?t = "\<lparr>MinerFee = fee, FileContractResolutions = [(fce, V2FileContractExpiration)], FileContractRevisions = [], SiacoinInputs = []\<rparr>"
  note D = wallet_okD[OF ok]
  obtain r w1 where fund: "FundV2Transaction W ?t fee w = (r, w1)" by fastforce
  show ?thesis
  proof (cases r)
    case (Inl e)
    with fund D(1)[of ?t fee w e w1] show ?thesis
      by (intro that[of "[]"]) (auto simp: broadcast_expired_def dest: wallet_never_failsD)
  next
    case (Inr x)
    obtain b toSign t where x: "x = (b, toSign, t)" by (metis surj_pair)
    let ?s = "SignV2Inputs W t toSign"
    have f: "contract_actions t = ([(ce_contract_id fce, V2FileContractExpiration)], [])" "spends ?s \<inter> locked w = {}"
        "locked w1 = locked w \<union> spends ?s" "pool w1 = pool w" "contract_actions ?s = contract_actions t"
      using D(2)[of ?t fee w b toSign t w1] D(3)[of t toSign] fund Inr x by (simp_all add: contract_actions_def)
    have undone: "broadcasts spends locked pool w [] (ReleaseInputs W [?s] w')" if "locked w' = locked w1" "pool w' = pool w1" for w'
      using D(7)[of "[?s]" w'] that f by auto
    show ?thesis
    proof (cases "V2TransactionSet W b ?s w1")
      case set: (Inl e)
      with fund Inr x undone[of w1] show ?thesis
        by (intro that[of "[]"]) (auto simp: broadcast_expired_def dest: wallet_never_failsD)
    next
      case set: (Inr y)
      obtain b' ts where y: "y = (b', ts)" by fastforce
      obtain z w2 where bc: "BroadcastV2TransactionSet W b' ts w1 = (z, w2)" by fastforce
      show ?thesis
      proof (cases z)
        case z: (Inl e)
        with fund Inr x set y bc undone[of w2] D(5)[of b' ts w1 e w2] show ?thesis
          by (intro that[of "[]"]) (auto simp: broadcast_expired_def dest: wallet_never_failsD)
      next
        case z: (Inr u)
        have "broadcast_expired W fee fce w = w2" using fund Inr x set y bc z by (simp add: broadcast_expired_def)
        moreover have "contract_actions (last ts) = contract_actions ?s" "spends (last ts) = spends ?s" using D(4)[of b ?s w1 b' ts] set y by simp_all
        ultimately show ?thesis using D(6)[of b' ts w1 u w2] bc z f by (intro that[of "[ts]"]) (auto simp: broadcasts_def)
      qed
    qed
  qed
qed

lemma broadcastExpired_sends:
  assumes ok: "wallet_ok W spends locked pool"
  shows "broadcastExpired_loop C W fces w = Some w' \<Longrightarrow> \<exists>sets. broadcasts spends locked pool w sets w' \<and>
    subseq (map (\<lambda>ts. contract_actions (last ts)) sets) (map (\<lambda>fce. ([(ce_contract_id fce, V2FileContractExpiration)], [])) fces) \<and>
    (wallet_never_fails W \<longrightarrow> length sets = length fces)"
proof (induction fces arbitrary: w)
  case (Cons fce fces)
  then obtain fee where loop: "broadcastExpired_loop C W fces (broadcast_expired W fee fce w) = Some w'" by (auto simp: bind_eq_Some_conv)
  from ok obtain one where one: "broadcasts spends locked pool w one (broadcast_expired W fee fce w)"
    "one = [] \<or> (\<exists>ts. one = [ts] \<and> contract_actions (last ts) = ([(ce_contract_id fce, V2FileContractExpiration)], []))"
    "wallet_never_fails W \<longrightarrow> one \<noteq> []" by (rule broadcast_expired_sends)
  from Cons.IH[OF loop] obtain sets where sets: "broadcasts spends locked pool (broadcast_expired W fee fce w) sets w'"
    "subseq (map (\<lambda>ts. contract_actions (last ts)) sets) (map (\<lambda>fce. ([(ce_contract_id fce, V2FileContractExpiration)], [])) fces)"
    "wallet_never_fails W \<longrightarrow> length sets = length fces" by blast
  from broadcasts_append[OF one(1) sets(1)] one(2,3) sets(2,3) show ?case by (intro exI[of _ "one @ sets"]) auto
qed (auto intro: exI[of _ "[]"])

lemma delete_csms_contracts: "delete_csms ms d = Inr d' \<Longrightarrow> tContracts d' = tContracts d \<and> tElements d' = tElements d"
  by (induction ms arbitrary: d) (auto simp: rbind_eq_Inr delete_csm_def split: if_splits)

lemma PruneContractSectorsMap_contracts:
  "PruneContractSectorsMap n d = Inr (x, d') \<Longrightarrow> tContracts d' = tContracts d \<and> tElements d' = tElements d"
  by (auto simp: PruneContractSectorsMap_def Let_def rbind_eq_Inr incrementStat_def split: if_splits dest!: delete_csms_contracts)

text \<open>The database after old pending contracts were rejected.\<close>

definition rejected_pending :: "gotime \<Rightarrow> db \<Rightarrow> db" where
  "rejected_pending maxFormation d = d\<lparr>tContracts := update_rows (\<lambda>c. ct_state c = ContractStatePending \<and> ct_formation c < maxFormation)
     (\<lambda>c. c\<lparr>ct_state := ContractStateRejected\<rparr>) (tContracts d)\<rparr>"

lemma rejected_pending_keeps: "keeps_invs d (rejected_pending t d)"
  unfolding rejected_pending_def by (rule keeps_invs_update_contract) (auto simp: row_wf_defs)

lemma rejected_pending_elements: "ContractElementsForBroadcast scan b (rejected_pending t d) = ContractElementsForBroadcast scan b d"
proof -
  have "contract_by_id (rejected_pending t d) i = map_option (\<lambda>c. if ct_state c = ContractStatePending \<and> ct_formation c < t
      then c\<lparr>ct_state := ContractStateRejected\<rparr> else c) (contract_by_id d i)" for i
    unfolding rejected_pending_def by (rule find_update_contract) simp
  then show ?thesis unfolding ContractElementsForBroadcast_def
    by (auto simp: rejected_pending_def split: option.splits intro!: filter_cong arg_cong[of _ _ scan])
qed

lemma rejected_pending_none: "\<forall>c \<in> set (tContracts (rejected_pending t d)). ct_state c = ContractStatePending \<longrightarrow> t \<le> ct_formation c"
  by (auto simp: rejected_pending_def ball_update_rows not_less)

lemma ProcessActions_cases:
  assumes "ProcessActions C W scan m now d w = Some (res, d', w')"
  obtains d2 where "broadcastExpired_loop C W (ContractElementsForBroadcast scan (expiredContractBroadcastBuffer m) d) w = Some w'"
    "keeps_invs d d2" "tContracts d2 = tContracts (rejected_pending (now - contractRejectBuffer m) d)"
    "d' = d2 \<or> PruneContractSectorsMap (expiredContractSectorsPruneBuffer m) d2 = Inr ((), d')"
proof -
  let ?d1 = "rejected_pending (now - contractRejectBuffer m) d"
  let ?elements = "PruneExpiredContractElements (expiredContractBroadcastBuffer m + expiredContractPruneBuffer m) ?d1"
  have rj: "RejectPendingContracts (now - contractRejectBuffer m) d = Inr ((), ?d1)" by (simp add: RejectPendingContracts_def rejected_pending_def)
  obtain d2 where el: "?elements = Inr ((), d2)" by (simp add: PruneExpiredContractElements_def)
  have "keeps_invs d d2" using keeps_invs_trans[OF rejected_pending_keeps PruneExpiredContractElements_keeps[OF el]] .
  moreover have "tContracts d2 = tContracts ?d1" using el by (auto simp: PruneExpiredContractElements_def)
  moreover from assms obtain w1 where "broadcastExpired_loop C W (ContractElementsForBroadcast scan (expiredContractBroadcastBuffer m) d) w = Some w1"
    and rest: "(case PruneContractSectorsMap (expiredContractSectorsPruneBuffer m) d2 of Inl e \<Rightarrow> Some (Inl e, d2, w1) | Inr (_, d) \<Rightarrow> Some (Inr (), d, w1)) = Some (res, d', w')"
    by (auto simp: ProcessActions_def rj el broadcastExpiredContracts_def rejected_pending_elements bind_eq_Some_conv)
  moreover from rest have "w1 = w'" "d' = d2 \<or> PruneContractSectorsMap (expiredContractSectorsPruneBuffer m) d2 = Inr ((), d')"
    by (auto split: sum.splits prod.splits)
  ultimately show ?thesis using that by blast
qed

text \<open>
  Claim C31: the actions after a sync never leave wallet outputs locked for nothing: whatever fails, the outputs that are
  locked afterwards are those that were locked before and those that the broadcast transactions spend. Every
  broadcast transaction resolves an expired contract of the list the database returned as expired, in order and
  each contract at most once; all of them when no call of the wallet fails. Afterwards no pending contract is older than the buffer
  and the sector counters and contract rows are still consistent.
\<close>

theorem ProcessActions_spec:
  assumes "ProcessActions C W scan m now d w = Some (res, d', w')" and "wallet_ok W spends locked pool" and "store_inv d" and "contracts_wf d"
  shows "(\<exists>sets. pool w' = pool w @ sets \<and> locked w' = locked w \<union> (\<Union>ts \<in> set sets. spends (last ts)) \<and>
           subseq (map (\<lambda>ts. contract_actions (last ts)) sets)
             (map (\<lambda>fce. ([(ce_contract_id fce, V2FileContractExpiration)], [])) (ContractElementsForBroadcast scan (expiredContractBroadcastBuffer m) d)) \<and>
           (wallet_never_fails W \<longrightarrow> length sets = length (ContractElementsForBroadcast scan (expiredContractBroadcastBuffer m) d))) \<and>
         (\<forall>c \<in> set (tContracts d'). ct_state c = ContractStatePending \<longrightarrow> now - contractRejectBuffer m \<le> ct_formation c) \<and>
         store_inv d' \<and> contracts_wf d'"
proof -
  from assms(1) obtain d2 where run: "broadcastExpired_loop C W (ContractElementsForBroadcast scan (expiredContractBroadcastBuffer m) d) w = Some w'"
    and k: "keeps_invs d d2" and c: "tContracts d2 = tContracts (rejected_pending (now - contractRejectBuffer m) d)"
    and last: "d' = d2 \<or> PruneContractSectorsMap (expiredContractSectorsPruneBuffer m) d2 = Inr ((), d')" by (rule ProcessActions_cases)
  from k assms(3,4) have inv2: "store_inv d2" "contracts_wf d2" by (simp_all add: keeps_invs_def)
  from last have fr: "tContracts d' = tContracts d2 \<and> tElements d' = tElements d2" using PruneContractSectorsMap_contracts by blast
  have "store_inv d'" using last inv2(1) PruneContractSectorsMap_inv by blast
  moreover have "contracts_wf d'" using inv2(2) contracts_wf_frame[of d' d2] fr by simp
  moreover have "\<forall>c \<in> set (tContracts d'). ct_state c = ContractStatePending \<longrightarrow> now - contractRejectBuffer m \<le> ct_formation c"
    using fr c rejected_pending_none by auto
  ultimately show ?thesis using broadcastExpired_sends[OF assms(2) run] by (auto simp: broadcasts_def)
qed

section \<open>Broadcasting revisions ends\<close>

text \<open>The database after broadcasts of the contracts of a set were attempted.\<close>

definition attempted :: "gotime \<Rightarrow> contract_id set \<Rightarrow> db \<Rightarrow> db" where
  "attempted now I d = d\<lparr>tContracts := update_rows (\<lambda>c. ct_contract_id c \<in> I) (\<lambda>c. c\<lparr>ct_last_broadcast_attempt := now\<rparr>) (tContracts d)\<rparr>"

lemma attempted_none [simp]: "attempted now {} d = d"
  by (simp add: attempted_def update_rows_id)

lemma attempted_again [simp]: "attempted now J (attempted now I d) = attempted now (I \<union> J) d"
  by (auto simp: attempted_def update_rows_def)

lemma MarkBroadcastAttempt_attempted: "MarkBroadcastAttempt now i d = Inr ((), attempted now {i} d)"
  by (simp add: MarkBroadcastAttempt_def attempted_def)

lemma contract_by_id_attempted:
  "contract_by_id (attempted now I d) i = map_option (\<lambda>c. if ct_contract_id c \<in> I then c\<lparr>ct_last_broadcast_attempt := now\<rparr> else c) (contract_by_id d i)"
  unfolding attempted_def by (rule find_update_contract) simp

definition latest :: "db \<Rightarrow> contract_id \<Rightarrow> v2_contract option" where
  "latest d i = map_option ct_raw_revision (contract_by_id d i)"

lemma latest_attempted [simp]: "latest (attempted now I d) i = latest d i"
  by (cases "contract_by_id d i") (simp_all add: latest_def contract_by_id_attempted)

text \<open>A transaction set that broadcasts the latest revision of a contract.\<close>

definition revises :: "db \<Rightarrow> 'i v2_transaction list \<Rightarrow> contract_id \<Rightarrow> bool" where
  "revises d ts i \<longleftrightarrow> (\<exists>revision. latest d i = Some revision \<and> contract_actions (last ts) = ([], [(i, revision)]))"

lemma revises_attempted [simp]: "revises (attempted now I d) = revises d"
  by (simp add: revises_def fun_eq_iff)

lemma broadcast_revision_sends:
  assumes ok: "wallet_ok W spends locked pool"
  obtains sets where "broadcasts spends locked pool w sets (broadcast_revision W fee fce revision w)"
    "sets = [] \<or> (\<exists>ts. sets = [ts] \<and> contract_actions (last ts) = ([], [(ce_contract_id fce, revision)]))"
proof -
  let ?t = "\<lparr>MinerFee = fee, FileContractResolutions = [], FileContractRevisions = [(fce, revision)], SiacoinInputs = []\<rparr>"
  note D = wallet_okD[OF ok]
  obtain r w1 where fund: "FundV2Transaction W ?t fee w = (r, w1)" by fastforce
  show ?thesis
  proof (cases r)
    case (Inl e)
    with fund D(1)[of ?t fee w e w1] show ?thesis by (intro that[of "[]"]) (auto simp: broadcast_revision_def)
  next
    case (Inr x)
    obtain b toSign t where x: "x = (b, toSign, t)" by (metis surj_pair)
    let ?s = "SignV2Inputs W t toSign"
    have f: "contract_actions ?s = ([], [(ce_contract_id fce, revision)])" "spends ?s \<inter> locked w = {}" "locked w1 = locked w \<union> spends ?s" "pool w1 = pool w"
      using D(2)[of ?t fee w b toSign t w1] D(3)[of t toSign] fund Inr x by (simp_all add: contract_actions_def)
    obtain z w2 where bc: "BroadcastV2TransactionSet W b [?s] w1 = (z, w2)" by fastforce
    show ?thesis
    proof (cases z)
      case (Inl e)
      have "broadcasts spends locked pool w [] (ReleaseInputs W [?s] w2)" using D(7)[of "[?s]" w2] D(5)[of b "[?s]" w1 e w2] f bc Inl by auto
      with fund Inr x bc Inl show ?thesis by (intro that[of "[]"]) (auto simp: broadcast_revision_def)
    next
      case z: (Inr u)
      have "broadcast_revision W fee fce revision w = w2" using fund Inr x bc z by (simp add: broadcast_revision_def)
      with D(6)[of b "[?s]" w1 u w2] f bc z show ?thesis by (intro that[of "[[?s]]"]) (auto simp: broadcasts_def)
    qed
  qed
qed

lemma broadcastContractRevision_sends:
  assumes ok: "wallet_ok W spends locked pool" and run: "broadcastContractRevision C W i d w = Some (x, w')"
  shows "\<exists>sets. broadcasts spends locked pool w sets w' \<and> (sets = [] \<or> (\<exists>ts. sets = [ts] \<and> revises d ts i))"
proof (cases "w' = w")
  case True
  then show ?thesis by (intro exI[of _ "[]"]) simp
next
  case False
  with run obtain fce contract b fee where e: "ContractElement i d = Inr fce" "ContractRevision i d = Inr (contract, b)"
    and w': "w' = broadcast_revision W fee fce (Revision contract) w"
    by (auto simp: broadcastContractRevision_def bind_eq_Some_conv split: sum.splits)
  have i: "ce_contract_id fce = i" using e(1) by (auto simp: ContractElement_def find_Some_iff split: option.splits)
  have "latest d i = Some (Revision contract)" using e(2) by (auto simp: ContractRevision_def latest_def split: option.splits)
  with ok w' i show ?thesis
    by (rule_tac broadcast_revision_sends[where fee = fee and fce = fce and revision = "Revision contract" and w = w]) (auto simp: revises_def)
qed

lemma broadcast_batch_sends:
  assumes ok: "wallet_ok W spends locked pool"
  shows "broadcast_batch C W now ids d w = Some (d', w') \<Longrightarrow> d' = attempted now (set ids) d \<and>
    (\<exists>sets sent. broadcasts spends locked pool w sets w' \<and> subseq sent ids \<and> list_all2 (revises d) sets sent)"
proof (induction ids arbitrary: d w)
  case Nil
  then show ?case by (auto intro: exI[of _ "[]"])
next
  case (Cons i ids)
  then obtain x w1 where one: "broadcastContractRevision C W i d w = Some (x, w1)" and rest: "broadcast_batch C W now ids (attempted now {i} d) w1 = Some (d', w')"
    by (auto simp: bind_eq_Some_conv MarkBroadcastAttempt_attempted)
  from broadcastContractRevision_sends[OF ok one] obtain s1 where s1: "broadcasts spends locked pool w s1 w1"
    "s1 = [] \<or> (\<exists>ts. s1 = [ts] \<and> revises d ts i)" by blast
  from Cons.IH[OF rest] obtain sets sent where s: "d' = attempted now (insert i (set ids)) d" "broadcasts spends locked pool w1 sets w'"
    "subseq sent ids" "list_all2 (revises d) sets sent" by auto
  from s1(2) show ?case
  proof
    assume "s1 = []"
    with broadcasts_append[OF s1(1) s(2)] s show ?thesis by (auto intro!: exI[of _ sets] exI[of _ sent])
  next
    assume "\<exists>ts. s1 = [ts] \<and> revises d ts i"
    with broadcasts_append[OF s1(1) s(2)] s show ?thesis by (auto intro!: exI[of _ "s1 @ sets"] exI[of _ "i # sent"])
  qed
qed

lemma broadcast_batch_returns:
  assumes "\<And>w. cMul64 C (RecommendedFee W w) stdTxnSize \<noteq> None"
  shows "broadcast_batch C W now ids d w \<noteq> None"
proof (induction ids arbitrary: d w)
  case (Cons i ids)
  have "broadcastContractRevision C W i d w \<noteq> None" using assms[of w]
    by (auto simp: broadcastContractRevision_def split: sum.splits)
  with Cons show ?case by auto
qed simp

text \<open>A contract whose revision is due to be broadcast.\<close>

definition broadcast_due :: "gotime \<Rightarrow> db \<Rightarrow> contract_row \<Rightarrow> bool" where
  "broadcast_due minBroadcast d c \<longleftrightarrow> revisable d c \<and> ct_last_broadcast_attempt c < minBroadcast"

definition due_ids :: "gotime \<Rightarrow> db \<Rightarrow> contract_id set" where
  "due_ids minBroadcast d = ct_contract_id ` {c \<in> set (tContracts d). broadcast_due minBroadcast d c}"

lemma ContractsForBroadcasting_due:
  assumes "\<And>xs. mset (scan xs) = mset xs"
  shows "set (ContractsForBroadcasting scan t n d) \<subseteq> due_ids t d"
    and "length (ContractsForBroadcasting scan t n d) < n \<Longrightarrow> set (ContractsForBroadcasting scan t n d) = due_ids t d"
proof -
  let ?due = "stable_sort (\<lambda>a b. ct_last_broadcast_attempt a < ct_last_broadcast_attempt b)
       (scan (filter (\<lambda>c. revisable d c \<and> ct_last_broadcast_attempt c < t) (tContracts d)))"
  have set: "ct_contract_id ` set ?due = due_ids t d"
    using mset_eq_setD[OF assms[of "filter (\<lambda>c. revisable d c \<and> ct_last_broadcast_attempt c < t) (tContracts d)"]]
    by (simp add: due_ids_def broadcast_due_def)
  have q: "ContractsForBroadcasting scan t n d = map ct_contract_id (take n ?due)" by (simp add: ContractsForBroadcasting_def)
  show "set (ContractsForBroadcasting scan t n d) \<subseteq> due_ids t d" unfolding q set[symmetric] by (auto dest: in_set_takeD)
  show "set (ContractsForBroadcasting scan t n d) = due_ids t d" if "length (ContractsForBroadcasting scan t n d) < n"
    using that set unfolding q by simp
qed

lemma ContractsForBroadcasting_distinct:
  assumes "mset (scan xs) = mset xs" "xs = filter (\<lambda>c. revisable d c \<and> ct_last_broadcast_attempt c < t) (tContracts d)"
    and "distinct (map ct_contract_id (tContracts d))"
  shows "distinct (ContractsForBroadcasting scan t n d)"
proof -
  let ?due = "stable_sort (\<lambda>a b. ct_last_broadcast_attempt a < ct_last_broadcast_attempt b) (scan xs)"
  have "mset (map ct_contract_id ?due) = mset (map ct_contract_id xs)" using assms(1) by simp
  moreover have "distinct (map ct_contract_id xs)" using assms(2,3) by (simp add: distinct_map_filter)
  ultimately have "distinct (map ct_contract_id ?due)" using mset_eq_imp_distinct_iff by blast
  then show ?thesis using assms(2) by (simp add: ContractsForBroadcasting_def take_map[symmetric] distinct_take)
qed

lemma due_ids_attempted:
  assumes "t \<le> now"
  shows "due_ids t (attempted now I d) = due_ids t d - I"
proof -
  define f where "f = (\<lambda>c :: contract_row. if ct_contract_id c \<in> I then c\<lparr>ct_last_broadcast_attempt := now\<rparr> else c)"
  have due: "broadcast_due t (attempted now I d) (f c) \<longleftrightarrow> ct_contract_id c \<notin> I \<and> broadcast_due t d c" for c
    using assms by (simp add: f_def broadcast_due_def revisable_def contract_active_def attempted_def)
  have rows: "set (tContracts (attempted now I d)) = f ` set (tContracts d)" by (simp add: f_def attempted_def update_rows_def)
  have "due_ids t (attempted now I d) = ct_contract_id ` f ` {c \<in> set (tContracts d). broadcast_due t (attempted now I d) (f c)}"
    unfolding due_ids_def rows by blast
  also have "\<dots> = (\<lambda>c. ct_contract_id (f c)) ` {c \<in> set (tContracts d). ct_contract_id c \<notin> I \<and> broadcast_due t d c}" unfolding due by (simp add: image_image)
  also have "(\<lambda>c. ct_contract_id (f c)) = ct_contract_id" by (simp add: f_def fun_eq_iff)
  also have "ct_contract_id ` {c \<in> set (tContracts d). ct_contract_id c \<notin> I \<and> broadcast_due t d c} = due_ids t d - I"
    by (auto simp: due_ids_def)
  finally show ?thesis .
qed

lemma Diff_psubset: "I \<subseteq> D \<Longrightarrow> I \<noteq> {} \<Longrightarrow> D - I \<subset> D"
  by auto

definition broadcast_out ::
  "('i v2_transaction \<Rightarrow> 'c set) \<Rightarrow> ('w \<Rightarrow> 'c set) \<Rightarrow> ('w \<Rightarrow> 'i v2_transaction list list) \<Rightarrow> gotime \<Rightarrow> gotime \<Rightarrow> db \<times> 'w \<Rightarrow> (db \<times> 'w) run \<Rightarrow> bool" where
  "broadcast_out spends locked pool now minBroadcast s r \<longleftrightarrow> (\<exists>w' sets sent.
     r = Done (attempted now (due_ids minBroadcast (fst s)) (fst s), w') \<and> broadcasts spends locked pool (snd s) sets w' \<and>
     distinct sent \<and> set sent \<subseteq> due_ids minBroadcast (fst s) \<and> list_all2 (revises (fst s)) sets sent)"

interpretation broadcasting: draining_loop "\<lambda>fuel s. broadcast_batches fuel C W scan now minBroadcast (fst s) (snd s)"
  "\<lambda>s. distinct (map ct_contract_id (tContracts (fst s))) \<and> minBroadcast \<le> now \<and> wallet_ok W spends locked pool \<and>
     (\<forall>w. cMul64 C (RecommendedFee W w) stdTxnSize \<noteq> None) \<and> (\<forall>xs. mset (scan xs) = mset xs)"
  "\<lambda>s. card (due_ids minBroadcast (fst s))" "broadcast_out spends locked pool now minBroadcast" for C W scan now minBroadcast spends locked pool
proof
  fix s :: "db \<times> 'a" and fuel
  let ?good = "\<lambda>s. distinct (map ct_contract_id (tContracts (fst s))) \<and> minBroadcast \<le> now \<and> wallet_ok W spends locked pool \<and>
     (\<forall>w. cMul64 C (RecommendedFee W w) stdTxnSize \<noteq> None) \<and> (\<forall>xs. mset (scan xs) = mset xs)"
  let ?run = "\<lambda>fuel s. broadcast_batches fuel C W scan now minBroadcast (fst s) (snd s)"
  let ?out = "broadcast_out spends locked pool now minBroadcast"
  obtain d w where s: "s = (d, w)" by fastforce
  assume good: "?good s"
  let ?ids = "ContractsForBroadcasting scan minBroadcast 10 d" and ?due = "due_ids minBroadcast"
  from good obtain d1 w1 where run: "broadcast_batch C W now ?ids d w = Some (d1, w1)" using broadcast_batch_returns[of C W now ?ids d w] by auto
  from broadcast_batch_sends[OF _ run] good obtain sets sent where d1: "d1 = attempted now (set ?ids) d"
    and b: "broadcasts spends locked pool w sets w1" "subseq sent ?ids" "list_all2 (revises d) sets sent" by blast
  have ids: "set ?ids \<subseteq> ?due d" "length ?ids < 10 \<Longrightarrow> set ?ids = ?due d" using good ContractsForBroadcasting_due[of scan minBroadcast 10 d] by auto
  have due: "?due d1 = ?due d - set ?ids" unfolding d1 using good by (intro due_ids_attempted) simp
  have dist: "distinct ?ids"
    using good by (intro ContractsForBroadcasting_distinct[OF _ refl]) (simp_all add: s)
  with b(2) have sent: "distinct sent" "set sent \<subseteq> set ?ids" by (auto simp: subseq_conv_nths intro: distinct_nthsI dest: in_set_nthsD)
  show "?out s (?run (Suc fuel) s) \<or> (\<exists>s'. ?good s' \<and> card (?due (fst s')) < card (?due (fst s)) \<and> ?run (Suc fuel) s = ?run fuel s' \<and> (\<forall>r. ?out s' r \<longrightarrow> ?out s r))"
  proof (cases "length ?ids < 10")
    case True
    with run d1 ids(2) b(1,3) sent show ?thesis by (intro disjI1) (auto simp: broadcast_out_def s)
  next
    case False
    then have "set ?ids \<noteq> {}" by auto
    with ids(1) have "?due d - set ?ids \<subset> ?due d" by (rule Diff_psubset)
    moreover have "finite (?due d)" by (simp add: due_ids_def)
    ultimately have "card (?due d1) < card (?due d)" unfolding due by (intro psubset_card_mono)
    moreover have "?good (d1, w1)" using good by (simp add: s d1 attempted_def map_update_rows)
    moreover have "?out s r" if "?out (d1, w1) r" for r
    proof -
      from that obtain w' sets' sent' where r: "r = Done (attempted now (?due d1) d1, w')" "broadcasts spends locked pool w1 sets' w'"
        "distinct sent'" "set sent' \<subseteq> ?due d1" "list_all2 (revises d1) sets' sent'" by (auto simp: broadcast_out_def)
      have "attempted now (?due d1) d1 = attempted now (?due d) d" unfolding due using ids(1) by (simp add: d1 Un_absorb1)
      have sub: "set sent \<inter> set sent' = {} \<and> set sent \<union> set sent' \<subseteq> ?due d"
        if "I \<subseteq> ?due d" "set sent \<subseteq> I" "set sent' \<subseteq> ?due d - I" for I using that by blast
      from sub[OF ids(1) sent(2) r(4)[unfolded due]] sent(1) r(3) have "distinct (sent @ sent')" "set (sent @ sent') \<subseteq> ?due d" by simp_all
      moreover have "list_all2 (revises d) (sets @ sets') (sent @ sent')" using b(3) r(5) by (simp add: d1 list_all2_appendI)
      ultimately show ?thesis using r(1) \<open>attempted now (?due d1) d1 = attempted now (?due d) d\<close> broadcasts_append[OF b(1) r(2)]
        unfolding broadcast_out_def s fst_conv snd_conv by metis
    qed
    ultimately show ?thesis using run False by (intro disjI2 exI[of _ "(d1, w1)"]) (auto simp: s)
  qed
qed

text \<open>
  Broadcasting the revisions ends with every due contract attempted and no other contract changed. The
  broadcast transactions carry the latest revision of due contracts, each at most once, and only what they spend is locked.
\<close>

theorem performBroadcastContractRevisions_total:
  fixes now :: gotime
  assumes inv: "store_inv d" and wallet: "wallet_ok W spends locked pool" and fee: "\<And>w. cMul64 C (RecommendedFee W w) stdTxnSize \<noteq> None"
    and scan: "\<And>xs. mset (scan xs) = mset xs" and interval: "0 \<le> revisionBroadcastInterval" and fuel: "length (tContracts d) < fuel"
  defines "due \<equiv> due_ids (now - revisionBroadcastInterval) d"
  shows "\<exists>w' sets sent. performBroadcastContractRevisions fuel C W scan revisionBroadcastInterval now d w = Done (attempted now due d, w') \<and>
    pool w' = pool w @ sets \<and> locked w' = locked w \<union> (\<Union>ts \<in> set sets. spends (last ts)) \<and>
    distinct sent \<and> set sent \<subseteq> due \<and> list_all2 (revises d) sets sent"
proof -
  have "card due \<le> card (set (tContracts d))" unfolding due_def due_ids_def
    by (rule order_trans[OF card_image_le card_mono]) auto
  also have "\<dots> < fuel" using fuel card_length[of "tContracts d"] by simp
  finally have "broadcast_out spends locked pool now (now - revisionBroadcastInterval) (d, w)
      (broadcast_batches fuel C W scan now (now - revisionBroadcastInterval) d w)"
    using broadcasting.drains[of "(d, w)" "now - revisionBroadcastInterval" now W spends locked pool C scan fuel] inv wallet fee scan interval
    by (simp add: due_def store_inv_def keys_wf_def)
  then show ?thesis by (auto simp: broadcast_out_def broadcasts_def performBroadcastContractRevisions_def due_def)
qed

section \<open>Witnesses\<close>

text \<open>
  A wallet with one output per contract, which pays for the transaction of the contract; its state is the list of the
  locked outputs and the broadcast sets. The network refuses transactions of contract 22.
\<close>

definition acted_on :: "'i v2_transaction \<Rightarrow> contract_id" where
  "acted_on t = (case contract_actions t of ((i, _) # _, _) \<Rightarrow> i | ([], (i, _) # _) \<Rightarrow> i | ([], []) \<Rightarrow> 0)"

definition sample_wallet :: "(contract_id list \<times> contract_id v2_transaction list list, unit, contract_id) contract_wallet" where
  "sample_wallet = \<lparr>RecommendedFee = (\<lambda>_. 1),
     FundV2Transaction = (\<lambda>t fee (l, p). if acted_on t \<in> set l then (Inl (ErrExternal 1), (l, p))
        else (Inr ((), [0], t\<lparr>SiacoinInputs := [acted_on t]\<rparr>), (acted_on t # l, p))),
     SignV2Inputs = (\<lambda>t _. t),
     V2TransactionSet = (\<lambda>b t _. Inr (b, [t])),
     BroadcastV2TransactionSet = (\<lambda>_ ts (l, p). if acted_on (last ts) = 22 then (Inl (ErrExternal 2), (l, p)) else (Inr (), (l, p @ [ts]))),
     ReleaseInputs = (\<lambda>ts (l, p). (filter (\<lambda>c. \<forall>t \<in> set ts. c \<notin> set (SiacoinInputs t)) l, p))\<rparr>"

abbreviation sample_spends :: "contract_id v2_transaction \<Rightarrow> contract_id set" where
  "sample_spends t \<equiv> set (SiacoinInputs t)"

lemma sample_wallet_ok: "wallet_ok sample_wallet sample_spends (\<lambda>w. set (fst w)) snd"
  by (auto simp: wallet_ok_def sample_wallet_def contract_actions_def split: if_splits)

definition sample_actions :: chain_action_settings where
  "sample_actions = \<lparr>contractRejectBuffer = 10, expiredContractBroadcastBuffer = 144, expiredContractPruneBuffer = 144,
     expiredContractSectorsPruneBuffer = 1000\<rparr>"

text \<open>Contracts 21 and 22 have expired.\<close>

definition expired_db :: db where
  "expired_db = sample_db\<lparr>tContracts := [sample_contract_row 1 21, sample_contract_row 1 22],
     tElements := [sample_element, sample_element\<lparr>ce_contract_id := 22\<rparr>],
     tGlobals := (tGlobals sample_db)\<lparr>scanned_height := 600\<rparr>\<rparr>"

lemma expired_db_wf: "store_inv expired_db" "contracts_wf expired_db"
  by (simp_all add: store_inv_def sectors_wf_def keys_wf_def hosts_known_def pins_wf_def pinned_on_host_def counters_wf_def
      contract_of_csm_def contract_by_id_def sqlStatSelect_def class_defs sample_defs expired_db_def sample_element_def
      contracts_wf_def contract_row_wf_def elements_wf_def contract_columns_ok_def contract_checks_ok_def int4_ok_def int8_ok_def contract_known_def sample_fc_def)

lemma ProcessActions_spec_witness:
  "\<exists>d' l ts. ProcessActions sample_core sample_wallet id sample_actions 20 expired_db ([], []) = Some (Inr (), d', (l, [ts])) \<and>
     contract_actions (last ts) = ([(21, V2FileContractExpiration)], []) \<and> set l = {21} \<and> store_inv d'"
proof -
  obtain d' where p: "ProcessActions sample_core sample_wallet id sample_actions 20 expired_db ([], []) = Some (Inr (), d', ([21],
      [[\<lparr>MinerFee = 1000, FileContractResolutions = [(sample_element, V2FileContractExpiration)], FileContractRevisions = [], SiacoinInputs = [21]\<rparr>]]))"
    by (simp add: ProcessActions_def RejectPendingContracts_def broadcastExpiredContracts_def ContractElementsForBroadcast_def broadcast_expired_def
        PruneExpiredContractElements_def PruneContractSectorsMap_def contract_by_id_def sample_actions_def expired_db_def sample_defs
        sample_wallet_def sample_core_def sample_element_def acted_on_def contract_actions_def contractResolutionTxnWeight_def Let_def)
  from ProcessActions_spec[OF p sample_wallet_ok expired_db_wf] p show ?thesis
    by (auto simp: contract_actions_def sample_element_def)
qed

end
