(* ===== verification/Account_Manager.thy ===== *)
theory Account_Manager
  imports Funding_Store Loops
begin

text \<open>
  The account manager: accounts/manager.go (funding schedule, fund targets, pruning) and
  accounts/serviceaccounts.go (balances of service accounts). The methods that only pass a call on to
  the store are the operations of the store themselves.
\<close>

section \<open>Funding schedule\<close>

definition AccountFundInterval :: duration where
  "AccountFundInterval = 5 * time_minute"

definition PoolFundInterval :: duration where
  "PoolFundInterval = 5 * time_minute"

definition AccountActivityThreshold :: duration where
  "AccountActivityThreshold = 24 * 7 * time_hour"

text \<open>
  \<open>time.Duration(math.Pow(2, float64(n))) * time.Minute\<close>: the power is exact; from \<open>2 ^ 63\<close> on the conversion
  to a 64-bit integer gives a value that depends on the machine (\<open>conv\<close>); the product wraps around.
\<close>

definition pow2_duration :: "(nat \<Rightarrow> int) \<Rightarrow> nat \<Rightarrow> duration" where
  "pow2_duration conv n = wrap64 ((if n < 63 then 2 ^ n else conv n) * time_minute)"

definition UpdateFundedAccounts :: "(nat \<Rightarrow> int) \<Rightarrow> gotime \<Rightarrow> host_account list \<Rightarrow> nat \<Rightarrow> duration \<Rightarrow> host_account list option" where
  "UpdateFundedAccounts conv now accs n maxBackoff =
     (if n > length accs then None
      else Some (map (\<lambda>a. a\<lparr>haConsecutiveFailedFunds := 0, haNextFund := now + AccountFundInterval\<rparr>) (take n accs) @
                 map (\<lambda>a. let k = haConsecutiveFailedFunds a + 1
                          in a\<lparr>haConsecutiveFailedFunds := k, haNextFund := now + min (pow2_duration conv (nat k)) maxBackoff\<rparr>) (drop n accs)))"

definition UpdateFundedPools :: "(nat \<Rightarrow> int) \<Rightarrow> gotime \<Rightarrow> host_pool list \<Rightarrow> nat \<Rightarrow> duration \<Rightarrow> host_pool list option" where
  "UpdateFundedPools conv now pools n maxBackoff =
     (if n > length pools then None
      else Some (map (\<lambda>p. p\<lparr>hpConsecutiveFailedFunds := 0, hpNextFund := now + PoolFundInterval\<rparr>) (take n pools) @
                 map (\<lambda>p. let k = hpConsecutiveFailedFunds p + 1
                          in p\<lparr>hpConsecutiveFailedFunds := k, hpNextFund := now + min (pow2_duration conv (nat k)) maxBackoff\<rparr>) (drop n pools)))"

section \<open>Fund targets\<close>

text \<open>The number of sectors that covers a number of bytes; the sum wraps around at 64 bits.\<close>

definition target_sectors :: "core_ops \<Rightarrow> u64 \<Rightarrow> u64" where
  "target_sectors C fundTargetBytes = (fundTargetBytes + SectorSize C - 1) div SectorSize C"

definition half_cost :: "core_ops \<Rightarrow> usage option \<Rightarrow> u64 \<Rightarrow> currency option" where
  "half_cost C usage sectors =
     Option.bind usage (\<lambda>u. Option.bind (RenterCost C u) (\<lambda>c. Option.bind (cMul64 C c sectors) (\<lambda>c. cDiv64 C c 2)))"

definition HostFundTarget :: "core_ops \<Rightarrow> host \<Rightarrow> u64 \<Rightarrow> currency option" where
  "HostFundTarget C h fundTargetBytes =
     (if fundTargetBytes = 0 then Some 0
      else let sectors = target_sectors C fundTargetBytes; prices = Prices (Settings h)
           in Option.bind (half_cost C (RPCWriteSectorCost C prices (SectorSize C)) sectors) (\<lambda>u1.
              Option.bind (half_cost C (RPCReadSectorCost C prices (SectorSize C)) sectors) (\<lambda>u2. cAdd C u1 u2)))"

definition HostReadFundTarget :: "core_ops \<Rightarrow> host \<Rightarrow> u64 \<Rightarrow> currency option" where
  "HostReadFundTarget C h fundTargetBytes =
     (if fundTargetBytes = 0 then Some 0
      else half_cost C (RPCReadSectorCost C (Prices (Settings h)) (SectorSize C)) (target_sectors C fundTargetBytes))"

section \<open>Pruning\<close>

text \<open>The loop of \<open>performPruneAccounts\<close>; each iteration is one transaction.\<close>

definition objectBatchSize :: int where
  "objectBatchSize = 100"

fun performPruneAccounts :: "nat \<Rightarrow> db \<Rightarrow> (unit result \<times> db) option" where
  "performPruneAccounts 0 d = None"
| "performPruneAccounts (Suc fuel) d =
     (case PruneAccounts objectBatchSize d of
        Inl e \<Rightarrow> if e = ErrAccountNotFound then Some (Inr (), d) else Some (Inl e, d)
      | Inr (_, d') \<Rightarrow> performPruneAccounts fuel d')"

section \<open>Service accounts\<close>

type_synonym service_accounts = "account_key \<rightharpoonup> (public_key \<rightharpoonup> currency)"

text \<open>Reading a Go map gives zero for a missing key.\<close>

definition balance_of :: "(public_key \<rightharpoonup> currency) \<Rightarrow> public_key \<Rightarrow> currency" where
  "balance_of m hk = (case m hk of None \<Rightarrow> 0 | Some c \<Rightarrow> c)"

definition RegisterServiceAccount :: "account_key \<Rightarrow> service_accounts \<Rightarrow> service_accounts option" where
  "RegisterServiceAccount account sa = (if sa account \<noteq> None then None else Some (sa(account \<mapsto> Map.empty)))"

definition ResetAccountBalance :: "public_key \<Rightarrow> account_key \<Rightarrow> service_accounts \<Rightarrow> service_accounts result" where
  "ResetAccountBalance hostKey account sa =
     (case sa account of None \<Rightarrow> Inl ErrAccountNotFound | Some m \<Rightarrow> Inr (sa(account \<mapsto> m(hostKey \<mapsto> 0))))"

definition ServiceAccountBalance :: "public_key \<Rightarrow> account_key \<Rightarrow> service_accounts \<Rightarrow> currency result" where
  "ServiceAccountBalance hostKey account sa =
     (case sa account of None \<Rightarrow> Inl ErrAccountNotFound | Some m \<Rightarrow> Inr (balance_of m hostKey))"

definition DebitServiceAccount :: "core_ops \<Rightarrow> public_key \<Rightarrow> account_key \<Rightarrow> currency \<Rightarrow> service_accounts \<Rightarrow> service_accounts result" where
  "DebitServiceAccount C hostKey account amount sa =
     (case sa account of
        None \<Rightarrow> Inl ErrAccountNotFound
      | Some m \<Rightarrow>
          let (val, underflow) = cSubWithUnderflow C (balance_of m hostKey) amount;
              val = (if underflow then 0 else val)
          in Inr (sa(account \<mapsto> m(hostKey \<mapsto> val))))"

definition update_service_account :: "currency \<Rightarrow> host_account \<Rightarrow> service_accounts \<Rightarrow> service_accounts" where
  "update_service_account balance a sa =
     (case sa (haAccountKey a) of None \<Rightarrow> sa | Some m \<Rightarrow> sa(haAccountKey a \<mapsto> m(haHostKey a \<mapsto> balance)))"

definition UpdateServiceAccounts :: "host_account list \<Rightarrow> currency \<Rightarrow> service_accounts \<Rightarrow> service_accounts" where
  "UpdateServiceAccounts accs balance sa = fold (update_service_account balance) accs sa"

text \<open>\<open>order\<close> lists the registered accounts in the order in which the Go map is iterated.\<close>

definition ServiceAccounts :: "account_key list \<Rightarrow> public_key \<Rightarrow> host_account list" where
  "ServiceAccounts order hk = map (\<lambda>a. \<lparr>haAccountKey = a, haHostKey = hk, haConsecutiveFailedFunds = 0, haNextFund = 0, haFullStorage = False\<rparr>) order"

section \<open>Pruning ends\<close>

text \<open>The objects that accounts which are not deleted own.\<close>

definition live_objects :: "account_row list \<Rightarrow> object_row list \<Rightarrow> object_row list" where
  "live_objects as obs = filter (\<lambda>x. ob_account_id x \<in> ac_id ` {a \<in> set as. ac_deleted_at a = None}) obs"

definition prunable :: "db \<Rightarrow> nat" where
  "prunable d = length (tObjects d) + length (tAccountSlabs d) + length (tAccounts d)"

lemma stable_sort_Nil [simp]: "stable_sort lt xs = [] \<longleftrightarrow> xs = []"
  by (metis length_0_conv length_stable_sort)

lemma next_deleted_account_None: "next_deleted_account d = None \<longleftrightarrow> (\<forall>a \<in> set (tAccounts d). ac_deleted_at a = None)"
proof -
  have "(case xs of [] \<Rightarrow> None | a # _ \<Rightarrow> Some a) = None \<longleftrightarrow> xs = []" for xs :: "account_row list" by (cases xs) auto
  then show ?thesis by (simp add: next_deleted_account_def filter_empty_conv)
qed

lemma next_deleted_account_Some:
  assumes "next_deleted_account d = Some a"
  shows "a \<in> set (tAccounts d) \<and> ac_deleted_at a \<noteq> None"
proof -
  from assms obtain rest where "stable_sort (\<lambda>a b. ac_deleted_at a \<noteq> None \<and> ac_deleted_at b \<noteq> None \<and> the (ac_deleted_at a) < the (ac_deleted_at b))
      (filter (\<lambda>a. ac_deleted_at a \<noteq> None) (tAccounts d)) = a # rest"
    by (auto simp: next_deleted_account_def split: list.splits)
  from arg_cong[OF this, of set] show ?thesis by auto
qed

lemma filter_shorter: "x \<in> set xs \<Longrightarrow> \<not> P x \<Longrightarrow> length (filter P xs) < length xs"
  by (metis length_filter_less)

lemma length_filter_shrinks:
  assumes "xs = take n (stable_sort lt (map f (filter Q ys)))" "xs \<noteq> []" "\<And>y. y \<in> set ys \<Longrightarrow> Q y \<Longrightarrow> f y \<in> set xs \<Longrightarrow> \<not> P y"
  shows "length (filter P ys) < length ys"
proof -
  from assms(2) obtain x where "x \<in> set xs" by (meson last_in_set)
  moreover from this assms(1) have "x \<in> set (map f (filter Q ys))" by (metis in_set_takeD set_stable_sort)
  ultimately show ?thesis using assms(3) by (auto intro: filter_shorter)
qed

text \<open>One call removes something of a deleted account, and nothing else.\<close>

lemma PruneAccounts_step:
  assumes a: "next_deleted_account d = Some a" and ids: "distinct (map ac_id (tAccounts d))" and obs: "distinct (map ob_id (tObjects d))"
  shows "\<exists>d'. PruneAccounts objectBatchSize d = Inr ((), d') \<and> prunable d' < prunable d \<and> distinct (map ob_id (tObjects d')) \<and>
    (tAccounts d' = tAccounts d \<or> tAccounts d' = filter (\<lambda>x. ac_id x \<noteq> ac_id a) (tAccounts d)) \<and>
    filter (\<lambda>x. ob_account_id x \<noteq> ac_id a) (tObjects d') = filter (\<lambda>x. ob_account_id x \<noteq> ac_id a) (tObjects d)"
proof -
  define objs where "objs = take (nat objectBatchSize) (stable_sort (<) (map ob_id (filter (\<lambda>x. ob_account_id x = ac_id a) (tObjects d))))"
  define d1 where "d1 = d\<lparr>tObjects := filter (\<lambda>x. ob_id x \<notin> set objs) (tObjects d), tObjectSlabs := filter (\<lambda>r. os_object_id r \<notin> set objs) (tObjectSlabs d)\<rparr>"
  define remaining where "remaining = objectBatchSize - int (length objs)"
  define slabs where "slabs = take (nat remaining) (stable_sort (<) (map snd (filter (\<lambda>(x, _). x = ac_id a) (tAccountSlabs d))))"
  define d2 where "d2 = queue_slabs slabs (d1\<lparr>tAccountSlabs := filter (\<lambda>(x, s). \<not> (x = ac_id a \<and> s \<in> set slabs)) (tAccountSlabs d1)\<rparr>)"
  define d3 where "d3 = incrementStat statAccountsRegistered (- 1) (d2\<lparr>tAccounts := filter (\<lambda>x. ac_id x \<noteq> ac_id a) (tAccounts d2),
    tObjectEvents := filter (\<lambda>e. oe_account_id e \<noteq> ac_id a) (tObjectEvents d2), tAccountHosts := filter (\<lambda>r. ah_account_id r \<noteq> ac_id a) (tAccountHosts d2),
    tPoolAttachments := filter (\<lambda>r. pa_account_id r \<noteq> ac_id a) (tPoolAttachments d2)\<rparr>)"
  have tabs: "tObjects d2 = tObjects d1" "tAccounts d2 = tAccounts d" "tAccountSlabs d1 = tAccountSlabs d"
      "tAccountSlabs d2 = filter (\<lambda>(x, s). \<not> (x = ac_id a \<and> s \<in> set slabs)) (tAccountSlabs d)"
      "tObjects d3 = tObjects d1" "tAccountSlabs d3 = tAccountSlabs d2" "tAccounts d3 = filter (\<lambda>x. ac_id x \<noteq> ac_id a) (tAccounts d)" "tAccounts d1 = tAccounts d"
    by (simp_all add: d1_def d2_def d3_def queue_slabs_def store_simps)
  have eq: "PruneAccounts objectBatchSize d = Inr ((), if remaining = 0 then d1 else if int (length slabs) = remaining then d2 else d3)"
    unfolding PruneAccounts_def a option.case Let_def objs_def[symmetric] d1_def[symmetric] remaining_def[symmetric]
    by (simp add: objectBatchSize_def tabs(3) slabs_def[symmetric] d2_def d3_def)
  have le: "length (tObjects d1) \<le> length (tObjects d)" "length (tAccountSlabs d2) \<le> length (tAccountSlabs d)" by (simp_all add: d1_def tabs)
  have m1: "length (tObjects d1) < length (tObjects d)" if "remaining = 0"
  proof -
    from that have "objs \<noteq> []" by (auto simp: remaining_def objectBatchSize_def)
    with length_filter_shrinks[OF objs_def, of "\<lambda>x. ob_id x \<notin> set objs"] show ?thesis by (simp add: d1_def)
  qed
  have m2: "length (tAccountSlabs d2) < length (tAccountSlabs d)" if "remaining \<noteq> 0" "int (length slabs) = remaining"
    unfolding tabs(4) using that by (intro length_filter_shrinks[OF slabs_def]) auto
  have m3: "length (filter (\<lambda>x. ac_id x \<noteq> ac_id a) (tAccounts d)) < length (tAccounts d)"
    using next_deleted_account_Some[OF a] by (intro filter_shorter[of a]) auto
  have own: "filter (\<lambda>x. ob_account_id x \<noteq> ac_id a) (tObjects d1) = filter (\<lambda>x. ob_account_id x \<noteq> ac_id a) (tObjects d)"
  proof -
    have "ob_id x \<notin> set objs" if "x \<in> set (tObjects d)" "ob_account_id x \<noteq> ac_id a" for x
    proof
      assume "ob_id x \<in> set objs"
      then obtain y where "y \<in> set (tObjects d)" "ob_account_id y = ac_id a" "ob_id y = ob_id x" by (auto simp: objs_def dest!: in_set_takeD)
      with that obs show False by (metis distinct_map inj_onD)
    qed
    then show ?thesis by (auto simp: d1_def intro: filter_cong)
  qed
  have "distinct (map ob_id (tObjects d1))" using obs by (simp add: d1_def distinct_map_filter)
  with own eq show ?thesis using m1 m2 m3 le by (auto simp: tabs(1-3,5-8) prunable_def)
qed

text \<open>The deleted accounts are gone, and the objects of the others are as before.\<close>

definition pruned_out :: "db \<Rightarrow> (unit result \<times> db) option \<Rightarrow> bool" where
  "pruned_out d r \<longleftrightarrow> (\<exists>d'. r = Some (Inr (), d') \<and> tAccounts d' = filter (\<lambda>a. ac_deleted_at a = None) (tAccounts d) \<and>
     live_objects (tAccounts d) (tObjects d') = live_objects (tAccounts d) (tObjects d))"

interpretation pruning: draining_loop performPruneAccounts "\<lambda>d. distinct (map ac_id (tAccounts d)) \<and> distinct (map ob_id (tObjects d))" prunable pruned_out
proof
  fix d :: db and fuel
  assume good: "distinct (map ac_id (tAccounts d)) \<and> distinct (map ob_id (tObjects d))"
  show "pruned_out d (performPruneAccounts (Suc fuel) d) \<or> (\<exists>d1. (distinct (map ac_id (tAccounts d1)) \<and> distinct (map ob_id (tObjects d1))) \<and>
      prunable d1 < prunable d \<and> performPruneAccounts (Suc fuel) d = performPruneAccounts fuel d1 \<and> (\<forall>r. pruned_out d1 r \<longrightarrow> pruned_out d r))"
  proof (cases "next_deleted_account d")
    case None
    then have "PruneAccounts objectBatchSize d = Inl ErrAccountNotFound" by (simp add: PruneAccounts_def objectBatchSize_def)
    with None show ?thesis by (auto simp: pruned_out_def next_deleted_account_None filter_id_conv)
  next
    case (Some a)
    from PruneAccounts_step[OF Some] good obtain d1 where d1: "PruneAccounts objectBatchSize d = Inr ((), d1)" "prunable d1 < prunable d"
      and obs: "distinct (map ob_id (tObjects d1))" and acc: "tAccounts d1 = tAccounts d \<or> tAccounts d1 = filter (\<lambda>x. ac_id x \<noteq> ac_id a) (tAccounts d)"
      and own: "filter (\<lambda>x. ob_account_id x \<noteq> ac_id a) (tObjects d1) = filter (\<lambda>x. ob_account_id x \<noteq> ac_id a) (tObjects d)" by auto
    have a: "a \<in> set (tAccounts d)" "ac_deleted_at a \<noteq> None" using next_deleted_account_Some[OF Some] by auto
    have uniq: "x = a" if "x \<in> set (tAccounts d)" "ac_id x = ac_id a" for x using good that a(1) by (metis distinct_map inj_onD)
    have live: "filter (\<lambda>a. ac_deleted_at a = None) (tAccounts d1) = filter (\<lambda>a. ac_deleted_at a = None) (tAccounts d)"
    proof -
      have "filter (\<lambda>a. ac_deleted_at a = None) (filter (\<lambda>x. ac_id x \<noteq> ac_id a) (tAccounts d)) = filter (\<lambda>a. ac_deleted_at a = None) (tAccounts d)"
        unfolding filter_filter by (rule filter_cong[OF refl]) (use uniq a(2) in force)
      then show ?thesis using acc by auto
    qed
    then have set: "{x \<in> set (tAccounts d1). ac_deleted_at x = None} = {x \<in> set (tAccounts d). ac_deleted_at x = None}" by (metis set_filter)
    have objs: "live_objects (tAccounts d) (tObjects d1) = live_objects (tAccounts d) (tObjects d)"
    proof -
      have "live_objects (tAccounts d) xs = live_objects (tAccounts d) (filter (\<lambda>x. ob_account_id x \<noteq> ac_id a) xs)" for xs
        using uniq a(2) by (auto simp: live_objects_def intro!: filter_cong)
      then show ?thesis using own by metis
    qed
    have "distinct (map ac_id (tAccounts d1))" using acc good by (auto simp: distinct_map_filter)
    moreover have "pruned_out d r" if "pruned_out d1 r" for r using that live objs by (auto simp: pruned_out_def live_objects_def set)
    ultimately show ?thesis using d1 obs by (intro disjI2 exI[of _ d1]) simp
  qed
qed

text \<open>
  Claim C38: pruning ends. Afterwards the deleted accounts are gone, and every other account and its
  objects are as before.
\<close>

theorem performPruneAccounts_total:
  assumes "distinct (map ac_id (tAccounts d))" "distinct (map ob_id (tObjects d))" "prunable d < fuel"
  shows "\<exists>d'. performPruneAccounts fuel d = Some (Inr (), d') \<and> tAccounts d' = filter (\<lambda>a. ac_deleted_at a = None) (tAccounts d) \<and>
    live_objects (tAccounts d) (tObjects d') = live_objects (tAccounts d) (tObjects d)"
  using pruning.drains[of d fuel] assms by (simp add: pruned_out_def)

section \<open>Backoff\<close>

lemma pow2_duration_exact:
  assumes "n \<le> 27"
  shows "pow2_duration conv n = 2 ^ n * time_minute"
proof -
  have "(2 :: int) ^ n \<le> 2 ^ 27" using assms by (intro power_increasing) auto
  moreover have "wrap64 (x * time_minute) = x * time_minute" if "0 \<le> x" "x \<le> 134217728" for x
    using that by (simp add: wrap64_def)
  ultimately have "wrap64 (2 ^ n * time_minute) = 2 ^ n * time_minute" by simp
  then show ?thesis using assms by (simp add: pow2_duration_def)
qed

text \<open>
  The funded accounts are due again after the funding interval and have no failures; each of the
  others counts one failure more and waits for twice the time per failure, at least two minutes and at most
  the maximum backoff, as long as it has failed fewer than 27 times before.
\<close>

theorem UpdateFundedAccounts_backoff:
  assumes "UpdateFundedAccounts conv now accs n maxBackoff = Some accs'" "i < length accs"
    and "0 \<le> haConsecutiveFailedFunds (accs ! i)" "haConsecutiveFailedFunds (accs ! i) < 27"
  shows "accs' ! i = (accs ! i)\<lparr>haConsecutiveFailedFunds := (if i < n then 0 else haConsecutiveFailedFunds (accs ! i) + 1),
    haNextFund := now + (if i < n then AccountFundInterval else min (2 ^ nat (haConsecutiveFailedFunds (accs ! i) + 1) * time_minute) maxBackoff)\<rparr>"
proof -
  have n: "n \<le> length accs" using assms(1) by (auto simp: UpdateFundedAccounts_def split: if_splits)
  show ?thesis
  proof (cases "i < n")
    case True
    with assms n show ?thesis by (auto simp: UpdateFundedAccounts_def nth_append)
  next
    case False
    with assms n have "accs' ! i = (let a = accs ! i; k = haConsecutiveFailedFunds a + 1
        in a\<lparr>haConsecutiveFailedFunds := k, haNextFund := now + min (pow2_duration conv (nat k)) maxBackoff\<rparr>)"
      by (auto simp: UpdateFundedAccounts_def nth_append Let_def)
    moreover have "nat (haConsecutiveFailedFunds (accs ! i) + 1) \<le> 27" using assms by simp
    ultimately show ?thesis using False by (simp add: Let_def pow2_duration_exact)
  qed
qed

text \<open>With the 28th failure the product overflows: the account is due in the past instead of waiting.\<close>

lemma funding_backoff_overflow:
  assumes "UpdateFundedAccounts conv now [a] 0 maxBackoff = Some [a']" "haConsecutiveFailedFunds a = 27"
  shows "haNextFund a' < now"
  using assms by (auto simp: UpdateFundedAccounts_def pow2_duration_def wrap64_def Let_def min_def)

section \<open>Fund targets\<close>

lemma HostReadFundTarget_le:
  assumes "currency_ok C" "HostFundTarget C h b = Some t" "HostReadFundTarget C h b = Some r"
  shows "r \<le> t"
  using assms by (auto simp: HostFundTarget_def HostReadFundTarget_def Let_def bind_eq_Some_conv core_simps split: if_splits)

lemma target_sectors_covers:
  assumes "0 < SectorSize C" "unat b + unat (SectorSize C) \<le> 2 ^ 64" "0 < b"
  shows "unat b \<le> unat (target_sectors C b) * unat (SectorSize C)"
proof -
  let ?s = "unat (SectorSize C)"
  have s: "0 < ?s" "0 < unat b" using assms(1,3) by (simp_all add: word_gt_0 unat_gt_0)
  have "b + SectorSize C - 1 = of_nat (unat b + ?s - 1)" using s by (simp add: of_nat_diff)
  then have "unat (b + SectorSize C - 1) = unat b + ?s - 1"
    using assms(2) s unat_of_nat64[of "unat b + ?s - 1"] by simp
  then have "unat (target_sectors C b) = (unat b + ?s - 1) div ?s" by (simp add: target_sectors_def unat_div_distrib)
  moreover have "unat b \<le> (unat b + ?s - 1) div ?s * ?s"
    using s div_mult_mod_eq[of "unat b + ?s - 1" ?s] mod_less_divisor[OF s(1), of "unat b + ?s - 1"] by linarith
  ultimately show ?thesis by simp
qed

section \<open>Balances of service accounts\<close>

lemma balance_debit:
  assumes "currency_ok C" "DebitServiceAccount C hk acc amount sa = Inr sa'" "ServiceAccountBalance hk acc sa = Inr b"
  shows "ServiceAccountBalance hk' acc' sa' = (if hk' = hk \<and> acc' = acc then Inr (b - amount) else ServiceAccountBalance hk' acc' sa)"
proof -
  obtain m where m: "sa acc = Some m" "b = balance_of m hk" using assms(3) by (auto simp: ServiceAccountBalance_def split: option.splits)
  have "(if snd (cSubWithUnderflow C b amount) then 0 else fst (cSubWithUnderflow C b amount)) = b - amount"
    using assms(1) by (cases "amount \<le> b") (auto simp: core_simps not_le)
  then have "sa' = sa(acc \<mapsto> m(hk \<mapsto> b - amount))"
    using assms(2) m by (auto simp: DebitServiceAccount_def Let_def case_prod_beta)
  then show ?thesis using m by (auto simp: ServiceAccountBalance_def balance_of_def)
qed

lemma update_service_account_balance:
  "ServiceAccountBalance hk acc (update_service_account b a sa) =
    (if haAccountKey a = acc \<and> haHostKey a = hk \<and> sa acc \<noteq> None then Inr b else ServiceAccountBalance hk acc sa)"
  "update_service_account b a sa acc = None \<longleftrightarrow> sa acc = None"
  by (auto simp: update_service_account_def ServiceAccountBalance_def balance_of_def split: option.splits)

lemma UpdateServiceAccounts_balance:
  "ServiceAccountBalance hk acc (UpdateServiceAccounts accs b sa) =
    (if (\<exists>a \<in> set accs. haAccountKey a = acc \<and> haHostKey a = hk) \<and> sa acc \<noteq> None then Inr b else ServiceAccountBalance hk acc sa)"
  unfolding UpdateServiceAccounts_def
proof (induction accs arbitrary: sa)
  case (Cons a accs)
  show ?case by (simp only: fold_Cons comp_apply Cons.IH update_service_account_balance) auto
qed simp

section \<open>Examples\<close>

definition pruned_db :: db where
  "pruned_db = sample_funding_db\<lparr>tAccounts := map (\<lambda>a. if ac_id a = 2 then a\<lparr>ac_deleted_at := Some 60\<rparr> else a) (tAccounts sample_funding_db)\<rparr>"

lemma performPruneAccounts_total_witness:
  "\<exists>d'. performPruneAccounts (Suc (prunable pruned_db)) pruned_db = Some (Inr (), d') \<and> map ac_public_key (tAccounts d') = [41]"
proof -
  have rows: "distinct (map ac_id (tAccounts pruned_db))" "distinct (map ob_id (tObjects pruned_db))"
      "map ac_public_key (filter (\<lambda>a. ac_deleted_at a = None) (tAccounts pruned_db)) = [41]"
    by (simp_all add: pruned_db_def sample_funding_db_def sample_accounts_db_def sample_hosts_db_def sample_defs new_account_row_def)
  from performPruneAccounts_total[OF rows(1,2), of "Suc (prunable pruned_db)"] rows(3) show ?thesis by (auto simp del: performPruneAccounts.simps)
qed

lemma UpdateFundedAccounts_backoff_witness:
  "\<exists>accs'. UpdateFundedAccounts (\<lambda>_. 0) 10 [\<lparr>haAccountKey = 41, haHostKey = 11, haConsecutiveFailedFunds = 3, haNextFund = 0, haFullStorage = False\<rparr>] 0 (128 * time_minute)
     = Some accs' \<and> haNextFund (accs' ! 0) = 10 + 16 * time_minute"
proof -
  let ?accs = "[\<lparr>haAccountKey = 41, haHostKey = 11, haConsecutiveFailedFunds = 3, haNextFund = 0, haFullStorage = False\<rparr>]"
  obtain accs' where accs': "UpdateFundedAccounts (\<lambda>_. 0) 10 ?accs 0 (128 * time_minute) = Some accs'" by (simp add: UpdateFundedAccounts_def)
  from UpdateFundedAccounts_backoff[OF this, of 0] accs' show ?thesis by simp
qed

end
