(* ===== verification/Funder.thy ===== *)
theory Funder
  imports Account_Manager Revisions
begin

text \<open>
  Funding accounts and pools with contracts: contracts/funder.go. The host is a state \<open>'w\<close> that the
  RPCs change; \<open>unlocked\<close> says whether \<open>TryLockContract\<close> gets the lock of a contract.
\<close>

section \<open>One contract\<close>

record account_deposit =
  DepositAccount :: account_key
  DepositAmount :: currency

record funded_deposit =
  FundedContractID :: contract_id
  Deposit :: account_deposit

record replenish_result =
  ReplenishRevision :: v2_contract
  ReplenishUsage :: usage
  ReplenishDeposits :: "account_deposit list"

text \<open>\<open>ReplenishAccounts\<close> or \<open>ReplenishPools\<close>: the keys, the target and the contract.\<close>

type_synonym 'w replenish_client = "account_key list \<Rightarrow> currency \<Rightarrow> contract_revision \<Rightarrow> 'w \<Rightarrow> replenish_result result \<times> 'w"

text \<open>
  The variables that the revise function assigns: how many accounts are funded, the deposits, and the
  result of the last RPC. \<open>fundPanic\<close> is set when the division by the target panics.
\<close>

record fund_state =
  funded :: nat
  deposits :: "funded_deposit list"
  lastResult :: "replenish_result option"
  fundPanic :: bool

text \<open>\<open>int(max(1, min(value.Div(target).Big().Uint64(), proto.MaxAccountBatchSize)))\<close>; \<open>Uint64\<close> takes the low 64 bits.\<close>

definition fund_batch_size :: "core_ops \<Rightarrow> nat \<Rightarrow> nat" where
  "fund_batch_size C q = max 1 (min (unat (of_nat q :: u64)) (MaxAccountBatchSize C))"

definition fund_revise ::
  "core_ops \<Rightarrow> 'w replenish_client \<Rightarrow> account_key list \<Rightarrow> currency \<Rightarrow> contract_id \<Rightarrow> ('w \<times> fund_state) revise_fn" where
  "fund_revise C client keys target contractID contract ws =
     (case ws of (w, st) \<Rightarrow>
        if cCmp C (RenterOutputValue (Revision contract)) target < 0 then (Inl ErrContractInsufficientFunds, (w, st))
        else case cDiv C (RenterOutputValue (Revision contract)) target of
          None \<Rightarrow> (Inl (ErrMsg ''division by zero''), (w, st\<lparr>fundPanic := True\<rparr>))
        | Some q \<Rightarrow>
            let maxEnd = min (length keys) (funded st + fund_batch_size C q)
            in case client (drop (funded st) (take maxEnd keys)) target contract w of
                 (Inl e, w) \<Rightarrow> (Inl e, (w, st))
               | (Inr r, w) \<Rightarrow>
                   (Inr (\<lparr>RevID = contractID, Revision = ReplenishRevision r\<rparr>, ReplenishUsage r),
                    (w, st\<lparr>funded := maxEnd, deposits := deposits st @ map (\<lambda>d. \<lparr>FundedContractID = contractID, Deposit = d\<rparr>) (ReplenishDeposits r),
                           lastResult := Some r\<rparr>)))"

text \<open>What a funder is built from, besides the client.\<close>

record ('s, 'w) funder =
  fRevisions :: "'s revision_store"
  fLatestRevision :: "'w latest_revision_client"
  fBuffer :: u64
  fHeight :: "'w \<Rightarrow> u64"
  fInvalidSig :: "err \<Rightarrow> bool"
  fUnlocked :: "contract_id \<Rightarrow> 'w \<Rightarrow> bool"

definition lift_latest :: "'w latest_revision_client \<Rightarrow> ('w \<times> 'v) latest_revision_client" where
  "lift_latest LR hk i ws = (case ws of (w, st) \<Rightarrow> (case LR hk i w of (r, w) \<Rightarrow> (r, (w, st))))"

text \<open>
  The function run for one contract: whether everything is funded, the number of drained contracts
  after it, and the new states. \<open>None\<close> is a panic.
\<close>

definition fund_contract ::
  "core_ops \<Rightarrow> ('s, 'w) funder \<Rightarrow> 'w replenish_client \<Rightarrow> account_key list \<Rightarrow> currency \<Rightarrow> contract_id \<Rightarrow> nat \<Rightarrow> 's \<Rightarrow> 'w \<Rightarrow> fund_state
     \<Rightarrow> (bool \<times> nat \<times> 's \<times> 'w \<times> fund_state) option" where
  "fund_contract C F client keys target contractID drained s w st =
     (if \<not> fUnlocked F contractID w then Some (False, drained, s, w, st)
      else case WithRevision C (fRevisions F) (lift_latest (fLatestRevision F)) (fBuffer F) (fHeight F w) (fInvalidSig F) contractID
                  (fund_revise C client keys target contractID) s (w, st) of
             None \<Rightarrow> None
           | Some (err, s, (w, st)) \<Rightarrow>
               if fundPanic st then None
               else case err of
                 Inl e \<Rightarrow>
                   if e = ErrContractInsufficientFunds \<or> e = ErrContractNotRevisable then Some (False, drained + 1, s, w, st)
                   else Some (False, drained, s, w, st)
               | Inr _ \<Rightarrow>
                   (case lastResult st of
                      None \<Rightarrow> None
                    | Some res \<Rightarrow>
                        let drained = (if cCmp C (RemainingAllowance C (ReplenishRevision res)) target < 0 then drained + 1 else drained)
                        in Some (funded st = length keys, drained, s, w, st)))"

fun fund_contracts ::
  "core_ops \<Rightarrow> ('s, 'w) funder \<Rightarrow> 'w replenish_client \<Rightarrow> account_key list \<Rightarrow> currency \<Rightarrow> contract_id list \<Rightarrow> nat \<Rightarrow> 's \<Rightarrow> 'w \<Rightarrow> fund_state
     \<Rightarrow> (nat \<times> 's \<times> 'w \<times> fund_state) option" where
  "fund_contracts C F client keys target [] drained s w st = Some (drained, s, w, st)"
| "fund_contracts C F client keys target (contractID # rest) drained s w st =
     (case fund_contract C F client keys target contractID drained s w st of
        None \<Rightarrow> None
      | Some (done, drained, s, w, st) \<Rightarrow>
          if done then Some (drained, s, w, st) else fund_contracts C F client keys target rest drained s w st)"

definition no_funds :: fund_state where
  "no_funds = \<lparr>funded = 0, deposits = [], lastResult = None, fundPanic = False\<rparr>"

text \<open>The body that \<open>FundAccounts\<close> and \<open>FundPools\<close> share, up to the RPC and the error messages.\<close>

definition fund_keys ::
  "core_ops \<Rightarrow> ('s, 'w) funder \<Rightarrow> 'w replenish_client \<Rightarrow> string \<Rightarrow> contract_id list \<Rightarrow> account_key list \<Rightarrow> currency \<Rightarrow> 's \<Rightarrow> 'w
     \<Rightarrow> ((nat \<times> nat \<times> funded_deposit list) result \<times> 's \<times> 'w) option" where
  "fund_keys C F client tooMany contractIDs keys target s w =
     (if length keys > MaxAccountBatchSize C then Some (Inl (ErrMsg tooMany), s, w)
      else if contractIDs = [] then Some (Inl (ErrMsg ''no contract provided''), s, w)
      else if keys = [] then Some (Inr (0, 0, []), s, w)
      else map_option (\<lambda>(drained, s, w, st). (Inr (funded st, drained, deposits st), s, w))
             (fund_contracts C F client keys target contractIDs 0 s w no_funds))"

definition Funder_FundAccounts ::
  "core_ops \<Rightarrow> ('s, 'w) funder \<Rightarrow> 'w replenish_client \<Rightarrow> contract_id list \<Rightarrow> host_account list \<Rightarrow> currency \<Rightarrow> 's \<Rightarrow> 'w
     \<Rightarrow> ((nat \<times> nat \<times> funded_deposit list) result \<times> 's \<times> 'w) option" where
  "Funder_FundAccounts C F client contractIDs accs target s w =
     fund_keys C F client ''too many accounts'' contractIDs (map haAccountKey accs) target s w"

definition Funder_FundPools ::
  "core_ops \<Rightarrow> crypto \<Rightarrow> ('s, 'w) funder \<Rightarrow> 'w replenish_client \<Rightarrow> contract_id list \<Rightarrow> host_pool list \<Rightarrow> currency \<Rightarrow> 's \<Rightarrow> 'w
     \<Rightarrow> ((nat \<times> nat \<times> funded_deposit list) result \<times> 's \<times> 'w) option" where
  "Funder_FundPools C K F client contractIDs pools target s w =
     fund_keys C F client ''too many pools'' contractIDs (map (PublicKeyOf K \<circ> hpPoolKey) pools) target s w"

section \<open>Every funded account is in one successful RPC\<close>

text \<open>A client that records the keys of its successful calls in front of the host.\<close>

definition logged :: "'w replenish_client \<Rightarrow> ('w \<times> account_key list) replenish_client" where
  "logged client ks target contract wl =
     (case wl of (w, calls) \<Rightarrow>
        (case client ks target contract w of (Inl e, w) \<Rightarrow> (Inl e, (w, calls)) | (Inr r, w) \<Rightarrow> (Inr r, (w, calls @ ks))))"

text \<open>Fetching the latest revision is not a replenish call.\<close>

definition keeps_calls :: "('s, 'w \<times> account_key list) funder \<Rightarrow> bool" where
  "keeps_calls F \<longleftrightarrow> (\<forall>hk i w calls. snd (snd (fLatestRevision F hk i (w, calls))) = calls)"

text \<open>What holds while a batch is being funded: the recorded keys are the funded prefix.\<close>

definition fund_ok :: "account_key list \<Rightarrow> account_key list \<Rightarrow> ('w \<times> account_key list) \<times> fund_state \<Rightarrow> bool" where
  "fund_ok keys calls0 ws = (case ws of ((w, calls), st) \<Rightarrow> calls = calls0 @ take (funded st) keys \<and> funded st \<le> length keys)"

lemma fund_revise_ok:
  assumes "fund_ok keys calls0 ws" "fund_revise C (logged client) keys target i contract ws = (res, ws')"
  shows "fund_ok keys calls0 ws'"
proof -
  obtain w calls st where ws: "ws = ((w, calls), st)" by (metis surj_pair)
  have split: "take n keys = take (funded st) keys @ drop (funded st) (take n keys)" if "funded st \<le> n" for n
    using that by (metis append_take_drop_id take_take min.absorb1)
  show ?thesis using assms unfolding ws
    by (auto simp: fund_revise_def fund_ok_def logged_def Let_def split: if_splits option.splits prod.splits sum.splits)
      (use split in \<open>auto simp: min_def\<close>)
qed

lemma fund_contract_ok:
  assumes "fund_ok keys calls0 (w, st)" "fund_contract C F (logged client) keys target i drained s w st = Some (fin, drained', s', w', st')"
    and LR: "keeps_calls F"
  shows "fund_ok keys calls0 (w', st') \<and> drained' \<le> drained + 1 \<and> (fin \<longrightarrow> funded st' = length keys)"
proof (cases "fUnlocked F i w")
  case False
  with assms(1,2) show ?thesis by (simp add: fund_contract_def)
next
  case True
  with assms(2) obtain err where run: "WithRevision C (fRevisions F) (lift_latest (fLatestRevision F)) (fBuffer F) (fHeight F w) (fInvalidSig F) i
      (fund_revise C (logged client) keys target i) s (w, st) = Some (err, s', w', st')"
    and res: "drained' \<le> drained + 1" "fin \<longrightarrow> funded st' = length keys"
    by (auto simp: fund_contract_def Let_def split: option.splits prod.splits sum.splits if_splits)
  have LR': "fund_ok keys calls0 ws'" if "fund_ok keys calls0 ws" "lift_latest (fLatestRevision F) hk j ws = (r, ws')" for hk j ws r ws'
    using that LR by (cases ws) (auto simp: lift_latest_def fund_ok_def keeps_calls_def split: prod.splits, metis snd_conv)
  from run have "fund_ok keys calls0 (w', st')"
    by (rule WithRevision_cases[where P = "\<lambda>_. fund_ok keys calls0" and K = "\<lambda>_. True", rotated 7])
      (use assms(1) fund_revise_ok LR' in blast)+
  with res show ?thesis by blast
qed

lemma fund_contracts_ok:
  assumes "fund_ok keys calls0 (w, st)" "fund_contracts C F (logged client) keys target ids drained s w st = Some (drained', s', w', st')"
    and LR: "keeps_calls F"
  shows "fund_ok keys calls0 (w', st') \<and> drained' \<le> drained + length ids"
  using assms(1,2)
proof (induction ids arbitrary: drained s w st)
  case (Cons i ids)
  from Cons.prems(2) obtain fin dr s1 w1 st1 where step: "fund_contract C F (logged client) keys target i drained s w st = Some (fin, dr, s1, w1, st1)"
    and rest: "(if fin then Some (dr, s1, w1, st1) else fund_contracts C F (logged client) keys target ids dr s1 w1 st1) = Some (drained', s', w', st')"
    by (auto split: option.splits)
  note ok = fund_contract_ok[OF Cons.prems(1) step LR]
  show ?case
  proof (cases fin)
    case True
    with ok rest show ?thesis by auto
  next
    case False
    with Cons.IH[of w1 st1 dr s1] ok rest show ?thesis by auto
  qed
qed simp

text \<open>
  Claim C12: funding a batch of accounts reports the length of a prefix of the batch, and the successful
  replenish RPCs together covered exactly this prefix: every account that counts as funded was in one
  successful call, in order, and no other account was in any. At most one contract is reported as
  drained per contract given.
\<close>

theorem FundAccounts_funds_prefix:
  assumes run: "Funder_FundAccounts C F (logged client) contractIDs accs target s (w, []) = Some (Inr (n, drained, ds), s', (w', calls))"
    and LR: "keeps_calls F"
  shows "n \<le> length accs \<and> calls = map haAccountKey (take n accs) \<and> drained \<le> length contractIDs"
proof -
  let ?keys = "map haAccountKey accs"
  have init: "fund_ok ?keys [] ((w, []), no_funds)" by (simp add: fund_ok_def no_funds_def)
  show ?thesis
  proof (cases "accs = []")
    case True
    with run show ?thesis by (auto simp: Funder_FundAccounts_def fund_keys_def split: if_splits)
  next
    case False
    with run obtain st where "fund_contracts C F (logged client) ?keys target contractIDs 0 s (w, []) no_funds = Some (drained, s', (w', calls), st)" "n = funded st"
      by (auto simp: Funder_FundAccounts_def fund_keys_def split: if_splits)
    from fund_contracts_ok[OF init this(1) LR] this(2) show ?thesis by (simp add: fund_ok_def take_map)
  qed
qed

section \<open>Examples\<close>

text \<open>A host that takes the target per account from the contract.\<close>

definition sample_replenish :: "nat replenish_client" where
  "sample_replenish ks target c w =
     (Inr \<lparr>ReplenishRevision = (Revision c)\<lparr>RevisionNumber := RevisionNumber (Revision c) + 1,
            RenterOutputValue := RenterOutputValue (Revision c) - target * length ks\<rparr>,
           ReplenishUsage = plain_usage (target * length ks) 0,
           ReplenishDeposits = map (\<lambda>k. \<lparr>DepositAccount = k, DepositAmount = target\<rparr>) ks\<rparr>, w + 1)"

definition sample_funder :: "(contract_id \<Rightarrow> bool) \<Rightarrow> (db, nat \<times> account_key list) funder" where
  "sample_funder unlocked = \<lparr>fRevisions = pg_revision_store sample_core,
     fLatestRevision = (\<lambda>_ _ w. (Inl ErrHostUnreachable, w)), fBuffer = 10, fHeight = (\<lambda>_. 100),
     fInvalidSig = (\<lambda>e. e = ErrInvalidSignature), fUnlocked = (\<lambda>i _. unlocked i)\<rparr>"

definition sample_account :: "account_key \<Rightarrow> host_account" where
  "sample_account k = \<lparr>haAccountKey = k, haHostKey = 11, haConsecutiveFailedFunds = 0, haNextFund = 0, haFullStorage = False\<rparr>"

text \<open>Contract 21 with an allowance of 1000, and a copy of it.\<close>

definition rich_row :: "contract_id \<Rightarrow> contract_row" where
  "rich_row i = (sample_contract_row 1 i)\<lparr>ct_raw_revision := sample_fc\<lparr>RenterOutputValue := 1000\<rparr>, ct_remaining_allowance := 1000\<rparr>"

definition rich_db :: db where
  "rich_db = sample_db\<lparr>tContracts := [rich_row 21, rich_row 22]\<rparr>"

lemmas funder_eval = Funder_FundAccounts_def fund_keys_def fund_contract_def sample_funder_def sample_account_def logged_def sample_replenish_def no_funds_def
  fund_revise_def fund_batch_size_def lift_latest_def WithRevision_def pg_revision_store_def ContractRevision_def isBeyondMaxRevisionHeight_def
  finish_revision_def commit_def UpdateContractRevision_def Let_def word_le_nat_alt word_less_nat_alt contract_defs sample_core_usage
  sample_core_def plain_usage_def sample_defs sample_fc_def revise_row_def rich_db_def rich_row_def

lemma FundAccounts_funds_prefix_witness:
  "\<exists>n drained ds s' w' calls. Funder_FundAccounts sample_core (sample_funder (\<lambda>_. True)) (logged sample_replenish) [21] [sample_account 41, sample_account 42] 400
       rich_db (0, []) = Some (Inr (n, drained, ds), s', (w', calls)) \<and> n = 2 \<and> calls = [41, 42] \<and> drained \<le> 1"
proof -
  obtain drained ds s' w' calls where run: "Funder_FundAccounts sample_core (sample_funder (\<lambda>_. True)) (logged sample_replenish) [21]
      [sample_account 41, sample_account 42] 400 rich_db (0, []) = Some (Inr (2, drained, ds), s', (w', calls))"
    by (simp add: funder_eval)
  have "keeps_calls (sample_funder (\<lambda>_. True))" by (simp add: keeps_calls_def sample_funder_def)
  from FundAccounts_funds_prefix[OF run this] run show ?thesis by (auto simp: sample_account_def)
qed

text \<open>
  The number of drained contracts does not say that the first contracts are the drained ones: here the
  first contract is locked and keeps its allowance, and the second one is drained.
\<close>

lemma drained_not_prefix:
  "\<exists>ds d' r. Funder_FundAccounts sample_core (sample_funder (\<lambda>i. i \<noteq> 21)) (logged sample_replenish) [21, 22] [sample_account 41] 600 rich_db (0, [])
     = Some (Inr (1, 1, ds), d', (1, [41])) \<and> ContractRevision 21 d' = Inr (r, False) \<and> 600 \<le> RenterOutputValue (Revision r)"
  by (simp add: funder_eval)

end
