(* ===== verification/Contract_Funding.thy ===== *)
theory Contract_Funding
  imports Funder Loops
begin

text \<open>
  Funding at the level of the contract manager: contracts/funding.go. Each call of the store is one
  transaction; a failed one leaves the database as it was. The clock does not advance during a call.
\<close>

definition attachValidity :: duration where
  "attachValidity = 5 * time_minute"

definition serviceAccountFundTargetBytes :: u64 where
  "serviceAccountFundTargetBytes = 16 * 2 ^ 30"

type_synonym 'w attach_client = "public_key \<Rightarrow> pending_attachment list \<Rightarrow> duration \<Rightarrow> 'w \<Rightarrow> unit result \<times> 'w"

text \<open>What the contract manager is built from; the scans are the orders the database leaves open.\<close>

record 'w contract_manager =
  cmFunder :: "(db, 'w) funder"
  cmReplenishAccounts :: "'w replenish_client"
  cmReplenishPools :: "'w replenish_client"
  cmAttachPools :: "'w attach_client"
  cmCrypto :: crypto
  cmMaxBackoff :: duration
  cmConv :: "nat \<Rightarrow> int"
  cmNow :: gotime
  cmScanAccounts :: account_scan
  cmScanFunded :: "funded_account list \<Rightarrow> funded_account list"
  cmScanPools :: pool_scan
  cmScanFundedPools :: "funded_pool list \<Rightarrow> funded_pool list"
  cmScanPending :: "(account_row \<times> pool_row) list \<Rightarrow> (account_row \<times> pool_row) list"
  cmScanSharing :: "(pool_host_row \<times> pool_row \<times> connect_key_row) list \<Rightarrow> (pool_host_row \<times> pool_row \<times> connect_key_row) list"
  cmScanGroups :: "(string \<times> int) list \<Rightarrow> (string \<times> int) list"
  cmServiceAccounts :: "account_key list"

section \<open>Attaching pools\<close>

fun attachSharingPools ::
  "nat \<Rightarrow> core_ops \<Rightarrow> 'w contract_manager \<Rightarrow> public_key \<Rightarrow> db \<Rightarrow> 'w \<Rightarrow> (unit result \<times> db \<times> 'w) run" where
  "attachSharingPools 0 C M hk d w = OutOfFuel"
| "attachSharingPools (Suc fuel) C M hk d w =
     (let sharing = SharingPoolAttachments (cmCrypto M) (cmScanSharing M) hk (int (MaxAccountBatchSize C)) d
      in if sharing = [] then Done (Inr (), d, w)
         else case cmAttachPools M hk sharing attachValidity w of
           (Inl e, w) \<Rightarrow> Done (Inl e, d, w)
         | (Inr _, w) \<Rightarrow>
             (case MarkSharingPoolsAttached C hk sharing d of
                Inl e \<Rightarrow> Done (Inl e, d, w)
              | Inr (_, d) \<Rightarrow>
                  if length sharing < MaxAccountBatchSize C then Done (Inr (), d, w) else attachSharingPools fuel C M hk d w))"

text \<open>The first loop of \<open>AttachPools\<close>.\<close>

fun attach_pending ::
  "nat \<Rightarrow> core_ops \<Rightarrow> 'w contract_manager \<Rightarrow> public_key \<Rightarrow> db \<Rightarrow> 'w \<Rightarrow> (unit result \<times> db \<times> 'w) run" where
  "attach_pending 0 C M hk d w = OutOfFuel"
| "attach_pending (Suc fuel) C M hk d w =
     (let pending = PendingPoolAttachments (cmScanPending M) hk (int (MaxAccountBatchSize C)) d
      in if pending = [] then Done (Inr (), d, w)
         else case cmAttachPools M hk pending attachValidity w of
           (Inl e, w) \<Rightarrow> Done (Inl e, d, w)
         | (Inr _, w) \<Rightarrow>
             (case InsertPoolAttachments C hk pending d of
                Inl e \<Rightarrow> Done (Inl e, d, w)
              | Inr (_, d) \<Rightarrow>
                  if length pending < MaxAccountBatchSize C then Done (Inr (), d, w) else attach_pending fuel C M hk d w))"

definition AttachPools ::
  "nat \<Rightarrow> core_ops \<Rightarrow> 'w contract_manager \<Rightarrow> public_key \<Rightarrow> db \<Rightarrow> 'w \<Rightarrow> (unit result \<times> db \<times> 'w) run" where
  "AttachPools fuel C M hk d w =
     (case attach_pending fuel C M hk d w of
        Done (Inr _, d, w) \<Rightarrow> attachSharingPools fuel C M hk d w
      | other \<Rightarrow> other)"

section \<open>The fund target of a contract\<close>

text \<open>One iteration of the loop over the quotas; the counts are 64-bit.\<close>

definition add_quota_target :: "core_ops \<Rightarrow> host \<Rightarrow> currency \<Rightarrow> quota_fund_info \<Rightarrow> currency option" where
  "add_quota_target C h target info =
     (let fullStorage = min (qfFullStorage info) (qfActive info); upload = qfActive info - fullStorage
      in Option.bind (HostFundTarget C h (qfFundTargetBytes info)) (\<lambda>t. Option.bind (cMul64 C t upload) (\<lambda>t.
         Option.bind (HostReadFundTarget C h (qfFundTargetBytes info)) (\<lambda>r. Option.bind (cMul64 C r fullStorage) (\<lambda>r.
         Option.bind (cAdd C t r) (\<lambda>t. cAdd C target t))))))"

fun sum_quota_targets :: "core_ops \<Rightarrow> host \<Rightarrow> currency \<Rightarrow> quota_fund_info list \<Rightarrow> currency option" where
  "sum_quota_targets C h target [] = Some target"
| "sum_quota_targets C h target (info # infos) = Option.bind (add_quota_target C h target info) (\<lambda>t. sum_quota_targets C h t infos)"

definition ContractFundTarget :: "core_ops \<Rightarrow> 'w contract_manager \<Rightarrow> host \<Rightarrow> currency \<Rightarrow> db \<Rightarrow> currency option" where
  "ContractFundTarget C M h minAllowance d =
     (let threshold = cmNow M - AccountActivityThreshold;
          infos = (if HasPoolSupport C h then PoolFundingInfo (cmScanGroups M) threshold d else AccountFundingInfo (cmScanGroups M) threshold d)
      in Option.bind (sum_quota_targets C h 0 infos) (\<lambda>target.
         Option.bind (HostFundTarget C h serviceAccountFundTargetBytes) (\<lambda>t.
         Option.bind (cMul64 C t (of_nat (length (ServiceAccounts (cmServiceAccounts M) (PublicKey h))))) (\<lambda>t.
         Option.bind (cAdd C target t) (\<lambda>target.
         Some (if cCmp C target minAllowance < 0 then minAllowance else target))))))"

section \<open>Funding events\<close>

definition estimatedBytes :: "core_ops \<Rightarrow> currency \<Rightarrow> currency \<Rightarrow> bool \<Rightarrow> u64 option" where
  "estimatedBytes C amount costPerSector readOnly =
     (if costPerSector = 0 then Some 0
      else Option.bind (if readOnly then Some costPerSector else cMul64 C costPerSector 2) (\<lambda>divisor.
        if divisor = 0 then Some 0
        else Option.bind (cMul64 C amount (SectorSize C)) (\<lambda>x. Option.bind (cDiv C x divisor) (\<lambda>r.
          Some (if r \<ge> 2 ^ 64 then 2 ^ 63 - 1 else of_nat r)))))"

definition sector_cost :: "core_ops \<Rightarrow> usage option \<Rightarrow> currency option" where
  "sector_cost C u = Option.bind u (RenterCost C)"

definition deposit_event ::
  "core_ops \<Rightarrow> host \<Rightarrow> currency \<Rightarrow> currency \<Rightarrow> string \<Rightarrow> int option \<Rightarrow> bool \<Rightarrow> funded_deposit \<Rightarrow> funding_event option" where
  "deposit_event C h writeCost readCost fundType poolID readOnly d =
     Option.bind (estimatedBytes C (DepositAmount (Deposit d)) readCost readOnly) (\<lambda>down.
     Option.bind (if readOnly then Some 0 else estimatedBytes C (DepositAmount (Deposit d)) writeCost False) (\<lambda>up.
       Some \<lparr>feID = 0, feAccountKey = DepositAccount (Deposit d), feHostKey = PublicKey h, feContractID = FundedContractID d,
             feAmountSC = DepositAmount (Deposit d), feEstimatedUploadBytes = up, feEstimatedDownloadBytes = down,
             feFundType = fundType, fePoolID = poolID, feQuotaName = None, feCreatedAt = 0\<rparr>))"

fun deposit_events ::
  "core_ops \<Rightarrow> host \<Rightarrow> currency \<Rightarrow> currency \<Rightarrow> string \<Rightarrow> (account_key \<Rightarrow> int option) \<Rightarrow> bool \<Rightarrow> funded_deposit list \<Rightarrow> funding_event list option" where
  "deposit_events C h wc rc fundType poolID readOnly [] = Some []"
| "deposit_events C h wc rc fundType poolID readOnly (d # ds) =
     Option.bind (deposit_event C h wc rc fundType (poolID (DepositAccount (Deposit d))) readOnly d) (\<lambda>e.
     Option.bind (deposit_events C h wc rc fundType poolID readOnly ds) (\<lambda>es. Some (e # es)))"

text \<open>A failure to record the events is only logged.\<close>

definition recordFundingEventsTyped ::
  "core_ops \<Rightarrow> gotime \<Rightarrow> host \<Rightarrow> funded_deposit list \<Rightarrow> string \<Rightarrow> (account_key \<Rightarrow> int option) \<Rightarrow> bool \<Rightarrow> db \<Rightarrow> db option" where
  "recordFundingEventsTyped C now h ds fundType poolID readOnly d =
     (if ds = [] then Some d
      else Option.bind (sector_cost C (RPCWriteSectorCost C (Prices (Settings h)) (SectorSize C))) (\<lambda>wc.
        Option.bind (sector_cost C (RPCReadSectorCost C (Prices (Settings h)) (SectorSize C))) (\<lambda>rc.
        Option.bind (deposit_events C h wc rc fundType poolID readOnly ds) (\<lambda>events.
        Some (case RecordFundingEvents now events d of Inl _ \<Rightarrow> d | Inr (_, d) \<Rightarrow> d)))))"

definition recordFundingEvents :: "core_ops \<Rightarrow> gotime \<Rightarrow> host \<Rightarrow> funded_deposit list \<Rightarrow> bool \<Rightarrow> db \<Rightarrow> db option" where
  "recordFundingEvents C now h ds readOnly d = recordFundingEventsTyped C now h ds ''account'' (\<lambda>_. None) readOnly d"

text \<open>The pool of a deposit; a key that is not among the pools reads as 0 from the Go map.\<close>

definition recordPoolFundingEvents :: "core_ops \<Rightarrow> crypto \<Rightarrow> gotime \<Rightarrow> host \<Rightarrow> funded_deposit list \<Rightarrow> host_pool list \<Rightarrow> bool \<Rightarrow> db \<Rightarrow> db option" where
  "recordPoolFundingEvents C K now h ds pools readOnly d =
     (let poolIDs = foldl (\<lambda>m p. m(PublicKeyOf K (hpPoolKey p) \<mapsto> hpID p)) Map.empty pools
      in recordFundingEventsTyped C now h ds ''pool'' (\<lambda>k. Some (case poolIDs k of None \<Rightarrow> 0 | Some i \<Rightarrow> i)) readOnly d)"

section \<open>Funding accounts\<close>

text \<open>
  One of the two batches of an iteration: what is left of the contracts, or an error. \<open>None\<close> is a panic.
\<close>

definition fund_account_batch ::
  "core_ops \<Rightarrow> 'w contract_manager \<Rightarrow> host \<Rightarrow> host_account list \<Rightarrow> currency \<Rightarrow> bool \<Rightarrow> contract_id list \<Rightarrow> db \<Rightarrow> 'w
     \<Rightarrow> (contract_id list result \<times> db \<times> 'w) option" where
  "fund_account_batch C M h accs target readOnly contractIDs d w =
     (if accs = [] \<or> target = 0 then Some (Inr contractIDs, d, w)
      else case Funder_FundAccounts C (cmFunder M) (cmReplenishAccounts M) contractIDs accs target d w of
        None \<Rightarrow> None
      | Some (Inl e, d, w) \<Rightarrow> Some (Inl e, d, w)
      | Some (Inr (n, drained, ds), d, w) \<Rightarrow>
          Option.bind (recordFundingEvents C (cmNow M) h ds readOnly d) (\<lambda>d.
          Option.bind (UpdateFundedAccounts (cmConv M) (cmNow M) accs n (cmMaxBackoff M)) (\<lambda>accs.
            case UpdateHostAccounts C accs d of
              Inl e \<Rightarrow> Some (Inl e, d, w)
            | Inr (_, d) \<Rightarrow> if drained > length contractIDs then None else Some (Inr (drop drained contractIDs), d, w))))"

text \<open>The loop for one quota; no contracts left means that the loop over the quotas is left, too.\<close>

fun fund_quota_accounts ::
  "nat \<Rightarrow> core_ops \<Rightarrow> 'w contract_manager \<Rightarrow> host \<Rightarrow> string \<Rightarrow> currency \<Rightarrow> currency \<Rightarrow> contract_id list \<Rightarrow> db \<Rightarrow> 'w
     \<Rightarrow> (contract_id list result \<times> db \<times> 'w) run" where
  "fund_quota_accounts 0 C M h quota fundTarget readTarget contractIDs d w = OutOfFuel"
| "fund_quota_accounts (Suc fuel) C M h quota fundTarget readTarget contractIDs d w =
     (case HostAccountsForFunding (cmNow M) (cmScanAccounts M) (cmScanFunded M) (PublicKey h) quota (cmNow M - AccountActivityThreshold)
             (int (MaxAccountBatchSize C)) d of
        Inl e \<Rightarrow> Done (Inl e, d, w)
      | Inr accs \<Rightarrow>
          if accs = [] then Done (Inr contractIDs, d, w)
          else case fund_account_batch C M h (filter (\<lambda>a. \<not> haFullStorage a) accs) fundTarget False contractIDs d w of
            None \<Rightarrow> Panic
          | Some (Inl e, d, w) \<Rightarrow> Done (Inl e, d, w)
          | Some (Inr contractIDs, d, w) \<Rightarrow>
              if contractIDs = [] then Done (Inr [], d, w)
              else case fund_account_batch C M h (filter haFullStorage accs) readTarget True contractIDs d w of
                None \<Rightarrow> Panic
              | Some (Inl e, d, w) \<Rightarrow> Done (Inl e, d, w)
              | Some (Inr contractIDs, d, w) \<Rightarrow>
                  if contractIDs = [] \<or> length accs < MaxAccountBatchSize C then Done (Inr contractIDs, d, w)
                  else fund_quota_accounts fuel C M h quota fundTarget readTarget contractIDs d w)"

fun fund_quotas_accounts ::
  "nat \<Rightarrow> core_ops \<Rightarrow> 'w contract_manager \<Rightarrow> host \<Rightarrow> quota_row list \<Rightarrow> contract_id list \<Rightarrow> db \<Rightarrow> 'w \<Rightarrow> (unit result \<times> db \<times> 'w) run" where
  "fund_quotas_accounts fuel C M h [] contractIDs d w = Done (Inr (), d, w)"
| "fund_quotas_accounts fuel C M h (quota # quotas) contractIDs d w =
     (case (HostFundTarget C h (word_of_int (q_fund_target_bytes quota)), HostReadFundTarget C h (word_of_int (q_fund_target_bytes quota))) of
        (Some fundTarget, Some readFundTarget) \<Rightarrow>
          if fundTarget = 0 \<and> readFundTarget = 0 then fund_quotas_accounts fuel C M h quotas contractIDs d w
          else (case fund_quota_accounts fuel C M h (q_name quota) fundTarget readFundTarget contractIDs d w of
             OutOfFuel \<Rightarrow> OutOfFuel
           | Panic \<Rightarrow> Panic
           | Done (Inl e, d, w) \<Rightarrow> Done (Inl e, d, w)
           | Done (Inr contractIDs, d, w) \<Rightarrow>
               if contractIDs = [] then Done (Inr (), d, w) else fund_quotas_accounts fuel C M h quotas contractIDs d w)
      | _ \<Rightarrow> Panic)"

definition FundAccounts ::
  "nat \<Rightarrow> core_ops \<Rightarrow> 'w contract_manager \<Rightarrow> host \<Rightarrow> contract_id list \<Rightarrow> quota_row list \<Rightarrow> db \<Rightarrow> 'w \<Rightarrow> (unit result \<times> db \<times> 'w) run" where
  "FundAccounts fuel C M h contractIDs quotas d w =
     (if contractIDs = [] \<or> Blocked h \<or> \<not> Usable (Usability h) \<or> HasPoolSupport C h then Done (Inr (), d, w)
      else fund_quotas_accounts fuel C M h quotas contractIDs d w)"

section \<open>Funding service accounts\<close>

text \<open>
  The balances of the service accounts are the state of the account manager. The slice of the funded
  accounts panics when more are reported than there are.
\<close>

definition FundServiceAccounts ::
  "core_ops \<Rightarrow> 'w contract_manager \<Rightarrow> host \<Rightarrow> contract_id list \<Rightarrow> service_accounts \<Rightarrow> db \<Rightarrow> 'w
     \<Rightarrow> (unit result \<times> service_accounts \<times> db \<times> 'w) option" where
  "FundServiceAccounts C M h contractIDs sa d w =
     (if contractIDs = [] \<or> Blocked h \<or> \<not> Usable (Usability h) then Some (Inr (), sa, d, w)
      else let accs = ServiceAccounts (cmServiceAccounts M) (PublicKey h)
           in if accs = [] then Some (Inr (), sa, d, w)
              else Option.bind (HostFundTarget C h serviceAccountFundTargetBytes) (\<lambda>fundTarget.
                case Funder_FundAccounts C (cmFunder M) (cmReplenishAccounts M) contractIDs accs fundTarget d w of
                  None \<Rightarrow> None
                | Some (Inl e, d, w) \<Rightarrow> Some (Inl e, sa, d, w)
                | Some (Inr (n, _, ds), d, w) \<Rightarrow>
                    Option.bind (recordFundingEvents C (cmNow M) h ds False d) (\<lambda>d.
                      if n > length accs then None
                      else Some (Inr (), UpdateServiceAccounts (take n accs) fundTarget sa, d, w))))"

section \<open>Funding pools\<close>

definition fund_pool_batch ::
  "core_ops \<Rightarrow> 'w contract_manager \<Rightarrow> host \<Rightarrow> host_pool list \<Rightarrow> currency \<Rightarrow> bool \<Rightarrow> contract_id list \<Rightarrow> db \<Rightarrow> 'w
     \<Rightarrow> (contract_id list result \<times> db \<times> 'w) option" where
  "fund_pool_batch C M h pools target readOnly contractIDs d w =
     (if pools = [] \<or> target = 0 then Some (Inr contractIDs, d, w)
      else case Funder_FundPools C (cmCrypto M) (cmFunder M) (cmReplenishPools M) contractIDs pools target d w of
        None \<Rightarrow> None
      | Some (Inl e, d, w) \<Rightarrow> Some (Inl e, d, w)
      | Some (Inr (n, drained, ds), d, w) \<Rightarrow>
          Option.bind (recordPoolFundingEvents C (cmCrypto M) (cmNow M) h ds pools readOnly d) (\<lambda>d.
          Option.bind (UpdateFundedPools (cmConv M) (cmNow M) pools n (cmMaxBackoff M)) (\<lambda>pools.
            case UpdateHostPools C pools d of
              Inl e \<Rightarrow> Some (Inl e, d, w)
            | Inr (_, d) \<Rightarrow> if drained > length contractIDs then None else Some (Inr (drop drained contractIDs), d, w))))"

fun fund_quota_pools ::
  "nat \<Rightarrow> core_ops \<Rightarrow> 'w contract_manager \<Rightarrow> host \<Rightarrow> string \<Rightarrow> currency \<Rightarrow> currency \<Rightarrow> contract_id list \<Rightarrow> db \<Rightarrow> 'w
     \<Rightarrow> (contract_id list result \<times> db \<times> 'w) run" where
  "fund_quota_pools 0 C M h quota fundTarget readTarget contractIDs d w = OutOfFuel"
| "fund_quota_pools (Suc fuel) C M h quota fundTarget readTarget contractIDs d w =
     (case HostPoolsForFunding (cmNow M) (cmScanPools M) (cmScanFundedPools M) (PublicKey h) quota (cmNow M - AccountActivityThreshold)
             (int (MaxAccountBatchSize C)) d of
        Inl e \<Rightarrow> Done (Inl e, d, w)
      | Inr pools \<Rightarrow>
          if pools = [] then Done (Inr contractIDs, d, w)
          else case fund_pool_batch C M h (filter (\<lambda>p. \<not> hpFullStorage p) pools) fundTarget False contractIDs d w of
            None \<Rightarrow> Panic
          | Some (Inl e, d, w) \<Rightarrow> Done (Inl e, d, w)
          | Some (Inr contractIDs, d, w) \<Rightarrow>
              if contractIDs = [] then Done (Inr [], d, w)
              else case fund_pool_batch C M h (filter hpFullStorage pools) readTarget True contractIDs d w of
                None \<Rightarrow> Panic
              | Some (Inl e, d, w) \<Rightarrow> Done (Inl e, d, w)
              | Some (Inr contractIDs, d, w) \<Rightarrow>
                  if contractIDs = [] \<or> length pools < MaxAccountBatchSize C then Done (Inr contractIDs, d, w)
                  else fund_quota_pools fuel C M h quota fundTarget readTarget contractIDs d w)"

fun fund_quotas_pools ::
  "nat \<Rightarrow> core_ops \<Rightarrow> 'w contract_manager \<Rightarrow> host \<Rightarrow> quota_row list \<Rightarrow> contract_id list \<Rightarrow> db \<Rightarrow> 'w \<Rightarrow> (unit result \<times> db \<times> 'w) run" where
  "fund_quotas_pools fuel C M h [] contractIDs d w = Done (Inr (), d, w)"
| "fund_quotas_pools fuel C M h (quota # quotas) contractIDs d w =
     (case (HostFundTarget C h (word_of_int (q_fund_target_bytes quota)), HostReadFundTarget C h (word_of_int (q_fund_target_bytes quota))) of
        (Some fundTarget, Some readFundTarget) \<Rightarrow>
          if fundTarget = 0 \<and> readFundTarget = 0 then fund_quotas_pools fuel C M h quotas contractIDs d w
          else (case fund_quota_pools fuel C M h (q_name quota) fundTarget readFundTarget contractIDs d w of
             OutOfFuel \<Rightarrow> OutOfFuel
           | Panic \<Rightarrow> Panic
           | Done (Inl e, d, w) \<Rightarrow> Done (Inl e, d, w)
           | Done (Inr contractIDs, d, w) \<Rightarrow>
               if contractIDs = [] then Done (Inr (), d, w) else fund_quotas_pools fuel C M h quotas contractIDs d w)
      | _ \<Rightarrow> Panic)"

definition FundPools ::
  "nat \<Rightarrow> core_ops \<Rightarrow> 'w contract_manager \<Rightarrow> host \<Rightarrow> contract_id list \<Rightarrow> quota_row list \<Rightarrow> db \<Rightarrow> 'w \<Rightarrow> (unit result \<times> db \<times> 'w) run" where
  "FundPools fuel C M h contractIDs quotas d w =
     (if \<not> HasPoolSupport C h \<or> contractIDs = [] \<or> Blocked h \<or> \<not> Usable (Usability h) then Done (Inr (), d, w)
      else fund_quotas_pools fuel C M h quotas contractIDs d w)"

section \<open>Attaching ends\<close>

definition attach_succeeds :: "'w contract_manager \<Rightarrow> bool" where
  "attach_succeeds M \<longleftrightarrow> (\<forall>hk atts v w. \<exists>w'. cmAttachPools M hk atts v w = (Inr (), w'))"

definition attach_ready :: "core_ops \<Rightarrow> 'w contract_manager \<Rightarrow> db \<Rightarrow> bool" where
  "attach_ready C M d \<longleftrightarrow> pooled_wf d \<and> attach_succeeds M \<and> 0 < MaxAccountBatchSize C \<and>
     (\<forall>xs. mset (cmScanPending M xs) = mset xs) \<and> (\<forall>xs. mset (cmScanSharing M xs) = mset xs)"

text \<open>The state after the first loop: nothing is pending, and only attachments were recorded.\<close>

definition all_attached :: "public_key \<Rightarrow> db \<times> 'w \<Rightarrow> (unit result \<times> db \<times> 'w) run \<Rightarrow> bool" where
  "all_attached hk s r \<longleftrightarrow> (\<exists>T w'. r = Done (Inr (), (fst s)\<lparr>tPoolAttachments := T\<rparr>, w') \<and> pooled_wf ((fst s)\<lparr>tPoolAttachments := T\<rparr>) \<and>
     pending_rows hk ((fst s)\<lparr>tPoolAttachments := T\<rparr>) = [])"

interpretation pending: draining_loop "\<lambda>fuel s. attach_pending fuel C M hk (fst s) (snd s)" "\<lambda>s. attach_ready C M (fst s)"
  "\<lambda>s. length (pending_rows hk (fst s))" "all_attached hk" for C M hk
proof
  fix s :: "db \<times> 'a" and fuel
  obtain d w where s: "s = (d, w)" by fastforce
  assume "attach_ready C M (fst s)"
  then have ready: "pooled_wf d" "attach_succeeds M" "0 < MaxAccountBatchSize C" "\<And>xs. mset (cmScanPending M xs) = mset xs" "\<And>xs. mset (cmScanSharing M xs) = mset xs"
    by (simp_all add: attach_ready_def s)
  define n where "n = MaxAccountBatchSize C"
  define pending where "pending = PendingPoolAttachments (cmScanPending M) hk (int n) d"
  have n: "0 < int n" "nat (int n) \<le> MaxAccountBatchSize C" using ready(3) by (simp_all add: n_def)
  obtain T where T: "InsertPoolAttachments C hk pending d = Inr ((), d\<lparr>tPoolAttachments := T\<rparr>)" "pooled_wf (d\<lparr>tPoolAttachments := T\<rparr>)"
      "length (pending_rows hk (d\<lparr>tPoolAttachments := T\<rparr>)) = length (pending_rows hk d) - length pending"
    using attach_progress[OF ready(1,4) n pending_def] by blast
  have len: "length pending = min n (length (pending_rows hk d))"
    using ready(4)[of "pending_rows hk d", THEN arg_cong[of _ _ size]] n(1) by (simp add: pending_def PendingPoolAttachments_def)
  obtain w1 where w1: "cmAttachPools M hk pending attachValidity w = (Inr (), w1)" using ready(2) unfolding attach_succeeds_def by blast
  let ?run = "\<lambda>fuel s. attach_pending fuel C M hk (fst s) (snd s)" and ?d1 = "d\<lparr>tPoolAttachments := T\<rparr>"
  have step: "?run (Suc fuel) s = (if pending = [] then Done (Inr (), d, w) else if length pending < n then Done (Inr (), ?d1, w1) else ?run fuel (?d1, w1))"
    using w1 T(1) by (simp add: s pending_def[symmetric] n_def[symmetric])
  consider "pending = []" | "pending \<noteq> []" "length pending < n" | "pending \<noteq> []" "\<not> length pending < n" by blast
  then show "all_attached hk s (?run (Suc fuel) s) \<or> (\<exists>s'. attach_ready C M (fst s') \<and> length (pending_rows hk (fst s')) < length (pending_rows hk (fst s)) \<and>
      ?run (Suc fuel) s = ?run fuel s' \<and> (\<forall>r. all_attached hk s' r \<longrightarrow> all_attached hk s r))"
  proof cases
    case 1
    with len n(1) have "pending_rows hk d = []" by (simp add: min_def split: if_splits)
    with 1 step ready(1) show ?thesis by (auto simp: all_attached_def s intro!: exI[of _ "tPoolAttachments d"])
  next
    case 2
    then have "length (pending_rows hk ?d1) = 0" using T(3) len by linarith
    with 2 step T(2) show ?thesis by (auto simp: all_attached_def s intro!: exI[of _ T])
  next
    case 3
    have "length (pending_rows hk ?d1) < length (pending_rows hk d)" using T(3) len 3(2) n(1) by linarith
    moreover have "all_attached hk s r" if "all_attached hk (?d1, w1) r" for r using that by (auto simp: all_attached_def s)
    ultimately show ?thesis using 3 step T(2) ready by (intro disjI2 exI[of _ "(?d1, w1)"]) (simp add: s attach_ready_def)
  qed
qed

lemma pending_rows_columns:
  assumes "map fund_columns P = map fund_columns (tPoolHosts d)"
  shows "pending_rows hk (d\<lparr>tPoolHosts := P\<rparr>) = pending_rows hk d"
proof -
  have "concat (map f (filter Q xs)) = concat (map f (filter Q ys))"
    if "map fund_columns xs = map fund_columns ys" "\<And>x y. fund_columns x = fund_columns y \<Longrightarrow> Q x = Q y" "\<And>x y. fund_columns x = fund_columns y \<Longrightarrow> f x = f y"
    for xs ys Q and f :: "pool_host_row \<Rightarrow> (account_row \<times> pool_row) list"
    using that(1)
  proof (induction xs arbitrary: ys)
    case (Cons x xs)
    then obtain y zs where ys: "ys = y # zs" "fund_columns x = fund_columns y" "map fund_columns xs = map fund_columns zs" by (cases ys) simp_all
    show ?case using Cons.IH[OF ys(3)] that(2,3)[OF ys(2)] by (simp add: ys(1))
  qed simp
  note eq = this[OF assms]
  show ?thesis unfolding pending_rows_def by (simp, rule eq) (auto simp: fund_columns_def)
qed

text \<open>The state after the second loop: every sharing account is attached, and only that was recorded.\<close>

definition all_shared :: "public_key \<Rightarrow> db \<times> 'w \<Rightarrow> (unit result \<times> db \<times> 'w) run \<Rightarrow> bool" where
  "all_shared hk s r \<longleftrightarrow> (\<exists>P w'. r = Done (Inr (), (fst s)\<lparr>tPoolHosts := P\<rparr>, w') \<and> map fund_columns P = map fund_columns (tPoolHosts (fst s)) \<and>
     (\<forall>hostID. host_id_of (fst s) hk = Some hostID \<longrightarrow> unshared ((fst s)\<lparr>tPoolHosts := P\<rparr>) hostID = []))"

definition unshared_work :: "public_key \<Rightarrow> db \<Rightarrow> nat" where
  "unshared_work hk d = (case host_id_of d hk of None \<Rightarrow> 0 | Some hostID \<Rightarrow> length (unshared d hostID))"

interpretation sharing: draining_loop "\<lambda>fuel s. attachSharingPools fuel C M hk (fst s) (snd s)" "\<lambda>s. attach_ready C M (fst s) \<and> host_id_of (fst s) hk \<noteq> None"
  "\<lambda>s. unshared_work hk (fst s)" "all_shared hk" for C M hk
proof
  fix s :: "db \<times> 'a" and fuel
  obtain d w where s: "s = (d, w)" by fastforce
  assume "attach_ready C M (fst s) \<and> host_id_of (fst s) hk \<noteq> None"
  then obtain hostID where host: "host_id_of d hk = Some hostID" and ready: "pooled_wf d" "attach_succeeds M" "0 < MaxAccountBatchSize C"
      "\<And>xs. mset (cmScanPending M xs) = mset xs" "\<And>xs. mset (cmScanSharing M xs) = mset xs"
    by (auto simp: attach_ready_def s)
  define n where "n = MaxAccountBatchSize C"
  define sharing where "sharing = SharingPoolAttachments (cmCrypto M) (cmScanSharing M) hk (int n) d"
  have n: "0 < int n" "nat (int n) \<le> MaxAccountBatchSize C" using ready(3) by (simp_all add: n_def)
  obtain P where P: "MarkSharingPoolsAttached C hk sharing d = Inr ((), d\<lparr>tPoolHosts := P\<rparr>)" "pooled_wf (d\<lparr>tPoolHosts := P\<rparr>)"
      "map fund_columns P = map fund_columns (tPoolHosts d)"
      "length (unshared (d\<lparr>tPoolHosts := P\<rparr>) hostID) = length (unshared d hostID) - length sharing"
    using sharing_progress[OF ready(1,5) n host sharing_def] by blast
  have len: "length sharing = min n (length (unshared d hostID))"
    using n(1) ready(5)[THEN arg_cong[of _ _ size]]
    by (simp add: sharing_def SharingPoolAttachments_def sharing_join_eq[OF ready(1) host] min.commute)
  obtain w1 where w1: "cmAttachPools M hk sharing attachValidity w = (Inr (), w1)" using ready(2) unfolding attach_succeeds_def by blast
  let ?run = "\<lambda>fuel s. attachSharingPools fuel C M hk (fst s) (snd s)" and ?d1 = "d\<lparr>tPoolHosts := P\<rparr>"
  have host1: "host_id_of ?d1 hk = Some hostID" using host by (simp add: host_id_of_def)
  have step: "?run (Suc fuel) s = (if sharing = [] then Done (Inr (), d, w) else if length sharing < n then Done (Inr (), ?d1, w1) else ?run fuel (?d1, w1))"
    using w1 P(1) by (simp add: s sharing_def[symmetric] n_def[symmetric])
  consider "sharing = []" | "sharing \<noteq> []" "length sharing < n" | "sharing \<noteq> []" "\<not> length sharing < n" by blast
  then show "all_shared hk s (?run (Suc fuel) s) \<or> (\<exists>s'. (attach_ready C M (fst s') \<and> host_id_of (fst s') hk \<noteq> None) \<and>
      unshared_work hk (fst s') < unshared_work hk (fst s) \<and> ?run (Suc fuel) s = ?run fuel s' \<and> (\<forall>r. all_shared hk s' r \<longrightarrow> all_shared hk s r))"
  proof cases
    case 1
    with len n(1) have "unshared d hostID = []" by (simp add: min_def split: if_splits)
    with 1 step host show ?thesis by (auto simp: all_shared_def s intro!: exI[of _ "tPoolHosts d"])
  next
    case 2
    then have "length (unshared ?d1 hostID) = 0" using P(4) len by linarith
    with 2 step P(3) host show ?thesis by (auto simp: all_shared_def s intro!: exI[of _ P])
  next
    case 3
    have "length (unshared ?d1 hostID) < length (unshared d hostID)" using P(4) len 3(2) n(1) by linarith
    moreover have "all_shared hk s r" if "all_shared hk (?d1, w1) r" for r
      using that host host1 P(3) by (auto simp: all_shared_def s)
    ultimately show ?thesis using 3 step P(2) ready host host1 by (intro disjI2 exI[of _ "(?d1, w1)"]) (simp add: s attach_ready_def unshared_work_def)
  qed
qed

text \<open>
  Claim C39: when the host accepts the attachments, attaching pools ends: every account of a pool that is
  funded on the host is attached there, and so is the sharing account of every such pool.
\<close>

theorem AttachPools_total:
  assumes "pooled_wf d" "\<And>xs. mset (cmScanPending M xs) = mset xs" "\<And>xs. mset (cmScanSharing M xs) = mset xs"
    and "0 < MaxAccountBatchSize C" "attach_succeeds M" "host_id_of d hk = Some hostID"
    and "length (pending_rows hk d) < fuel" "length (unshared d hostID) < fuel"
  shows "\<exists>d' w'. AttachPools fuel C M hk d w = Done (Inr (), d', w') \<and> pending_rows hk d' = [] \<and> unshared d' hostID = []"
proof -
  have ready: "attach_ready C M d" using assms(1-5) by (simp add: attach_ready_def)
  from pending.drains[of C M "(d, w)" hk fuel] ready assms(7)
  obtain T w1 where T: "attach_pending fuel C M hk d w = Done (Inr (), d\<lparr>tPoolAttachments := T\<rparr>, w1)" "pooled_wf (d\<lparr>tPoolAttachments := T\<rparr>)"
      "pending_rows hk (d\<lparr>tPoolAttachments := T\<rparr>) = []"
    by (auto simp: all_attached_def)
  let ?d1 = "d\<lparr>tPoolAttachments := T\<rparr>"
  have "host_id_of ?d1 hk = Some hostID" "unshared ?d1 hostID = unshared d hostID" using assms(6) by (simp_all add: host_id_of_def unshared_def)
  then have d1: "host_id_of ?d1 hk = Some hostID" "unshared_work hk ?d1 < fuel" "attach_ready C M ?d1"
    using assms(8) ready T(2) by (simp_all add: unshared_work_def attach_ready_def)
  from sharing.drains[of C M "(?d1, w1)" hk fuel] d1
  obtain P w' where P: "attachSharingPools fuel C M hk ?d1 w1 = Done (Inr (), ?d1\<lparr>tPoolHosts := P\<rparr>, w')"
      "unshared (?d1\<lparr>tPoolHosts := P\<rparr>) hostID = []" "map fund_columns P = map fund_columns (tPoolHosts ?d1)" by (auto simp: all_shared_def)
  with T pending_rows_columns[OF P(3), of hk] show ?thesis by (simp add: AttachPools_def)
qed

section \<open>A loop that does not end\<close>

text \<open>
  An iteration that gets a full batch of accounts of full storage while the target for such accounts is zero
  funds and updates nothing, so that the next iteration gets the same batch: the loop never ends.
\<close>

lemma fund_quota_accounts_stuck:
  assumes "HostAccountsForFunding (cmNow M) (cmScanAccounts M) (cmScanFunded M) (PublicKey h) quota (cmNow M - AccountActivityThreshold)
      (int (MaxAccountBatchSize C)) d = Inr accs"
    and "0 < MaxAccountBatchSize C" "length accs = MaxAccountBatchSize C" "\<forall>a \<in> set accs. haFullStorage a" "contractIDs \<noteq> []"
  shows "fund_quota_accounts fuel C M h quota fundTarget 0 contractIDs d w = OutOfFuel"
proof (induction fuel)
  case (Suc fuel)
  have "filter (\<lambda>a. \<not> haFullStorage a) accs = []" using assms(4) by (simp add: filter_empty_conv)
  moreover have "accs \<noteq> []" using assms(2,3) by auto
  ultimately show ?case using Suc assms(1,3,5) by (simp add: fund_account_batch_def)
qed simp

section \<open>Example\<close>

text \<open>A contract manager whose host accepts every attachment.\<close>

definition sample_manager :: "(nat \<times> account_key list) contract_manager" where
  "sample_manager = \<lparr>cmFunder = sample_funder (\<lambda>_. True), cmReplenishAccounts = logged sample_replenish, cmReplenishPools = logged sample_replenish,
     cmAttachPools = (\<lambda>_ atts _ (n, calls). (Inr (), (n + length atts, calls))), cmCrypto = plain_crypto, cmMaxBackoff = 128 * time_minute,
     cmConv = (\<lambda>_. 0), cmNow = 100, cmScanAccounts = id, cmScanFunded = id, cmScanPools = id, cmScanFundedPools = id, cmScanPending = id,
     cmScanSharing = id, cmScanGroups = id, cmServiceAccounts = []\<rparr>"

lemma AttachPools_total_witness:
  "\<exists>d' w'. length (pending_rows 11 sample_funding_db) = 2 \<and> length (unshared sample_funding_db 1) = 1 \<and>
     AttachPools 3 sample_core sample_manager 11 sample_funding_db (0, []) = Done (Inr (), d', w') \<and> pending_rows 11 d' = [] \<and> unshared d' 1 = []"
proof -
  have len: "length (pending_rows 11 sample_funding_db) = 2" "length (unshared sample_funding_db 1) = 1"
    by (simp_all add: pending_rows_def unshared_def sample_funding_db_def sample_accounts_db_def sample_hosts_db_def sample_defs new_account_row_def)
  have M: "\<And>xs. mset (cmScanPending sample_manager xs) = mset xs" "\<And>xs. mset (cmScanSharing sample_manager xs) = mset xs" "attach_succeeds sample_manager"
    by (auto simp: sample_manager_def attach_succeeds_def)
  have "0 < MaxAccountBatchSize sample_core" by (simp add: sample_core_def)
  from AttachPools_total[OF sample_pooled_wf M(1,2) this M(3) sample_host_id, of 3 "(0, [])"] len show ?thesis by auto
qed

end
