(* ===== verification/Contract_Sectors.thy ===== *)
theory Contract_Sectors
  imports Funder
begin

text \<open>
  Sectors of contracts on hosts, and pruning them: contracts/pruning.go (freeing sectors that the database
  no longer wants). The host is a state \<open>'w\<close> that the RPCs change. The contract is locked throughout, and
  the context is not cancelled. The loop over hosts that starts a goroutine per host is not modelled.
\<close>

section \<open>The host and the manager\<close>

record append_result =
  AppendSectorsOf :: "hash256 list"
  AppendRevision :: v2_contract
  AppendUsage :: usage

record roots_result =
  RootsOf :: "hash256 list"
  RootsRevision :: v2_contract
  RootsUsage :: usage

record free_result =
  FreeRevision :: v2_contract
  FreeUsage :: usage

record 'w sector_client =
  scLatestRevision :: "'w latest_revision_client"
  scPrices :: "public_key \<Rightarrow> 'w \<Rightarrow> host_prices result \<times> 'w"
  scAppendSectors :: "contract_revision \<Rightarrow> hash256 list \<Rightarrow> 'w \<Rightarrow> append_result result \<times> 'w"
  scSectorRoots :: "contract_revision \<Rightarrow> u64 \<Rightarrow> u64 \<Rightarrow> 'w \<Rightarrow> roots_result result \<times> 'w"
  scFreeSectors :: "contract_revision \<Rightarrow> u64 list \<Rightarrow> 'w \<Rightarrow> free_result result \<times> 'w"

text \<open>The scans are the orders that the database leaves open.\<close>

record 'w sector_manager =
  smClient :: "'w sector_client"
  smBuffer :: u64
  smHeight :: "'w \<Rightarrow> u64"
  smInvalidSig :: "err \<Rightarrow> bool"
  smRootsBatch :: u64
  smIntervalSuccess :: duration
  smIntervalFailure :: duration
  smNow :: gotime
  smScanContracts :: "contract_row list \<Rightarrow> contract_row list"
  smScanSectors :: "sector_row list \<Rightarrow> sector_row list"

text \<open>\<open>WithRevision\<close> with a variable of type \<open>'v\<close> that the revise function assigns.\<close>

definition with_revision ::
  "core_ops \<Rightarrow> 'w sector_manager \<Rightarrow> contract_id \<Rightarrow> ('w \<times> 'v) revise_fn \<Rightarrow> 'v \<Rightarrow> db \<Rightarrow> 'w \<Rightarrow> (unit result \<times> db \<times> ('w \<times> 'v)) option" where
  "with_revision C M contractID reviseFn v d w =
     WithRevision C (pg_revision_store C) (lift_latest (scLatestRevision (smClient M))) (smBuffer M) (smHeight M w) (smInvalidSig M) contractID reviseFn d (w, v)"

section \<open>Pruning\<close>

definition dbRootsBatchSize :: nat where
  "dbRootsBatchSize = 10000"

definition roots_revise :: "'w sector_client \<Rightarrow> u64 \<Rightarrow> u64 \<Rightarrow> ('w \<times> hash256 list) revise_fn" where
  "roots_revise client offset len contract ws =
     (case ws of (w, roots) \<Rightarrow>
        (case scSectorRoots client contract offset len w of
           (Inl e, w) \<Rightarrow> (Inl e, (w, roots))
         | (Inr res, w) \<Rightarrow> (Inr (contract\<lparr>Revision := RootsRevision res\<rparr>, RootsUsage res), (w, RootsOf res))))"

definition free_revise :: "'w sector_client \<Rightarrow> u64 list \<Rightarrow> ('w \<times> unit) revise_fn" where
  "free_revise client indices contract ws =
     (case ws of (w, u) \<Rightarrow>
        (case scFreeSectors client contract indices w of
           (Inl e, w) \<Rightarrow> (Inl e, (w, u))
         | (Inr res, w) \<Rightarrow> (Inr (contract\<lparr>Revision := FreeRevision res\<rparr>, FreeUsage res), (w, u))))"

text \<open>The union of the prunable roots of all batches.\<close>

function prunable_roots :: "contract_id \<Rightarrow> hash256 list \<Rightarrow> db \<Rightarrow> hash256 list result" where
  "prunable_roots contractID roots d =
     (if roots = [] then Inr []
      else rbind (PrunableContractRoots contractID (take dbRootsBatchSize roots) d) (\<lambda>batch.
           rbind (prunable_roots contractID (drop dbRootsBatchSize roots) d) (\<lambda>rest. Inr (batch @ rest))))"
  by pat_completeness auto
termination
  by (relation "measure (\<lambda>(_, roots, _). length roots)") (auto simp: dbRootsBatchSize_def)

declare prunable_roots.simps [simp del]

text \<open>\<open>Indices\<close> of the prunable roots, counted from the offset.\<close>

definition prunable_indices :: "u64 \<Rightarrow> hash256 list \<Rightarrow> hash256 list \<Rightarrow> u64 list" where
  "prunable_indices offset found roots = map (\<lambda>(i, _). offset + of_nat i) (filter (\<lambda>(_, r). r \<in> set found) (enumerate 0 roots))"

text \<open>The loop of \<open>pruneContract\<close>: how many sectors are pruned, and an error if there was one.\<close>

fun prune_loop ::
  "nat \<Rightarrow> core_ops \<Rightarrow> 'w sector_manager \<Rightarrow> contract_id \<Rightarrow> u64 \<Rightarrow> u64 \<Rightarrow> nat \<Rightarrow> db \<Rightarrow> 'w \<Rightarrow> ((nat \<times> unit result) \<times> db \<times> 'w) run" where
  "prune_loop 0 C M contractID offset contractSectors pruned d w = OutOfFuel"
| "prune_loop (Suc fuel) C M contractID offset contractSectors pruned d w =
     (if \<not> offset < contractSectors then Done ((pruned, Inr ()), d, w)
      else case with_revision C M contractID (roots_revise (smClient M) offset (min (smRootsBatch M) (contractSectors - offset))) [] d w of
        None \<Rightarrow> Panic
      | Some (Inl e, d, (w, _)) \<Rightarrow> Done ((pruned, Inl e), d, w)
      | Some (Inr _, d, (w, roots)) \<Rightarrow>
          if roots = [] then prune_loop fuel C M contractID (offset + smRootsBatch M) contractSectors pruned d w
          else case prunable_roots contractID roots d of
            Inl e \<Rightarrow> Done ((pruned, Inl e), d, w)
          | Inr found \<Rightarrow>
              let indices = prunable_indices offset found roots
              in if indices = [] then prune_loop fuel C M contractID (offset + smRootsBatch M) contractSectors pruned d w
                 else case with_revision C M contractID (free_revise (smClient M) indices) () d w of
                   None \<Rightarrow> Panic
                 | Some (Inl e, d, (w, _)) \<Rightarrow> Done ((pruned, Inl e), d, w)
                 | Some (Inr _, d, (w, _)) \<Rightarrow>
                     prune_loop fuel C M contractID (offset + smRootsBatch M) (contractSectors - of_nat (length indices)) (pruned + length indices) d w)"

definition pruneContract ::
  "nat \<Rightarrow> core_ops \<Rightarrow> 'w sector_manager \<Rightarrow> contract_id \<Rightarrow> db \<Rightarrow> 'w \<Rightarrow> ((nat \<times> unit result) \<times> db \<times> 'w) run" where
  "pruneContract fuel C M contractID d w =
     (case ContractRevision contractID d of
        Inl e \<Rightarrow> Done ((0, Inl e), d, w)
      | Inr (contract, renewed) \<Rightarrow>
          if renewed then Done ((0, Inr ()), d, w)
          else prune_loop fuel C M contractID 0 (Filesize (Revision contract) div SectorSize C) 0 d w)"

text \<open>Errors are only logged.\<close>

fun prune_contracts :: "nat \<Rightarrow> core_ops \<Rightarrow> 'w sector_manager \<Rightarrow> contract_id list \<Rightarrow> db \<Rightarrow> 'w \<Rightarrow> (unit \<times> db \<times> 'w) run" where
  "prune_contracts fuel C M [] d w = Done ((), d, w)"
| "prune_contracts fuel C M (contractID # contractIDs) d w =
     (case pruneContract fuel C M contractID d w of
        OutOfFuel \<Rightarrow> OutOfFuel
      | Panic \<Rightarrow> Panic
      | Done ((n, err), d, w) \<Rightarrow>
          (case UpdateNextPrune contractID (smNow M + (case err of Inl _ \<Rightarrow> smIntervalFailure M | Inr _ \<Rightarrow> smIntervalSuccess M)) d of
             Inl e \<Rightarrow> prune_contracts fuel C M contractIDs d w
           | Inr (_, d) \<Rightarrow> prune_contracts fuel C M contractIDs d w))"

definition performContractPruningOnHost :: "nat \<Rightarrow> core_ops \<Rightarrow> 'w sector_manager \<Rightarrow> host \<Rightarrow> db \<Rightarrow> 'w \<Rightarrow> (unit \<times> db \<times> 'w) run" where
  "performContractPruningOnHost fuel C M h d w =
     (let contractIDs = ContractsForPruning (smNow M) (smScanContracts M) (PublicKey h) d
      in if contractIDs = [] then Done ((), d, w) else prune_contracts fuel C M contractIDs d w)"

section \<open>What a revision leaves alone\<close>

text \<open>The sectors, and the contracts that they can be pinned to, are the same.\<close>

definition sectors_kept :: "db \<Rightarrow> db \<Rightarrow> bool" where
  "sectors_kept d d' \<longleftrightarrow> tSectors d' = tSectors d \<and> tCSM d' = tCSM d \<and> (\<forall>hk. host_id_of d' hk = host_id_of d hk) \<and>
     (\<forall>i. map_option ct_host_id (contract_by_id d' i) = map_option ct_host_id (contract_by_id d i))"

lemma sectors_kept_refl [simp]: "sectors_kept d d"
  by (simp add: sectors_kept_def)

lemma sectors_kept_trans: "sectors_kept a b \<Longrightarrow> sectors_kept b c \<Longrightarrow> sectors_kept a c"
  by (simp add: sectors_kept_def)

lemma sectors_kept_update:
  assumes "\<And>c. ct_contract_id (f c) = ct_contract_id c" "\<And>c. ct_host_id (f c) = ct_host_id c"
  shows "sectors_kept d (d\<lparr>tContracts := update_rows Q f (tContracts d)\<rparr>)"
  by (simp add: sectors_kept_def host_id_of_def find_update_contract[OF assms(1)] option.map_comp comp_def if_distrib assms(2) cong: if_cong)

lemma sectors_kept_hosts:
  assumes "sectors_kept d d'" "map (\<lambda>h. (h_id h, h_public_key h)) hs = map (\<lambda>h. (h_id h, h_public_key h)) (tHosts d')"
  shows "sectors_kept d (d'\<lparr>tHosts := hs\<rparr>)"
proof -
  have "host_id_of (d'\<lparr>tHosts := hs\<rparr>) hk = host_id_of d' hk" for hk by (rule host_id_of_keys) (simp add: assms(2))
  with assms(1) show ?thesis by (simp add: sectors_kept_def contract_by_id_def)
qed

lemma UpdateContractRevision_sectors_kept:
  assumes "UpdateContractRevision C r u d = Some (Inr (x, d'))"
  shows "sectors_kept d d'"
proof -
  from assms obtain c risked where "updateHostUsage C (HostPublicKey (Revision r)) u
       (d\<lparr>tContracts := update_rows (\<lambda>c. ct_contract_id c = RevID r) (revise_row (Revision r) risked) (tContracts d)\<rparr>) = Some (Inr (x, d'))"
    by (rule UpdateContractRevision_effect)
  then show ?thesis by (rule updateHostUsage_effect) (auto intro!: sectors_kept_hosts sectors_kept_update simp: revise_row_def map_update_rows)
qed

lemma revision_store_sectors_kept:
  "rsUpdateContractRevision (pg_revision_store C) r u d = Some (x, d') \<Longrightarrow> sectors_kept d d'"
  "sectors_kept d (snd (rsMarkContractBad (pg_revision_store C) j d))"
proof -
  assume "rsUpdateContractRevision (pg_revision_store C) r u d = Some (x, d')"
  then show "sectors_kept d d'"
    by (cases x) (auto simp: pg_revision_store_def commit_Inl commit_Inr intro: UpdateContractRevision_sectors_kept)
next
  show "sectors_kept d (snd (rsMarkContractBad (pg_revision_store C) j d))"
    by (auto simp: pg_revision_store_def commit_def MarkContractBad_def markContractBad_def Let_def intro: sectors_kept_update)
qed


section \<open>Pruning keeps what the database wants\<close>

text \<open>The sectors that the database wants a contract to hold: pinned to it, or on its host and not pinned yet.\<close>

definition wanted :: "contract_id \<Rightarrow> db \<Rightarrow> hash256 set" where
  "wanted i d = {r. \<exists>m c. csm_by_contract d i = Some m \<and> contract_by_id d i = Some c \<and>
     (\<exists>s \<in> set (tSectors d). sec_root s = r \<and> (sec_csm s = Some (csm_id m) \<or> (sec_host_id s = Some (ct_host_id c) \<and> sec_csm s = None)))}"

lemma wanted_sectors_kept:
  assumes "sectors_kept d d'"
  shows "wanted i d' = wanted i d"
proof -
  have same: "tSectors d' = tSectors d" "csm_by_contract d' i = csm_by_contract d i"
      "map_option ct_host_id (contract_by_id d' i) = map_option ct_host_id (contract_by_id d i)"
    using assms by (simp_all add: sectors_kept_def csm_by_contract_def)
  from same(3) show ?thesis
    by (cases "contract_by_id d i"; cases "contract_by_id d' i") (simp_all add: wanted_def same(1,2))
qed

lemma PrunableContractRoots_unwanted: "PrunableContractRoots i roots d = Inr ps \<Longrightarrow> set ps = set roots - wanted i d"
  by (auto simp: PrunableContractRoots_def wanted_def Let_def split: option.splits)

lemma prunable_roots_unwanted: "prunable_roots i roots d = Inr ps \<Longrightarrow> set ps = set roots - wanted i d"
proof (induction i roots d arbitrary: ps rule: prunable_roots.induct)
  case (1 i roots d)
  show ?case
  proof (cases "roots = []")
    case False
    with "1.prems" obtain batch rest where b: "PrunableContractRoots i (take dbRootsBatchSize roots) d = Inr batch"
        "prunable_roots i (drop dbRootsBatchSize roots) d = Inr rest" "ps = batch @ rest"
      by (auto simp: prunable_roots.simps[of i roots] rbind_eq_Inr)
    have "set roots = set (take dbRootsBatchSize roots) \<union> set (drop dbRootsBatchSize roots)" by (metis append_take_drop_id set_append)
    with b "1.IH"[OF False b(2)] PrunableContractRoots_unwanted[OF b(1)] show ?thesis by auto
  qed (use "1.prems" in \<open>simp add: prunable_roots.simps\<close>)
qed

lemma prunable_indices_unat:
  assumes "unat offset + length roots \<le> 2 ^ 64"
  shows "map unat (prunable_indices offset found roots) = map (\<lambda>(i, _). unat offset + i) (filter (\<lambda>(_, r). r \<in> set found) (enumerate 0 roots))"
proof -
  have "unat (offset + of_nat i) = unat offset + i" if "i < length roots" for i
    using that assms by (simp add: unat_word_ariths unat_of_nat)
  then show ?thesis by (auto simp: prunable_indices_def in_set_enumerate_eq)
qed

lemma prunable_indices_select:
  assumes "unat offset + length roots \<le> 2 ^ 64" "roots = take n (drop (unat offset) H)"
  shows "distinct (prunable_indices offset found roots)"
    and "\<forall>x \<in> set (prunable_indices offset found roots). unat x < length H"
    and "map (\<lambda>x. H ! unat x) (prunable_indices offset found roots) = filter (\<lambda>r. r \<in> set found) roots"
proof -
  let ?E = "filter (\<lambda>(_, r). r \<in> set found) (enumerate 0 roots)"
  note u = prunable_indices_unat[OF assms(1), of found]
  have "distinct (map fst ?E)" by (rule distinct_map_filter) simp
  then have "distinct (map ((+) (unat offset)) (map fst ?E))" by (subst distinct_map) (simp add: inj_on_def del: map_map)
  then have "distinct (map unat (prunable_indices offset found roots))" unfolding u by (simp add: comp_def case_prod_beta')
  then show "distinct (prunable_indices offset found roots)" by (simp add: distinct_map)
  have E: "unat offset + i < length H \<and> H ! (unat offset + i) = r" if "(i, r) \<in> set ?E" for i r
    using that assms(2) by (auto simp: in_set_enumerate_eq)
  have "set (map unat (prunable_indices offset found roots)) \<subseteq> {..<length H}" unfolding u using E by auto
  then show "\<forall>x \<in> set (prunable_indices offset found roots). unat x < length H" by auto
  have "map (\<lambda>x. H ! unat x) (prunable_indices offset found roots) = map ((!) H) (map unat (prunable_indices offset found roots))" by simp
  also have "\<dots> = map snd ?E" unfolding u using E by (auto simp: case_prod_beta')
  also have "\<dots> = filter (\<lambda>r. r \<in> set found) (map snd (enumerate 0 roots))" by (simp only: filter_map comp_def case_prod_beta')
  finally show "map (\<lambda>x. H ! unat x) (prunable_indices offset found roots) = filter (\<lambda>r. r \<in> set found) roots" by simp
qed


text \<open>
  What the client relies on, where \<open>held i w\<close> is the list of the sector roots of contract \<open>i\<close> on the host: the client
  verifies the roots it gets, a successful \<open>FreeSectors\<close> removes exactly the sectors at the given positions (others
  may move there), and a host that rejects a signature has not revised the contract. Any other failed \<open>FreeSectors\<close>
  may have freed some or all of the sectors at these positions: the response can be lost.
\<close>

definition sector_host_ok :: "(err \<Rightarrow> bool) \<Rightarrow> 'w sector_client \<Rightarrow> (contract_id \<Rightarrow> 'w \<Rightarrow> hash256 list) \<Rightarrow> bool" where
  "sector_host_ok invalidSig client held \<longleftrightarrow>
     (\<forall>hk i j w r w'. scLatestRevision client hk i w = (r, w') \<longrightarrow> held j w' = held j w) \<and>
     (\<forall>c off n w r w'. scSectorRoots client c off n w = (r, w') \<longrightarrow> (\<forall>j. held j w' = held j w) \<and>
        (\<forall>res. r = Inr res \<longrightarrow> RootsOf res = take (unat n) (drop (unat off) (held (RevID c) w)))) \<and>
     (\<forall>c idx w e w'. scFreeSectors client c idx w = (Inl e, w') \<longrightarrow> invalidSig e \<longrightarrow> (\<forall>j. held j w' = held j w)) \<and>
     (\<forall>c idx w r w'. scFreeSectors client c idx w = (r, w') \<longrightarrow>
        distinct idx \<longrightarrow> (\<forall>x \<in> set idx. unat x < length (held (RevID c) w)) \<longrightarrow>
        (\<forall>j. j \<noteq> RevID c \<longrightarrow> held j w' = held j w) \<and>
        (\<exists>freed. freed \<subseteq># mset (map (\<lambda>x. held (RevID c) w ! unat x) idx) \<and> mset (held (RevID c) w) = mset (held (RevID c) w') + freed \<and>
           (is_ok r \<longrightarrow> freed = mset (map (\<lambda>x. held (RevID c) w ! unat x) idx))))"

lemma sector_host_okD:
  assumes "sector_host_ok invalidSig client held"
  shows "scLatestRevision client hk i w = (r, w') \<Longrightarrow> held j w' = held j w"
    and "scSectorRoots client c off n w = (rr, w') \<Longrightarrow> held j w' = held j w"
    and "scSectorRoots client c off n w = (Inr res, w') \<Longrightarrow> RootsOf res = take (unat n) (drop (unat off) (held (RevID c) w))"
    and "scFreeSectors client c idx w = (Inl e, w') \<Longrightarrow> invalidSig e \<Longrightarrow> held j w' = held j w"
    and "scFreeSectors client c idx w = (fr, w') \<Longrightarrow> distinct idx \<Longrightarrow> \<forall>x \<in> set idx. unat x < length (held (RevID c) w) \<Longrightarrow>
        (\<forall>j. j \<noteq> RevID c \<longrightarrow> held j w' = held j w) \<and>
        (\<exists>freed. freed \<subseteq># mset (map (\<lambda>x. held (RevID c) w ! unat x) idx) \<and> mset (held (RevID c) w) = mset (held (RevID c) w') + freed \<and>
           (is_ok fr \<longrightarrow> freed = mset (map (\<lambda>x. held (RevID c) w ! unat x) idx)))"
proof -
  note ok = assms[unfolded sector_host_ok_def]
  show "scLatestRevision client hk i w = (r, w') \<Longrightarrow> held j w' = held j w" using ok[THEN conjunct1] by simp
  note roots = ok[THEN conjunct2, THEN conjunct1]
  show "scSectorRoots client c off n w = (rr, w') \<Longrightarrow> held j w' = held j w" using roots by simp
  show "scSectorRoots client c off n w = (Inr res, w') \<Longrightarrow> RootsOf res = take (unat n) (drop (unat off) (held (RevID c) w))" using roots by simp
  show "scFreeSectors client c idx w = (Inl e, w') \<Longrightarrow> invalidSig e \<Longrightarrow> held j w' = held j w"
    using ok[THEN conjunct2, THEN conjunct2, THEN conjunct1] by simp
  show "scFreeSectors client c idx w = (fr, w') \<Longrightarrow> distinct idx \<Longrightarrow> \<forall>x \<in> set idx. unat x < length (held (RevID c) w) \<Longrightarrow>
        (\<forall>j. j \<noteq> RevID c \<longrightarrow> held j w' = held j w) \<and>
        (\<exists>freed. freed \<subseteq># mset (map (\<lambda>x. held (RevID c) w ! unat x) idx) \<and> mset (held (RevID c) w) = mset (held (RevID c) w') + freed \<and>
           (is_ok fr \<longrightarrow> freed = mset (map (\<lambda>x. held (RevID c) w ! unat x) idx)))"
    using ok[THEN conjunct2, THEN conjunct2, THEN conjunct2] by blast
qed

text \<open>Running a revision whose calls that report an invalid signature leave the roots on the host alone.\<close>

lemma with_revision_held:
  assumes ok: "sector_host_ok (smInvalidSig M) (smClient M) held" and run: "with_revision C M i reviseFn v d w = Some (x, d', (w', v'))"
    and err: "\<forall>c e w v w' v' j. reviseFn c (w, v) = (Inl e, (w', v')) \<longrightarrow> smInvalidSig M e \<longrightarrow> held j w' = held j w"
  obtains (unrevised) e where "x = Inl e" "\<forall>j. held j w' = held j w" "sectors_kept d d'"
  | (failed) c w1 v1 e where "RevID c = i" "\<forall>j. held j w1 = held j w" "reviseFn c (w1, v1) = (Inl e, (w', v'))" "x = Inl e" "sectors_kept d d'"
  | (revised) c w1 v1 rv u where "RevID c = i" "\<forall>j. held j w1 = held j w" "reviseFn c (w1, v1) = (Inr (rv, u), (w', v'))" "sectors_kept d d'"
proof -
  let ?P = "\<lambda>s ws. sectors_kept d s \<and> (\<forall>j. held j (fst ws) = held j w)"
  from run[unfolded with_revision_def] show ?thesis
  proof (rule WithRevision_outcomes[where P = ?P and K = "\<lambda>c. RevID c = i", rotated 7])
    show "RevID c = i" if "rsContractRevision (pg_revision_store C) i d = Inr (c, b)" for c b
      using that by (auto simp: pg_revision_store_def ContractRevision_def split: option.splits)
    show "?P s ws'" if "?P s ws" "RevID c = i" "reviseFn c ws = (Inl e, ws')" "smInvalidSig M e" for s ws c e ws'
      using that err[rule_format, of c "fst ws" "snd ws" e "fst ws'" "snd ws'"] by simp
    show "?P s ws'" if "?P s ws" "lift_latest (scLatestRevision (smClient M)) hk j ws = (r, ws')" for s ws hk j r ws'
      using that sector_host_okD(1)[OF ok] by (auto simp: lift_latest_def split: prod.splits)
    show "?P s' ws" if "?P s ws" "rsUpdateContractRevision (pg_revision_store C) r u s = Some (y, s')" for s ws r u y s'
      using that revision_store_sectors_kept(1)[OF that(2)] sectors_kept_trans by blast
    show "?P (snd (rsMarkContractBad (pg_revision_store C) j s)) ws" if "?P s ws" for s ws j
      using that revision_store_sectors_kept(2) sectors_kept_trans by blast
    show thesis if "x = Inl e" "?P d' (w', v')" for e
      using that by (intro unrevised) auto
    show thesis if "RevID c = i" "?P d' ws1" "reviseFn c ws1 = (Inl e, (w', v'))" "x = Inl e" for c ws1 e
      using that by (intro failed[of c "fst ws1" "snd ws1" e]) auto
    show thesis if "RevID c = i" "?P s1 ws1" "reviseFn c ws1 = (Inr (rv, u), (w', v'))"
        "d' = s1 \<or> (\<exists>y. rsUpdateContractRevision (pg_revision_store C) rv u s1 = Some (y, d'))" for c ws1 s1 rv u
      using that revision_store_sectors_kept(1) sectors_kept_trans by (intro revised[of c "fst ws1" "snd ws1" rv u]) auto
  qed simp_all
qed

lemma with_revision_roots:
  assumes ok: "sector_host_ok (smInvalidSig M) (smClient M) held"
    and run: "with_revision C M i (roots_revise (smClient M) off n) [] d w = Some (x, d', (w', roots))"
  shows "sectors_kept d d' \<and> (\<forall>j. held j w' = held j w) \<and> (x = Inr () \<longrightarrow> roots = take (unat n) (drop (unat off) (held i w)))"
proof -
  have err: "held j w' = held j w" if "roots_revise (smClient M) off n c (w, v) = (Inl e, (w', v'))" for c e w v w' v' j
    using that by (auto simp: roots_revise_def split: prod.splits sum.splits dest: sector_host_okD(2)[OF ok])
  then have "\<forall>c e w v w' v' j. roots_revise (smClient M) off n c (w, v) = (Inl e, (w', v')) \<longrightarrow> smInvalidSig M e \<longrightarrow> held j w' = held j w" by blast
  with ok run show ?thesis
  proof (cases rule: with_revision_held)
    case (failed c w1 v1 e)
    with err show ?thesis by auto
  next
    case (revised c w1 v1 rv u)
    then obtain res where r: "scSectorRoots (smClient M) c off n w1 = (Inr res, w')" "roots = RootsOf res"
      by (auto simp: roots_revise_def split: prod.splits sum.splits)
    with revised sector_host_okD(2,3)[OF ok r(1)] show ?thesis by auto
  qed auto
qed

lemma with_revision_free:
  assumes ok: "sector_host_ok (smInvalidSig M) (smClient M) held"
    and run: "with_revision C M i (free_revise (smClient M) idx) () d w = Some (x, d', (w', u))"
    and idx: "distinct idx" "\<forall>k \<in> set idx. unat k < length (held i w)"
  shows "sectors_kept d d' \<and> (\<forall>j. j \<noteq> i \<longrightarrow> held j w' = held j w) \<and>
    (\<exists>freed. freed \<subseteq># mset (map (\<lambda>k. held i w ! unat k) idx) \<and> mset (held i w) = mset (held i w') + freed \<and>
       (x = Inr () \<longrightarrow> freed = mset (map (\<lambda>k. held i w ! unat k) idx)))"
proof -
  have err: "\<forall>c e w v w' v' j. free_revise (smClient M) idx c (w, v) = (Inl e, (w', v')) \<longrightarrow> smInvalidSig M e \<longrightarrow> held j w' = held j w"
    by (auto simp: free_revise_def split: prod.splits sum.splits dest: sector_host_okD(4)[OF ok])
  from ok run err show ?thesis
  proof (cases rule: with_revision_held)
    case (unrevised e)
    then show ?thesis by auto
  next
    case (failed c w1 v1 e)
    then have "scFreeSectors (smClient M) c idx w1 = (Inl e, w')" by (auto simp: free_revise_def split: prod.splits sum.splits)
    from failed idx sector_host_okD(5)[OF ok this] show ?thesis by auto
  next
    case (revised c w1 v1 rv u')
    then obtain res where r: "scFreeSectors (smClient M) c idx w1 = (Inr res, w')"
      by (auto simp: free_revise_def split: prod.splits sum.splits)
    with revised idx sector_host_okD(5)[OF ok r] show ?thesis by auto
  qed
qed


text \<open>The host lost nothing but sectors of this contract that the database does not want.\<close>

definition pruned_safely :: "(contract_id \<Rightarrow> 'w \<Rightarrow> hash256 list) \<Rightarrow> contract_id \<Rightarrow> db \<Rightarrow> 'w \<Rightarrow> db \<Rightarrow> 'w \<Rightarrow> bool" where
  "pruned_safely held i d w d' w' \<longleftrightarrow> sectors_kept d d' \<and> (\<forall>j. j \<noteq> i \<longrightarrow> held j w' = held j w) \<and>
     mset (held i w') \<subseteq># mset (held i w) \<and> (\<forall>r \<in> wanted i d. count (mset (held i w')) r = count (mset (held i w)) r)"

lemma pruned_safely_refl: "sectors_kept d d' \<Longrightarrow> (\<And>j. held j w' = held j w) \<Longrightarrow> pruned_safely held i d w d' w'"
  by (simp add: pruned_safely_def)

lemma pruned_safely_trans:
  assumes "pruned_safely held i d w d1 w1" "pruned_safely held i d1 w1 d2 w2"
  shows "pruned_safely held i d w d2 w2"
  using assms wanted_sectors_kept[of d d1 i] sectors_kept_trans[of d d1 d2] subset_mset.order_trans unfolding pruned_safely_def by auto

lemma pruned_safely_length: "pruned_safely held i d w d' w' \<Longrightarrow> length (held i w') \<le> length (held i w)"
  using size_mset_mono by (fastforce simp: pruned_safely_def)

lemma roots_bound:
  fixes off cs b :: u64
  assumes "off < cs" "roots = take (unat (min b (cs - off))) xs"
  shows "unat off + length roots \<le> unat cs"
proof -
  have "unat (min b (cs - off)) \<le> unat (cs - off)" by (simp add: min_def word_le_nat_alt)
  also have "\<dots> = unat cs - unat off" using assms(1) by (simp add: unat_sub)
  finally have "length roots \<le> unat cs - unat off" using assms(2) by simp
  with assms(1) show ?thesis by (simp add: word_less_nat_alt)
qed

text \<open>One batch of roots: what is freed is not wanted.\<close>

lemma free_unwanted:
  assumes ok: "sector_host_ok (smInvalidSig M) (smClient M) held" and off: "off < cs"
    and roots: "roots = take (unat (min b (cs - off))) (drop (unat off) (held i w))" and found: "prunable_roots i roots d = Inr found"
    and run: "with_revision C M i (free_revise (smClient M) (prunable_indices off found roots)) () d w = Some (x, d', (w', u))"
  shows "pruned_safely held i d w d' w'"
    and "x = Inr () \<Longrightarrow> length (held i w') + length (prunable_indices off found roots) = length (held i w)"
proof -
  let ?idx = "prunable_indices off found roots"
  have len: "unat off + length roots \<le> 2 ^ 64"
    using roots_bound[OF off roots] unsigned_less[of cs, where ?'a = nat] by simp
  note sel = prunable_indices_select[OF len roots, of found]
  note free = with_revision_free[OF ok run sel(1,2), unfolded sel(3)]
  have unwanted: "count (mset (filter (\<lambda>r. r \<in> set found) roots)) r = 0" if "r \<in> wanted i d" for r
    using that prunable_roots_unwanted[OF found] by (simp add: count_mset_0_iff)
  from free obtain freed where freed: "freed \<subseteq># mset (filter (\<lambda>r. r \<in> set found) roots)" "mset (held i w) = mset (held i w') + freed"
    and all: "x = Inr () \<longrightarrow> freed = mset (filter (\<lambda>r. r \<in> set found) roots)" by blast
  have "count freed r = 0" if "r \<in> wanted i d" for r
    using unwanted[OF that] mset_subset_eq_count[OF freed(1), of r] by simp
  with free freed(2) show "pruned_safely held i d w d' w'" by (simp add: pruned_safely_def)
  show "length (held i w') + length ?idx = length (held i w)" if "x = Inr ()"
  proof -
    from freed(2) all that have "mset (held i w') + mset (filter (\<lambda>r. r \<in> set found) roots) = mset (held i w)" by simp
    then have "length (held i w') + length (filter (\<lambda>r. r \<in> set found) roots) = length (held i w)"
      by (metis size_mset size_union)
    moreover have "length ?idx = length (filter (\<lambda>r. r \<in> set found) roots)" using sel(3)[THEN arg_cong[of _ _ length]] by simp
    ultimately show ?thesis by simp
  qed
qed


text \<open>What one iteration of the loop comes to.\<close>

lemma prune_iteration:
  assumes ok: "sector_host_ok (smInvalidSig M) (smClient M) held" and off: "off < cs"
  obtains (panic) "\<And>fuel n. prune_loop (Suc fuel) C M i off cs n d w = Panic"
  | (stop) e d' w' where "\<And>fuel n. prune_loop (Suc fuel) C M i off cs n d w = Done ((n, Inl e), d', w')" "pruned_safely held i d w d' w'"
  | (continue) k d' w' where "\<And>fuel n. prune_loop (Suc fuel) C M i off cs n d w = prune_loop fuel C M i (off + smRootsBatch M) (cs - of_nat k) (n + k) d' w'"
      "pruned_safely held i d w d' w'" "length (held i w') + k = length (held i w)" "unat off + k \<le> unat cs"
proof (cases "with_revision C M i (roots_revise (smClient M) off (min (smRootsBatch M) (cs - off))) [] d w")
  case None
  with off show ?thesis by (intro panic) simp
next
  case (Some r)
  obtain x d1 w1 roots where r: "r = (x, d1, (w1, roots))" by (metis surj_pair)
  note first = Some[unfolded r]
  note R = with_revision_roots[OF ok first]
  then have p1: "pruned_safely held i d w d1 w1" by (intro pruned_safely_refl) auto
  have none: thesis if "\<And>fuel n. prune_loop (Suc fuel) C M i off cs n d w = prune_loop fuel C M i (off + smRootsBatch M) cs n d1 w1"
    by (rule continue[of 0 d1 w1]) (use that p1 R off in \<open>simp_all add: word_less_nat_alt del: prune_loop.simps\<close>)
  consider e where "x = Inl e" | "x = Inr ()" "roots = []" | "x = Inr ()" "roots \<noteq> []" by (cases x) auto
  then show ?thesis
  proof cases
    case 1
    with off first p1 show ?thesis by (intro stop) simp_all
  next
    case 2
    with off first show ?thesis by (intro none) simp
  next
    case 3
    then have roots: "roots = take (unat (min (smRootsBatch M) (cs - off))) (drop (unat off) (held i w1))" using R by auto
    show ?thesis
    proof (cases "prunable_roots i roots d1")
      case (Inl e)
      with off first 3 p1 show ?thesis by (intro stop) simp_all
    next
      case found: (Inr found)
      let ?idx = "prunable_indices off found roots"
      show ?thesis
      proof (cases "?idx = []")
        case True
        with off first 3 found show ?thesis by (intro none) simp
      next
        case some: False
        show ?thesis
        proof (cases "with_revision C M i (free_revise (smClient M) ?idx) () d1 w1")
          case None
          with off first 3 found some show ?thesis by (intro panic) (simp add: Let_def)
        next
          case (Some q)
          obtain y d2 w2 u where q: "q = (y, d2, (w2, u))" by (metis surj_pair)
          note second = Some[unfolded q]
          note f = free_unwanted[OF ok off roots found second]
          note p2 = pruned_safely_trans[OF p1 f(1)]
          show ?thesis
          proof (cases y)
            case (Inl e)
            with off first 3 found some second p2 show ?thesis by (intro stop) (simp_all add: Let_def)
          next
            case (Inr z)
            have "length ?idx \<le> length roots" by (simp add: prunable_indices_def) (metis length_enumerate length_filter_le)
            with roots_bound[OF off roots] have bound: "unat off + length ?idx \<le> unat cs" by linarith
            have len: "length (held i w2) + length ?idx = length (held i w)" using f(2) Inr R by simp
            show ?thesis by (rule continue[of "length ?idx" d2 w2, OF _ p2 len bound]) (use off first 3 found some second Inr in \<open>simp add: Let_def\<close>)
          qed
        qed
      qed
    qed
  qed
qed

lemma prune_loop_safe:
  assumes ok: "sector_host_ok (smInvalidSig M) (smClient M) held"
  shows "prune_loop fuel C M i off cs n d w = Done ((n', res), d', w') \<Longrightarrow>
    pruned_safely held i d w d' w' \<and> n \<le> n' \<and> length (held i w') + (n' - n) \<le> length (held i w) \<and>
    (res = Inr () \<longrightarrow> length (held i w') + (n' - n) = length (held i w))"
proof (induction fuel arbitrary: off cs n d w)
  case (Suc fuel)
  show ?case
  proof (cases "off < cs")
    case False
    with Suc.prems show ?thesis by (auto simp: pruned_safely_def)
  next
    case True
    from ok True show ?thesis
    proof (cases rule: prune_iteration[where C = C and i = i and d = d and w = w])
      case (stop e d1 w1)
      with Suc.prems pruned_safely_length[OF stop(2)] show ?thesis by auto
    next
      case (continue k d1 w1)
      with Suc.prems have "prune_loop fuel C M i (off + smRootsBatch M) (cs - of_nat k) (n + k) d1 w1 = Done ((n', res), d', w')" by metis
      from Suc.IH[OF this] pruned_safely_trans[OF continue(2)] continue(3) show ?thesis by fastforce
    qed (use Suc.prems in auto)
  qed
qed simp

lemma prune_loop_total:
  assumes ok: "sector_host_ok (smInvalidSig M) (smClient M) held" and b: "0 < unat (smRootsBatch M)"
  shows "unat cs + unat (smRootsBatch M) < 2 ^ 64 \<Longrightarrow> unat cs \<le> unat off + fuel * unat (smRootsBatch M) \<Longrightarrow>
    prune_loop (Suc fuel) C M i off cs n d w \<noteq> OutOfFuel"
proof (induction fuel arbitrary: off cs n d w)
  case 0
  then show ?case by (simp add: word_less_nat_alt)
next
  case (Suc fuel)
  let ?b = "smRootsBatch M"
  show ?case
  proof (cases "off < cs")
    case False
    then show ?thesis by simp
  next
    case True
    from ok True show ?thesis
    proof (cases rule: prune_iteration[where C = C and i = i and d = d and w = w])
      case (continue k d1 w1)
      have k: "unat (cs - of_nat k) = unat cs - k" using continue(4) unsigned_less[of cs, where ?'a = nat]
        by (subst unat_sub) (simp_all add: word_le_nat_alt unat_of_nat)
      have "unat (off + ?b) = unat off + unat ?b" using True Suc.prems(1) by (intro unat_add_lem[THEN iffD1]) (simp add: word_less_nat_alt)
      with k Suc.prems have "prune_loop (Suc fuel) C M i (off + ?b) (cs - of_nat k) (n + k) d1 w1 \<noteq> OutOfFuel" by (intro Suc.IH) simp_all
      with continue(1) show ?thesis by metis
    qed auto
  qed
qed


text \<open>
  Claim C5: pruning a contract ends (it does not run out of fuel), and the sectors that it removes from the
  host are only sectors of this contract that the database does not want there: every copy of a sector that is
  pinned to the contract, or waits on its host to be pinned, stays, also when calls fail after they had an effect.
  The number it reports is never more than the number of removed sectors, and exactly that number when it
  reports success.
\<close>

theorem pruneContract_safe:
  assumes ok: "sector_host_ok (smInvalidSig M) (smClient M) held" and b: "0 < unat (smRootsBatch M)"
    and fuel: "\<forall>c renewed. ContractRevision i d = Inr (c, renewed) \<longrightarrow>
      unat (Filesize (Revision c) div SectorSize C) + unat (smRootsBatch M) < 2 ^ 64 \<and> unat (Filesize (Revision c) div SectorSize C) \<le> fuel * unat (smRootsBatch M)"
  shows "pruneContract (Suc fuel) C M i d w \<noteq> OutOfFuel \<and>
    (\<forall>n res d' w'. pruneContract (Suc fuel) C M i d w = Done ((n, res), d', w') \<longrightarrow>
       tSectors d' = tSectors d \<and> (\<forall>j. j \<noteq> i \<longrightarrow> held j w' = held j w) \<and> mset (held i w') \<subseteq># mset (held i w) \<and>
       (\<forall>r \<in> wanted i d. count (mset (held i w')) r = count (mset (held i w)) r) \<and>
       length (held i w') + n \<le> length (held i w) \<and> (res = Inr () \<longrightarrow> length (held i w') + n = length (held i w)))"
proof (cases "\<exists>c. ContractRevision i d = Inr (c, False)")
  case False
  then show ?thesis by (auto simp: pruneContract_def split: sum.splits)
next
  case True
  then obtain c where c: "ContractRevision i d = Inr (c, False)" by blast
  let ?cs = "Filesize (Revision c) div SectorSize C"
  have "prune_loop (Suc fuel) C M i 0 ?cs 0 d w \<noteq> OutOfFuel"
    using fuel[rule_format, OF c] by (intro prune_loop_total[OF ok b]) simp_all
  moreover have "tSectors d' = tSectors d \<and> (\<forall>j. j \<noteq> i \<longrightarrow> held j w' = held j w) \<and> mset (held i w') \<subseteq># mset (held i w) \<and>
       (\<forall>r \<in> wanted i d. count (mset (held i w')) r = count (mset (held i w)) r) \<and>
       length (held i w') + n \<le> length (held i w) \<and> (res = Inr () \<longrightarrow> length (held i w') + n = length (held i w))"
    if "prune_loop (Suc fuel) C M i 0 ?cs 0 d w = Done ((n, res), d', w')" for n res d' w'
    using prune_loop_safe[OF ok that] by (simp add: pruned_safely_def sectors_kept_def)
  ultimately show ?thesis using c by (simp add: pruneContract_def del: prune_loop.simps)
qed

section \<open>Examples\<close>

text \<open>A host that holds one contract; it frees one sector at a time and appends every sector.\<close>

definition next_revision :: "contract_revision \<Rightarrow> v2_contract" where
  "next_revision c = (Revision c)\<lparr>RevisionNumber := RevisionNumber (Revision c) + 1\<rparr>"

definition sample_client :: "hash256 list sector_client" where
  "sample_client = \<lparr>scLatestRevision = (\<lambda>_ _ w. (Inl ErrHostUnreachable, w)),
     scPrices = (\<lambda>_ w. (Inr (Prices sample_settings), w)),
     scAppendSectors = (\<lambda>c roots w. (Inr \<lparr>AppendSectorsOf = remdups roots, AppendRevision = next_revision c, AppendUsage = no_usage\<rparr>, w @ remdups roots)),
     scSectorRoots = (\<lambda>c off n w. if RevID c = 21 then (Inr \<lparr>RootsOf = take (unat n) (drop (unat off) w), RootsRevision = next_revision c, RootsUsage = no_usage\<rparr>, w)
                        else (Inl ErrNotFound, w)),
     scFreeSectors = (\<lambda>c idx w. case idx of
         [k] \<Rightarrow> if RevID c = 21 then (Inr \<lparr>FreeRevision = next_revision c, FreeUsage = no_usage\<rparr>, take (unat k) w @ drop (Suc (unat k)) w) else (Inl ErrNotFound, w)
       | _ \<Rightarrow> (Inl ErrNotFound, w))\<rparr>"

definition held_21 :: "contract_id \<Rightarrow> hash256 list \<Rightarrow> hash256 list" where
  "held_21 i w = (if i = 21 then w else [])"

definition sample_sector_manager :: "hash256 list sector_manager" where
  "sample_sector_manager = \<lparr>smClient = sample_client, smBuffer = 10, smHeight = (\<lambda>_. 100), smInvalidSig = (\<lambda>e. e = ErrInvalidSignature),
     smRootsBatch = 8, smIntervalSuccess = 24 * time_hour, smIntervalFailure = 3 * time_hour, smNow = 100, smScanContracts = id, smScanSectors = id\<rparr>"

text \<open>Contract 21 has two sectors on the host; the database wants only one of them.\<close>

definition two_sectors :: db where
  "two_sectors = sample_db\<lparr>tContracts := [(sample_contract_row 1 21)\<lparr>ct_raw_revision := sample_fc\<lparr>FileCapacity := 8388608, Filesize := 8388608\<rparr>,
     ct_capacity := 8388608, ct_size := 8388608\<rparr>]\<rparr>"

lemmas pruning_eval = pruneContract_def with_revision_def roots_revise_def free_revise_def sample_sector_manager_def sample_client_def next_revision_def
  prunable_roots.simps prunable_indices_def PrunableContractRoots_def csm_by_contract_def dbRootsBatchSize_def
  lift_latest_def WithRevision_def pg_revision_store_def ContractRevision_def isBeyondMaxRevisionHeight_def
  finish_revision_def commit_def UpdateContractRevision_def Let_def word_le_nat_alt word_less_nat_alt contract_defs
  sample_core_def no_usage_def sample_defs sample_fc_def revise_row_def two_sectors_def

lemma sample_client_ok: "sector_host_ok invalidSig sample_client held_21"
proof -
  have rem: "mset (take k w @ drop (Suc k) w) + {#w ! k#} = mset w" if "k < length w" for k and w :: "hash256 list"
    using arg_cong[OF id_take_nth_drop[OF that], of mset] by simp
  have free: "mset (held_21 21 w') + {#held_21 21 w ! unat k#} = mset (held_21 21 w)"
    if "(take (unat k) w @ drop (Suc (unat k)) w) = w'" "unat k < length (held_21 21 w)" for k :: u64 and w w'
    using rem[of "unat k" w] that by (simp add: held_21_def)
  show ?thesis unfolding sector_host_ok_def
  proof (intro conjI)
    let ?freed = "\<lambda>c idx w r w'. (\<forall>j. j \<noteq> RevID c \<longrightarrow> held_21 j w' = held_21 j w) \<and>
        (\<exists>freed. freed \<subseteq># mset (map (\<lambda>x. held_21 (RevID c) w ! unat x) idx) \<and> mset (held_21 (RevID c) w) = mset (held_21 (RevID c) w') + freed \<and>
           (is_ok r \<longrightarrow> freed = mset (map (\<lambda>x. held_21 (RevID c) w ! unat x) idx)))"
    show "\<forall>c idx w r w'. scFreeSectors sample_client c idx w = (r, w') \<longrightarrow> distinct idx \<longrightarrow>
        (\<forall>x \<in> set idx. unat x < length (held_21 (RevID c) w)) \<longrightarrow> ?freed c idx w r w'"
    proof (intro allI impI)
      fix c idx w r w' assume a: "scFreeSectors sample_client c idx w = (r, w')" "\<forall>x \<in> set idx. unat x < length (held_21 (RevID c) w)"
      show "?freed c idx w r w'"
      proof (cases r)
        case (Inl e)
        with a(1) have "w' = w" by (auto simp: sample_client_def split: list.splits if_splits)
        with Inl show ?thesis by simp
      next
        case (Inr res)
        with a(1) obtain k where k: "idx = [k]" "RevID c = 21" "take (unat k) w @ drop (Suc (unat k)) w = w'"
          by (auto simp: sample_client_def split: list.splits if_splits)
        with a(2) free[OF k(3)] Inr show ?thesis by (auto simp: held_21_def)
      qed
    qed
  qed (simp_all add: sample_client_def held_21_def split: list.splits if_splits)
qed

lemma pruneContract_safe_witness:
  "\<exists>d' w'. pruneContract 2 sample_core sample_sector_manager 21 two_sectors [31, 77] = Done ((1, Inr ()), d', w') \<and>
     31 \<in> wanted 21 two_sectors \<and> count (mset w') 31 = 1 \<and> length w' = 1"
proof -
  have ok: "sector_host_ok (smInvalidSig sample_sector_manager) (smClient sample_sector_manager) held_21" using sample_client_ok by (simp add: sample_sector_manager_def)
  have c: "ContractRevision 21 two_sectors = Inr (\<lparr>RevID = 21, Revision = sample_fc\<lparr>FileCapacity := 8388608, Filesize := 8388608\<rparr>\<rparr>, False)"
    by (simp add: ContractRevision_def contract_by_id_def two_sectors_def sample_defs)
  have f: "\<forall>c renewed. ContractRevision 21 two_sectors = Inr (c, renewed) \<longrightarrow>
      unat (Filesize (Revision c) div SectorSize sample_core) + unat (smRootsBatch sample_sector_manager) < 2 ^ 64 \<and>
      unat (Filesize (Revision c) div SectorSize sample_core) \<le> 1 * unat (smRootsBatch sample_sector_manager)"
    using c by (auto simp: sample_core_def sample_sector_manager_def)
  have b: "0 < unat (smRootsBatch sample_sector_manager)" by (simp add: sample_sector_manager_def)
  have w: "31 \<in> wanted 21 two_sectors"
    by (simp add: wanted_def csm_by_contract_def contract_by_id_def two_sectors_def sample_defs)
  obtain d' w' where run: "pruneContract 2 sample_core sample_sector_manager 21 two_sectors [31, 77] = Done ((1, Inr ()), d', w')"
    unfolding numeral_2_eq_2 by (simp add: pruning_eval)
  from pruneContract_safe[OF ok b f, where w = "[31, 77]", unfolded Suc_1] run w
  have "count (mset w') 31 = count (mset [31, 77 :: hash256]) 31" "length w' + 1 = length [31, 77 :: hash256]" unfolding held_21_def by auto
  with run w show ?thesis by simp
qed

text \<open>
  \<open>WithRevision\<close> wants revise functions that can be repeated, but freeing sectors is not one: the second time, other
  sectors are at the same positions, here one that the database wants.
\<close>

lemma free_revise_not_idempotent:
  assumes "RevID c = 21"
  shows "snd (free_revise sample_client [0] c ([77, 31], ())) = ([31], ()) \<and>
    snd (free_revise sample_client [0] c ([31], ())) = ([], ()) \<and> 31 \<in> wanted 21 two_sectors"
  using assms
  by (simp add: free_revise_def sample_client_def wanted_def csm_by_contract_def contract_by_id_def two_sectors_def sample_defs)

end
