(* ===== verification/Contract_Pinning.thy ===== *)
theory Contract_Pinning
  imports Contract_Sectors Loops
begin

text \<open>
  Pinning sectors: contracts/pinning.go, appending the unpinned sectors of a host to its contracts. As for
  pruning, the contract is locked throughout and the context is not cancelled; the loop over hosts that
  starts a goroutine per host is not modelled.
\<close>

section \<open>Pinning\<close>

text \<open>
  What the function passed to \<open>WithRevision\<close> assigns: the appended sectors and how many were tried.
  \<open>pinPanic\<close> is set where the currency arithmetic panics.
\<close>

record pin_state =
  pinAppended :: "hash256 list"
  pinAttempted :: nat
  pinPanic :: bool

definition at_least_one :: "currency \<Rightarrow> currency" where
  "at_least_one c = (if c = 0 then 1 else c)"

text \<open>\<open>maxSectorsByAllowance\<close> and \<open>maxSectorsByCollateral\<close>; \<open>Uint64\<close> takes the low 64 bits.\<close>

definition append_limits :: "core_ops \<Rightarrow> host_prices \<Rightarrow> v2_contract \<Rightarrow> (u64 \<times> u64) option" where
  "append_limits C prices rv =
     Option.bind (RPCAppendSectorsCost C prices 1 (FileExpirationHeight rv - TipHeight prices)) (\<lambda>cost.
     Option.bind (RenterCost C cost) (\<lambda>renterCost.
     Option.bind (RemainingCollateral C rv) (\<lambda>collateral.
     Option.bind (cDiv C collateral (at_least_one (UsageRiskedCollateral cost))) (\<lambda>byCollateral.
     Option.bind (cDiv C (RemainingAllowance C rv) (at_least_one renterCost)) (\<lambda>byAllowance.
       Some (of_nat byAllowance, of_nat byCollateral))))))"

definition pin_revise ::
  "core_ops \<Rightarrow> 'w sector_client \<Rightarrow> host_prices \<Rightarrow> hash256 list \<Rightarrow> u64 \<Rightarrow> ('w \<times> pin_state) revise_fn" where
  "pin_revise C client prices sectors maxSize contract ws =
     (case ws of (w, st) \<Rightarrow>
        let rv = Revision contract in
        if Filesize rv \<ge> maxSize then (Inl ErrContractMaxSize, (w, st))
        else
          let maxRemainingSectors = (maxSize - Filesize rv) div SectorSize C;
              maxAppendSectors = (FileCapacity rv - Filesize rv) div SectorSize C
          in if FileExpirationHeight rv \<le> TipHeight prices then (Inl (ErrMsg ''contract has expired''), (w, st))
             else case append_limits C prices rv of
               None \<Rightarrow> (Inl (ErrMsg ''panic''), (w, st\<lparr>pinPanic := True\<rparr>))
             | Some (byAllowance, byCollateral) \<Rightarrow>
                 let maxAppendSectors = min (maxAppendSectors + min byAllowance byCollateral) maxRemainingSectors
                 in if maxAppendSectors = 0 then
                      (Inl (if byAllowance = 0 then ErrContractOutOfFunds
                            else if byCollateral = 0 then ErrContractOutOfCollateral
                            else if maxRemainingSectors = 0 then ErrContractMaxSize
                            else ErrMsg ''maxAppendSectors is zero for unknown reason''), (w, st))
                    else
                      let attemptedSectors = (if length sectors > unat maxAppendSectors then take (unat maxAppendSectors) sectors else sectors)
                      in case scAppendSectors client contract attemptedSectors w of
                           (Inl e, w) \<Rightarrow> (Inl e, (w, st))
                         | (Inr res, w) \<Rightarrow>
                             (Inr (contract\<lparr>Revision := AppendRevision res\<rparr>, AppendUsage res),
                              (w, st\<lparr>pinAppended := AppendSectorsOf res, pinAttempted := length attemptedSectors\<rparr>)))"

definition no_pins :: pin_state where
  "no_pins = \<lparr>pinAppended = [], pinAttempted = 0, pinPanic = False\<rparr>"

text \<open>
  What is recorded after the RPC: the sectors that were tried and not appended are lost; the order of a Go
  map does not matter to \<open>MarkSectorsLost\<close>.
\<close>

definition record_appended :: "public_key \<Rightarrow> contract_id \<Rightarrow> hash256 list \<Rightarrow> hash256 list \<Rightarrow> db \<Rightarrow> unit result \<times> db" where
  "record_appended hostKey contractID attempted appended d =
     (let missing = filter (\<lambda>s. s \<notin> set appended) attempted
      in case (if length appended \<noteq> length attempted then MarkSectorsLost hostKey missing d else Inr ((), d)) of
           Inl e \<Rightarrow> (Inl e, d)
         | Inr (_, d) \<Rightarrow> (case PinSectors contractID appended d of Inl e \<Rightarrow> (Inl e, d) | Inr (_, d) \<Rightarrow> (Inr (), d)))"

text \<open>
  The function run for one contract: an error of the store, or whether the RPC succeeded and the sectors
  that are left. \<open>None\<close> is a panic.
\<close>

definition pin_contract ::
  "core_ops \<Rightarrow> 'w sector_manager \<Rightarrow> public_key \<Rightarrow> contract_id \<Rightarrow> hash256 list \<Rightarrow> u64 \<Rightarrow> db \<Rightarrow> 'w
     \<Rightarrow> ((bool \<times> hash256 list) result \<times> db \<times> 'w) option" where
  "pin_contract C M hostKey contractID sectors maxSize d w =
     (case scPrices (smClient M) hostKey w of
        (Inl e, w) \<Rightarrow> Some (Inr (False, sectors), d, w)
      | (Inr prices, w) \<Rightarrow>
          (case with_revision C M contractID (pin_revise C (smClient M) prices sectors maxSize) no_pins d w of
             None \<Rightarrow> None
           | Some (err, d, (w, st)) \<Rightarrow>
               if pinPanic st then None
               else case err of
                 Inl e \<Rightarrow> Some (Inr (False, sectors), d, w)
               | Inr _ \<Rightarrow>
                   (case record_appended hostKey contractID (take (pinAttempted st) sectors) (pinAppended st) d of
                      (Inl e, d) \<Rightarrow> Some (Inl e, d, w)
                    | (Inr _, d) \<Rightarrow> Some (Inr (True, drop (pinAttempted st) sectors), d, w))))"

fun pin_contracts ::
  "core_ops \<Rightarrow> 'w sector_manager \<Rightarrow> public_key \<Rightarrow> contract_id list \<Rightarrow> hash256 list \<Rightarrow> u64 \<Rightarrow> bool \<Rightarrow> db \<Rightarrow> 'w
     \<Rightarrow> (bool result \<times> db \<times> 'w) option" where
  "pin_contracts C M hostKey [] sectors maxSize success d w = Some (Inr success, d, w)"
| "pin_contracts C M hostKey (contractID # contractIDs) sectors maxSize success d w =
     (if sectors = [] then Some (Inr success, d, w)
      else case pin_contract C M hostKey contractID sectors maxSize d w of
        None \<Rightarrow> None
      | Some (Inl e, d, w) \<Rightarrow> Some (Inl e, d, w)
      | Some (Inr (ok, rest), d, w) \<Rightarrow> pin_contracts C M hostKey contractIDs rest maxSize (success \<or> ok) d w)"

definition pinSectors ::
  "core_ops \<Rightarrow> 'w sector_manager \<Rightarrow> public_key \<Rightarrow> contract_id list \<Rightarrow> hash256 list \<Rightarrow> u64 \<Rightarrow> db \<Rightarrow> 'w \<Rightarrow> (unit result \<times> db \<times> 'w) option" where
  "pinSectors C M hostKey contractIDs sectors maxSize d w =
     (if length sectors > MaxSectorBatchSize C then Some (Inl (ErrMsg ''too many sectors''), d, w)
      else case pin_contracts C M hostKey contractIDs sectors maxSize False d w of
        None \<Rightarrow> None
      | Some (Inl e, d, w) \<Rightarrow> Some (Inl e, d, w)
      | Some (Inr success, d, w) \<Rightarrow>
          Some (if success then Inr () else Inl (ErrMsg ''all contracts failed to pin sectors''), d, w))"

fun pin_batches ::
  "nat \<Rightarrow> core_ops \<Rightarrow> 'w sector_manager \<Rightarrow> public_key \<Rightarrow> contract_id list \<Rightarrow> u64 \<Rightarrow> db \<Rightarrow> 'w \<Rightarrow> (unit result \<times> db \<times> 'w) run" where
  "pin_batches 0 C M hostKey contractIDs maxSize d w = OutOfFuel"
| "pin_batches (Suc fuel) C M hostKey contractIDs maxSize d w =
     (case UnpinnedSectors_query (smScanSectors M) hostKey (MaxSectorBatchSize C) d of
        Inl e \<Rightarrow> Done (Inl e, d, w)
      | Inr (roots, _) \<Rightarrow>
          (case pinSectors C M hostKey contractIDs roots maxSize d w of
             None \<Rightarrow> Panic
           | Some (Inl e, d, w) \<Rightarrow> Done (Inl e, d, w)
           | Some (Inr _, d, w) \<Rightarrow>
               if length roots < MaxSectorBatchSize C then Done (Inr (), d, w)
               else pin_batches fuel C M hostKey contractIDs maxSize d w))"

definition performSectorPinningOnHost ::
  "nat \<Rightarrow> core_ops \<Rightarrow> 'w sector_manager \<Rightarrow> host \<Rightarrow> db \<Rightarrow> 'w \<Rightarrow> (unit result \<times> db \<times> 'w) run" where
  "performSectorPinningOnHost fuel C M h d w =
     (if \<not> IsGood h then Done (Inl (ErrMsg ''host is bad''), d, w)
      else case maxRenewableContractSize C (Settings h) (Period (MaintenanceSettings d)) of
        None \<Rightarrow> Panic
      | Some maxRenewableSize \<Rightarrow>
          let contractIDs = ContractsForPinning (smScanContracts M) (PublicKey h) maxRenewableSize d
          in if contractIDs = [] then Done (Inl (ErrMsg ''no contracts for pinning''), d, w)
             else pin_batches fuel C M (PublicKey h) contractIDs maxRenewableSize d w)"

section \<open>What pinning does to the sectors\<close>

text \<open>
  Every sector is unchanged, or it was waiting on the host to be pinned and is now pinned on this host, or
  given up.
\<close>

definition pin_row :: "int \<Rightarrow> sector_row \<Rightarrow> sector_row \<Rightarrow> bool" where
  "pin_row h s s' \<longleftrightarrow> s' = s \<or> unpinned_on h s \<and>
     ((\<exists>m. s' = s\<lparr>sec_host_id := Some h, sec_csm := Some m\<rparr>) \<or> s' = s\<lparr>sec_host_id := None, sec_csm := None\<rparr>)"

definition waiting :: "int \<Rightarrow> db \<Rightarrow> hash256 set" where
  "waiting h d = sec_root ` {s \<in> set (tSectors d). unpinned_on h s}"

text \<open>The contracts of the host are known, and belong to it.\<close>

definition pin_frame :: "public_key \<Rightarrow> int \<Rightarrow> contract_id list \<Rightarrow> db \<Rightarrow> bool" where
  "pin_frame hk h contractIDs d \<longleftrightarrow> revision_inv d \<and> host_id_of d hk = Some h \<and>
     (\<forall>i \<in> set contractIDs. \<exists>c. contract_by_id d i = Some c \<and> ct_host_id c = h)"

lemma pin_row_trans: "pin_row h a b \<Longrightarrow> pin_row h b c \<Longrightarrow> pin_row h a c"
  by (auto simp: pin_row_def unpinned_on_def)

lemma pin_rows_refl [simp]: "list_all2 (pin_row h) xs xs"
  by (simp add: list_all2_same pin_row_def)

lemma pin_rows_trans: "list_all2 (pin_row h) xs ys \<Longrightarrow> list_all2 (pin_row h) ys zs \<Longrightarrow> list_all2 (pin_row h) xs zs"
  by (rule list_all2_trans[OF pin_row_trans])

lemma pin_rows_waiting:
  assumes "list_all2 (pin_row h) (tSectors d) (tSectors d')"
  shows "waiting h d' \<subseteq> waiting h d"
proof
  fix r assume "r \<in> waiting h d'"
  then obtain s' where s': "s' \<in> set (tSectors d')" "unpinned_on h s'" "sec_root s' = r" by (auto simp: waiting_def)
  then obtain n where n: "n < length (tSectors d')" "tSectors d' ! n = s'" by (metis in_set_conv_nth)
  with assms have row: "pin_row h (tSectors d ! n) s'" "n < length (tSectors d)" by (auto simp: list_all2_conv_all_nth)
  then have "tSectors d ! n = s'" using s'(2) by (auto simp: pin_row_def unpinned_on_def)
  with row(2) have "s' \<in> set (tSectors d)" by (metis nth_mem)
  with s' show "r \<in> waiting h d" by (auto simp: waiting_def)
qed

lemma finite_waiting [simp]: "finite (waiting h d)"
  by (simp add: waiting_def)

text \<open>Rows selected by their identifiers, when all of them wait on the host.\<close>

lemma pin_rows_update:
  assumes "distinct (map sec_id xs)" "distinct (map sec_root xs)" "set rows \<subseteq> {s \<in> set xs. unpinned_on h s}"
    and f: "\<And>s. unpinned_on h s \<Longrightarrow> pin_row h s (f s)" "\<And>s. \<not> unpinned_on h (f s)" "\<And>s. sec_root (f s) = sec_root s"
  shows "list_all2 (pin_row h) xs (update_rows (\<lambda>s. sec_id s \<in> sec_id ` set rows) f xs)"
    and "sec_root ` {s \<in> set (update_rows (\<lambda>s. sec_id s \<in> sec_id ` set rows) f xs). unpinned_on h s}
      = sec_root ` {s \<in> set xs. unpinned_on h s} - sec_root ` set rows"
proof -
  have sel: "sec_id s \<in> sec_id ` set rows \<longleftrightarrow> s \<in> set rows" if "s \<in> set xs" for s
    using that assms(1,3) by (auto simp: distinct_map inj_on_def)
  have root: "sec_root s \<in> sec_root ` set rows \<longleftrightarrow> s \<in> set rows" if "s \<in> set xs" for s
    using that assms(2,3) by (auto simp: distinct_map inj_on_def)
  have "list_all2 (pin_row h) xs (map (\<lambda>s. if sec_id s \<in> sec_id ` set rows then f s else s) xs)"
    using sel assms(3) f(1) by (auto simp: list.rel_map list_all2_same pin_row_def)
  then show "list_all2 (pin_row h) xs (update_rows (\<lambda>s. sec_id s \<in> sec_id ` set rows) f xs)" by (simp add: update_rows_def)
  show "sec_root ` {s \<in> set (update_rows (\<lambda>s. sec_id s \<in> sec_id ` set rows) f xs). unpinned_on h s}
      = sec_root ` {s \<in> set xs. unpinned_on h s} - sec_root ` set rows"
    using sel root f(2) by (auto simp: set_update_rows split: if_splits)
qed


text \<open>The rows of waiting roots.\<close>

lemma waiting_rows:
  assumes "store_inv d" "set roots \<subseteq> waiting h d"
  shows "s \<in> set (tSectors d) \<Longrightarrow> sec_root s \<in> set roots \<Longrightarrow> unpinned_on h s"
    and "sec_root ` {s \<in> set (tSectors d). sec_root s \<in> set roots} = set roots"
  using assms store_invD(2)[OF assms(1)] by (auto simp: waiting_def distinct_map inj_on_def)

lemma pin_frame_sectors:
  assumes "pin_frame hk h ids d" "store_inv d'" "tContracts d' = tContracts d" "tElements d' = tElements d"
    and "map (\<lambda>h. (h_id h, h_public_key h)) (tHosts d') = map (\<lambda>h. (h_id h, h_public_key h)) (tHosts d)"
  shows "pin_frame hk h ids d'"
  using assms contracts_wf_frame[OF assms(3,4)] host_id_of_keys[OF assms(5), of hk] by (simp add: pin_frame_def revision_inv_def contract_by_id_def)

lemma increment_elements:
  "tElements (incrementStat n v d) = tElements d" "tContracts (incrementStat n v d) = tContracts d"
  "incrementHostUnpinnedSectors h v d = Inr d' \<Longrightarrow> tElements d' = tElements d" "incrementHostUnpinnedSectors h v d = Inr d' \<Longrightarrow> tContracts d' = tContracts d"
  by (simp_all add: incrementStat_def incrementHostUnpinnedSectors_eq)

lemma MarkSectorsLost_pins:
  assumes frame: "pin_frame hk h ids d" and roots: "set roots \<subseteq> waiting h d" and run: "MarkSectorsLost hk roots d = Inr (x, d')"
  shows "list_all2 (pin_row h) (tSectors d) (tSectors d') \<and> waiting h d' = waiting h d - set roots \<and> pin_frame hk h ids d'"
proof -
  have inv: "store_inv d" using frame by (simp add: pin_frame_def revision_inv_def)
  define rows where "rows = filter (\<lambda>s. sec_host_id s = Some h \<and> sec_root s \<in> set roots) (tSectors d)"
  have rows: "set rows = {s \<in> set (tSectors d). sec_root s \<in> set roots}"
    using waiting_rows(1)[OF inv roots] by (auto simp: rows_def unpinned_on_def)
  then have img: "sec_root ` set rows = set roots" using waiting_rows(2)[OF inv roots] by simp
  show ?thesis
  proof (cases "rows = []")
    case True
    with img have "roots = []" by simp
    with run frame show ?thesis by (simp add: MarkSectorsLost_def)
  next
    case False
    then have "roots \<noteq> []" using rows by auto
    with False run frame have det: "detach_sectors h rows d = Inr d'"
      by (auto simp: MarkSectorsLost_def pin_frame_def rows_def Let_def rbind_eq_Inr)
    have sub: "set rows \<subseteq> {s \<in> set (tSectors d). sec_host_id s = Some h}" "distinct rows" using store_invD(3)[OF inv] by (auto simp: rows_def)
    from detach_sectors_returns[OF inv sub] det
    have d': "tSectors d' = update_rows (\<lambda>s. sec_id s \<in> sec_id ` set rows) (\<lambda>s. s\<lparr>sec_host_id := None, sec_csm := None\<rparr>) (tSectors d)"
        "map (\<lambda>h. (h_id h, h_public_key h)) (tHosts d') = map (\<lambda>h. (h_id h, h_public_key h)) (tHosts d)" by auto
    have "tContracts d' = tContracts d" "tElements d' = tElements d"
      using det[unfolded detach_sectors_def scanLostSectorIDs_def Let_def prod.case updateSectorStats_def, THEN increment_elements(3)]
        det[unfolded detach_sectors_def scanLostSectorIDs_def Let_def prod.case updateSectorStats_def, THEN increment_elements(4)]
      by (simp_all add: increment_elements)
    then have "pin_frame hk h ids d'" using detach_sectors_inv[OF inv sub det] d'(2) by (intro pin_frame_sectors[OF frame])
    moreover have "set rows \<subseteq> {s \<in> set (tSectors d). unpinned_on h s}" using rows waiting_rows(1)[OF inv roots] by auto
    from pin_rows_update[OF store_invD(1,2)[OF inv] this, of "\<lambda>s. s\<lparr>sec_host_id := None, sec_csm := None\<rparr>"]
    have "list_all2 (pin_row h) (tSectors d) (tSectors d')" "waiting h d' = waiting h d - sec_root ` set rows"
      unfolding waiting_def d'(1) by (auto simp: pin_row_def unpinned_on_def)
    ultimately show ?thesis using img by simp
  qed
qed

lemma PinSectors_pins:
  assumes frame: "pin_frame hk h ids d" and roots: "set roots \<subseteq> waiting h d" and i: "i \<in> set ids" and run: "PinSectors i roots d = Inr (x, d')"
  shows "list_all2 (pin_row h) (tSectors d) (tSectors d') \<and> waiting h d' = waiting h d - set roots \<and> pin_frame hk h ids d'"
proof (cases "roots = []")
  case True
  with run frame show ?thesis by (simp add: PinSectors_def)
next
  case False
  have inv: "store_inv d" using frame by (simp add: pin_frame_def revision_inv_def)
  from i frame obtain c where c: "contract_by_id d i = Some c" "ct_host_id c = h" by (auto simp: pin_frame_def)
  from run False c obtain m where m: "csm_by_contract d i = Some m" by (auto simp: PinSectors_def split: option.splits)
  define rows where "rows = filter (\<lambda>s. sec_root s \<in> set roots \<and> (sec_host_id s = None \<or> sec_host_id s = Some h) \<and>
    (sec_csm s = None \<or> sec_csm s \<noteq> Some (csm_id m))) (tSectors d)"
  have rows: "set rows = {s \<in> set (tSectors d). sec_root s \<in> set roots}"
    using waiting_rows(1)[OF inv roots] by (auto simp: rows_def unpinned_on_def)
  then have img: "sec_root ` set rows = set roots" using waiting_rows(2)[OF inv roots] by simp
  with False have ne: "rows \<noteq> []" by auto
  let ?f = "\<lambda>s. s\<lparr>sec_host_id := Some h, sec_csm := Some (csm_id m)\<rparr>"
  from run False c m ne have rec: "record_pinned h (cnt is_unpinned rows) (cnt is_unpinnable rows)
      (d\<lparr>tSectors := update_rows (\<lambda>s. sec_id s \<in> sec_id ` set rows) ?f (tSectors d)\<rparr>) = Inr d'"
    by (auto simp: PinSectors_def scanSectorIDs_def Let_def rbind_eq_Inr rows_def[symmetric])
  note eff = record_pinned_effect[OF rec cnt_nonneg cnt_nonneg]
  have "tElements d' = tElements d"
    using rec by (auto simp: record_pinned_def Let_def rbind_eq_Inr increment_elements dest!: increment_elements(3) split: if_splits)
  then have "pin_frame hk h ids d'" using PinSectors_inv[OF inv run] eff(1,5)
    by (intro pin_frame_sectors[OF frame]) (simp_all add: map_update_rows)
  moreover have "set rows \<subseteq> {s \<in> set (tSectors d). unpinned_on h s}" using rows waiting_rows(1)[OF inv roots] by auto
  from pin_rows_update[OF store_invD(1,2)[OF inv] this, of ?f]
  have "list_all2 (pin_row h) (tSectors d) (tSectors d')" "waiting h d' = waiting h d - sec_root ` set rows"
    unfolding waiting_def eff(3) by (auto simp: pin_row_def unpinned_on_def)
  ultimately show ?thesis using img by simp
qed


text \<open>
  The documented behaviour of the append RPC: of distinct roots it is given, it returns the ones it appended, each once.
\<close>

definition appends_ok :: "'w sector_client \<Rightarrow> bool" where
  "appends_ok client \<longleftrightarrow> (\<forall>c roots w res w'. scAppendSectors client c roots w = (Inr res, w') \<longrightarrow> distinct roots \<longrightarrow>
     set (AppendSectorsOf res) \<subseteq> set roots \<and> distinct (AppendSectorsOf res))"

text \<open>A successful call of the revise function tried at least one sector.\<close>

lemma pin_revise_ok:
  assumes "pin_revise C client prices sectors maxSize c (w, st) = (Inr r, (w', st'))" "appends_ok client" "sectors \<noteq> []" "distinct sectors"
  shows "0 < pinAttempted st' \<and> pinAttempted st' \<le> length sectors \<and>
    set (pinAppended st') \<subseteq> set (take (pinAttempted st') sectors) \<and> distinct (pinAppended st')"
proof -
  let ?rv = "Revision c"
  note eq = assms(1)[unfolded pin_revise_def Let_def prod.case]
  have size: "\<not> Filesize ?rv \<ge> maxSize" using eq by (cases "Filesize ?rv \<ge> maxSize") simp_all
  have height: "\<not> FileExpirationHeight ?rv \<le> TipHeight prices" using eq size by (cases "FileExpirationHeight ?rv \<le> TipHeight prices") simp_all
  obtain byA byC where lim: "append_limits C prices ?rv = Some (byA, byC)" using eq size height by (cases "append_limits C prices ?rv") auto
  define maxAppend where "maxAppend = min ((FileCapacity ?rv - Filesize ?rv) div SectorSize C + min byA byC) ((maxSize - Filesize ?rv) div SectorSize C)"
  define k where "k = unat maxAppend"
  let ?tried = "if length sectors > k then take k sectors else sectors"
  note eq' = eq[unfolded lim option.case prod.case if_not_P[OF size] if_not_P[OF height], folded maxAppend_def, folded k_def]
  have pos: "maxAppend \<noteq> 0" using eq' by (cases "maxAppend = 0") simp_all
  note step = eq'[unfolded if_not_P[OF pos]]
  have k: "0 < k" using pos by (simp add: k_def unat_gt_0)
  from step obtain res where app: "scAppendSectors client c ?tried w = (Inr res, w')" and st: "pinAppended st' = AppendSectorsOf res" "pinAttempted st' = length ?tried"
    by (cases "scAppendSectors client c ?tried w") (auto simp del: length_take split: sum.splits)
  have tried: "?tried = take k sectors" by simp
  have "set (AppendSectorsOf res) \<subseteq> set (take k sectors) \<and> distinct (AppendSectorsOf res)"
    using assms(2) app distinct_take[OF assms(4)] unfolding appends_ok_def tried by blast
  moreover have "0 < length (take k sectors)" "take (length (take k sectors)) sectors = take k sectors"
    using k assms(3) by (simp_all add: min_def)
  ultimately show ?thesis unfolding st tried by simp
qed

lemma pin_frame_same:
  assumes "pin_frame hk h ids d" "sectors_kept d d'" "revision_inv d'"
  shows "pin_frame hk h ids d'"
proof -
  have "\<exists>c. contract_by_id d' i = Some c \<and> ct_host_id c = h" if "i \<in> set ids" for i
  proof -
    have "map_option ct_host_id (contract_by_id d' i) = Some h" using assms(1,2) that by (auto simp: pin_frame_def sectors_kept_def)
    then show ?thesis by auto
  qed
  with assms show ?thesis by (simp add: pin_frame_def sectors_kept_def)
qed

lemma with_revision_pin:
  assumes frame: "pin_frame hk h ids d" and app: "appends_ok (smClient M)" and ne: "sectors \<noteq> []" "distinct sectors"
    and run: "with_revision C M i (pin_revise C (smClient M) prices sectors maxSize) no_pins d w = Some (x, d', (w', st))"
  shows "tSectors d' = tSectors d \<and> pin_frame hk h ids d' \<and> (x = Inr () \<longrightarrow>
    0 < pinAttempted st \<and> pinAttempted st \<le> length sectors \<and> set (pinAppended st) \<subseteq> set (take (pinAttempted st) sectors) \<and> distinct (pinAppended st))"
proof -
  have inv: "revision_inv d" using frame by (simp add: pin_frame_def)
  have "revision_inv d'" using pg.WithRevision_forward[OF inv run[unfolded with_revision_def]] by (simp add: pg.forward_def)
  from run[unfolded with_revision_def]
  have "sectors_kept d d' \<and> (x = Inr () \<longrightarrow> 0 < pinAttempted st \<and> pinAttempted st \<le> length sectors \<and>
      set (pinAppended st) \<subseteq> set (take (pinAttempted st) sectors) \<and> distinct (pinAppended st))"
  proof (rule WithRevision_cases[where P = "\<lambda>s _. sectors_kept d s" and K = "\<lambda>_. True", rotated 7])
    fix c ws1 s1 rv u
    assume 1: "sectors_kept d s1" "pin_revise C (smClient M) prices sectors maxSize c ws1 = (Inr (rv, u), (w', st))"
      "d' = s1 \<or> (\<exists>y. rsUpdateContractRevision (pg_revision_store C) rv u s1 = Some (y, d'))"
    then have "sectors_kept d d'" using revision_store_sectors_kept(1) sectors_kept_trans by blast
    with 1(2) pin_revise_ok[OF _ app ne] show ?thesis by (cases ws1) blast
  qed (use revision_store_sectors_kept sectors_kept_trans in auto)
  with \<open>revision_inv d'\<close> pin_frame_same[OF frame] show ?thesis by (simp add: sectors_kept_def)
qed


lemma record_appended_effect:
  assumes frame: "pin_frame hk h ids d" and i: "i \<in> set ids"
    and att: "distinct attempted" "set attempted \<subseteq> waiting h d" and app: "distinct appended" "set appended \<subseteq> set attempted"
    and run: "record_appended hk i attempted appended d = (res, d')"
  shows "list_all2 (pin_row h) (tSectors d) (tSectors d') \<and> pin_frame hk h ids d' \<and> (res = Inr () \<longrightarrow> waiting h d' = waiting h d - set attempted)"
proof -
  let ?missing = "filter (\<lambda>s. s \<notin> set appended) attempted"
  let ?lost = "if length appended \<noteq> length attempted then MarkSectorsLost hk ?missing d else Inr ((), d)"
  have all: "?missing = []" if "length appended = length attempted"
  proof -
    have "card (set appended) = card (set attempted)" using that app(1) att(1) by (simp add: distinct_card)
    then have "set appended = set attempted" using app(2) by (intro card_subset_eq) auto
    then show ?thesis by (simp add: filter_empty_conv)
  qed
  show ?thesis
  proof (cases ?lost)
    case (Inl e)
    with run frame show ?thesis by (auto simp: record_appended_def Let_def split: if_splits)
  next
    case (Inr z)
    obtain d2 where z: "z = ((), d2)" by (cases z) auto
    have L: "list_all2 (pin_row h) (tSectors d) (tSectors d2)" "waiting h d2 = waiting h d - set ?missing" "pin_frame hk h ids d2"
    proof -
      have "list_all2 (pin_row h) (tSectors d) (tSectors d2) \<and> waiting h d2 = waiting h d - set ?missing \<and> pin_frame hk h ids d2"
      proof (cases "length appended = length attempted")
        case True
        with Inr z all frame show ?thesis by simp
      next
        case False
        with Inr z have run: "MarkSectorsLost hk ?missing d = Inr ((), d2)" by simp
        show ?thesis by (rule MarkSectorsLost_pins[OF frame _ run]) (use att(2) in auto)
      qed
      then show "list_all2 (pin_row h) (tSectors d) (tSectors d2)" "waiting h d2 = waiting h d - set ?missing" "pin_frame hk h ids d2" by blast+
    qed
    have sub: "set appended \<subseteq> waiting h d2" using L(2) att(2) app(2) by auto
    have step: "(case PinSectors i appended d2 of Inl e \<Rightarrow> (Inl e, d2) | Inr (_, d) \<Rightarrow> (Inr (), d)) = (res, d')"
      using run Inr z by (simp add: record_appended_def Let_def)
    show ?thesis
    proof (cases "PinSectors i appended d2")
      case (Inl e)
      with step L show ?thesis by auto
    next
      case (Inr v)
      with step have "PinSectors i appended d2 = Inr ((), d')" "res = Inr ()" by (cases v; simp)+
      from PinSectors_pins[OF L(3) sub i this(1)] L pin_rows_trans[OF L(1)] app(2) show ?thesis by auto
    qed
  qed
qed

lemma pin_contract_effect:
  assumes frame: "pin_frame hk h ids d" and app: "appends_ok (smClient M)" and sectors: "sectors \<noteq> []" "distinct sectors" "set sectors \<subseteq> waiting h d"
    and i: "i \<in> set ids" and run: "pin_contract C M hk i sectors maxSize d w = Some (res, d', w')"
  shows "list_all2 (pin_row h) (tSectors d) (tSectors d') \<and> pin_frame hk h ids d' \<and>
    (\<forall>success rest. res = Inr (success, rest) \<longrightarrow> (if success then \<exists>n > 0. rest = drop n sectors \<and> waiting h d' = waiting h d - set (take n sectors)
       else rest = sectors \<and> waiting h d' = waiting h d))"
proof -
  obtain pr w0 where pr: "scPrices (smClient M) hk w = (pr, w0)" by fastforce
  show ?thesis
  proof (cases pr)
    case (Inl e)
    with run pr frame show ?thesis by (auto simp: pin_contract_def)
  next
    case prices: (Inr prices)
    with run pr obtain x d1 w1 st where wr: "with_revision C M i (pin_revise C (smClient M) prices sectors maxSize) no_pins d w0 = Some (x, d1, (w1, st))" and "\<not> pinPanic st"
      by (auto simp: pin_contract_def split: option.splits if_splits)
    note P = with_revision_pin[OF frame app sectors(1,2) wr]
    then have d1: "waiting h d1 = waiting h d" "tSectors d1 = tSectors d" "pin_frame hk h ids d1" by (simp_all add: waiting_def)
    show ?thesis
    proof (cases x)
      case (Inl e)
      with run pr prices wr \<open>\<not> pinPanic st\<close> d1 show ?thesis by (auto simp: pin_contract_def)
    next
      case (Inr u)
      let ?n = "pinAttempted st"
      from P Inr have n: "0 < ?n" "set (pinAppended st) \<subseteq> set (take ?n sectors)" "distinct (pinAppended st)" by auto
      obtain r d2 where rec: "record_appended hk i (take ?n sectors) (pinAppended st) d1 = (r, d2)" by fastforce
      have "set (take ?n sectors) \<subseteq> waiting h d1" using sectors(3) d1(1) set_take_subset[of ?n sectors] by auto
      note R = record_appended_effect[OF d1(3) i _ this n(3,2) rec]
      from run pr prices wr \<open>\<not> pinPanic st\<close> Inr rec
      have "d' = d2" "res = (case r of Inl e \<Rightarrow> Inl e | Inr _ \<Rightarrow> Inr (True, drop ?n sectors))" by (auto simp: pin_contract_def split: sum.splits)
      with R sectors(2) d1 n(1) show ?thesis by (cases r) auto
    qed
  qed
qed

lemma pin_contracts_effect:
  assumes frame: "pin_frame hk h ids d" and app: "appends_ok (smClient M)" and sectors: "distinct sectors" "set sectors \<subseteq> waiting h d"
    and ids: "set contractIDs \<subseteq> set ids" and run: "pin_contracts C M hk contractIDs sectors maxSize success d w = Some (res, d', w')"
  shows "list_all2 (pin_row h) (tSectors d) (tSectors d') \<and> pin_frame hk h ids d' \<and> waiting h d' \<subseteq> waiting h d \<and>
    (res = Inr True \<longrightarrow> success \<or> waiting h d' \<subset> waiting h d)"
  using frame sectors ids run
proof (induction contractIDs arbitrary: sectors success d w)
  case (Cons i contractIDs)
  show ?case
  proof (cases "sectors = []")
    case False
    with Cons.prems(5) obtain r d1 w1 where r: "pin_contract C M hk i sectors maxSize d w = Some (r, d1, w1)" by (auto split: option.splits)
    have "i \<in> set ids" using Cons.prems(4) by simp
    note E = pin_contract_effect[OF Cons.prems(1) app False Cons.prems(2,3) this r]
    show ?thesis
    proof (cases r)
      case (Inl e)
      with Cons.prems(5) False r E pin_rows_waiting show ?thesis by auto
    next
      case (Inr v)
      obtain sc rest where v: "v = (sc, rest)" by (cases v)
      have "if sc then \<exists>n > 0. rest = drop n sectors \<and> waiting h d1 = waiting h d - set (take n sectors) else rest = sectors \<and> waiting h d1 = waiting h d"
        using E Inr v by blast
      then have "\<exists>n. rest = drop n sectors \<and> waiting h d1 = waiting h d - set (take n sectors) \<and> (sc \<longrightarrow> 0 < n)"
        by (cases sc) (auto intro: exI[of _ 0])
      then obtain n where n: "rest = drop n sectors" "waiting h d1 = waiting h d - set (take n sectors)" "sc \<longrightarrow> 0 < n" by blast
      have run: "pin_contracts C M hk contractIDs rest maxSize (success \<or> sc) d1 w1 = Some (res, d', w')" using Cons.prems(5) False r Inr v by simp
      have "set (take n sectors) \<inter> set (drop n sectors) = {}" using Cons.prems(2) by (rule set_take_disj_set_drop_if_distinct) simp
      then have rest: "distinct rest" "set rest \<subseteq> waiting h d1" using n Cons.prems(2,3) set_drop_subset[of n sectors] by auto
      have IH: "list_all2 (pin_row h) (tSectors d1) (tSectors d') \<and> pin_frame hk h ids d' \<and> waiting h d' \<subseteq> waiting h d1 \<and>
          (res = Inr True \<longrightarrow> (success \<or> sc) \<or> waiting h d' \<subset> waiting h d1)"
        by (rule Cons.IH[OF _ rest _ run]) (use E Cons.prems(4) in auto)
      have strict: "waiting h d1 \<subset> waiting h d" if sc
      proof -
        have "hd sectors \<in> set (take n sectors)" using n(3) that False by (cases sectors; cases n) auto
        moreover have "hd sectors \<in> waiting h d" using Cons.prems(3) False hd_in_set by blast
        ultimately show ?thesis using n(2) by auto
      qed
      have rows: "list_all2 (pin_row h) (tSectors d) (tSectors d')" using E IH by (blast intro: pin_rows_trans)
      have sub: "waiting h d1 \<subseteq> waiting h d" using n(2) by auto
      from IH rows sub strict show ?thesis by (meson psubset_subset_trans subset_psubset_trans subset_trans)
    qed
  qed (use Cons.prems in auto)
qed auto


lemma UnpinnedSectors_waiting:
  assumes "pin_frame hk h ids d" "\<And>xs. mset (scan xs) = mset xs" "UnpinnedSectors_query scan hk n d = Inr (roots, d')"
  shows "distinct roots \<and> set roots \<subseteq> waiting h d"
proof -
  let ?sel = "filter (\<lambda>s. sec_host_id s \<noteq> None \<and> sec_host_id s = host_id_of d hk \<and> sec_csm s = None) (tSectors d)"
  let ?L = "stable_sort (\<lambda>a b. sec_uploaded_at a < sec_uploaded_at b) (scan ?sel)"
  have roots: "roots = take n (map sec_root ?L)" using assms(3) by (auto simp: UnpinnedSectors_query_def take_map)
  have mset: "mset (map sec_root ?L) = mset (map sec_root ?sel)" using assms(2) by simp
  have "distinct (map sec_root ?sel)" using assms(1) store_invD(2) by (auto simp: pin_frame_def revision_inv_def distinct_map_filter)
  then have "distinct (map sec_root ?L)" using mset mset_eq_imp_distinct_iff by blast
  moreover have "set (map sec_root ?L) = set (map sec_root ?sel)" using mset by (rule mset_eq_setD)
  ultimately show ?thesis unfolding roots using assms(1) set_take_subset[of n "map sec_root ?L"]
    by (auto simp: waiting_def unpinned_on_def pin_frame_def distinct_take)
qed

definition pinned_out :: "public_key \<Rightarrow> int \<Rightarrow> contract_id list \<Rightarrow> db \<times> 'w \<Rightarrow> (unit result \<times> db \<times> 'w) run \<Rightarrow> bool" where
  "pinned_out hk h ids s r \<longleftrightarrow> r \<noteq> OutOfFuel \<and>
     (\<forall>res d' w'. r = Done (res, d', w') \<longrightarrow> list_all2 (pin_row h) (tSectors (fst s)) (tSectors d') \<and> pin_frame hk h ids d')"

text \<open>One batch.\<close>

lemma pinSectors_effect:
  assumes frame: "pin_frame hk h ids d" and app: "appends_ok (smClient M)" and roots: "distinct roots" "set roots \<subseteq> waiting h d"
    and run: "pinSectors C M hk ids roots maxSize d w = Some (res, d', w')"
  shows "list_all2 (pin_row h) (tSectors d) (tSectors d') \<and> pin_frame hk h ids d' \<and> (res = Inr () \<longrightarrow> waiting h d' \<subset> waiting h d)"
proof (cases "length roots > MaxSectorBatchSize C")
  case True
  with run frame show ?thesis by (auto simp: pinSectors_def)
next
  case False
  with run obtain s where run: "pin_contracts C M hk ids roots maxSize False d w = Some (s, d', w')" and "res = Inr () \<longrightarrow> s = Inr True"
    by (auto simp: pinSectors_def split: option.splits sum.splits if_splits)
  with pin_contracts_effect[OF frame app roots subset_refl run] show ?thesis by auto
qed

interpretation pinning: draining_loop "\<lambda>fuel s. pin_batches fuel C M hk ids maxSize (fst s) (snd s)"
  "\<lambda>s. pin_frame hk h ids (fst s) \<and> appends_ok (smClient M) \<and> (\<forall>xs. mset (smScanSectors M xs) = mset xs)"
  "\<lambda>s. card (waiting h (fst s))" "pinned_out hk h ids" for C M hk h ids maxSize
proof
  fix s :: "db \<times> 'a" and fuel
  obtain d w where s: "s = (d, w)" by fastforce
  assume good: "pin_frame hk h ids (fst s) \<and> appends_ok (smClient M) \<and> (\<forall>xs. mset (smScanSectors M xs) = mset xs)"
  then have frame: "pin_frame hk h ids d" and app: "appends_ok (smClient M)" and scan: "\<And>xs. mset (smScanSectors M xs) = mset xs" by (simp_all add: s)
  obtain roots where q: "UnpinnedSectors_query (smScanSectors M) hk (MaxSectorBatchSize C) d = Inr (roots, d)" by (auto simp: UnpinnedSectors_query_def)
  note W = UnpinnedSectors_waiting[OF frame scan q]
  let ?run = "\<lambda>fuel s. pin_batches fuel C M hk ids maxSize (fst s) (snd s)"
  show "pinned_out hk h ids s (?run (Suc fuel) s) \<or> (\<exists>s'. (pin_frame hk h ids (fst s') \<and> appends_ok (smClient M) \<and> (\<forall>xs. mset (smScanSectors M xs) = mset xs)) \<and>
      card (waiting h (fst s')) < card (waiting h (fst s)) \<and> ?run (Suc fuel) s = ?run fuel s' \<and> (\<forall>r. pinned_out hk h ids s' r \<longrightarrow> pinned_out hk h ids s r))"
  proof (cases "pinSectors C M hk ids roots maxSize d w")
    case None
    with q show ?thesis by (simp add: s pinned_out_def)
  next
    case (Some r)
    obtain res d1 w1 where r: "r = (res, d1, w1)" by (cases r)
    have E: "list_all2 (pin_row h) (tSectors d) (tSectors d1)" "pin_frame hk h ids d1" "res = Inr () \<Longrightarrow> waiting h d1 \<subset> waiting h d"
      using pinSectors_effect[OF frame app _ _ Some[unfolded r]] W by blast+
    show ?thesis
    proof (cases "res = Inr () \<and> \<not> length roots < MaxSectorBatchSize C")
      case False
      with q Some r E(1,2) show ?thesis by (cases res) (auto simp: s pinned_out_def)
    next
      case True
      have "card (waiting h d1) < card (waiting h d)" using E(3) True by (intro psubset_card_mono) simp_all
      moreover have "pinned_out hk h ids s r'" if "pinned_out hk h ids (d1, w1) r'" for r' using that E(1) by (auto simp: pinned_out_def s intro: pin_rows_trans)
      ultimately show ?thesis using True q Some r E(2) good by (intro disjI2 exI[of _ "(d1, w1)"]) (simp add: s)
    qed
  qed
qed

text \<open>A batch without sectors counts as a failure, too: no contract is tried.\<close>

lemma pinSectors_empty: "pinSectors C M hk contractIDs [] maxSize d w = Some (Inl (ErrMsg ''all contracts failed to pin sectors''), d, w)"
  by (cases contractIDs) (simp_all add: pinSectors_def)

text \<open>
  Claim C6: pinning the sectors of a host ends: every batch that is followed by another one pins or gives
  up at least one sector. All it changes in the table of sectors are sectors that were waiting on this host; they
  are pinned on this host or given up, and the counters stay exact.
\<close>

theorem performSectorPinningOnHost_total:
  assumes inv: "store_inv d" "contracts_wf d" and h: "host_id_of d (PublicKey host) = Some h" and app: "appends_ok (smClient M)"
    and scan: "\<And>xs. mset (smScanSectors M xs) = mset xs" "\<And>xs. mset (smScanContracts M xs) = mset xs" and fuel: "card (waiting h d) < fuel"
  shows "performSectorPinningOnHost fuel C M host d w \<noteq> OutOfFuel \<and>
    (\<forall>res d' w'. performSectorPinningOnHost fuel C M host d w = Done (res, d', w') \<longrightarrow>
       store_inv d' \<and> list_all2 (pin_row h) (tSectors d) (tSectors d'))"
proof (cases "maxRenewableContractSize C (Settings host) (Period (MaintenanceSettings d))")
  case None
  with inv show ?thesis by (simp add: performSectorPinningOnHost_def)
next
  case (Some size)
  let ?ids = "ContractsForPinning (smScanContracts M) (PublicKey host) size d"
  let ?sel = "filter (\<lambda>c. usable_on d (PublicKey host) c \<and> ct_size c < size) (tContracts d)"
  have "set ?ids = ct_contract_id ` set ?sel" using mset_eq_setD[OF scan(2)[of ?sel]] by (simp add: ContractsForPinning_def)
  moreover have "contract_by_id d (ct_contract_id c) = Some c" if "c \<in> set (tContracts d)" for c
    using that inv(1) by (auto simp: contract_by_id_def store_inv_def keys_wf_def intro: find_key_Some)
  ultimately have "pin_frame (PublicKey host) h ?ids d" using inv h by (auto simp: pin_frame_def revision_inv_def usable_on_def)
  with pinning.drains[of "PublicKey host" h ?ids "(d, w)" M fuel C size] app scan(1) fuel
  have B: "pinned_out (PublicKey host) h ?ids (d, w) (pin_batches fuel C M (PublicKey host) ?ids size d w)" by simp
  show ?thesis
  proof (cases "IsGood host \<and> ?ids \<noteq> []")
    case False
    with inv Some show ?thesis by (auto simp: performSectorPinningOnHost_def Let_def)
  next
    case True
    with B Some show ?thesis by (simp add: performSectorPinningOnHost_def Let_def pinned_out_def pin_frame_def revision_inv_def)
  qed
qed

section \<open>Example\<close>

text \<open>Contract 21 has funds and collateral; sector 33 waits on its host.\<close>

definition pinning_db :: db where
  "pinning_db = sample_db\<lparr>tContracts := [(sample_contract_row 1 21)\<lparr>
     ct_raw_revision := sample_fc\<lparr>RenterOutputValue := 10 ^ 18, FileTotalCollateral := 10 ^ 18\<rparr>,
     ct_remaining_allowance := 10 ^ 18, ct_total_collateral := 10 ^ 18\<rparr>]\<rparr>"

definition pinning_host :: host where
  "pinning_host = (witness_host 11 0)\<lparr>Settings := sample_settings\<rparr>"

lemma waiting_list: "waiting h d = set (map sec_root (filter (unpinned_on h) (tSectors d)))"
  by (auto simp: waiting_def)

lemmas pinning_eval = performSectorPinningOnHost_def pinSectors_def pin_contract_def pin_revise_def append_limits_def at_least_one_def no_pins_def
  record_appended_def with_revision_def sample_sector_manager_def sample_client_def next_revision_def UnpinnedSectors_query_def
  maxRenewableContractSize_def maxContractSize_def MaintenanceSettings_def ContractsForPinning_def usable_on_def revisable_def contract_active_def
  PinSectors_def scanSectorIDs_def record_pinned_def csm_by_contract_def host_id_of_def incrementHostUnpinnedSectors_def incrementStat_def
  lift_latest_def WithRevision_def pg_revision_store_def ContractRevision_def isBeyondMaxRevisionHeight_def is_pinned_def is_unpinned_def is_unpinnable_def
  finish_revision_def commit_def UpdateContractRevision_def Let_def word_le_nat_alt word_less_nat_alt contract_defs IsGood_def
  sample_core_def no_usage_def sample_defs sample_fc_def revise_row_def pinning_db_def pinning_host_def witness_host_def sample_settings_def plain_usage_def
  Usable_def GoodUsability_def waiting_list unpinned_on_def

lemma performSectorPinningOnHost_total_witness:
  "\<exists>d' w'. performSectorPinningOnHost 2 sample_core sample_sector_manager pinning_host pinning_db [31, 32] = Done (Inr (), d', w') \<and>
     waiting 1 d' = {} \<and> store_inv d' \<and> list_all2 (pin_row 1) (tSectors pinning_db) (tSectors d')"
proof -
  have inv: "store_inv pinning_db" "contracts_wf pinning_db" "host_id_of pinning_db (PublicKey pinning_host) = Some 1" "card (waiting 1 pinning_db) < 2"
    by (simp_all add: store_inv_def sectors_wf_def keys_wf_def hosts_known_def pins_wf_def pinned_on_host_def counters_wf_def
        contract_of_csm_def contract_by_id_def sqlStatSelect_def class_defs contracts_wf_def contract_row_wf_def elements_wf_def contract_columns_ok_def
        contract_checks_ok_def int4_ok_def int8_ok_def host_id_of_def waiting_list pinning_host_def witness_host_def pinning_db_def sample_defs sample_fc_def)
  have M: "appends_ok (smClient sample_sector_manager)" by (auto simp: sample_sector_manager_def appends_ok_def sample_client_def)
  have scan: "\<And>xs. mset (smScanSectors sample_sector_manager xs) = mset xs" "\<And>xs. mset (smScanContracts sample_sector_manager xs) = mset xs"
    by (simp_all add: sample_sector_manager_def)
  obtain d' w' where run: "performSectorPinningOnHost 2 sample_core sample_sector_manager pinning_host pinning_db [31, 32] = Done (Inr (), d', w')" "waiting 1 d' = {}"
    unfolding numeral_2_eq_2 by (simp add: pinning_eval)
  from performSectorPinningOnHost_total[OF inv(1-3) M scan inv(4), of sample_core "[31, 32]"] run show ?thesis by blast
qed

end
