(* ===== verification/Host_Queue.thy ===== *)
theory Host_Queue
  imports Host_Store
begin

text \<open>
  Choosing hosts: client/v2/hostqueue.go. The provider measures hosts and orders candidates; queues of hosts
  track attempts. Floating-point numbers are rationals; the clock is a parameter \<open>now\<close>. The atomic counters
  of calls in flight are integers: their number is far below the width of the counter.
\<close>

section \<open>Averages\<close>

definition emaAlpha :: rat where
  "emaAlpha = 2 / 10"

definition failureRateHalfLife :: duration where
  "failureRateHalfLife = time_minute"

definition failureRateZeroThreshold :: rat where
  "failureRateZeroThreshold = 1 / 100"

definition settingsPayloadSize :: u64 where
  "settingsPayloadSize = 270"

definition defaultReadThroughput :: rat where
  "defaultReadThroughput = 2 ^ 20"

text \<open>A division of integer constants.\<close>

definition defaultWriteThroughput :: rat where
  "defaultWriteThroughput = of_int (2 ^ 22 div 5)"

definition minThroughputSampleBytes :: u64 where
  "minThroughputSampleBytes = 2 ^ 16"

record rpc_average =
  avgValue :: rat
  avgInit :: bool

definition rpcAverage_AddSample :: "rat \<Rightarrow> rpc_average \<Rightarrow> rpc_average" where
  "rpcAverage_AddSample v ra =
     (if \<not> avgInit ra then ra\<lparr>avgValue := v, avgInit := True\<rparr>
      else ra\<lparr>avgValue := emaAlpha * v + (1 - emaAlpha) * avgValue ra\<rparr>)"

definition rpcAverage_Value :: "rpc_average \<Rightarrow> rat \<times> bool" where
  "rpcAverage_Value ra = (avgValue ra, avgInit ra)"

record failure_rate =
  frValue :: rat
  frInit :: bool
  frLastDecay :: gotime

text \<open>\<open>int(time.Since(t) / failureRateHalfLife)\<close>; the division truncates.\<close>

definition half_lives :: "gotime \<Rightarrow> gotime \<Rightarrow> int" where
  "half_lives now t = (if t \<le> now then (now - t) div failureRateHalfLife else - ((t - now) div failureRateHalfLife))"

definition ldexp :: "rat \<Rightarrow> int \<Rightarrow> rat" where
  "ldexp v n = (if 0 \<le> n then v * 2 ^ nat n else v / 2 ^ nat (- n))"

definition failureRate_decay :: "gotime \<Rightarrow> failure_rate \<Rightarrow> failure_rate" where
  "failureRate_decay now fr =
     (if \<not> frInit fr then fr
      else let halfLives = half_lives now (frLastDecay fr)
           in fr\<lparr>frValue := ldexp (frValue fr) (- halfLives), frLastDecay := frLastDecay fr + halfLives * failureRateHalfLife\<rparr>)"

definition failureRate_AddSample :: "gotime \<Rightarrow> bool \<Rightarrow> failure_rate \<Rightarrow> failure_rate" where
  "failureRate_AddSample now success fr =
     (let sample = (if success then 0 else 1)
      in if \<not> frInit fr then fr\<lparr>frValue := sample, frInit := True, frLastDecay := now\<rparr>
         else let fr = failureRate_decay now fr in fr\<lparr>frValue := emaAlpha * sample + (1 - emaAlpha) * frValue fr\<rparr>)"

text \<open>The value, and the rate after the decay that reading it applies.\<close>

definition failureRate_Value :: "gotime \<Rightarrow> failure_rate \<Rightarrow> rat \<times> failure_rate" where
  "failureRate_Value now fr =
     (let fr = failureRate_decay now fr in (if frValue fr < failureRateZeroThreshold then 0 else frValue fr, fr))"

section \<open>Host metrics\<close>

record host_metric =
  rpcWriteAverage :: rpc_average
  rpcReadAverage :: rpc_average
  rpcFailRate :: failure_rate
  inflightReads :: int
  inflightWrites :: int

definition zero_average :: rpc_average where
  "zero_average = \<lparr>avgValue = 0, avgInit = False\<rparr>"

definition zero_metric :: host_metric where
  "zero_metric = \<lparr>rpcWriteAverage = zero_average, rpcReadAverage = zero_average, rpcFailRate = \<lparr>frValue = 0, frInit = False, frLastDecay = 0\<rparr>,
     inflightReads = 0, inflightWrites = 0\<rparr>"

definition combinedThroughput :: "host_metric \<Rightarrow> rat \<times> bool" where
  "combinedThroughput hm =
     (let (r, rok) = rpcAverage_Value (rpcReadAverage hm); (w, wok) = rpcAverage_Value (rpcWriteAverage hm)
      in if rok \<and> wok then ((r + w) / 2, True) else if rok then (r, True) else if wok then (w, True) else (0, False))"

definition inflight :: "host_metric \<Rightarrow> int" where
  "inflight hm = inflightReads hm + inflightWrites hm"

section \<open>Queues\<close>

record host_queue =
  qHosts :: "public_key list"
  qAttempts :: "public_key \<Rightarrow> nat"

definition Queue_Available :: "host_queue \<Rightarrow> nat" where
  "Queue_Available q = length (qHosts q)"

definition Queue_Next :: "host_queue \<Rightarrow> (public_key \<times> nat) option \<times> host_queue" where
  "Queue_Next q =
     (case qHosts q of [] \<Rightarrow> (None, q) | h # hs \<Rightarrow> (Some (h, qAttempts q h + 1), q\<lparr>qHosts := hs\<rparr>))"

definition Queue_Retry :: "public_key \<Rightarrow> host_queue \<Rightarrow> host_queue" where
  "Queue_Retry h q = q\<lparr>qHosts := qHosts q @ [h], qAttempts := (qAttempts q)(h := qAttempts q h + 1)\<rparr>"

fun unique_hosts :: "public_key set \<Rightarrow> public_key list \<Rightarrow> public_key list" where
  "unique_hosts seen [] = []"
| "unique_hosts seen (h # hs) = (if h \<in> seen then unique_hosts seen hs else h # unique_hosts (insert h seen) hs)"

definition NewHostQueue :: "public_key list \<Rightarrow> host_queue" where
  "NewHostQueue hs = \<lparr>qHosts = unique_hosts {} hs, qAttempts = (\<lambda>_. 0)\<rparr>"

section \<open>The provider\<close>

record provider =
  metrics :: "public_key \<rightharpoonup> host_metric"
  globalReadThroughput :: rpc_average
  globalWriteThroughput :: rpc_average

definition NewProvider :: provider where
  "NewProvider = \<lparr>metrics = Map.empty, globalReadThroughput = zero_average, globalWriteThroughput = zero_average\<rparr>"

text \<open>\<open>cmp.Compare\<close>.\<close>

definition compare3 :: "rat \<Rightarrow> rat \<Rightarrow> int" where
  "compare3 a b = (if a < b then - 1 else if a > b then 1 else 0)"

text \<open>
  Reading the failure rates also writes them back decayed. That is not visible: decaying in two steps is
  the same as decaying in one (\<open>decay_twice\<close> below).
\<close>

definition cmpMetrics :: "gotime \<Rightarrow> provider \<Rightarrow> public_key \<Rightarrow> public_key \<Rightarrow> int" where
  "cmpMetrics now p a b =
     (case (metrics p a, metrics p b) of
        (None, None) \<Rightarrow> 0
      | (None, Some _) \<Rightarrow> - 1
      | (Some _, None) \<Rightarrow> 1
      | (Some am, Some bm) \<Rightarrow>
          let c = compare3 (fst (failureRate_Value now (rpcFailRate am))) (fst (failureRate_Value now (rpcFailRate bm)))
          in if c \<noteq> 0 then c
             else let (aT, asampled) = combinedThroughput am; (bT, bsampled) = combinedThroughput bm
                  in if \<not> asampled \<and> \<not> bsampled then compare3 (of_int (inflight am)) (of_int (inflight bm))
                     else if \<not> asampled then - 1
                     else if \<not> bsampled then 1
                     else compare3 (bT / of_int (inflight bm + 1)) (aT / of_int (inflight am + 1)))"

definition sortHosts :: "gotime \<Rightarrow> provider \<Rightarrow> public_key list \<Rightarrow> public_key list" where
  "sortHosts now p hs = stable_sort (\<lambda>a b. cmpMetrics now p a b < 0) hs"

definition metric :: "provider \<Rightarrow> public_key \<Rightarrow> host_metric" where
  "metric p hk = (case metrics p hk of None \<Rightarrow> zero_metric | Some m \<Rightarrow> m)"

text \<open>Updating the metric of a host, which is created on first use.\<close>

definition update_metric :: "public_key \<Rightarrow> (host_metric \<Rightarrow> host_metric) \<Rightarrow> provider \<Rightarrow> provider" where
  "update_metric hk f p = p\<lparr>metrics := (metrics p)(hk \<mapsto> f (metric p hk))\<rparr>"

definition throughput_of :: "u64 \<Rightarrow> duration \<Rightarrow> rat" where
  "throughput_of bytes elapsed = of_nat (unat bytes) / (of_int elapsed / 10 ^ 9)"

definition add_success :: "gotime \<Rightarrow> host_metric \<Rightarrow> host_metric" where
  "add_success now m = m\<lparr>rpcFailRate := failureRate_AddSample now True (rpcFailRate m)\<rparr>"

definition AddReadSample :: "gotime \<Rightarrow> public_key \<Rightarrow> u64 \<Rightarrow> duration \<Rightarrow> provider \<Rightarrow> provider" where
  "AddReadSample now hk bytes elapsed p =
     (let t = throughput_of bytes elapsed;
          p = (if elapsed > 0 \<and> bytes \<ge> minThroughputSampleBytes then p\<lparr>globalReadThroughput := rpcAverage_AddSample t (globalReadThroughput p)\<rparr> else p)
      in update_metric hk (\<lambda>m. add_success now (if elapsed > 0 then m\<lparr>rpcReadAverage := rpcAverage_AddSample t (rpcReadAverage m)\<rparr> else m)) p)"

definition AddWriteSample :: "gotime \<Rightarrow> public_key \<Rightarrow> u64 \<Rightarrow> duration \<Rightarrow> provider \<Rightarrow> provider" where
  "AddWriteSample now hk bytes elapsed p =
     (let t = throughput_of bytes elapsed;
          p = (if elapsed > 0 \<and> bytes \<ge> minThroughputSampleBytes then p\<lparr>globalWriteThroughput := rpcAverage_AddSample t (globalWriteThroughput p)\<rparr> else p)
      in update_metric hk (\<lambda>m. add_success now (if elapsed > 0 then m\<lparr>rpcWriteAverage := rpcAverage_AddSample t (rpcWriteAverage m)\<rparr> else m)) p)"

text \<open>The conversion to a duration truncates; out of its range the result depends on the machine (\<open>conv\<close>).\<close>

definition estimate :: "(rat \<Rightarrow> duration) \<Rightarrow> rat \<Rightarrow> rpc_average \<Rightarrow> u64 \<Rightarrow> duration" where
  "estimate conv dflt avg bytes =
     (let (rate, ok) = rpcAverage_Value avg;
          rate = (if \<not> ok \<or> rate \<le> 0 then dflt else rate);
          x = of_nat (unat bytes) / rate * 10 ^ 9
      in if x < 2 ^ 63 then \<lfloor>x\<rfloor> else conv x)"

definition ReadEstimate :: "(rat \<Rightarrow> duration) \<Rightarrow> u64 \<Rightarrow> provider \<Rightarrow> duration" where
  "ReadEstimate conv bytes p = estimate conv defaultReadThroughput (globalReadThroughput p) bytes"

definition WriteEstimate :: "(rat \<Rightarrow> duration) \<Rightarrow> u64 \<Rightarrow> provider \<Rightarrow> duration" where
  "WriteEstimate conv bytes p = estimate conv defaultWriteThroughput (globalWriteThroughput p) bytes"

definition AddSettingsSample :: "gotime \<Rightarrow> public_key \<Rightarrow> duration \<Rightarrow> provider \<Rightarrow> provider" where
  "AddSettingsSample now hk latency p = AddReadSample now hk settingsPayloadSize latency p"

definition add_failure :: "gotime \<Rightarrow> host_metric \<Rightarrow> host_metric" where
  "add_failure now m = m\<lparr>rpcFailRate := failureRate_AddSample now False (rpcFailRate m)\<rparr>"

definition AddFailedRPC :: "gotime \<Rightarrow> public_key \<Rightarrow> provider \<Rightarrow> provider" where
  "AddFailedRPC now hk p = update_metric hk (add_failure now) p"

definition AddTimedOutRPC :: "gotime \<Rightarrow> public_key \<Rightarrow> bool \<Rightarrow> u64 \<Rightarrow> duration \<Rightarrow> provider \<Rightarrow> provider" where
  "AddTimedOutRPC now hk write bytes elapsed p =
     update_metric hk (\<lambda>m.
       let m = add_failure now m; t = throughput_of bytes elapsed
       in if elapsed \<le> 0 then m
          else if write then m\<lparr>rpcWriteAverage := rpcAverage_AddSample t (rpcWriteAverage m)\<rparr>
          else m\<lparr>rpcReadAverage := rpcAverage_AddSample t (rpcReadAverage m)\<rparr>) p"

text \<open>Starting and ending a call; the function that ends it changes the same metric.\<close>

definition add_reads :: "int \<Rightarrow> host_metric \<Rightarrow> host_metric" where
  "add_reads n m = m\<lparr>inflightReads := inflightReads m + n\<rparr>"

definition add_writes :: "int \<Rightarrow> host_metric \<Rightarrow> host_metric" where
  "add_writes n m = m\<lparr>inflightWrites := inflightWrites m + n\<rparr>"

definition TrackInflightRead :: "public_key \<Rightarrow> provider \<Rightarrow> provider" where
  "TrackInflightRead hk p = update_metric hk (add_reads 1) p"

definition TrackInflightWrite :: "public_key \<Rightarrow> provider \<Rightarrow> provider" where
  "TrackInflightWrite hk p = update_metric hk (add_writes 1) p"

definition release_read :: "public_key \<Rightarrow> provider \<Rightarrow> provider" where
  "release_read hk p = update_metric hk (add_reads (- 1)) p"

definition release_write :: "public_key \<Rightarrow> provider \<Rightarrow> provider" where
  "release_write hk p = update_metric hk (add_writes (- 1)) p"

text \<open>The index of the best candidate: the loop from the second one on.\<close>

fun best_index :: "gotime \<Rightarrow> provider \<Rightarrow> public_key list \<Rightarrow> nat \<Rightarrow> nat list \<Rightarrow> nat" where
  "best_index now p cs best [] = best"
| "best_index now p cs best (i # is) = best_index now p cs (if cmpMetrics now p (cs ! i) (cs ! best) < 0 then i else best) is"

definition PickWrite :: "gotime \<Rightarrow> public_key list \<Rightarrow> provider \<Rightarrow> (public_key \<times> public_key list) option \<times> provider" where
  "PickWrite now candidates p =
     (if candidates = [] then (None, p)
      else let best = best_index now p candidates 0 [1..<length candidates];
               picked = candidates ! best;
               p = update_metric picked (add_writes 1) p
           in (Some (picked, butlast (candidates[best := last candidates])), p))"

text \<open>\<open>usable\<close>: what the store answers for a host, where an error counts as no.\<close>

definition PickReads :: "gotime \<Rightarrow> (public_key \<Rightarrow> bool) \<Rightarrow> public_key list \<Rightarrow> nat \<Rightarrow> provider \<Rightarrow> public_key list \<times> public_key list \<times> provider" where
  "PickReads now usable candidates n p =
     (let sorted = sortHosts now p (filter usable candidates)
      in if length sorted < n then ([], sorted, p)
         else (take n sorted, drop n sorted, fold (\<lambda>h. update_metric h (add_reads 1)) (take n sorted) p))"

text \<open>The queues of the provider; an error of the store is passed on.\<close>

definition Provider_HostQueue :: "gotime \<Rightarrow> host_info list result \<Rightarrow> provider \<Rightarrow> host_queue result" where
  "Provider_HostQueue now hosts p =
     rbind hosts (\<lambda>hs. Inr \<lparr>qHosts = sortHosts now p (map InfoPublicKey hs), qAttempts = (\<lambda>_. 0)\<rparr>)"

definition Provider_UploadQueue :: "gotime \<Rightarrow> host_info list result \<Rightarrow> provider \<Rightarrow> host_queue result" where
  "Provider_UploadQueue now hosts p =
     rbind hosts (\<lambda>hs. Inr \<lparr>qHosts = sortHosts now p (map InfoPublicKey (filter InfoGoodForUpload hs)), qAttempts = (\<lambda>_. 0)\<rparr>)"

definition Prioritize :: "gotime \<Rightarrow> (public_key \<Rightarrow> bool) \<Rightarrow> public_key list \<Rightarrow> provider \<Rightarrow> public_key list" where
  "Prioritize now usable hs p = sortHosts now p (filter usable hs)"

section \<open>Failure rates\<close>

lemma half_lives_split:
  assumes "l \<le> t" "t \<le> now"
  shows "half_lives now (l + half_lives t l * failureRateHalfLife) = half_lives now l - half_lives t l" and "0 \<le> half_lives t l" "half_lives t l \<le> half_lives now l"
    "l + half_lives t l * failureRateHalfLife \<le> t"
proof -
  let ?H = failureRateHalfLife
  have H: "0 < ?H" by (simp add: failureRateHalfLife_def)
  have k: "half_lives t l = (t - l) div ?H" using assms by (simp add: half_lives_def)
  have "(t - l) div ?H * ?H \<le> t - l" using H by (metis div_mult_mod_eq le_add_same_cancel1 pos_mod_sign)
  then show le: "l + half_lives t l * ?H \<le> t" unfolding k by linarith
  have "now - (l + (t - l) div ?H * ?H) = (now - l) + (- ((t - l) div ?H)) * ?H" by (simp add: algebra_simps)
  then have "(now - (l + (t - l) div ?H * ?H)) div ?H = ((now - l) + (- ((t - l) div ?H)) * ?H) div ?H" by (simp only:)
  also have "\<dots> = (now - l) div ?H - (t - l) div ?H" using H by (subst div_mult_self1) simp_all
  finally have "(now - (l + (t - l) div ?H * ?H)) div ?H = (now - l) div ?H - (t - l) div ?H" .
  with le assms k show "half_lives now (l + half_lives t l * ?H) = half_lives now l - half_lives t l" by (simp add: half_lives_def)
  show "0 \<le> half_lives t l" "half_lives t l \<le> half_lives now l"
    using H assms by (simp_all add: half_lives_def pos_imp_zdiv_nonneg_iff zdiv_mono1)
qed

lemma ldexp_split:
  assumes "0 \<le> k" "k \<le> m"
  shows "ldexp (ldexp v (- k)) (- (m - k)) = ldexp v (- m)"
proof -
  have div: "ldexp x (- n) = x / 2 ^ nat n" if "0 \<le> n" for x n using that by (auto simp: ldexp_def)
  have "nat m = nat k + nat (m - k)" using assms by simp
  then show ?thesis using assms div[of k v] div[of "m - k" "v / 2 ^ nat k"] div[of m v] by (simp add: power_add)
qed

text \<open>Decaying in two steps is decaying in one: reading a rate does not change what is read later.\<close>

lemma decay_twice:
  assumes "frLastDecay fr \<le> t" "t \<le> now"
  shows "failureRate_decay now (failureRate_decay t fr) = failureRate_decay now fr"
proof (cases "frInit fr")
  case True
  note S = half_lives_split[OF assms]
  have "frLastDecay fr + half_lives t (frLastDecay fr) * failureRateHalfLife + (half_lives now (frLastDecay fr) - half_lives t (frLastDecay fr)) * failureRateHalfLife
      = frLastDecay fr + half_lives now (frLastDecay fr) * failureRateHalfLife" by (simp add: algebra_simps)
  with True S ldexp_split[OF S(2,3)] show ?thesis by (simp add: failureRate_decay_def Let_def)
qed (simp add: failureRate_decay_def)

text \<open>A rate between 0 and 1 that is not older than the clock.\<close>

definition rate_ok :: "gotime \<Rightarrow> failure_rate \<Rightarrow> bool" where
  "rate_ok now fr \<longleftrightarrow> 0 \<le> frValue fr \<and> frValue fr \<le> 1 \<and> (frInit fr \<longrightarrow> frLastDecay fr \<le> now)"

lemma rate_ok_decay:
  assumes "rate_ok now fr"
  shows "rate_ok now (failureRate_decay now fr)" "frInit fr \<Longrightarrow> frValue (failureRate_decay now fr) = frValue fr / 2 ^ nat (half_lives now (frLastDecay fr))"
proof -
  have eq: "frValue (failureRate_decay now fr) = frValue fr / 2 ^ nat (half_lives now (frLastDecay fr))"
      "frLastDecay (failureRate_decay now fr) \<le> now" if "frInit fr"
    using that assms half_lives_split[of "frLastDecay fr" now now] by (auto simp: failureRate_decay_def Let_def ldexp_def rate_ok_def)
  show "frInit fr \<Longrightarrow> frValue (failureRate_decay now fr) = frValue fr / 2 ^ nat (half_lives now (frLastDecay fr))" by (rule eq(1))
  show "rate_ok now (failureRate_decay now fr)"
  proof (cases "frInit fr")
    case True
    have "frValue fr / 2 ^ nat (half_lives now (frLastDecay fr)) \<le> frValue fr" using assms
      by (simp add: rate_ok_def divide_le_eq mult_left_mono[of 1 "2 ^ nat (half_lives now (frLastDecay fr))" "frValue fr", simplified])
    then have "frValue (failureRate_decay now fr) \<le> 1" unfolding eq(1)[OF True] using assms unfolding rate_ok_def by linarith
    with eq[OF True] assms show ?thesis unfolding rate_ok_def by simp
  qed (use assms in \<open>simp add: failureRate_decay_def\<close>)
qed


lemma rate_ok_sample: "rate_ok now fr \<Longrightarrow> rate_ok now (failureRate_AddSample now success fr)"
  using rate_ok_decay(1)[of now fr]
  by (cases "frInit fr") (auto simp: rate_ok_def failureRate_AddSample_def Let_def emaAlpha_def)

lemma rate_ok_later: "rate_ok t fr \<Longrightarrow> t \<le> now \<Longrightarrow> rate_ok now fr"
  by (auto simp: rate_ok_def)

text \<open>As the comment on the threshold says: a host is free of failures seven minutes after its last sample at the latest.\<close>

lemma failure_rate_clears:
  assumes "rate_ok now fr" "frInit fr" "frLastDecay fr + 7 * failureRateHalfLife \<le> now"
  shows "fst (failureRate_Value now fr) = 0"
proof -
  have H: "0 < failureRateHalfLife" by (simp add: failureRateHalfLife_def)
  have "7 \<le> half_lives now (frLastDecay fr)"
    using assms(3) H zdiv_mono1[of "7 * failureRateHalfLife" "now - frLastDecay fr" failureRateHalfLife] by (simp add: half_lives_def)
  then have "(2 :: rat) ^ 7 \<le> 2 ^ nat (half_lives now (frLastDecay fr))" by (intro power_increasing) auto
  then have "frValue fr / 2 ^ nat (half_lives now (frLastDecay fr)) \<le> 1 / 2 ^ 7" using assms(1) by (intro frac_le) (simp_all add: rate_ok_def)
  also have "(1 / 2 ^ 7 :: rat) < failureRateZeroThreshold" by (simp add: failureRateZeroThreshold_def)
  finally show ?thesis unfolding failureRate_Value_def Let_def rate_ok_decay(2)[OF assms(1,2)] by (simp only: if_True fst_conv)
qed

section \<open>Ordering hosts\<close>

text \<open>What the comparison comes to: known hosts after unknown ones, then by failure rate, then unsampled before sampled ones, and so on.\<close>

definition rank :: "gotime \<Rightarrow> provider \<Rightarrow> public_key \<Rightarrow> rat \<times> rat \<times> rat \<times> rat" where
  "rank now p h =
     (case metrics p h of
        None \<Rightarrow> (0, 0, 0, 0)
      | Some m \<Rightarrow> let (t, sampled) = combinedThroughput m
                  in (1, fst (failureRate_Value now (rpcFailRate m)), if sampled then 1 else 0,
                      if sampled then - (t / of_int (inflight m + 1)) else of_int (inflight m)))"

fun rank_less :: "rat \<times> rat \<times> rat \<times> rat \<Rightarrow> rat \<times> rat \<times> rat \<times> rat \<Rightarrow> bool" where
  "rank_less (a, b, c, d) (a', b', c', d') \<longleftrightarrow> a < a' \<or> a = a' \<and> (b < b' \<or> b = b' \<and> (c < c' \<or> c = c' \<and> d < d'))"

lemma cmpMetrics_rank: "cmpMetrics now p a b < 0 \<longleftrightarrow> rank_less (rank now p a) (rank now p b)"
proof (cases "metrics p a"; cases "metrics p b")
  fix m n assume "metrics p a = Some m" "metrics p b = Some n"
  moreover obtain t s t' s' where "combinedThroughput m = (t, s)" "combinedThroughput n = (t', s')" by fastforce
  ultimately show ?thesis by (auto simp: cmpMetrics_def rank_def Let_def compare3_def)
qed (auto simp: cmpMetrics_def rank_def split: prod.splits)

lemma cmpMetrics_weak: "strict_weak (\<lambda>a b. cmpMetrics now p a b < 0)"
proof -
  have "rank_less x y \<Longrightarrow> \<not> rank_less y x" "\<not> rank_less y x \<Longrightarrow> \<not> rank_less z y \<Longrightarrow> \<not> rank_less z x" for x y z
    by (cases x; cases y; cases z; auto)+
  then show ?thesis unfolding strict_weak_def cmpMetrics_rank by blast
qed

lemma best_index_best:
  assumes "best \<in> A" "\<forall>j \<in> A. \<not> cmpMetrics now p (cs ! j) (cs ! best) < 0" "k = best_index now p cs best is"
  shows "k \<in> A \<union> set is \<and> (\<forall>j \<in> A \<union> set is. \<not> cmpMetrics now p (cs ! j) (cs ! k) < 0)"
  using assms
proof (induction "is" arbitrary: best A)
  case (Cons i "is")
  let ?b = "if cmpMetrics now p (cs ! i) (cs ! best) < 0 then i else best"
  note W = cmpMetrics_weak[of now p, unfolded strict_weak_def]
  have asym: "\<not> cmpMetrics now p b a < 0" if "cmpMetrics now p a b < 0" for a b using W that by blast
  have better: "\<not> cmpMetrics now p (cs ! j) (cs ! i) < 0" if "cmpMetrics now p (cs ! i) (cs ! best) < 0" "j \<in> A" for j
    using W asym[OF that(1)] Cons.prems(2) that(2) by blast
  have "?b \<in> insert i A" using Cons.prems(1) by simp
  moreover have "\<forall>j \<in> insert i A. \<not> cmpMetrics now p (cs ! j) (cs ! ?b) < 0" using Cons.prems(2) better asym[of "cs ! i" "cs ! i"] by auto
  ultimately have "k \<in> insert i A \<union> set is \<and> (\<forall>j \<in> insert i A \<union> set is. \<not> cmpMetrics now p (cs ! j) (cs ! k) < 0)"
    by (rule Cons.IH) (use Cons.prems(3) in simp)
  then show ?case by auto
qed auto

lemma swap_remove_mset:
  assumes "k < length xs"
  shows "mset xs = add_mset (xs ! k) (mset (butlast (xs[k := last xs])))"
proof -
  have ne: "xs \<noteq> []" using assms by auto
  have "mset (xs[k := last xs]) = add_mset (last xs) (mset xs - {#xs ! k#})" using assms by (simp add: mset_update)
  moreover have "last (xs[k := last xs]) = last xs" using ne by (simp add: last_list_update)
  moreover have "mset (xs[k := last xs]) = add_mset (last (xs[k := last xs])) (mset (butlast (xs[k := last xs])))"
    using ne by (metis append_butlast_last_id list_update_nonempty mset.simps(1,2) mset_append union_mset_add_mset_right add.right_neutral)
  ultimately have "mset (butlast (xs[k := last xs])) = mset xs - {#xs ! k#}" by simp
  then show ?thesis using assms by simp
qed


lemma metric_update [simp]: "metric (update_metric h f p) k = (if k = h then f (metric p h) else metric p k)"
  by (simp add: metric_def update_metric_def)

lemma metric_fold_reads: "metric (fold (\<lambda>h. update_metric h (add_reads 1)) hs p) k = add_reads (int (count (mset hs) k)) (metric p k)"
  by (induction hs arbitrary: p) (auto simp: add_reads_def)

lemma metric_global [simp]: "metric (p\<lparr>globalReadThroughput := x\<rparr>) h = metric p h" "metric (p\<lparr>globalWriteThroughput := x\<rparr>) h = metric p h"
  by (simp_all add: metric_def)

text \<open>
  Claim C40: a write goes to a best candidate: no candidate compares ahead of the picked host. The host is taken
  out of the candidates, and exactly its number of writes in flight grows by one, so that a pick that
  runs next sees it.
\<close>

theorem PickWrite_best:
  assumes "candidates \<noteq> []"
  shows "\<exists>h rest p'. PickWrite now candidates p = (Some (h, rest), p') \<and> mset candidates = add_mset h (mset rest) \<and>
    (\<forall>k \<in> set candidates. \<not> cmpMetrics now p k h < 0) \<and> inflight (metric p' h) = inflight (metric p h) + 1 \<and> (\<forall>k. k \<noteq> h \<longrightarrow> metrics p' k = metrics p k)"
proof -
  define k where "k = best_index now p candidates 0 [1..<length candidates]"
  have "\<not> cmpMetrics now p (candidates ! 0) (candidates ! 0) < 0" using cmpMetrics_weak[of now p] unfolding strict_weak_def by blast
  then have best: "k \<in> {0} \<union> set [1..<length candidates] \<and> (\<forall>j \<in> {0} \<union> set [1..<length candidates]. \<not> cmpMetrics now p (candidates ! j) (candidates ! k) < 0)"
    by (intro best_index_best[OF _ _ k_def]) auto
  have indices: "{0} \<union> set [1..<length candidates] = {..<length candidates}" using assms by (auto simp: Suc_le_eq)
  from best[unfolded indices] have k: "k < length candidates" "\<forall>j < length candidates. \<not> cmpMetrics now p (candidates ! j) (candidates ! k) < 0" by auto
  let ?h = "candidates ! k"
  have "PickWrite now candidates p = (Some (?h, butlast (candidates[k := last candidates])), update_metric ?h (add_writes 1) p)"
    using assms by (simp add: PickWrite_def Let_def k_def)
  moreover have "\<forall>c \<in> set candidates. \<not> cmpMetrics now p c ?h < 0" using k(2) by (auto simp: in_set_conv_nth)
  moreover have "inflight (metric (update_metric ?h (add_writes 1) p) ?h) = inflight (metric p ?h) + 1" by (simp add: inflight_def add_writes_def)
  moreover have "\<forall>j. j \<noteq> ?h \<longrightarrow> metrics (update_metric ?h (add_writes 1) p) j = metrics p j" by (simp add: update_metric_def)
  ultimately show ?thesis using swap_remove_mset[OF k(1)] by blast
qed

text \<open>Reads go to the best usable candidates, or to none at all when there are too few.\<close>

lemma PickReads_best:
  assumes "PickReads now usable candidates n p = (picked, remaining, p')"
  shows "mset picked + mset remaining = mset (filter usable candidates)"
    and "length picked = (if length (filter usable candidates) < n then 0 else n)"
    and "h \<in> set picked \<Longrightarrow> k \<in> set remaining \<Longrightarrow> \<not> cmpMetrics now p k h < 0"
    and "metric p' k = add_reads (int (count (mset picked) k)) (metric p k)"
proof -
  let ?S = "sortHosts now p (filter usable candidates)"
  have len: "length ?S = length (filter usable candidates)" by (simp add: sortHosts_def)
  have sorted: "sorted_wrt (\<lambda>a b. \<not> cmpMetrics now p b a < 0) (take n ?S @ drop n ?S)"
    using sorted_stable_sort[OF cmpMetrics_weak[of now p], of "filter usable candidates"] by (simp add: sortHosts_def)
  have mset: "mset (take n ?S) + mset (drop n ?S) = mset (filter usable candidates)"
    by (metis append_take_drop_id mset_append mset_stable_sort sortHosts_def)
  have "(picked, remaining, p') = (if length (filter usable candidates) < n then ([], ?S, p)
      else (take n ?S, drop n ?S, fold (\<lambda>h. update_metric h (add_reads 1)) (take n ?S) p))"
    using assms len by (simp add: PickReads_def Let_def)
  then consider "length (filter usable candidates) < n" "picked = []" "remaining = ?S" "p' = p"
    | "\<not> length (filter usable candidates) < n" "picked = take n ?S" "remaining = drop n ?S" "p' = fold (\<lambda>h. update_metric h (add_reads 1)) (take n ?S) p"
    by (auto split: if_splits)
  note outcome = this
  show "mset picked + mset remaining = mset (filter usable candidates)"
    by (rule outcome) (use mset in \<open>simp_all add: sortHosts_def\<close>)
  show "length picked = (if length (filter usable candidates) < n then 0 else n)"
    by (rule outcome) (use len in simp_all)
  show "\<not> cmpMetrics now p k h < 0" if "h \<in> set picked" "k \<in> set remaining"
    by (rule outcome) (use sorted that in \<open>auto simp: sorted_wrt_append simp del: append_take_drop_id\<close>)
  show "metric p' k = add_reads (int (count (mset picked) k)) (metric p k)"
    by (rule outcome) (simp add: add_reads_def, simp only: metric_fold_reads)
qed

section \<open>Calls in flight\<close>

datatype rpc_call = ReadCall public_key | WriteCall public_key

text \<open>The provider over time, with the calls that were started and not ended.\<close>

inductive provider_run :: "gotime \<Rightarrow> provider \<Rightarrow> rpc_call multiset \<Rightarrow> bool" where
  start: "provider_run now NewProvider {#}"
| tick: "provider_run now p out \<Longrightarrow> now \<le> now' \<Longrightarrow> provider_run now' p out"
| read_sample: "provider_run now p out \<Longrightarrow> provider_run now (AddReadSample now hk bytes elapsed p) out"
| write_sample: "provider_run now p out \<Longrightarrow> provider_run now (AddWriteSample now hk bytes elapsed p) out"
| settings_sample: "provider_run now p out \<Longrightarrow> provider_run now (AddSettingsSample now hk latency p) out"
| failed: "provider_run now p out \<Longrightarrow> provider_run now (AddFailedRPC now hk p) out"
| timed_out: "provider_run now p out \<Longrightarrow> provider_run now (AddTimedOutRPC now hk write bytes elapsed p) out"
| track_read: "provider_run now p out \<Longrightarrow> provider_run now (TrackInflightRead hk p) (add_mset (ReadCall hk) out)"
| track_write: "provider_run now p out \<Longrightarrow> provider_run now (TrackInflightWrite hk p) (add_mset (WriteCall hk) out)"
| pick_write: "provider_run now p out \<Longrightarrow> PickWrite now candidates p = (Some (h, rest), p') \<Longrightarrow> provider_run now p' (add_mset (WriteCall h) out)"
| pick_reads: "provider_run now p out \<Longrightarrow> PickReads now usable candidates n p = (picked, rest, p') \<Longrightarrow> provider_run now p' (out + image_mset ReadCall (mset picked))"
| end_read: "provider_run now p out \<Longrightarrow> ReadCall hk \<in># out \<Longrightarrow> provider_run now (release_read hk p) (out - {#ReadCall hk#})"
| end_write: "provider_run now p out \<Longrightarrow> WriteCall hk \<in># out \<Longrightarrow> provider_run now (release_write hk p) (out - {#WriteCall hk#})"

definition metric_ok :: "gotime \<Rightarrow> rpc_call multiset \<Rightarrow> public_key \<Rightarrow> host_metric \<Rightarrow> bool" where
  "metric_ok now out h m \<longleftrightarrow> inflightReads m = int (count out (ReadCall h)) \<and> inflightWrites m = int (count out (WriteCall h)) \<and>
     rate_ok now (rpcFailRate m) \<and> 0 \<le> avgValue (rpcReadAverage m) \<and> 0 \<le> avgValue (rpcWriteAverage m)"

lemma average_nonneg: "0 \<le> avgValue a \<Longrightarrow> 0 \<le> v \<Longrightarrow> 0 \<le> avgValue (rpcAverage_AddSample v a)"
  by (simp add: rpcAverage_AddSample_def emaAlpha_def)

lemma throughput_nonneg: "0 \<le> elapsed \<Longrightarrow> 0 \<le> throughput_of bytes elapsed"
  unfolding throughput_of_def by (intro divide_nonneg_nonneg of_nat_0_le_iff) simp_all

lemmas sample_oks = rate_ok_sample average_nonneg throughput_nonneg

lemmas provider_ops = AddReadSample_def AddWriteSample_def AddSettingsSample_def AddFailedRPC_def AddTimedOutRPC_def add_success_def add_failure_def
  TrackInflightRead_def TrackInflightWrite_def release_read_def release_write_def add_reads_def add_writes_def

lemma count_ReadCall: "count (image_mset ReadCall A) (ReadCall h) = count A h" "count (image_mset ReadCall A) (WriteCall h) = 0"
  by (induction A) auto

lemma provider_run_ok: "provider_run now p out \<Longrightarrow> metric_ok now out h (metric p h)"
proof (induction rule: provider_run.induct)
  case (pick_write now p out candidates k rest p')
  then have "p' = update_metric k (add_writes 1) p" by (auto simp: PickWrite_def Let_def split: if_splits)
  with pick_write.IH show ?case by (cases "h = k") (auto simp: metric_ok_def add_writes_def)
next
  case (pick_reads now p out usable candidates n picked rest p')
  from pick_reads.IH PickReads_best(4)[OF pick_reads.hyps(2), of h] show ?case by (simp add: metric_ok_def add_reads_def count_ReadCall)
next
  case (start now)
  then show ?case by (simp add: metric_ok_def metric_def NewProvider_def zero_metric_def zero_average_def rate_ok_def)
next
  case (tick now p out now')
  then show ?case using rate_ok_later by (auto simp: metric_ok_def)
next
  case (end_read now p out hk)
  then have "1 \<le> count out (ReadCall hk)" by (simp add: Suc_le_eq)
  with end_read.IH show ?case by (auto simp: metric_ok_def provider_ops of_nat_diff)
next
  case (end_write now p out hk)
  then have "1 \<le> count out (WriteCall hk)" by (simp add: Suc_le_eq)
  with end_write.IH show ?case by (auto simp: metric_ok_def provider_ops of_nat_diff)
qed (auto simp: metric_ok_def provider_ops Let_def sample_oks)

text \<open>
  Claim C13: however samples, picks and ends of calls follow each other, the counters of a host are exactly its
  reads and writes in flight, its failure rate is between 0 and 1, and its score divides by a positive number.
\<close>

theorem provider_inflight_exact:
  assumes "provider_run now p out"
  shows "inflightReads (metric p h) = int (count out (ReadCall h)) \<and> inflightWrites (metric p h) = int (count out (WriteCall h)) \<and>
    0 < inflight (metric p h) + 1 \<and> 0 \<le> frValue (rpcFailRate (metric p h)) \<and> frValue (rpcFailRate (metric p h)) \<le> 1"
  using provider_run_ok[OF assms, of h] by (simp add: metric_ok_def rate_ok_def inflight_def)

section \<open>Queues without duplicates\<close>

lemma unique_hosts_spec: "distinct (unique_hosts seen hs) \<and> set (unique_hosts seen hs) = set hs - seen"
  by (induction hs arbitrary: seen) auto

lemma NewHostQueue_spec: "distinct (qHosts (NewHostQueue hs)) \<and> set (qHosts (NewHostQueue hs)) = set hs"
  by (simp add: NewHostQueue_def unique_hosts_spec)

text \<open>A host that is put back comes last, with its next attempt.\<close>

lemma Queue_retry_next: "qHosts q = [] \<Longrightarrow> fst (Queue_Next (Queue_Retry h q)) = Some (h, qAttempts q h + 2)"
  by (simp add: Queue_Next_def Queue_Retry_def)

section \<open>Example\<close>

text \<open>Host 2 failed; host 1 is new. The first write goes to host 1, and ends.\<close>

definition sample_provider :: provider where
  "sample_provider = AddFailedRPC 5 2 NewProvider"

lemma PickWrite_best_witness:
  "\<exists>p'. PickWrite 6 [2, 1] sample_provider = (Some (1, [2]), p') \<and> inflight (metric p' 1) = 1"
proof -
  have "PickWrite 6 [2, 1] sample_provider = (Some (1, [2]), update_metric 1 (add_writes 1) sample_provider)"
    by (simp add: PickWrite_def Let_def cmpMetrics_def sample_provider_def AddFailedRPC_def update_metric_def NewProvider_def)
  moreover have "inflight (metric sample_provider 1) = 0"
    by (simp add: sample_provider_def AddFailedRPC_def metric_def NewProvider_def zero_metric_def inflight_def update_metric_def)
  ultimately show ?thesis using PickWrite_best[of "[2, 1]" 6 sample_provider] by auto
qed

lemma provider_inflight_exact_witness:
  "\<exists>p. provider_run 6 p {#WriteCall 1#} \<and> inflightWrites (metric p 1) = 1"
proof -
  have "provider_run 5 sample_provider {#}" unfolding sample_provider_def by (intro provider_run.failed provider_run.start)
  then have "provider_run 6 sample_provider {#}" by (rule provider_run.tick) simp
  then have run: "provider_run 6 (TrackInflightWrite 1 sample_provider) {#WriteCall 1#}" by (rule provider_run.track_write)
  from provider_inflight_exact[OF run, of 1] run show ?thesis by auto
qed

end
