(* ===== verification/Spec2Isabelle.thy ===== *)
theory Spec2Isabelle
  imports Contract_Lock Store_Runs Chain_Actions Contract_Funding Contract_Pinning Host_Queue
begin

text \<open>
  A verification library of indexd, the indexer of the Sia network: it stores the data of applications on hosts.
  Paths below are those under src/.

  \<^bold>\<open>The program.\<close> Applications register accounts with connect keys, upload sectors to hosts, and pin \<^emph>\<open>slabs\<close>
  (erasure-coded groups of sectors) and \<^emph>\<open>objects\<close> (lists of slabs). The contract manager (contracts/) forms, renews
  and revises storage contracts with hosts, pins sectors to contracts, prunes sectors nobody needs, funds accounts and
  follows the chain. The slab manager (slabs/) checks and repairs slabs, the account manager (accounts/) keeps
  quotas, the hosts manager (hosts/) scans hosts, and client/v2 chooses hosts. All managers share one PostgreSQL database
  behind persist/postgres; their state meets there, and most of what can go wrong is a counter, a reference or
  a revision number in it. So the core of this library is the database with its transactions as a state machine, and the
  managers are programs over it.

  \<^bold>\<open>Shared theories.\<close>
  \<^item> \<open>Prelude\<close>: machine types, errors, Go's stable sort, batches, generic lemmas; the functions of go.sia.tech/core and
    coreutils that indexd calls are the record \<open>core_ops\<close>.
  \<^item> \<open>Loops\<close>: results of loops with fuel and the interface \<open>draining_loop\<close>.
  \<^item> \<open>Database\<close>: the tables of init.sql as lists of rows in the record \<open>db\<close>, transactions with rollback and retries (store.go),
    statistics as checkpoints and deltas (stats.go).

  \<^bold>\<open>Packages without a database.\<close>
  \<^item> \<open>Contract_Lock\<close>: contracts/locking.go. A step relation interleaves the critical sections of any number of sessions. Shown:
    mutual exclusion, exact entries of the map, progress.
  \<^item> \<open>Hosts\<close>: hosts/host.go and hosts/distance.go. Shown: a spaced set is spaced.
  \<^item> \<open>Contracts\<close>: contracts/contract.go and the calculations of contracts/form.go on \<open>uint64\<close> with wrap-around and panicking currencies.
    Shown: the chosen candidates are best, the exact funding of a contract, a size limit that can be renewed.
  \<^item> \<open>Slabs\<close>: slabs/slabs.go. Shown: accepted erasure coding parameters give the promised probability, digests bind slabs.
  \<^item> \<open>Connect_Keys\<close>: accounts/connect.go and keys/keys.go. Shown: what a signature of a pre-authorized key binds.
  \<^item> \<open>Host_Queue\<close>: client/v2/hostqueue.go. Shown: counters of calls in flight are exact in every run, writes go to a best host.

  \<^bold>\<open>The store, persist/postgres.\<close> One definition per operation, a function from the database to an error (and no
  change) or a value with the new database.
  \<^item> \<open>Sector_Store\<close>: sectors.go, sectors and their counters. Invariant \<open>store_inv\<close>: rows are well-formed, statistics and host counters are the true numbers.
  \<^item> \<open>Slab_Store\<close>, \<open>Pin_References\<close>: sectors.go, slabs.go, objects.go, accounts.go; slabs, objects and their references.
    Invariant \<open>ref_inv\<close>: objects keep their slabs, accounts pin existing slabs.
  \<^item> \<open>Contract_Store\<close>: contracts.go. Invariant \<open>contracts_wf\<close>: unique ids, constraints and column widths.
  \<^item> \<open>Host_Store\<close>: hosts.go. Invariant \<open>hosts_wf\<close>. Shown: the SQL filter for usable hosts is the conjunction of the checks, blocking has exactly its effect.
  \<^item> \<open>Account_Store\<close>: accounts.go, apps.go, quotas.go, blocked.go. Invariant \<open>accounts_wf\<close>. Shown: all outcomes of registration and of
    pre-authorized keys, pinning stays within the limits.
  \<^item> \<open>Funding_Store\<close>: funding.go and the funding events of accounts.go. Shown: due accounts, waiting after funding, resuming a page of events.
  \<^item> \<open>Store\<close>, \<open>Store_Runs\<close>: the step relation \<open>store_step\<close> of all modelled transactions, in any order with any arguments. The invariants
    are kept by each of them, so they hold in every reachable database; the table of contracts refines a registry of
    versions that never go back (locale \<open>simulation\<close>, interpreted on \<open>store_step\<close>).

  \<^bold>\<open>The managers over the store.\<close> A host is a state \<open>'w\<close> that RPCs change; each call of the store is a transaction of its own.
  \<^item> \<open>Chain_Update\<close>: contracts/chain.go, applying and reverting blocks. Shown: reverting undoes applying.
  \<^item> \<open>Chain_Actions\<close>: the rest of chain.go and contracts/broadcast.go, with the wallet. Shown: no output of the wallet stays locked for
    nothing, expired contracts are resolved, broadcasting revisions ends.
  \<^item> \<open>Revisions\<close>: contracts/revision.go over the interface \<open>RevisionStore\<close>, the locale \<open>revision_store_laws\<close>, interpreted on the database.
    Shown: revision numbers never go down.
  \<^item> \<open>Account_Manager\<close>: accounts/manager.go and serviceaccounts.go. Shown: pruning deleted accounts ends and removes exactly them.
  \<^item> \<open>Funder\<close>, \<open>Contract_Funding\<close>: contracts/funder.go and funding.go. Shown: funded accounts are a prefix of the batch, each once; attaching pools ends.
  \<^item> \<open>Contract_Sectors\<close>, \<open>Contract_Pinning\<close>: contracts/pruning.go and pinning.go. Shown: pruning removes no wanted sector; pinning ends, touches
    only waiting sectors and keeps the counters.

  \<^bold>\<open>Loops and fuel.\<close> A loop over several transactions takes fuel and returns \<open>OutOfFuel\<close>, \<open>Panic\<close> or \<open>Done\<close> (or an option). The theorems show that fuel
  beyond the backlog is enough: the number of pending rows, waiting sectors, deleted accounts and their objects,
  due contracts, or the number of sectors divided by the batch. Loops that fetch batches are interpretations of \<open>draining_loop\<close>
  (\<open>pruning\<close>, \<open>broadcasting\<close>, \<open>pending\<close>, \<open>sharing\<close>, \<open>pinning\<close>), whose law is that an iteration returns or leaves less work.

  \<^bold>\<open>Code that is not in the repository\<close> is a parameter: the currency and cost functions of core (hypothesis \<open>currency_ok\<close>), the hasher and
  encoder (\<open>encoder_ok\<close>, \<open>policy_encoder_ok\<close>), ed25519 and HKDF, the wallet (\<open>wallet_ok\<close>: funding locks what a transaction spends,
  releasing unlocks it, a failed call changes nothing), block diffs and Merkle proofs (\<open>block_ok\<close>), names of protocols, and the RPCs of hosts.
  Of hosts the theorems rely on what the protocol says: \<open>sector_host_ok\<close> (a successful call of FreeSectors frees exactly the given
  indices; one that fails because of an invalid signature changes nothing; any other failure may have freed some of them), \<open>appends_ok\<close>
  (appended sectors are among the requested ones), \<open>attach_succeeds\<close> and \<open>keeps_calls\<close>. Each property with such a hypothesis has a
  witness in which the parameter is a concrete function.

  \<^bold>\<open>Conventions.\<close> The time, random values and the order in which the database returns rows where a query leaves it open are parameters (\<open>now\<close>,
  \<open>scan\<close> with \<open>mset (scan ys) = mset ys\<close>); the clock does not advance during a call. Timestamps are integers (nanoseconds); the truncation
  of timestamps to microseconds in the database is not modelled. Floating-point numbers are rationals, exponential decay is a
  parameter. Errors are their innermost sentinel. Integer columns have their width where a value comes from outside; the counters \<open>unpinned_sectors\<close>
  and \<open>lost_sectors\<close> of a host (32 bits in the schema) are unbounded, and the sum of \<open>expiration_height\<close> and a buffer in
  \<open>PruneExpiredContractElements\<close>, \<open>PruneContractSectorsMap\<close> and \<open>ContractElementsForBroadcast\<close> does not overflow. \<open>cmpMetrics\<close> does
  not write the decayed failure rate back; decaying twice is the same as decaying once (\<open>decay_twice\<close>).

  \<^bold>\<open>Not modelled.\<close> HTTP handlers, configuration and the command line; network connections and the RPC protocol; uploads, downloads and
  Reed-Solomon coding; the goroutine per host of the maintenance loops and cancellation of contexts; host scanning; contract
  formation, renewal and refresh over RPC (their store transactions and calculations are modelled); sharing links; wallet, peer
  and settings tables; reporting of statistics; migrations of the schema.
\<close>

end
